(* ===== verification/Prelude.thy ===== *)
theory Prelude
  imports Main "HOL-Library.Word" "HOL-Library.Code_Target_Nat"
begin

text \<open>
  Shared vocabulary of the development: Rust strings as lists of Unicode scalar values,
  byte vectors as lists of 8-bit words, fallible results as sums, and the parts of the
  Rust standard library the modelled crates call (\<open>str::trim\<close>, \<open>str::split\<close>,
  \<open>str::lines\<close>, \<open>str::strip_prefix\<close>, \<open>Vec::splice\<close>, big-endian integer encoding,
  checked and saturating \<open>usize\<close> arithmetic). The lemmas here are the generic facts
  on lists, results and byte encodings that the component theories share.
\<close>

named_theorems result_simps \<open>simplification of fallible computations\<close>
named_theorems rust_std \<open>definitions of the standard library functions used by the crates\<close>

section \<open>Types\<close>

text \<open>
  A Rust \<open>char\<close> is a Unicode scalar value; \<open>String\<close>, \<open>&str\<close> and textual paths are
  sequences of them. ASCII tests the sources make on UTF-8 bytes are tests on scalar values,
  because an ASCII byte never occurs inside a multi-byte sequence.
\<close>

type_synonym uchar = nat
type_synonym rstr = "uchar list"
type_synonym u8 = "8 word"
type_synonym u16 = "16 word"
type_synonym u32 = "32 word"
type_synonym u64 = "64 word"
type_synonym bytes = "u8 list"
type_synonym ('e, 'a) result = "'e + 'a"

text \<open>String literals of the sources.\<close>

definition lit :: "string \<Rightarrow> rstr" where
  "lit s = map of_char s"

abbreviation c_tab :: uchar where "c_tab \<equiv> 9"
abbreviation c_lf :: uchar where "c_lf \<equiv> 10"
abbreviation c_cr :: uchar where "c_cr \<equiv> 13"
abbreviation c_space :: uchar where "c_space \<equiv> 32"
abbreviation c_dquote :: uchar where "c_dquote \<equiv> 34"
abbreviation c_squote :: uchar where "c_squote \<equiv> 39"
abbreviation c_plus :: uchar where "c_plus \<equiv> 43"
abbreviation c_minus :: uchar where "c_minus \<equiv> 45"
abbreviation c_slash :: uchar where "c_slash \<equiv> 47"
abbreviation c_colon :: uchar where "c_colon \<equiv> 58"
abbreviation c_lbracket :: uchar where "c_lbracket \<equiv> 91"
abbreviation c_backslash :: uchar where "c_backslash \<equiv> 92"
abbreviation c_rbracket :: uchar where "c_rbracket \<equiv> 93"

section \<open>Fallible computations\<close>

text \<open>The \<open>?\<close> operator: stop at the first error, otherwise continue with the value.\<close>

definition bindR :: "('e, 'a) result \<Rightarrow> ('a \<Rightarrow> ('e, 'b) result) \<Rightarrow> ('e, 'b) result" where
  "bindR r f = (case r of Inl e \<Rightarrow> Inl e | Inr a \<Rightarrow> f a)"

definition ensureR :: "bool \<Rightarrow> 'e \<Rightarrow> ('e, unit) result" where
  "ensureR b e = (if b then Inr () else Inl e)"

definition ok_or :: "'a option \<Rightarrow> 'e \<Rightarrow> ('e, 'a) result" where
  "ok_or x e = (case x of None \<Rightarrow> Inl e | Some a \<Rightarrow> Inr a)"

definition map_err :: "('e \<Rightarrow> 'f) \<Rightarrow> ('e, 'a) result \<Rightarrow> ('f, 'a) result" where
  "map_err f r = (case r of Inl e \<Rightarrow> Inl (f e) | Inr a \<Rightarrow> Inr a)"

lemma bindR_simps [simp, result_simps]:
  "bindR (Inl e) f = Inl e"
  "bindR (Inr a) f = f a"
  by (simp_all add: bindR_def)

lemma pred_option_code [code]:
  "pred_option P None = True"
  "pred_option P (Some x) = P x"
  by simp_all

lemma bindR_assoc: "bindR (bindR r f) g = bindR r (\<lambda>a. bindR (f a) g)"
  by (cases r) (simp_all add: bindR_def)

lemma bindR_eq_Inr [result_simps]: "bindR r f = Inr b \<longleftrightarrow> (\<exists>a. r = Inr a \<and> f a = Inr b)"
  by (cases r) auto

lemma bindR_eq_Inl [result_simps]:
  "bindR r f = Inl e \<longleftrightarrow> r = Inl e \<or> (\<exists>a. r = Inr a \<and> f a = Inl e)"
  by (cases r) auto

lemma bindR_cong [fundef_cong]:
  assumes "r = r'" and "\<And>a. r' = Inr a \<Longrightarrow> f a = f' a"
  shows "bindR r f = bindR r' f'"
  using assms by (cases r') auto

lemma ensureR_simps [simp, result_simps]:
  "ensureR True e = Inr ()"
  "ensureR False e = Inl e"
  by (simp_all add: ensureR_def)

lemma ensureR_eq [result_simps]:
  "ensureR b e = Inr u \<longleftrightarrow> b"
  "ensureR b e = Inl e' \<longleftrightarrow> \<not> b \<and> e' = e"
  by (auto simp: ensureR_def)

lemma ok_or_simps [simp, result_simps]:
  "ok_or None e = Inl e"
  "ok_or (Some a) e = Inr a"
  by (simp_all add: ok_or_def)

lemma ok_or_eq [result_simps]:
  "ok_or x e = Inr a \<longleftrightarrow> x = Some a"
  "ok_or x e = Inl e' \<longleftrightarrow> x = None \<and> e' = e"
  by (auto simp: ok_or_def split: option.splits)

lemma map_err_simps [simp, result_simps]:
  "map_err f (Inl e) = Inl (f e)"
  "map_err f (Inr a) = Inr a"
  by (simp_all add: map_err_def)

lemma map_err_eq_Inr [result_simps]: "map_err f r = Inr a \<longleftrightarrow> r = Inr a"
  by (cases r) auto

text \<open>\<open>iter().map(f).collect::<Result<Vec<_>, _>>()\<close>: the first error wins.\<close>

fun collectR :: "('a \<Rightarrow> ('e, 'b) result) \<Rightarrow> 'a list \<Rightarrow> ('e, 'b list) result" where
  "collectR f [] = Inr []"
| "collectR f (x # xs) =
     bindR (f x) (\<lambda>y. bindR (collectR f xs) (\<lambda>ys. Inr (y # ys)))"

lemma collectR_eq_Inr:
  "collectR f xs = Inr ys \<longleftrightarrow> list_all2 (\<lambda>x y. f x = Inr y) xs ys"
proof (induction xs arbitrary: ys)
  case Nil
  then show ?case by auto
next
  case (Cons x xs)
  then show ?case
    by (cases ys) (auto simp: bindR_eq_Inr)
qed

section \<open>Characters and strings\<close>

text \<open>\<open>char::is_whitespace\<close>: the Unicode property \<open>White_Space\<close>.\<close>

definition is_whitespace :: "uchar \<Rightarrow> bool" where
  "is_whitespace c \<longleftrightarrow> (9 \<le> c \<and> c \<le> 13) \<or> c = 32 \<or> c = 133 \<or> c = 160 \<or> c = 5760
     \<or> (8192 \<le> c \<and> c \<le> 8202) \<or> c = 8232 \<or> c = 8233 \<or> c = 8239 \<or> c = 8287 \<or> c = 12288"

definition is_ascii_digit :: "uchar \<Rightarrow> bool" where
  "is_ascii_digit c \<longleftrightarrow> 48 \<le> c \<and> c \<le> 57"

definition is_ascii_alphabetic :: "uchar \<Rightarrow> bool" where
  "is_ascii_alphabetic c \<longleftrightarrow> (65 \<le> c \<and> c \<le> 90) \<or> (97 \<le> c \<and> c \<le> 122)"

definition to_ascii_uppercase :: "uchar \<Rightarrow> uchar" where
  "to_ascii_uppercase c = (if 97 \<le> c \<and> c \<le> 122 then c - 32 else c)"

definition to_ascii_lowercase :: "uchar \<Rightarrow> uchar" where
  "to_ascii_lowercase c = (if 65 \<le> c \<and> c \<le> 90 then c + 32 else c)"

definition eq_ignore_ascii_case :: "rstr \<Rightarrow> rstr \<Rightarrow> bool" where
  "eq_ignore_ascii_case a b \<longleftrightarrow> map to_ascii_lowercase a = map to_ascii_lowercase b"

definition trim_start_matches :: "(uchar \<Rightarrow> bool) \<Rightarrow> rstr \<Rightarrow> rstr" where
  "trim_start_matches p s = dropWhile p s"

definition trim_end_matches :: "(uchar \<Rightarrow> bool) \<Rightarrow> rstr \<Rightarrow> rstr" where
  "trim_end_matches p s = rev (dropWhile p (rev s))"

definition trim_start :: "rstr \<Rightarrow> rstr" where
  "trim_start s = trim_start_matches is_whitespace s"

definition trim_end :: "rstr \<Rightarrow> rstr" where
  "trim_end s = trim_end_matches is_whitespace s"

definition trim :: "rstr \<Rightarrow> rstr" where
  "trim s = trim_end (trim_start s)"

fun strip_prefix :: "'a list \<Rightarrow> 'a list \<Rightarrow> 'a list option" where
  "strip_prefix [] s = Some s"
| "strip_prefix (p # ps) [] = None"
| "strip_prefix (p # ps) (c # s) = (if p = c then strip_prefix ps s else None)"

definition starts_with :: "'a list \<Rightarrow> 'a list \<Rightarrow> bool" where
  "starts_with p s \<longleftrightarrow> strip_prefix p s \<noteq> None"

definition strip_suffix :: "'a list \<Rightarrow> 'a list \<Rightarrow> 'a list option" where
  "strip_suffix p s = map_option rev (strip_prefix (rev p) (rev s))"

definition ends_with :: "'a list \<Rightarrow> 'a list \<Rightarrow> bool" where
  "ends_with p s \<longleftrightarrow> strip_suffix p s \<noteq> None"

text \<open>\<open>str::split(char)\<close>: the segments between separators, at least one.\<close>

fun split_on :: "'a \<Rightarrow> 'a list \<Rightarrow> 'a list list" where
  "split_on c [] = [[]]"
| "split_on c (x # xs) =
     (if x = c then [] # split_on c xs
      else (case split_on c xs of [] \<Rightarrow> [[x]] | y # ys \<Rightarrow> (x # y) # ys))"

text \<open>\<open>[String]::join(separator)\<close>.\<close>

fun join :: "'a list \<Rightarrow> 'a list list \<Rightarrow> 'a list" where
  "join sep [] = []"
| "join sep [x] = x"
| "join sep (x # y # ys) = x @ sep @ join sep (y # ys)"

text \<open>\<open>str::split_once(char)\<close> and \<open>str::rsplit_once(char)\<close>.\<close>

fun split_once :: "'a \<Rightarrow> 'a list \<Rightarrow> ('a list \<times> 'a list) option" where
  "split_once c [] = None"
| "split_once c (x # xs) =
     (if x = c then Some ([], xs)
      else map_option (\<lambda>(l, r). (x # l, r)) (split_once c xs))"

definition rsplit_once :: "'a \<Rightarrow> 'a list \<Rightarrow> ('a list \<times> 'a list) option" where
  "rsplit_once c s = map_option (\<lambda>(l, r). (rev r, rev l)) (split_once c (rev s))"

text \<open>
  \<open>str::lines\<close>: split at line feeds, drop one carriage return before each line feed; the
  text after the last line feed is a line only when it is not empty, and keeps a trailing
  carriage return.
\<close>

definition strip_cr :: "rstr \<Rightarrow> rstr" where
  "strip_cr l = (case strip_suffix [c_cr] l of None \<Rightarrow> l | Some l' \<Rightarrow> l')"

definition lines_of :: "rstr \<Rightarrow> rstr list" where
  "lines_of s = (let segs = split_on c_lf s
     in map strip_cr (butlast segs) @ (if last segs = [] then [] else [last segs]))"

lemmas [rust_std] = lit_def is_whitespace_def is_ascii_digit_def is_ascii_alphabetic_def
  to_ascii_uppercase_def to_ascii_lowercase_def eq_ignore_ascii_case_def
  trim_start_matches_def trim_end_matches_def trim_start_def trim_end_def trim_def
  starts_with_def strip_suffix_def ends_with_def rsplit_once_def strip_cr_def lines_of_def

subsection \<open>Prefixes and suffixes\<close>

lemma strip_prefix_eq_Some: "strip_prefix p s = Some r \<longleftrightarrow> s = p @ r"
  by (induction p s rule: strip_prefix.induct) auto

lemma strip_prefix_append [simp]: "strip_prefix p (p @ r) = Some r"
  by (simp add: strip_prefix_eq_Some)

lemma starts_with_iff: "starts_with p s \<longleftrightarrow> (\<exists>r. s = p @ r)"
  by (auto simp: starts_with_def strip_prefix_eq_Some)

lemma strip_suffix_eq_Some: "strip_suffix p s = Some r \<longleftrightarrow> s = r @ p"
proof -
  have "strip_suffix p s = Some r \<longleftrightarrow> rev s = rev p @ rev r"
    by (auto simp: strip_suffix_def strip_prefix_eq_Some)
  also have "\<dots> \<longleftrightarrow> s = r @ p"
    by (metis rev_append rev_rev_ident)
  finally show ?thesis .
qed

lemma ends_with_iff: "ends_with p s \<longleftrightarrow> (\<exists>r. s = r @ p)"
  by (auto simp: ends_with_def strip_suffix_eq_Some)

subsection \<open>Trimming\<close>

lemma trim_end_matches_length [simp]: "length (trim_end_matches p s) \<le> length s"
  by (metis length_dropWhile_le length_rev trim_end_matches_def)

lemma trim_start_matches_length [simp]: "length (trim_start_matches p s) \<le> length s"
  by (simp add: trim_start_matches_def length_dropWhile_le)

lemma trim_start_matches_Nil [simp]: "trim_start_matches p [] = []"
  by (simp add: trim_start_matches_def)

lemma trim_end_matches_Nil [simp]: "trim_end_matches p [] = []"
  by (simp add: trim_end_matches_def)

lemma trim_end_matches_last: "trim_end_matches p s \<noteq> [] \<Longrightarrow> \<not> p (last (trim_end_matches p s))"
proof -
  assume "trim_end_matches p s \<noteq> []"
  then have "dropWhile p (rev s) \<noteq> []" by (simp add: trim_end_matches_def)
  then have "\<not> p (hd (dropWhile p (rev s)))" by (rule hd_dropWhile)
  then show ?thesis by (simp add: trim_end_matches_def last_rev)
qed

lemma trim_start_matches_hd:
  "trim_start_matches p s \<noteq> [] \<Longrightarrow> \<not> p (hd (trim_start_matches p s))"
  by (simp add: trim_start_matches_def hd_dropWhile)

lemma trim_end_matches_noop: "s = [] \<or> \<not> p (last s) \<Longrightarrow> trim_end_matches p s = s"
  by (cases s rule: rev_cases) (auto simp: trim_end_matches_def)

lemma trim_start_matches_noop: "s = [] \<or> \<not> p (hd s) \<Longrightarrow> trim_start_matches p s = s"
  by (cases s) (auto simp: trim_start_matches_def)

lemma trim_noop:
  "s = [] \<or> (\<not> is_whitespace (hd s) \<and> \<not> is_whitespace (last s)) \<Longrightarrow> trim s = s"
  by (auto simp: trim_def trim_start_def trim_end_def trim_start_matches_noop trim_end_matches_noop)

lemma trim_end_matches_hd:
  "trim_end_matches p s \<noteq> [] \<Longrightarrow> hd (trim_end_matches p s) = hd s"
proof -
  assume ne: "trim_end_matches p s \<noteq> []"
  have "rev s = takeWhile p (rev s) @ dropWhile p (rev s)" by simp
  then have "s = trim_end_matches p s @ rev (takeWhile p (rev s))"
    unfolding trim_end_matches_def by (metis rev_append rev_rev_ident)
  with ne show ?thesis by (metis hd_append2)
qed

lemma trim_idem [simp]: "trim (trim s) = trim s"
proof (cases "trim s = []")
  case True
  then show ?thesis by (simp add: trim_noop)
next
  case False
  then have l: "\<not> is_whitespace (last (trim s))"
    unfolding trim_def trim_end_def by (rule trim_end_matches_last)
  have ne: "trim_start s \<noteq> []"
    using False by (auto simp: trim_def trim_end_def)
  have "hd (trim s) = hd (trim_start s)"
    using False unfolding trim_def trim_end_def by (rule trim_end_matches_hd)
  moreover have "\<not> is_whitespace (hd (trim_start s))"
    using ne unfolding trim_start_def by (rule trim_start_matches_hd)
  ultimately have "\<not> is_whitespace (hd (trim s))" by simp
  with l show ?thesis by (simp add: trim_noop)
qed

subsection \<open>Splitting and joining\<close>

lemma split_on_ne [simp]: "split_on c s \<noteq> []"
  by (induction s) (auto split: list.splits)

lemma split_on_Cons_ex: "\<exists>y ys. split_on c s = y # ys"
  by (cases "split_on c s") auto

lemma join_Cons: "ys \<noteq> [] \<Longrightarrow> join sep (x # ys) = x @ sep @ join sep ys"
  by (cases ys) auto

lemma join_split_on [simp]: "join [c] (split_on c s) = s"
proof (induction s)
  case Nil
  then show ?case by simp
next
  case (Cons x xs)
  obtain y ys where y: "split_on c xs = y # ys" using split_on_Cons_ex [of c xs] by blast
  with Cons show ?case by (cases ys) (auto simp: join_Cons)
qed

lemma split_on_no_sep: "seg \<in> set (split_on c s) \<Longrightarrow> c \<notin> set seg"
proof (induction s arbitrary: seg)
  case Nil
  then show ?case by simp
next
  case (Cons x xs)
  obtain y ys where y: "split_on c xs = y # ys" using split_on_Cons_ex [of c xs] by blast
  with Cons.IH [of y] Cons.IH [of seg] Cons.prems show ?case
    by (auto split: if_splits)
qed

lemma split_on_append:
  "split_on c (a @ c # b) = split_on c a @ split_on c b"
proof (induction a)
  case Nil
  then show ?case by simp
next
  case (Cons x xs)
  obtain y ys where "split_on c xs = y # ys" using split_on_Cons_ex [of c xs] by blast
  with Cons show ?case by auto
qed

lemma split_on_id: "c \<notin> set s \<Longrightarrow> split_on c s = [s]"
  by (induction s) auto

lemma split_on_join:
  assumes "xs \<noteq> []" and "\<forall>x \<in> set xs. c \<notin> set x"
  shows "split_on c (join [c] xs) = xs"
  using assms
proof (induction xs rule: list_nonempty_induct)
  case (single x)
  then show ?case by (simp add: split_on_id)
next
  case (cons x xs)
  then show ?case
    using split_on_append [of c x "join [c] xs"] by (simp add: join_Cons split_on_id)
qed

lemma split_once_eq_Some:
  "split_once c s = Some (l, r) \<longleftrightarrow> s = l @ c # r \<and> c \<notin> set l"
proof (induction s arbitrary: l)
  case Nil
  then show ?case by simp
next
  case (Cons x xs)
  then show ?case by (cases l) auto
qed

lemma split_once_eq_None: "split_once c s = None \<longleftrightarrow> c \<notin> set s"
  by (induction s) auto

lemma rsplit_once_eq_Some:
  "rsplit_once c s = Some (l, r) \<longleftrightarrow> s = l @ c # r \<and> c \<notin> set r"
proof -
  have "rsplit_once c s = Some (l, r) \<longleftrightarrow> split_once c (rev s) = Some (rev r, rev l)"
    by (auto simp: rsplit_once_def)
  also have "\<dots> \<longleftrightarrow> rev s = rev r @ c # rev l \<and> c \<notin> set r"
    by (simp add: split_once_eq_Some)
  also have "\<dots> \<longleftrightarrow> s = l @ c # r \<and> c \<notin> set r"
    by (metis append.assoc append_Cons append_Nil rev.simps(2) rev_append rev_rev_ident)
  finally show ?thesis .
qed

lemma rsplit_once_eq_None: "rsplit_once c s = None \<longleftrightarrow> c \<notin> set s"
  by (simp add: rsplit_once_def split_once_eq_None)

section \<open>Vectors\<close>

text \<open>The first element of a list that passes a test, every one before it passing another.\<close>

lemma append_cut:
  assumes "a @ b = c @ d"
  obtains us where "us \<noteq> []" and "a = c @ us" | us where "c = a @ us" and "b = us @ d"
proof -
  from assms obtain us where "a = c @ us \<and> us @ b = d \<or> a @ us = c \<and> b = us @ d"
    unfolding append_eq_append_conv2 by blast
  then show thesis using that by (cases "us = []") auto
qed

lemma find_append:
  "find P (xs @ ys) = (case find P xs of None \<Rightarrow> find P ys | Some x \<Rightarrow> Some x)"
  by (induction xs) auto

lemma first_split:
  "(\<exists>a m b. x # xs = a @ m # b \<and> P m \<and> list_all Q a) \<longleftrightarrow>
     P x \<or> Q x \<and> (\<exists>a m b. xs = a @ m # b \<and> P m \<and> list_all Q a)" (is "?L \<longleftrightarrow> ?R")
proof
  assume ?L
  then obtain a m b where *: "x # xs = a @ m # b" "P m" "list_all Q a" by blast
  then show ?R by (cases a) auto
next
  assume ?R
  then consider "P x" | a m b where "Q x" "xs = a @ m # b" "P m" "list_all Q a" by blast
  then show ?L
  proof cases
    case 1
    then have "x # xs = [] @ x # xs \<and> P x \<and> list_all Q []" by simp
    then show ?thesis by blast
  next
    case 2
    then have "x # xs = (x # a) @ m # b \<and> P m \<and> list_all Q (x # a)" by simp
    then show ?thesis by blast
  qed
qed

text \<open>
  \<open>Vec::splice(start..end, new)\<close> with the removed range dropped. The standard library
  panics when the range is decreasing or ends past the vector; the panic is \<open>None\<close>.
\<close>

definition splice_vec :: "nat \<Rightarrow> nat \<Rightarrow> 'a list \<Rightarrow> 'a list \<Rightarrow> 'a list option" where
  "splice_vec i j new xs =
     (if i \<le> j \<and> j \<le> length xs then Some (take i xs @ new @ drop j xs) else None)"

lemma splice_vec_length:
  "splice_vec i j new xs = Some ys \<Longrightarrow> length ys + (j - i) = length xs + length new"
  by (auto simp: splice_vec_def split: if_splits)

section \<open>Machine integers\<close>

text \<open>\<open>usize\<close> is 64 bits wide on the supported targets; vector lengths never reach its end.\<close>

definition usize_max :: nat where
  "usize_max = 2 ^ 64 - 1"

definition checked_add :: "nat \<Rightarrow> nat \<Rightarrow> nat option" where
  "checked_add a b = (if a + b \<le> usize_max then Some (a + b) else None)"

definition saturating_add :: "nat \<Rightarrow> nat \<Rightarrow> nat" where
  "saturating_add a b = min usize_max (a + b)"

definition checked_sub :: "nat \<Rightarrow> nat \<Rightarrow> nat option" where
  "checked_sub a b = (if b \<le> a then Some (a - b) else None)"

definition div_ceil :: "nat \<Rightarrow> nat \<Rightarrow> nat" where
  "div_ceil a b = (a + b - 1) div b"

subsection \<open>Big-endian encoding\<close>

text \<open>\<open>to_be_bytes\<close> of a \<open>k\<close>-byte unsigned integer and \<open>from_be_bytes\<close>.\<close>

fun be_bytes :: "nat \<Rightarrow> nat \<Rightarrow> bytes" where
  "be_bytes 0 x = []"
| "be_bytes (Suc k) x = be_bytes k (x div 256) @ [word_of_nat x]"

definition be_value :: "bytes \<Rightarrow> nat" where
  "be_value bs = foldl (\<lambda>a b. a * 256 + unat b) 0 bs"

lemma be_bytes_length [simp]: "length (be_bytes k x) = k"
  by (induction k arbitrary: x) auto

lemma be_value_snoc: "be_value (bs @ [b]) = be_value bs * 256 + unat b"
  by (simp add: be_value_def)

lemma unat_byte: "unat (word_of_nat x :: u8) = x mod 256"
  by (simp add: unat_of_nat)

lemma unat_byte_less: "unat (b :: u8) < 256"
  by (rule order_less_le_trans [OF unsigned_less]) simp

lemma be_value_be_bytes: "be_value (be_bytes k x) = x mod 256 ^ k"
proof (induction k arbitrary: x)
  case 0
  then show ?case by (simp add: be_value_def)
next
  case (Suc k)
  have "be_value (be_bytes (Suc k) x) = (x div 256 mod 256 ^ k) * 256 + x mod 256"
    by (simp add: be_value_snoc Suc unat_byte)
  also have "\<dots> = x mod (256 * 256 ^ k)"
    by (simp add: mod_mult2_eq)
  finally show ?case by simp
qed

lemma be_value_less: "be_value bs < 256 ^ length bs"
proof (induction bs rule: rev_induct)
  case Nil
  then show ?case by (simp add: be_value_def)
next
  case (snoc b bs)
  have "unat b < 256" by (rule unat_byte_less)
  then have "be_value bs * 256 + unat b < (be_value bs + 1) * 256" by simp
  also have "\<dots> \<le> 256 ^ length bs * 256" using snoc by simp
  finally show ?case by (simp add: be_value_snoc mult.commute)
qed

lemma be_bytes_be_value: "be_bytes (length bs) (be_value bs) = bs"
proof (induction bs rule: rev_induct)
  case Nil
  then show ?case by simp
next
  case (snoc b bs)
  have lt: "unat b < 256" by (rule unat_byte_less)
  then have d: "be_value (bs @ [b]) div 256 = be_value bs" by (simp add: be_value_snoc)
  have "(word_of_nat (be_value (bs @ [b])) :: u8) = b"
  proof (rule unsigned_word_eqI)
    show "unat (word_of_nat (be_value (bs @ [b])) :: u8) = unat b"
      unfolding unat_byte be_value_snoc using lt by simp
  qed
  with snoc d show ?case by simp
qed

section \<open>Decimal numbers\<close>

text \<open>\<open>Display\<close> of an unsigned integer, and its value read back.\<close>

fun dec_str :: "nat \<Rightarrow> rstr" where
  "dec_str n = (if n < 10 then [48 + n] else dec_str (n div 10) @ [48 + n mod 10])"

declare dec_str.simps [simp del]

definition dec_value :: "rstr \<Rightarrow> nat" where
  "dec_value s = foldl (\<lambda>v c. v * 10 + (c - 48)) 0 s"

lemma dec_value_snoc: "dec_value (s @ [c]) = dec_value s * 10 + (c - 48)"
  by (simp add: dec_value_def)

lemma digit_char: "n < 10 \<Longrightarrow> is_ascii_digit (48 + n)"
  by (simp add: is_ascii_digit_def)

lemma dec_str_props:
  "dec_value (dec_str n) = n" "list_all is_ascii_digit (dec_str n)" "dec_str n \<noteq> []"
proof (induction n rule: dec_str.induct)
  case (1 n)
  show "dec_value (dec_str n) = n"
  proof (cases "n < 10")
    case True
    then show ?thesis by (simp add: dec_str.simps [of n] dec_value_def)
  next
    case False
    then show ?thesis using "1.IH" by (simp add: dec_str.simps [of n] dec_value_snoc)
  qed
  show "list_all is_ascii_digit (dec_str n)" and "dec_str n \<noteq> []"
    using "1.IH" by (simp_all add: dec_str.simps [of n] digit_char)
qed

section \<open>Codecs\<close>

text \<open>
  The contract of an encoding: on the values it is meant for, decoding inverts encoding. A
  strict encoding also has no second spelling of a value.
\<close>

locale codec =
  fixes enc :: "'a \<Rightarrow> 'b" and dec :: "'b \<Rightarrow> 'a option" and ok :: "'a \<Rightarrow> bool"
  assumes dec_enc: "ok x \<Longrightarrow> dec (enc x) = Some x"
begin

lemma enc_inj: "ok x \<Longrightarrow> ok y \<Longrightarrow> enc x = enc y \<Longrightarrow> x = y"
  by (metis dec_enc option.inject)

lemma enc_ne: "ok x \<Longrightarrow> dec w = None \<Longrightarrow> enc x \<noteq> w"
  by (metis dec_enc option.distinct(1))

end

locale strict_codec = codec +
  assumes enc_dec: "dec w = Some x \<Longrightarrow> ok x \<and> enc x = w"
begin

lemma dec_iff: "dec w = Some x \<longleftrightarrow> ok x \<and> enc x = w"
  by (metis dec_enc enc_dec)

lemma dec_inj: "dec v = Some x \<Longrightarrow> dec w = Some x \<Longrightarrow> v = w"
  by (metis enc_dec)

lemma dec_None_iff: "dec w = None \<longleftrightarrow> (\<forall>x. ok x \<longrightarrow> enc x \<noteq> w)"
  by (metis dec_iff not_None_eq)

end

section \<open>Effects\<close>

text \<open>An effect whose error ends the operation, and what follows it otherwise.\<close>

definition andThen ::
  "'w \<times> ('e, 'a) result \<Rightarrow> ('w \<Rightarrow> 'a \<Rightarrow> 'w \<times> ('e, 'b) result) \<Rightarrow> 'w \<times> ('e, 'b) result" where
  "andThen m f = (case m of (w, Inl e) \<Rightarrow> (w, Inl e) | (w, Inr a) \<Rightarrow> f w a)"

definition mapErr :: "('e \<Rightarrow> 'f) \<Rightarrow> 'w \<times> ('e, 'a) result \<Rightarrow> 'w \<times> ('f, 'a) result" where
  "mapErr f m = (fst m, map_err f (snd m))"

lemma andThen_simps [simp]:
  "andThen (w, Inl e) f = (w, Inl e)"
  "andThen (w, Inr a) f = f w a"
  by (simp_all add: andThen_def)

lemma andThen_world:
  assumes "P (fst m)" and "\<And>w a. m = (w, Inr a) \<Longrightarrow> P w \<Longrightarrow> P (fst (f w a))"
  shows "P (fst (andThen m f))"
  using assms by (cases m; cases "snd m") auto

lemma mapErr_simps [simp]: "fst (mapErr f m) = fst m" "snd (mapErr f m) = map_err f (snd m)"
  by (simp_all add: mapErr_def)

lemma pure_step:
  assumes "P w" and "\<And>a. r = Inr a \<Longrightarrow> P (fst (f w a))"
  shows "P (fst (andThen (w, r) f))"
  using assms by (cases r) auto

lemma andThen_ok: "snd (andThen m f) = Inr b \<Longrightarrow> \<exists>w a. m = (w, Inr a) \<and> snd (f w a) = Inr b"
  by (cases m; cases "snd m") auto

lemma andThen_eq: "andThen m f = (w', Inr b) \<longleftrightarrow> (\<exists>w a. m = (w, Inr a) \<and> f w a = (w', Inr b))"
  by (cases m; cases "snd m") auto

end
