(* ===== verification/Path_Policy.thy ===== *)
theory Path_Policy
  imports Prelude
begin

text \<open>
  \<open>crates/remote-exec-proto/src/path.rs\<close>: the lexical path rules of POSIX and Windows targets.
  The sources inspect UTF-8 bytes at the positions of ASCII characters; the definitions match
  on the scalar values at the same positions.
\<close>

section \<open>Definitions\<close>

datatype path_style = Posix | Windows

record path_policy =
  style :: path_style

abbreviation linux_path_policy :: path_policy where
  "linux_path_policy \<equiv> \<lparr>style = Posix\<rparr>"

abbreviation windows_path_policy :: path_policy where
  "windows_path_policy \<equiv> \<lparr>style = Windows\<rparr>"

definition is_separator :: "uchar \<Rightarrow> bool" where
  "is_separator c \<longleftrightarrow> c = c_slash \<or> c = c_backslash"

text \<open>\<open>/c\<close> or \<open>/c/...\<close>: the first test of both drive-prefix functions.\<close>

fun posix_drive :: "rstr \<Rightarrow> bool" where
  "posix_drive [s, d] \<longleftrightarrow> s = c_slash \<and> is_ascii_alphabetic d"
| "posix_drive (s # d # t # _) \<longleftrightarrow> s = c_slash \<and> is_ascii_alphabetic d \<and> t = c_slash"
| "posix_drive _ \<longleftrightarrow> False"

fun drive_then_slash :: "rstr \<Rightarrow> bool" where
  "drive_then_slash [] \<longleftrightarrow> False"
| "drive_then_slash [d] \<longleftrightarrow> is_ascii_alphabetic d"
| "drive_then_slash (d # t # _) \<longleftrightarrow> is_ascii_alphabetic d \<and> t = c_slash"

definition cygdrive_prefix :: rstr where
  "cygdrive_prefix = lit ''/cygdrive/''"

definition starts_with_drive_prefix :: "rstr \<Rightarrow> bool" where
  "starts_with_drive_prefix raw \<longleftrightarrow> posix_drive raw \<or>
     (length raw \<ge> 10 \<and> eq_ignore_ascii_case (take 10 raw) cygdrive_prefix \<and>
      drive_then_slash (drop 10 raw))"

definition has_windows_drive :: "rstr \<Rightarrow> bool" where
  "has_windows_drive raw \<longleftrightarrow> length raw \<ge> 2 \<and> is_ascii_alphabetic (raw ! 0) \<and> raw ! 1 = c_colon"

definition is_absolute :: "path_policy \<Rightarrow> rstr \<Rightarrow> bool" where
  "is_absolute policy raw = (case style policy of
      Posix \<Rightarrow> starts_with [c_slash] raw
    | Windows \<Rightarrow>
        (length raw \<ge> 3 \<and> is_ascii_alphabetic (raw ! 0) \<and> raw ! 1 = c_colon \<and>
           (raw ! 2 = c_backslash \<or> raw ! 2 = c_slash)) \<or>
        starts_with [c_backslash, c_backslash] raw \<or> starts_with [c_slash, c_slash] raw \<or>
        starts_with_drive_prefix raw)"

definition normalize_windows_path_chars :: "rstr \<Rightarrow> rstr" where
  "normalize_windows_path_chars raw =
     map (\<lambda>ch. if ch = c_slash \<or> ch = c_backslash then c_backslash else ch) raw"

definition build_windows_drive_path :: "uchar \<Rightarrow> rstr \<Rightarrow> rstr" where
  "build_windows_drive_path drive rest =
     (let tail = trim_start_matches is_separator rest
      in if tail = [] then [to_ascii_uppercase drive, c_colon, c_backslash]
         else [to_ascii_uppercase drive, c_colon, c_backslash] @ normalize_windows_path_chars tail)"

definition translate_windows_posix_drive_path :: "rstr \<Rightarrow> rstr option" where
  "translate_windows_posix_drive_path raw =
     (if posix_drive raw then Some (build_windows_drive_path (raw ! 1) (drop 2 raw))
      else if \<not> starts_with_drive_prefix raw then None
      else Some (build_windows_drive_path (raw ! 10) (drop 11 raw)))"

definition split_windows_prefix :: "rstr \<Rightarrow> rstr \<times> rstr" where
  "split_windows_prefix raw =
     (if has_windows_drive raw then (take 2 raw, drop 2 raw)
      else if starts_with [c_backslash, c_backslash] raw \<or> starts_with [c_slash, c_slash] raw
      then (take 2 raw, drop 2 raw)
      else ([], raw))"

definition normalize_windows_separators :: "rstr \<Rightarrow> rstr" where
  "normalize_windows_separators raw = (case split_windows_prefix raw of
     (prefix, rest) \<Rightarrow> normalize_windows_path_chars prefix @ normalize_windows_path_chars rest)"

definition normalize_for_system :: "path_policy \<Rightarrow> rstr \<Rightarrow> rstr" where
  "normalize_for_system policy raw = (case style policy of
      Posix \<Rightarrow> raw
    | Windows \<Rightarrow> (case translate_windows_posix_drive_path raw of
          Some translated \<Rightarrow> translated
        | None \<Rightarrow> normalize_windows_separators raw))"

definition syntax_eq :: "path_policy \<Rightarrow> rstr \<Rightarrow> rstr \<Rightarrow> bool" where
  "syntax_eq policy left right \<longleftrightarrow> normalize_for_system policy left = normalize_for_system policy right"

text \<open>\<open>rsplit(c).find(|segment| !segment.is_empty())\<close>.\<close>

definition last_segment :: "uchar \<Rightarrow> rstr \<Rightarrow> rstr option" where
  "last_segment c s = find (\<lambda>segment. segment \<noteq> []) (rev (split_on c s))"

definition split_windows_path_basename :: "rstr \<Rightarrow> rstr option" where
  "split_windows_path_basename raw = (case split_windows_prefix raw of (prefix, rest) \<Rightarrow>
     let trimmed = trim_end_matches (\<lambda>c. c = c_backslash) rest
     in if trimmed = []
        then (if prefix \<noteq> []
              then (let segment = trim_start_matches (\<lambda>c. c = c_backslash)
                          (trim_end_matches (\<lambda>c. c = c_colon \<or> c = c_backslash) prefix)
                    in if segment \<noteq> [] then Some segment else None)
              else None)
        else last_segment c_backslash trimmed)"

definition basename :: "path_policy \<Rightarrow> rstr \<Rightarrow> rstr option" where
  "basename policy raw = (let normalized = normalize_for_system policy raw
     in case style policy of
          Posix \<Rightarrow> last_segment c_slash (trim_end_matches (\<lambda>c. c = c_slash) normalized)
        | Windows \<Rightarrow> split_windows_path_basename normalized)"

definition path_separator :: "path_policy \<Rightarrow> uchar" where
  "path_separator policy = (case style policy of Posix \<Rightarrow> c_slash | Windows \<Rightarrow> c_backslash)"

definition path_join :: "path_policy \<Rightarrow> rstr \<Rightarrow> rstr \<Rightarrow> rstr" where
  "path_join policy base child =
     (let normalized_child = normalize_for_system policy child
      in if normalized_child = [] \<or> is_absolute policy normalized_child then normalized_child
         else let normalized_base = normalize_for_system policy base
           in if normalized_base = [] then normalized_child
              else if ends_with [path_separator policy] normalized_base
              then normalized_base @ normalized_child
              else normalized_base @ [path_separator policy] @ normalized_child)"

section \<open>Normalisation\<close>

lemma normalize_windows_separators_eq:
  "normalize_windows_separators raw = normalize_windows_path_chars raw"
  by (simp add: normalize_windows_separators_def split_windows_prefix_def
      normalize_windows_path_chars_def map_append [symmetric] del: map_append)

lemma normalize_chars_no_slash: "c_slash \<notin> set (normalize_windows_path_chars raw)"
  by (auto simp: normalize_windows_path_chars_def)

lemma normalize_chars_id: "c_slash \<notin> set raw \<Longrightarrow> normalize_windows_path_chars raw = raw"
  by (auto simp: normalize_windows_path_chars_def intro!: map_idI)

lemma uppercase_alphabetic:
  "is_ascii_alphabetic d \<Longrightarrow> is_ascii_alphabetic (to_ascii_uppercase d)"
  by (auto simp: is_ascii_alphabetic_def to_ascii_uppercase_def)

lemma alphabetic_not_slash: "is_ascii_alphabetic d \<Longrightarrow> d \<noteq> c_slash"
  by (auto simp: is_ascii_alphabetic_def)

lemma build_no_slash:
  "is_ascii_alphabetic d \<Longrightarrow> c_slash \<notin> set (build_windows_drive_path d rest)"
  using normalize_chars_no_slash uppercase_alphabetic [of d] alphabetic_not_slash
  by (auto simp: build_windows_drive_path_def Let_def)

lemma posix_drive_shape: "posix_drive raw \<Longrightarrow> \<exists>d r. raw = c_slash # d # r \<and> is_ascii_alphabetic d"
  by (cases raw rule: posix_drive.cases) auto

lemma drive_then_slash_shape: "drive_then_slash s \<Longrightarrow> \<exists>d r. s = d # r \<and> is_ascii_alphabetic d"
  by (cases s rule: drive_then_slash.cases) auto

lemma translate_shape:
  assumes "translate_windows_posix_drive_path raw = Some t"
  shows "\<exists>d rest. is_ascii_alphabetic d \<and> t = build_windows_drive_path d rest"
proof (cases "posix_drive raw")
  case True
  with assms have "t = build_windows_drive_path (raw ! 1) (drop 2 raw)"
    by (simp add: translate_windows_posix_drive_path_def)
  moreover have "is_ascii_alphabetic (raw ! 1)" using posix_drive_shape [OF True] by auto
  ultimately show ?thesis by blast
next
  case False
  with assms have "drive_then_slash (drop 10 raw)" "10 \<le> length raw" and
    t: "t = build_windows_drive_path (raw ! 10) (drop 11 raw)"
    by (auto simp: translate_windows_posix_drive_path_def starts_with_drive_prefix_def split: if_splits)
  then obtain d r where "drop 10 raw = d # r" "is_ascii_alphabetic d"
    using drive_then_slash_shape by blast
  moreover from this have "raw ! 10 = d" using nth_drop [of 10 raw 0] \<open>10 \<le> length raw\<close> by simp
  ultimately show ?thesis using t by blast
qed

lemma translate_None_iff:
  "translate_windows_posix_drive_path raw = None \<longleftrightarrow> \<not> starts_with_drive_prefix raw"
  by (auto simp: translate_windows_posix_drive_path_def starts_with_drive_prefix_def)

lemma drive_prefix_slash: "starts_with_drive_prefix raw \<Longrightarrow> c_slash \<in> set raw"
proof -
  assume a: "starts_with_drive_prefix raw"
  show ?thesis
  proof (cases "posix_drive raw")
    case True
    then show ?thesis using posix_drive_shape by fastforce
  next
    case False
    with a have "map to_ascii_lowercase (take 10 raw) = map to_ascii_lowercase cygdrive_prefix"
      by (simp add: starts_with_drive_prefix_def eq_ignore_ascii_case_def)
    moreover have "map to_ascii_lowercase cygdrive_prefix = c_slash # map to_ascii_lowercase (tl cygdrive_prefix)"
      by code_simp
    ultimately obtain x r where "take 10 raw = x # r" "to_ascii_lowercase x = c_slash"
      by (cases "take 10 raw") auto
    then have "c_slash \<in> set (take 10 raw)" by (auto simp: to_ascii_lowercase_def split: if_splits)
    then show ?thesis by (rule in_set_takeD)
  qed
qed

lemma normalize_no_slash: "c_slash \<notin> set (normalize_for_system windows_path_policy raw)"
  using translate_shape [of raw] build_no_slash normalize_chars_no_slash [of raw]
  by (fastforce simp: normalize_for_system_def normalize_windows_separators_eq split: option.splits)

lemma normalize_id:
  assumes "c_slash \<notin> set raw"
  shows "normalize_for_system windows_path_policy raw = raw"
proof -
  have "translate_windows_posix_drive_path raw = None"
    using assms drive_prefix_slash [of raw] translate_None_iff [of raw] by blast
  with assms show ?thesis
    by (simp add: normalize_for_system_def normalize_windows_separators_eq normalize_chars_id)
qed

text \<open>
  normalisation is a canonical form. Normalising twice is normalising once under either
  policy, and a normalised Windows path has no forward slash left.
\<close>

theorem normalize_for_system_canonical:
  "normalize_for_system policy (normalize_for_system policy raw) = normalize_for_system policy raw \<and>
   (style policy = Windows \<longrightarrow> c_slash \<notin> set (normalize_for_system policy raw))"
proof (cases "style policy")
  case Posix
  then show ?thesis by (simp add: normalize_for_system_def)
next
  case Windows
  then have "normalize_for_system policy = normalize_for_system windows_path_policy"
    by (auto simp: normalize_for_system_def fun_eq_iff)
  with Windows show ?thesis by (simp add: normalize_no_slash normalize_id)
qed

theorem normalize_for_system_canonical_witness:
  "normalize_for_system windows_path_policy (lit ''/CygDrive/d/a/b'') = [68, 58, 92, 97, 92, 98] \<and>
   normalize_for_system windows_path_policy [68, 58, 92, 97, 92, 98] = [68, 58, 92, 97, 92, 98]"
proof -
  have "normalize_for_system windows_path_policy (lit ''/CygDrive/d/a/b'') = [68, 58, 92, 97, 92, 98]"
    by code_simp
  with normalize_for_system_canonical [of windows_path_policy "lit ''/CygDrive/d/a/b''"]
  show ?thesis by simp
qed

lemma build_absolute:
  "is_ascii_alphabetic d \<Longrightarrow> is_absolute windows_path_policy (build_windows_drive_path d rest)"
  by (simp add: is_absolute_def build_windows_drive_path_def Let_def uppercase_alphabetic)

lemma chars_absolute:
  assumes "\<not> starts_with_drive_prefix raw"
  shows "is_absolute windows_path_policy (normalize_windows_path_chars raw) \<longleftrightarrow>
    is_absolute windows_path_policy raw \<or> (length raw \<ge> 2 \<and> is_separator (raw ! 0) \<and> is_separator (raw ! 1))"
proof -
  let ?n = "normalize_windows_path_chars raw"
  have d: "\<not> starts_with_drive_prefix ?n"
    using drive_prefix_slash [of ?n] normalize_chars_no_slash by blast
  have alpha: "is_ascii_alphabetic c \<Longrightarrow> c \<noteq> c_slash \<and> c \<noteq> c_backslash" for c
    by (auto simp: is_ascii_alphabetic_def)
  show ?thesis
  proof (cases raw)
    case Nil
    with d show ?thesis by (simp add: is_absolute_def normalize_windows_path_chars_def starts_with_def)
  next
    case (Cons a r)
    with d assms alpha show ?thesis
      by (cases r; cases "tl r")
        (auto simp: is_absolute_def normalize_windows_path_chars_def starts_with_def is_separator_def)
  qed
qed

text \<open>
  how normalisation treats absolute Windows paths. A path is absolute after normalisation
  exactly when it was absolute before or starts with two separators of either kind.
\<close>

theorem normalize_absolute_iff:
  "is_absolute windows_path_policy (normalize_for_system windows_path_policy raw) \<longleftrightarrow>
   is_absolute windows_path_policy raw \<or>
   (length raw \<ge> 2 \<and> is_separator (raw ! 0) \<and> is_separator (raw ! 1))"
proof (cases "translate_windows_posix_drive_path raw")
  case None
  then have "\<not> starts_with_drive_prefix raw" by (simp add: translate_None_iff)
  from chars_absolute [OF this] None show ?thesis
    by (simp add: normalize_for_system_def normalize_windows_separators_eq)
next
  case (Some t)
  then have "is_absolute windows_path_policy t" using translate_shape [OF Some] build_absolute by auto
  moreover from Some have "starts_with_drive_prefix raw" using translate_None_iff [of raw] by simp
  ultimately show ?thesis using Some by (simp add: normalize_for_system_def is_absolute_def)
qed

section \<open>Base names\<close>

lemma last_segment_append:
  "last_segment c b \<noteq> None \<Longrightarrow> last_segment c (a @ c # b) = last_segment c b"
  by (auto simp: last_segment_def split_on_append find_append split: option.splits)

lemma last_segment_trim [simp]:
  "last_segment c (trim_end_matches (\<lambda>x. x = c) s) = last_segment c s"
proof (induction s rule: rev_induct)
  case Nil
  then show ?case by simp
next
  case (snoc x s)
  then show ?case
    by (auto simp: trim_end_matches_def last_segment_def split_on_append [of c s "[]", simplified])
qed

lemma last_segment_Nil [simp]: "last_segment c [] = None"
  by (simp add: last_segment_def)

lemma last_segment_sep [simp]: "last_segment c (c # s) = last_segment c s"
  by (simp add: last_segment_def find_append split: option.splits)

lemma basename_posix: "basename linux_path_policy raw = last_segment c_slash raw"
  by (simp add: basename_def normalize_for_system_def)

lemma trimmed_empty: "trim_end_matches (\<lambda>x. x = c) s = [] \<Longrightarrow> last_segment c s = None"
  by (metis last_segment_Nil last_segment_trim)

lemma split_windows_basename_rest:
  assumes "split_windows_prefix raw = (p, rest)" and "last_segment c_backslash rest = Some b"
  shows "split_windows_path_basename raw = Some b"
  using assms trimmed_empty [of c_backslash rest]
  by (auto simp: split_windows_path_basename_def Let_def)

lemma join_prefix_rest:
  assumes "last_segment c_backslash child = Some b" and "base \<noteq> []"
  shows "\<exists>p rest. split_windows_prefix (base @ c_backslash # child) = (p, rest) \<and>
    last_segment c_backslash rest = Some b"
proof -
  have ne: "last_segment c_backslash child \<noteq> None" using assms by simp
  show ?thesis
  proof (cases "length base = 1")
    case True
    then obtain x where x: "base = [x]" by (cases base) auto
    have "drop 2 (base @ c_backslash # child) = child" by (simp add: x)
    moreover have "last_segment c_backslash (base @ c_backslash # child) = Some b"
      using last_segment_append [OF ne, of base] assms(1) by simp
    ultimately show ?thesis using assms(1) by (simp add: split_windows_prefix_def)
  next
    case False
    with assms(2) have "2 \<le> length base" by (cases base) (auto simp: Suc_le_eq)
    then have "drop 2 (base @ c_backslash # child) = drop 2 base @ c_backslash # child" by simp
    then show ?thesis
      using last_segment_append [OF ne] assms(1) by (simp add: split_windows_prefix_def)
  qed
qed

lemma basename_windows:
  assumes "fst (split_windows_prefix (normalize_for_system windows_path_policy raw)) = []"
  shows "basename windows_path_policy raw =
    last_segment c_backslash (normalize_for_system windows_path_policy raw)"
  using assms trimmed_empty [of c_backslash "normalize_for_system windows_path_policy raw"]
  by (auto simp: basename_def split_windows_path_basename_def split_windows_prefix_def Let_def
      split: if_splits)

lemma join_windows_basename:
  assumes "last_segment c_backslash child = Some b" and "base \<noteq> []"
  shows "split_windows_path_basename
      (if ends_with [c_backslash] base then base @ child else base @ [c_backslash] @ child) = Some b"
proof (cases "ends_with [c_backslash] base")
  case False
  then show ?thesis
    using join_prefix_rest [OF assms] split_windows_basename_rest by auto
next
  case True
  then obtain base' where base: "base = base' @ [c_backslash]" by (auto simp: ends_with_iff)
  show ?thesis
  proof (cases "base' = []")
    case False
    then show ?thesis
      using True base join_prefix_rest [OF assms(1) False] split_windows_basename_rest by auto
  next
    case True
    have "\<not> has_windows_drive (c_backslash # child)"
      by (simp add: has_windows_drive_def is_ascii_alphabetic_def)
    moreover have "last_segment c_backslash (drop 1 child) = Some b" if "starts_with [c_backslash] child"
      using that assms(1) by (auto simp: starts_with_iff)
    ultimately have "\<exists>p rest. split_windows_prefix (c_backslash # child) = (p, rest) \<and>
        last_segment c_backslash rest = Some b"
      using assms(1) by (auto simp: split_windows_prefix_def starts_with_def)
    with True base show ?thesis using split_windows_basename_rest by (auto simp: ends_with_iff)
  qed
qed

text \<open>
  Joining keeps the base name. Whenever a child path has a base name and is not relative to
  a drive or share, the joined path has the same base name, on both kinds of target and
  whatever separators the base ends with.
\<close>

theorem basename_join:
  assumes "basename policy child = Some b"
    and "style policy = Windows \<Longrightarrow> fst (split_windows_prefix (normalize_for_system policy child)) = []"
  shows "basename policy (path_join policy base child) = Some b"
proof (cases "style policy")
  case Posix
  then have p: "policy = linux_path_policy" by simp
  have s: "last_segment c_slash child = Some b" using assms(1) by (simp add: p basename_posix)
  then have "last_segment c_slash child \<noteq> None" by simp
  note a = last_segment_append [OF this]
  have "last_segment c_slash (x @ child) = Some b" if "ends_with [c_slash] x" for x
    using that a s by (auto simp: ends_with_iff)
  with a s show ?thesis
    by (simp add: p basename_posix path_join_def normalize_for_system_def path_separator_def Let_def)
next
  case Windows
  then have p: "policy = windows_path_policy" by simp
  let ?c = "normalize_for_system policy child" and ?b = "normalize_for_system policy base"
  have s: "last_segment c_backslash ?c = Some b"
    using assms Windows basename_windows [of child] by (simp add: p)
  have norm: "normalize_for_system policy (path_join policy base child) = path_join policy base child"
    unfolding p using normalize_no_slash [of child] normalize_no_slash [of base]
    by (intro normalize_id) (auto simp: path_join_def Let_def path_separator_def)
  show ?thesis
  proof (cases "?c = [] \<or> is_absolute policy ?c \<or> ?b = []")
    case True
    then have "path_join policy base child = ?c" by (auto simp: path_join_def Let_def)
    then show ?thesis
      using assms(1) norm by (simp add: p basename_def)
  next
    case False
    then have "path_join policy base child =
        (if ends_with [c_backslash] ?b then ?b @ ?c else ?b @ [c_backslash] @ ?c)"
      by (simp add: path_join_def Let_def path_separator_def p)
    then show ?thesis
      using join_windows_basename [OF s, of ?b] False norm by (simp add: basename_def p)
  qed
qed

theorem basename_join_witness:
  "basename windows_path_policy (path_join windows_path_policy (lit ''/c/base'') (lit ''dir/f.txt'')) =
     Some (lit ''f.txt'')"
proof -
  have "basename windows_path_policy (lit ''dir/f.txt'') = Some (lit ''f.txt'')" by code_simp
  moreover have "fst (split_windows_prefix (normalize_for_system windows_path_policy (lit ''dir/f.txt''))) = []"
    by code_simp
  ultimately show ?thesis
    using basename_join [of windows_path_policy "lit ''dir/f.txt''" "lit ''f.txt''" "lit ''/c/base''"]
    by simp
qed

end
