(* ===== verification/Host_Path.thy ===== *)
theory Host_Path
  imports Path_Policy
begin

text \<open>
  Paths on the host and the file system sandbox of the Unix build:
  \<open>crates/remote-exec-host/src/host_path.rs\<close>, \<open>path_compare.rs\<close> and \<open>sandbox.rs\<close>.
  A \<open>Path\<close> is the sequence of its components, which is what \<open>std::path\<close> compares and walks.
  The file system is the parameter \<open>canon\<close>, the outcome of \<open>std::fs::canonicalize\<close>.
\<close>

section \<open>\<open>std::path\<close>\<close>

datatype component = RootDir | CurDir | ParentDir | Normal rstr

type_synonym pathbuf = "component list"

definition component_of :: "rstr \<Rightarrow> component" where
  "component_of s = (if s = lit ''..'' then ParentDir else Normal s)"

text \<open>
  \<open>Path::components\<close>: empty segments and dots are skipped, except a dot that starts a relative path.
\<close>

definition segments :: "rstr list \<Rightarrow> component list" where
  "segments ss = map component_of (filter (\<lambda>s. s \<noteq> [] \<and> s \<noteq> lit ''.'') ss)"

definition components :: "rstr \<Rightarrow> pathbuf" where
  "components raw =
     (if starts_with [c_slash] raw then RootDir # segments (split_on c_slash raw)
      else let ss = split_on c_slash raw
           in (if hd ss = lit ''.'' then [CurDir] else []) @ segments ss)"

definition has_root :: "pathbuf \<Rightarrow> bool" where
  "has_root p \<longleftrightarrow> p \<noteq> [] \<and> hd p = RootDir"

definition path_parent :: "pathbuf \<Rightarrow> pathbuf option" where
  "path_parent p = (if p = [] \<or> last p = RootDir then None else Some (butlast p))"

definition file_name :: "pathbuf \<Rightarrow> rstr option" where
  "file_name p = (if p = [] then None else case last p of Normal n \<Rightarrow> Some n | _ \<Rightarrow> None)"

definition pathbuf_pop :: "pathbuf \<Rightarrow> pathbuf" where
  "pathbuf_pop p = (case path_parent p of None \<Rightarrow> p | Some q \<Rightarrow> q)"

definition pathbuf_join :: "pathbuf \<Rightarrow> pathbuf \<Rightarrow> pathbuf" where
  "pathbuf_join base p = (if has_root p then p
     else if base = [] then p else base @ filter (\<lambda>c. c \<noteq> CurDir) p)"

fun component_text :: "component \<Rightarrow> rstr" where
  "component_text RootDir = [c_slash]"
| "component_text CurDir = lit ''.''"
| "component_text ParentDir = lit ''..''"
| "component_text (Normal n) = n"

text \<open>\<open>Path::display\<close>.\<close>

definition path_text :: "pathbuf \<Rightarrow> rstr" where
  "path_text p = (if has_root p then [c_slash] @ join [c_slash] (map component_text (tl p))
     else join [c_slash] (map component_text p))"

section \<open>Host paths\<close>

record resolved_host_path =
  rhp_raw :: rstr
  rhp_path :: pathbuf

definition display_or_raw :: "resolved_host_path \<Rightarrow> rstr" where
  "display_or_raw r = (if rhp_raw r = [] then path_text (rhp_path r) else rhp_raw r)"

fun normalize_step :: "pathbuf \<Rightarrow> component \<Rightarrow> pathbuf" where
  "normalize_step acc CurDir = acc"
| "normalize_step acc ParentDir = pathbuf_pop acc"
| "normalize_step acc RootDir = pathbuf_join acc [RootDir]"
| "normalize_step acc (Normal n) = pathbuf_join acc [Normal n]"

definition lexical_normalize :: "pathbuf \<Rightarrow> pathbuf" where
  "lexical_normalize p = foldl normalize_step [] p"

definition resolve_absolute_input_path :: "rstr \<Rightarrow> pathbuf option" where
  "resolve_absolute_input_path raw =
     (if is_absolute linux_path_policy raw
      then Some (components (normalize_for_system linux_path_policy raw)) else None)"

definition is_input_path_absolute :: "rstr \<Rightarrow> bool" where
  "is_input_path_absolute raw \<longleftrightarrow> resolve_absolute_input_path raw \<noteq> None"

definition resolve_input_path :: "pathbuf \<Rightarrow> rstr \<Rightarrow> pathbuf" where
  "resolve_input_path base raw = (case resolve_absolute_input_path raw of
      Some p \<Rightarrow> p
    | None \<Rightarrow> pathbuf_join base (components (normalize_for_system linux_path_policy raw)))"

definition resolve_input_path_for_operation :: "pathbuf \<Rightarrow> rstr \<Rightarrow> resolved_host_path" where
  "resolve_input_path_for_operation base raw =
     \<lparr>rhp_raw = raw, rhp_path = lexical_normalize (resolve_input_path base raw)\<rparr>"

definition resolve_path_text_for_operation :: "rstr \<Rightarrow> resolved_host_path" where
  "resolve_path_text_for_operation raw = (case resolve_absolute_input_path raw of
      Some p \<Rightarrow> \<lparr>rhp_raw = raw, rhp_path = p\<rparr>
    | None \<Rightarrow> \<lparr>rhp_raw = raw, rhp_path = components (normalize_for_system linux_path_policy raw)\<rparr>)"

section \<open>Comparison\<close>

definition component_eq :: "component \<Rightarrow> component \<Rightarrow> bool" where
  "component_eq l r \<longleftrightarrow> component_text l = component_text r"

fun path_eq :: "pathbuf \<Rightarrow> pathbuf \<Rightarrow> bool" where
  "path_eq [] [] \<longleftrightarrow> True"
| "path_eq (l # ls) (r # rs) \<longleftrightarrow> component_eq l r \<and> path_eq ls rs"
| "path_eq _ _ \<longleftrightarrow> False"

fun path_has_prefix :: "pathbuf \<Rightarrow> pathbuf \<Rightarrow> bool" where
  "path_has_prefix p [] \<longleftrightarrow> True"
| "path_has_prefix [] (q # qs) \<longleftrightarrow> False"
| "path_has_prefix (p # ps) (q # qs) \<longleftrightarrow> component_eq p q \<and> path_has_prefix ps qs"

definition path_is_within :: "pathbuf \<Rightarrow> pathbuf \<Rightarrow> bool" where
  "path_is_within path root = path_has_prefix path root"

section \<open>The sandbox\<close>

datatype sandbox_access = ExecCwd | Read | Write

record sandbox_path_list =
  allow :: "rstr list"
  deny :: "rstr list"

record filesystem_sandbox =
  exec_cwd :: sandbox_path_list
  sb_read :: sandbox_path_list
  sb_write :: sandbox_path_list

record compiled_path_list =
  c_allow :: "pathbuf list"
  c_deny :: "pathbuf list"

record compiled_sandbox =
  c_exec_cwd :: compiled_path_list
  c_read :: compiled_path_list
  c_write :: compiled_path_list

text \<open>The reasons of a denial; the sources format them into a message.\<close>

datatype sandbox_error =
    NotAbsolute pathbuf
  | DeniedByRule sandbox_access pathbuf pathbuf
  | OutsideSandbox sandbox_access pathbuf
  | NoExistingAncestor pathbuf
  | CannotCanonicalize pathbuf
  | RootNotAbsolute rstr rstr rstr
  | RootInvalid rstr rstr pathbuf

datatype canon_outcome = CanonOk pathbuf | CanonNotFound | CanonError

definition access_label :: "sandbox_access \<Rightarrow> rstr" where
  "access_label a = (case a of ExecCwd \<Rightarrow> lit ''exec_cwd'' | Read \<Rightarrow> lit ''read'' | Write \<Rightarrow> lit ''write'')"

definition sandbox_list :: "compiled_sandbox \<Rightarrow> sandbox_access \<Rightarrow> compiled_path_list" where
  "sandbox_list sb a = (case a of ExecCwd \<Rightarrow> c_exec_cwd sb | Read \<Rightarrow> c_read sb | Write \<Rightarrow> c_write sb)"

text \<open>The loop over the ancestors; \<open>missing\<close> holds the components that do not exist, last first.\<close>

function canonicalize_loop ::
  "(pathbuf \<Rightarrow> canon_outcome) \<Rightarrow> pathbuf \<Rightarrow> pathbuf \<Rightarrow> rstr list \<Rightarrow> (sandbox_error, pathbuf) result" where
  "canonicalize_loop canon normalized probe missing = (case canon probe of
      CanonOk canonical \<Rightarrow>
        Inr (lexical_normalize
          (foldl (\<lambda>rebuilt c. pathbuf_join rebuilt [Normal c]) (lexical_normalize canonical) (rev missing)))
    | CanonNotFound \<Rightarrow> (case file_name probe of
          None \<Rightarrow> Inl (NoExistingAncestor normalized)
        | Some c \<Rightarrow> (case path_parent probe of
              None \<Rightarrow> Inl (NoExistingAncestor normalized)
            | Some parent \<Rightarrow> canonicalize_loop canon normalized parent (missing @ [c])))
    | CanonError \<Rightarrow> Inl (CannotCanonicalize normalized))"
  by pat_completeness auto
termination
  by (relation "measure (\<lambda>(canon, normalized, probe, missing). length probe)")
    (auto simp: path_parent_def split: if_splits)

declare canonicalize_loop.simps [simp del]

definition canonicalize_for_sandbox ::
  "(pathbuf \<Rightarrow> canon_outcome) \<Rightarrow> pathbuf \<Rightarrow> (sandbox_error, pathbuf) result" where
  "canonicalize_for_sandbox canon path =
     (let normalized = lexical_normalize path in canonicalize_loop canon normalized normalized [])"

definition compile_root ::
  "(pathbuf \<Rightarrow> canon_outcome) \<Rightarrow> rstr \<Rightarrow> rstr \<Rightarrow> rstr \<Rightarrow> (sandbox_error, pathbuf) result" where
  "compile_root canon access_lbl list_lbl raw =
     (if \<not> is_absolute linux_path_policy raw then Inl (RootNotAbsolute access_lbl list_lbl raw)
      else let normalized = components (normalize_for_system linux_path_policy raw)
        in map_err (\<lambda>_. RootInvalid access_lbl list_lbl normalized)
             (canonicalize_for_sandbox canon normalized))"

definition compile_list ::
  "(pathbuf \<Rightarrow> canon_outcome) \<Rightarrow> rstr \<Rightarrow> sandbox_path_list \<Rightarrow> (sandbox_error, compiled_path_list) result" where
  "compile_list canon lbl l =
     bindR (collectR (compile_root canon lbl (lit ''allow'')) (allow l)) (\<lambda>as.
     bindR (collectR (compile_root canon lbl (lit ''deny'')) (deny l)) (\<lambda>ds.
       Inr \<lparr>c_allow = as, c_deny = ds\<rparr>))"

definition compile_filesystem_sandbox ::
  "(pathbuf \<Rightarrow> canon_outcome) \<Rightarrow> filesystem_sandbox \<Rightarrow> (sandbox_error, compiled_sandbox) result" where
  "compile_filesystem_sandbox canon sb =
     bindR (compile_list canon (lit ''exec_cwd'') (exec_cwd sb)) (\<lambda>e.
     bindR (compile_list canon (lit ''read'') (sb_read sb)) (\<lambda>r.
     bindR (compile_list canon (lit ''write'') (sb_write sb)) (\<lambda>w.
       Inr \<lparr>c_exec_cwd = e, c_read = r, c_write = w\<rparr>)))"

definition authorize_path ::
  "(pathbuf \<Rightarrow> canon_outcome) \<Rightarrow> compiled_sandbox option \<Rightarrow> sandbox_access \<Rightarrow> pathbuf \<Rightarrow>
   (sandbox_error, unit) result" where
  "authorize_path canon sandbox access path =
     (if \<not> is_absolute linux_path_policy (path_text path) then Inl (NotAbsolute path)
      else case sandbox of
          None \<Rightarrow> Inr ()
        | Some sb \<Rightarrow> bindR (canonicalize_for_sandbox canon path) (\<lambda>resolved.
            let rules = sandbox_list sb access
            in case find (\<lambda>root. path_is_within resolved root) (c_deny rules) of
                 Some root \<Rightarrow> Inl (DeniedByRule access resolved root)
               | None \<Rightarrow>
                   if c_allow rules = [] \<or> list_ex (\<lambda>root. path_is_within resolved root) (c_allow rules)
                   then Inr () else Inl (OutsideSandbox access resolved)))"

definition authorize_resolved_path ::
  "(pathbuf \<Rightarrow> canon_outcome) \<Rightarrow> compiled_sandbox option \<Rightarrow> sandbox_access \<Rightarrow> resolved_host_path \<Rightarrow>
   (sandbox_error, unit) result" where
  "authorize_resolved_path canon sandbox access p = authorize_path canon sandbox access (rhp_path p)"

section \<open>Lexical normal form\<close>

definition is_normal :: "pathbuf \<Rightarrow> bool" where
  "is_normal p \<longleftrightarrow> list_all (\<lambda>c. c \<notin> {RootDir, CurDir, ParentDir}) (if has_root p then tl p else p)"

lemma join_Normal [simp]: "pathbuf_join acc [Normal n] = acc @ [Normal n]"
  by (simp add: pathbuf_join_def has_root_def)

lemma join_RootDir [simp]: "pathbuf_join acc [RootDir] = [RootDir]"
  by (simp add: pathbuf_join_def has_root_def)

lemma is_normal_simps [simp]:
  "is_normal []" "is_normal [RootDir]"
  "is_normal (p @ [Normal n]) \<longleftrightarrow> is_normal p"
  by (cases p; auto simp: is_normal_def has_root_def)+

lemma is_normal_pop: "is_normal p \<Longrightarrow> is_normal (pathbuf_pop p)"
  by (cases p rule: rev_cases; cases "butlast p")
    (auto simp: pathbuf_pop_def path_parent_def is_normal_def has_root_def split: if_splits)

lemma normalize_step_normal: "is_normal acc \<Longrightarrow> is_normal (normalize_step acc c)"
  by (cases c) (simp_all add: is_normal_pop)

lemma foldl_normalize_normal: "is_normal acc \<Longrightarrow> is_normal (foldl normalize_step acc p)"
  by (induction p arbitrary: acc) (simp_all add: normalize_step_normal)

lemma lexical_normalize_normal: "is_normal (lexical_normalize p)"
  by (simp add: lexical_normalize_def foldl_normalize_normal)

lemma foldl_Normals: "foldl normalize_step acc (map Normal ns) = acc @ map Normal ns"
  by (induction ns arbitrary: acc) simp_all

lemma is_normal_cases:
  assumes "is_normal p"
  obtains ns where "p = map Normal ns" | ns where "p = RootDir # map Normal ns"
proof -
  have nm: "list_all (\<lambda>c. c \<notin> {RootDir, CurDir, ParentDir}) q \<Longrightarrow> \<exists>ns. q = map Normal ns" for q
  proof (induction q)
    case Nil
    then show ?case by simp
  next
    case (Cons c q)
    then obtain ns where "q = map Normal ns" by auto
    with Cons.prems show ?case by (cases c) (auto intro: exI [of _ "_ # ns"])
  qed
  show thesis
  proof (cases "has_root p")
    case True
    then have "p = RootDir # tl p" by (cases p) (auto simp: has_root_def)
    with True assms nm [of "tl p"] show thesis
      by (metis is_normal_def that(2))
  next
    case False
    with assms nm [of p] show thesis by (auto simp: is_normal_def intro: that(1))
  qed
qed

lemma lexical_normalize_id: "is_normal p \<Longrightarrow> lexical_normalize p = p"
  by (erule is_normal_cases) (simp_all add: lexical_normalize_def foldl_Normals)

lemma lexical_normalize_append_names:
  "lexical_normalize (p @ map Normal ns) = lexical_normalize p @ map Normal ns"
  by (simp add: lexical_normalize_def foldl_Normals)

lemma root_foldl: "has_root acc \<Longrightarrow> has_root (foldl normalize_step acc p)"
proof (induction p arbitrary: acc)
  case Nil
  then show ?case by simp
next
  case (Cons c p)
  then have "has_root (normalize_step acc c)"
    by (cases c; cases acc)
      (auto simp: has_root_def pathbuf_pop_def path_parent_def)
  with Cons.IH show ?case by simp
qed

lemma has_root_normalize: "has_root p \<Longrightarrow> has_root (lexical_normalize p)"
  using root_foldl [of "[RootDir]" "tl p"] by (cases p) (simp_all add: lexical_normalize_def has_root_def)

text \<open>
  \<open>lexical_normalize\<close> computes a normal form. Its result has no \<open>.\<close> and no \<open>..\<close> left and a root
  only in front, a rooted path stays rooted, and a second pass changes nothing.
\<close>

theorem lexical_normalize_normal_form:
  "is_normal (lexical_normalize p) \<and> lexical_normalize (lexical_normalize p) = lexical_normalize p \<and>
   (has_root p \<longrightarrow> has_root (lexical_normalize p))"
  using lexical_normalize_normal [of p] lexical_normalize_id [of "lexical_normalize p"]
    has_root_normalize [of p] by blast

theorem lexical_normalize_normal_form_witness:
  "has_root (components (lit ''/a/./b/../../../c'')) \<and>
   lexical_normalize (components (lit ''/a/./b/../../../c'')) = [RootDir, Normal (lit ''c'')] \<and>
   has_root (lexical_normalize (components (lit ''/a/./b/../../../c'')))"
proof -
  let ?p = "components (lit ''/a/./b/../../../c'')"
  have "has_root ?p" and "lexical_normalize ?p = [RootDir, Normal (lit ''c'')]" by code_simp+
  with lexical_normalize_normal_form [of ?p] show ?thesis by blast
qed

section \<open>Canonical paths\<close>

text \<open>
  The specification of the ancestor search: the longest existing ancestor is made canonical and
  the missing names are put back behind it.
\<close>

definition resolved_by ::
  "(pathbuf \<Rightarrow> canon_outcome) \<Rightarrow> pathbuf \<Rightarrow> pathbuf \<Rightarrow> rstr list \<Rightarrow> pathbuf \<Rightarrow> bool" where
  "resolved_by canon path ancestor names canonical \<longleftrightarrow>
     path = ancestor @ map Normal names \<and> canon ancestor = CanonOk canonical \<and>
     (\<forall>k. 0 < k \<and> k \<le> length names \<longrightarrow> canon (ancestor @ map Normal (take k names)) = CanonNotFound)"

lemma resolved_by_found:
  assumes "canon path = CanonOk c"
  shows "resolved_by canon path anc ns c' \<longleftrightarrow> anc = path \<and> ns = [] \<and> c' = c"
proof -
  have "ns = []" if "resolved_by canon path anc ns c'"
    using that assms by (auto simp: resolved_by_def dest: spec [of _ "length ns"])
  with assms show ?thesis by (auto simp: resolved_by_def)
qed

lemma resolved_by_missing:
  assumes "canon (parent @ [Normal n]) = CanonNotFound"
  shows "resolved_by canon (parent @ [Normal n]) anc ns c \<longleftrightarrow>
    (\<exists>ns'. ns = ns' @ [n] \<and> resolved_by canon parent anc ns' c)"
proof (cases ns rule: rev_cases)
  case Nil
  with assms show ?thesis by (auto simp: resolved_by_def)
next
  case (snoc ns' m)
  have all_Suc: "(\<forall>k. 0 < k \<and> k \<le> Suc l \<longrightarrow> Q k) \<longleftrightarrow> (\<forall>k. 0 < k \<and> k \<le> l \<longrightarrow> Q k) \<and> Q (Suc l)"
    for l and Q :: "nat \<Rightarrow> bool"
    by (auto simp: le_Suc_eq)
  have "canon (anc @ map Normal (ns' @ [n])) = CanonNotFound" if "parent = anc @ map Normal ns'"
    using assms that by simp
  with snoc show ?thesis
    by (auto simp: resolved_by_def all_Suc)
qed

lemma resolved_by_error:
  assumes "canon probe \<noteq> CanonOk c" and "canon probe = CanonError \<or> file_name probe = None"
  shows "\<not> resolved_by canon probe anc ns c"
  using assms by (cases ns rule: rev_cases) (auto simp: resolved_by_def file_name_def)

lemma rebuild_names:
  "foldl (\<lambda>rebuilt c. rebuilt @ [Normal c]) p ns = p @ map Normal ns"
  by (induction ns arbitrary: p) simp_all

lemma canonicalize_loop_spec:
  "canonicalize_loop canon n probe missing = Inr r \<longleftrightarrow>
   (\<exists>anc ns c. resolved_by canon probe anc ns c \<and> r = lexical_normalize c @ map Normal (ns @ rev missing))"
proof (induction canon n probe missing rule: canonicalize_loop.induct)
  case (1 canon n probe missing)
  note unf = canonicalize_loop.simps [of canon n probe missing]
  show ?case
  proof (cases "canon probe")
    case (CanonOk c)
    then show ?thesis
      by (auto simp: unf resolved_by_found rebuild_names lexical_normalize_append_names
          lexical_normalize_id lexical_normalize_normal simp flip: map_append)
  next
    case CanonError
    then show ?thesis using resolved_by_error [of canon probe] by (auto simp: unf)
  next
    case CanonNotFound
    show ?thesis
    proof (cases "file_name probe")
      case None
      with CanonNotFound show ?thesis using resolved_by_error [of canon probe] by (auto simp: unf)
    next
      case (Some m)
      then obtain parent where p: "probe = parent @ [Normal m]"
        by (cases probe rule: rev_cases) (auto simp: file_name_def split: component.splits)
      then have par: "path_parent probe = Some parent" by (simp add: path_parent_def)
      have nf: "canon (parent @ [Normal m]) = CanonNotFound" using CanonNotFound p by simp
      have "canonicalize_loop canon n probe missing = canonicalize_loop canon n parent (missing @ [m])"
        using CanonNotFound Some par by (simp add: unf)
      moreover have "(ns @ [m]) @ rev missing = ns @ rev (missing @ [m])" for ns by simp
      ultimately show ?thesis
        using "1.IH" [OF CanonNotFound Some par]
        unfolding p resolved_by_missing [of canon parent m, OF nf] by metis
    qed
  qed
qed

lemma canonicalize_spec:
  "canonicalize_for_sandbox canon path = Inr r \<longleftrightarrow>
   (\<exists>anc ns c. resolved_by canon (lexical_normalize path) anc ns c \<and> r = lexical_normalize c @ map Normal ns)"
  by (simp add: canonicalize_for_sandbox_def canonicalize_loop_spec Let_def)

text \<open>
  what the sandbox looks at. A path resolves to \<open>r\<close> exactly when \<open>r\<close> is the canonical form of the
  longest existing ancestor of the normalised path, followed by the names that do not exist yet;
  links in existing directories are therefore followed before the rules are applied.
\<close>

theorem canonicalize_for_sandbox_spec:
  "canonicalize_for_sandbox canon path = Inr r \<longleftrightarrow>
   (\<exists>ancestor names canonical.
      lexical_normalize path = ancestor @ map Normal names \<and> canon ancestor = CanonOk canonical \<and>
      (\<forall>k. 0 < k \<and> k \<le> length names \<longrightarrow> canon (ancestor @ map Normal (take k names)) = CanonNotFound) \<and>
      r = lexical_normalize canonical @ map Normal names)"
  by (simp add: canonicalize_spec resolved_by_def)

definition sample_canon :: "pathbuf \<Rightarrow> canon_outcome" where
  "sample_canon p =
     (if p = [RootDir] \<or> p = [RootDir, Normal (lit ''w'')] then CanonOk p
      else if p = [RootDir, Normal (lit ''w''), Normal (lit ''link'')] then CanonOk [RootDir, Normal (lit ''etc'')]
      else CanonNotFound)"

theorem canonicalize_for_sandbox_spec_witness:
  "\<exists>ancestor names canonical.
      [RootDir, Normal (lit ''w''), Normal (lit ''link''), Normal (lit ''x'')] = ancestor @ map Normal names \<and>
      sample_canon ancestor = CanonOk canonical \<and>
      [RootDir, Normal (lit ''etc''), Normal (lit ''x'')] = lexical_normalize canonical @ map Normal names"
proof -
  let ?p = "components (lit ''/w/link/x'')" and ?r = "[RootDir, Normal (lit ''etc''), Normal (lit ''x'')]"
  have "canonicalize_for_sandbox sample_canon ?p = Inr ?r" by code_simp
  moreover have "lexical_normalize ?p = [RootDir, Normal (lit ''w''), Normal (lit ''link''), Normal (lit ''x'')]"
    by code_simp
  ultimately show ?thesis
    using canonicalize_for_sandbox_spec [of sample_canon ?p ?r] by metis
qed

lemma path_has_prefix_iff:
  "path_has_prefix p q \<longleftrightarrow> (\<exists>r. map component_text p = map component_text q @ r)"
  by (induction p q rule: path_has_prefix.induct) (auto simp: component_eq_def)

lemma path_eq_iff: "path_eq p q \<longleftrightarrow> map component_text p = map component_text q"
  by (induction p q rule: path_eq.induct) (auto simp: component_eq_def)

lemma path_text_absolute: "has_root p \<Longrightarrow> is_absolute linux_path_policy (path_text p)"
  by (simp add: is_absolute_def path_text_def starts_with_def)

lemma authorize_Inr:
  "authorize_path canon (Some sb) access path = Inr () \<longleftrightarrow>
   is_absolute linux_path_policy (path_text path) \<and>
   (\<exists>resolved. canonicalize_for_sandbox canon path = Inr resolved \<and>
      (\<forall>root \<in> set (c_deny (sandbox_list sb access)). \<not> path_is_within resolved root) \<and>
      (c_allow (sandbox_list sb access) = [] \<or>
       (\<exists>root \<in> set (c_allow (sandbox_list sb access)). path_is_within resolved root)))"
proof (cases "canonicalize_for_sandbox canon path")
  case (Inl e)
  then show ?thesis by (simp add: authorize_path_def)
next
  case (Inr r)
  let ?rules = "sandbox_list sb access"
  have "(\<forall>root \<in> set (c_deny ?rules). \<not> path_is_within r root) \<longleftrightarrow>
      find (\<lambda>root. path_is_within r root) (c_deny ?rules) = None"
    by (auto simp: find_None_iff)
  with Inr show ?thesis
    by (cases "find (\<lambda>root. path_is_within r root) (c_deny ?rules)")
      (simp_all add: authorize_path_def Let_def list_ex_iff)
qed


definition sample_sandbox :: compiled_sandbox where
  "sample_sandbox = \<lparr>c_exec_cwd = \<lparr>c_allow = [], c_deny = []\<rparr>, c_read = \<lparr>c_allow = [], c_deny = []\<rparr>,
     c_write = \<lparr>c_allow = [[RootDir, Normal (lit ''w'')]], c_deny = [[RootDir, Normal (lit ''w''), Normal (lit ''s'')]]\<rparr>\<rparr>"


section \<open>Well-formed paths\<close>

text \<open>
  The component sequences that \<open>std::path\<close> produces: names are not empty, not a dot or two, have
  no separator, and the root occurs in front only.
\<close>

definition wf_component :: "component \<Rightarrow> bool" where
  "wf_component c = (case c of
      Normal n \<Rightarrow> n \<noteq> [] \<and> n \<noteq> lit ''.'' \<and> n \<noteq> lit ''..'' \<and> c_slash \<notin> set n | _ \<Rightarrow> True)"

definition wf_path :: "pathbuf \<Rightarrow> bool" where
  "wf_path p \<longleftrightarrow> list_all wf_component p \<and> RootDir \<notin> set (tl p)"

lemma segments_wf:
  assumes "\<forall>s \<in> set ss. c_slash \<notin> set s"
  shows "list_all wf_component (segments ss)" and "RootDir \<notin> set (segments ss)" and "CurDir \<notin> set (segments ss)"
  using assms by (auto simp: segments_def component_of_def wf_component_def list_all_iff split: if_splits)

lemma components_wf: "wf_path (components raw)"
proof -
  have "\<forall>s \<in> set (split_on c_slash raw). c_slash \<notin> set s" using split_on_no_sep [of _ c_slash raw] by blast
  from segments_wf [OF this] show ?thesis
    by (cases "segments (split_on c_slash raw)")
      (auto simp: components_def wf_path_def wf_component_def Let_def)
qed

lemma wf_path_snoc: "wf_path p \<Longrightarrow> wf_component (Normal n) \<Longrightarrow> wf_path (p @ [Normal n])"
  by (cases p) (auto simp: wf_path_def)

lemma pathbuf_join_wf:
  assumes "wf_path p" and "wf_path q"
  shows "wf_path (pathbuf_join p q)"
proof -
  have "RootDir \<notin> set q" if "\<not> has_root q" using assms(2) that by (cases q) (auto simp: wf_path_def has_root_def)
  with assms show ?thesis
    by (cases p) (auto simp: pathbuf_join_def wf_path_def list_all_iff)
qed

lemma normalize_step_wf: "wf_path acc \<Longrightarrow> wf_component c \<Longrightarrow> wf_path (normalize_step acc c)"
proof (cases c)
  case ParentDir
  assume "wf_path acc"
  with ParentDir show ?thesis
    by (cases acc rule: rev_cases; cases "butlast acc")
      (auto simp: wf_path_def pathbuf_pop_def path_parent_def)
qed (auto simp: wf_path_snoc, simp add: wf_path_def wf_component_def)

lemma lexical_normalize_wf: "list_all wf_component p \<Longrightarrow> wf_path (lexical_normalize p)"
proof -
  have "list_all wf_component p \<Longrightarrow> wf_path acc \<Longrightarrow> wf_path (foldl normalize_step acc p)" for acc
    by (induction p arbitrary: acc) (simp_all add: normalize_step_wf)
  then show "list_all wf_component p \<Longrightarrow> ?thesis" by (simp add: lexical_normalize_def wf_path_def)
qed

lemma resolve_input_path_wf:
  "wf_path base \<Longrightarrow> wf_path (rhp_path (resolve_input_path_for_operation base raw))"
proof -
  assume "wf_path base"
  then have "wf_path (resolve_input_path base raw)"
    by (auto simp: resolve_input_path_def resolve_absolute_input_path_def components_wf pathbuf_join_wf
        split: option.splits if_splits)
  then have "list_all wf_component (resolve_input_path base raw)" by (simp add: wf_path_def)
  then show ?thesis by (simp add: resolve_input_path_for_operation_def lexical_normalize_wf)
qed

lemma component_text_inj: "wf_component c \<Longrightarrow> wf_component d \<Longrightarrow> component_text c = component_text d \<Longrightarrow> c = d"
  by (cases c; cases d) (auto simp: wf_component_def lit_def)

lemma wf_path_eq:
  assumes "wf_path p" and "wf_path q" and "path_eq p q"
  shows "p = q"
proof -
  have "list_all wf_component p \<Longrightarrow> list_all wf_component q \<Longrightarrow> path_eq p q \<Longrightarrow> p = q"
    by (induction p q rule: path_eq.induct) (auto simp: component_eq_def component_text_inj)
  with assms show ?thesis by (simp add: wf_path_def)
qed

end
