(* ===== verification/Utf8.thy ===== *)
theory Utf8
  imports Prelude
begin

text \<open>
  The UTF-8 encoding of Rust strings: \<open>str::as_bytes\<close>, \<open>char::len_utf8\<close> and the strict decoder
  \<open>String::from_utf8\<close>, which rejects overlong forms, surrogates and values above the Unicode range.
  The decoder and the encoder are shown to be inverse to each other.
\<close>

section \<open>Definitions\<close>

definition is_scalar :: "nat \<Rightarrow> bool" where
  "is_scalar c \<longleftrightarrow> c < 55296 \<or> (57344 \<le> c \<and> c < 1114112)"

definition len_utf8 :: "uchar \<Rightarrow> nat" where
  "len_utf8 c = (if c < 128 then 1 else if c < 2048 then 2 else if c < 65536 then 3 else 4)"

definition utf8_char :: "uchar \<Rightarrow> nat list" where
  "utf8_char c =
     (if c < 128 then [c]
      else if c < 2048 then [192 + c div 64, 128 + c mod 64]
      else if c < 65536 then [224 + c div 64 div 64, 128 + c div 64 mod 64, 128 + c mod 64]
      else [240 + c div 64 div 64 div 64, 128 + c div 64 div 64 mod 64, 128 + c div 64 mod 64,
            128 + c mod 64])"

definition is_cont :: "nat \<Rightarrow> bool" where
  "is_cont b \<longleftrightarrow> 128 \<le> b \<and> b < 192"

text \<open>The first character of a byte sequence and the rest.\<close>

fun utf8_next :: "nat list \<Rightarrow> (uchar \<times> nat list) option" where
  "utf8_next [] = None"
| "utf8_next (b # bs) =
     (if b < 128 then Some (b, bs)
      else if 194 \<le> b \<and> b < 224 then (case bs of
          c1 # r \<Rightarrow> if is_cont c1 then Some ((b - 192) * 64 + (c1 - 128), r) else None
        | _ \<Rightarrow> None)
      else if 224 \<le> b \<and> b < 240 then (case bs of
          c1 # c2 # r \<Rightarrow>
            let c = ((b - 224) * 64 + (c1 - 128)) * 64 + (c2 - 128)
            in if is_cont c1 \<and> is_cont c2 \<and> 2048 \<le> c \<and> is_scalar c then Some (c, r) else None
        | _ \<Rightarrow> None)
      else if 240 \<le> b \<and> b < 245 then (case bs of
          c1 # c2 # c3 # r \<Rightarrow>
            let c = (((b - 240) * 64 + (c1 - 128)) * 64 + (c2 - 128)) * 64 + (c3 - 128)
            in if is_cont c1 \<and> is_cont c2 \<and> is_cont c3 \<and> 65536 \<le> c \<and> is_scalar c
               then Some (c, r) else None
        | _ \<Rightarrow> None)
      else None)"

lemma utf8_next_length: "utf8_next bs = Some (c, r) \<Longrightarrow> length r < length bs"
  by (cases bs) (auto simp: Let_def split: if_splits list.splits)

function utf8_decode :: "nat list \<Rightarrow> rstr option" where
  "utf8_decode bs = (if bs = [] then Some []
     else case utf8_next bs of
         None \<Rightarrow> None
       | Some (c, r) \<Rightarrow> map_option ((#) c) (utf8_decode r))"
  by pat_completeness auto
termination
  by (relation "measure length") (auto dest: utf8_next_length)

declare utf8_decode.simps [simp del]

definition utf8_encode :: "rstr \<Rightarrow> nat list" where
  "utf8_encode s = concat (map utf8_char s)"

definition as_bytes :: "rstr \<Rightarrow> bytes" where
  "as_bytes s = map word_of_nat (utf8_encode s)"

definition from_utf8 :: "bytes \<Rightarrow> rstr option" where
  "from_utf8 bs = utf8_decode (map unat bs)"

text \<open>\<open>str::len\<close>: the length in bytes.\<close>

definition str_len :: "rstr \<Rightarrow> nat" where
  "str_len s = sum_list (map len_utf8 s)"

section \<open>One character\<close>

lemma is_scalar_less: "is_scalar c \<Longrightarrow> c < 1114112"
  by (auto simp: is_scalar_def)

lemma horner64: "x < 64 \<Longrightarrow> (k * 64 + x) div 64 = (k :: nat)" "x < 64 \<Longrightarrow> (k * 64 + x) mod 64 = (x :: nat)"
  by simp_all

lemma utf8_next_char:
  assumes s: "is_scalar c"
  shows "utf8_next (utf8_char c @ r) = Some (c, r)"
proof -
  define q1 q2 q3 where q: "q1 = c div 64" "q2 = q1 div 64" "q3 = q2 div 64"
  have e: "q1 * 64 + c mod 64 = c" "q2 * 64 + q1 mod 64 = q1" "q3 * 64 + q2 mod 64 = q2"
    by (simp_all add: q)
  have m: "c mod 64 < 64" "q1 mod 64 < 64" "q2 mod 64 < 64" by simp_all
  have c: "c < 1114112" using s by (rule is_scalar_less)
  have b: "128 \<le> c \<Longrightarrow> 2 \<le> q1" "c < 2048 \<Longrightarrow> q1 < 32" "c < 65536 \<Longrightarrow> q2 < 16" "q3 < 5"
    using e m c by linarith+
  consider "c < 128" | "128 \<le> c" "c < 2048" | "2048 \<le> c" "c < 65536" | "65536 \<le> c" by linarith
  then show ?thesis
  proof cases
    case 1
    then show ?thesis by (simp add: utf8_char_def)
  next
    case 2
    with b(1,2) show ?thesis by (simp add: utf8_char_def is_cont_def q(1) [symmetric] e(1))
  next
    case 3
    with b(3) s e show ?thesis
      by (simp add: utf8_char_def is_cont_def Let_def q [symmetric] del: distrib_right_numeral)
  next
    case 4
    with b(4) s e show ?thesis
      by (simp add: utf8_char_def is_cont_def Let_def q [symmetric] del: distrib_right_numeral)
  qed
qed

lemma cont_ex: "is_cont b \<Longrightarrow> \<exists>x. b = 128 + x \<and> x < 64"
  by (intro exI [of _ "b - 128"]) (auto simp: is_cont_def)

lemma base_ex: "(k :: nat) \<le> b \<Longrightarrow> \<exists>x. b = k + x"
  by (intro exI [of _ "b - k"]) simp

lemma utf8_char_next:
  assumes "utf8_next bs = Some (c, r)"
  shows "bs = utf8_char c @ r \<and> is_scalar c"
proof (cases bs)
  case Nil
  with assms show ?thesis by simp
next
  case (Cons b bs')
  consider "b < 128" | "194 \<le> b" "b < 224" | "224 \<le> b" "b < 240" | "240 \<le> b" "b < 245"
    using assms Cons by (cases "b < 128"; cases "194 \<le> b \<and> b < 224"; cases "224 \<le> b \<and> b < 240";
        cases "240 \<le> b \<and> b < 245") auto
  then show ?thesis
  proof cases
    case 1
    with assms Cons show ?thesis by (auto simp: utf8_char_def is_scalar_def)
  next
    case 2
    with assms Cons obtain c1 where bs': "bs' = c1 # r" and cont: "is_cont c1" and
      c: "c = (b - 192) * 64 + (c1 - 128)"
      by (auto split: list.splits if_splits)
    obtain x where x: "c1 = 128 + x" "x < 64" using cont_ex [OF cont] by blast
    obtain y where y: "b = 192 + y" using base_ex [of 192 b] 2 by auto
    have "c = y * 64 + x" by (simp add: c x y)
    moreover have "2 \<le> y" "y < 32" using 2 y by auto
    ultimately show ?thesis using x(2) by (auto simp: Cons bs' x(1) y utf8_char_def is_scalar_def)
  next
    case 3
    with assms Cons obtain c1 c2 where bs': "bs' = c1 # c2 # r" and cont: "is_cont c1" "is_cont c2" and
      c: "c = ((b - 224) * 64 + (c1 - 128)) * 64 + (c2 - 128)" and s: "2048 \<le> c" "is_scalar c"
      by (auto simp: Let_def split: list.splits if_splits)
    obtain x1 where x1: "c1 = 128 + x1" "x1 < 64" using cont_ex [OF cont(1)] by blast
    obtain x2 where x2: "c2 = 128 + x2" "x2 < 64" using cont_ex [OF cont(2)] by blast
    obtain y where y: "b = 224 + y" using base_ex [of 224 b] 3 by auto
    have ce: "c = (y * 64 + x1) * 64 + x2" by (simp add: c x1 x2 y)
    moreover have "y < 16" using 3 y by simp
    moreover have "c div 64 = y * 64 + x1" "c mod 64 = x2"
      unfolding ce using x2(2) by (rule horner64)+
    ultimately show ?thesis using s x1(2) x2(2) by (simp add: Cons bs' x1(1) x2(1) y utf8_char_def)
  next
    case 4
    with assms Cons obtain c1 c2 c3 where bs': "bs' = c1 # c2 # c3 # r" and
      cont: "is_cont c1" "is_cont c2" "is_cont c3" and
      c: "c = (((b - 240) * 64 + (c1 - 128)) * 64 + (c2 - 128)) * 64 + (c3 - 128)" and
      s: "65536 \<le> c" "is_scalar c"
      by (auto simp: Let_def split: list.splits if_splits)
    obtain x1 where x1: "c1 = 128 + x1" "x1 < 64" using cont_ex [OF cont(1)] by blast
    obtain x2 where x2: "c2 = 128 + x2" "x2 < 64" using cont_ex [OF cont(2)] by blast
    obtain x3 where x3: "c3 = 128 + x3" "x3 < 64" using cont_ex [OF cont(3)] by blast
    obtain y where y: "b = 240 + y" using base_ex [of 240 b] 4 by auto
    have ce: "c = ((y * 64 + x1) * 64 + x2) * 64 + x3" by (simp add: c x1 x2 x3 y)
    have q1: "c div 64 = (y * 64 + x1) * 64 + x2" "c mod 64 = x3"
      unfolding ce using x3(2) by (rule horner64)+
    have q2: "c div 64 div 64 = y * 64 + x1" "c div 64 mod 64 = x2"
      unfolding q1 using x2(2) by (rule horner64)+
    have q3: "c div 64 div 64 div 64 = y" "c div 64 div 64 mod 64 = x1"
      unfolding q2 using x1(2) by (rule horner64)+
    show ?thesis using s q1(2) q2(2) q3 by (simp add: Cons bs' x1(1) x2(1) x3(1) y utf8_char_def)
  qed
qed

section \<open>Whole strings\<close>

lemma utf8_char_ne [simp]: "utf8_char c \<noteq> []"
  by (simp add: utf8_char_def)

lemma utf8_decode_encode: "list_all is_scalar s \<Longrightarrow> utf8_decode (utf8_encode s) = Some s"
proof (induction s)
  case Nil
  then show ?case by (simp add: utf8_encode_def utf8_decode.simps)
next
  case (Cons c s)
  then show ?case
    by (simp add: utf8_encode_def utf8_decode.simps [of "utf8_char c @ _"] utf8_next_char)
qed

lemma utf8_encode_decode:
  "utf8_decode bs = Some s \<Longrightarrow> utf8_encode s = bs \<and> list_all is_scalar s"
proof (induction bs arbitrary: s rule: utf8_decode.induct)
  case (1 bs)
  show ?case
  proof (cases "bs = []")
    case True
    with "1.prems" show ?thesis by (simp add: utf8_decode.simps utf8_encode_def)
  next
    case False
    with "1.prems" obtain c r s' where n: "utf8_next bs = Some (c, r)" and
      r: "utf8_decode r = Some s'" and s: "s = c # s'"
      by (auto simp: utf8_decode.simps [of bs] split: option.splits)
    from "1.IH" [OF False n refl r] utf8_char_next [OF n] s show ?thesis
      by (simp add: utf8_encode_def)
  qed
qed

lemma utf8_char_byte: "c < 1114112 \<Longrightarrow> b \<in> set (utf8_char c) \<Longrightarrow> b < 256"
  by (auto simp: utf8_char_def split: if_splits)

lemma utf8_encode_byte: "list_all is_scalar s \<Longrightarrow> b \<in> set (utf8_encode s) \<Longrightarrow> b < 256"
  using utf8_char_byte is_scalar_less by (fastforce simp: utf8_encode_def list_all_iff)

lemma from_utf8_as_bytes: "list_all is_scalar s \<Longrightarrow> from_utf8 (as_bytes s) = Some s"
proof -
  assume s: "list_all is_scalar s"
  have "map (unat \<circ> (word_of_nat :: nat \<Rightarrow> u8)) (utf8_encode s) = utf8_encode s"
    using utf8_encode_byte [OF s] by (intro map_idI) (simp add: unat_byte)
  with utf8_decode_encode [OF s] show ?thesis by (simp add: from_utf8_def as_bytes_def)
qed

lemma as_bytes_from_utf8: "from_utf8 bs = Some s \<Longrightarrow> as_bytes s = bs"
  using utf8_encode_decode [of "map unat bs" s] by (simp add: from_utf8_def as_bytes_def comp_def)

lemma from_utf8_scalar: "from_utf8 bs = Some s \<Longrightarrow> list_all is_scalar s"
  using utf8_encode_decode [of "map unat bs" s] by (simp add: from_utf8_def)

lemma str_len_simps [simp]:
  "str_len [] = 0" "str_len (c # s) = len_utf8 c + str_len s" "str_len (s @ t) = str_len s + str_len t"
  by (simp_all add: str_len_def)

lemma len_utf8_bounds [simp]: "0 < len_utf8 c" "len_utf8 c \<le> 4"
  by (simp_all add: len_utf8_def)

lemma as_bytes_length: "length (as_bytes s) = str_len s"
  by (induction s) (simp_all add: as_bytes_def utf8_encode_def utf8_char_def len_utf8_def)

lemma as_bytes_append: "as_bytes (s @ t) = as_bytes s @ as_bytes t"
  by (simp add: as_bytes_def utf8_encode_def)

interpretation utf8: strict_codec as_bytes from_utf8 "list_all is_scalar"
  by unfold_locales (simp_all add: from_utf8_as_bytes from_utf8_scalar as_bytes_from_utf8)

end
