(* ===== verification/Text_File.thy ===== *)
theory Text_File
  imports Utf8
begin

text \<open>
  \<open>crates/remote-exec-host/src/text_file.rs\<close>: reading a file as text in a detected encoding and
  writing updated text back in the same one. The libraries \<open>encoding_rs\<close> and \<open>chardetng\<close> are the
  fields of the parameter \<open>encodings\<close>. Error messages are left out, their kinds kept.
\<close>

section \<open>Definitions\<close>

datatype io_error = IoNotFound | IoOther

datatype text_file_error = TfIo io_error | TfDecode | TfEncode | TfBinary

datatype text_file_error_kind = KindIo | KindDecode | KindEncode | KindBinary

definition text_error_kind :: "text_file_error \<Rightarrow> text_file_error_kind" where
  "text_error_kind e = (case e of TfIo _ \<Rightarrow> KindIo | TfDecode \<Rightarrow> KindDecode
     | TfEncode \<Rightarrow> KindEncode | TfBinary \<Rightarrow> KindBinary)"

text \<open>
  What the code asks of the libraries: the encoding and length of a byte order mark, the
  guessed encoding of a text, strict decoding, and encoding with a flag for replaced characters.
\<close>

record 'enc encodings =
  for_bom :: "bytes \<Rightarrow> ('enc \<times> nat) option"
  guess :: "bytes \<Rightarrow> 'enc"
  decode_strict :: "'enc \<Rightarrow> bytes \<Rightarrow> rstr option"
  lib_encode :: "'enc \<Rightarrow> rstr \<Rightarrow> bytes \<times> bool"
  utf_16le :: 'enc
  utf_16be :: 'enc

datatype 'enc text_encoding = Utf8 | Detected 'enc bytes

record 'enc text_file =
  tf_text :: rstr
  tf_encoding :: "'enc text_encoding"

text \<open>\<open>str::encode_utf16\<close>.\<close>

definition utf16_units :: "uchar \<Rightarrow> nat list" where
  "utf16_units c = (if c < 65536 then [c]
     else [55296 + (c - 65536) div 1024, 56320 + (c - 65536) mod 1024])"

definition encode_utf16 :: "rstr \<Rightarrow> nat list" where
  "encode_utf16 s = concat (map utf16_units s)"

definition to_be_bytes16 :: "nat \<Rightarrow> bytes" where
  "to_be_bytes16 unit = be_bytes 2 unit"

definition to_le_bytes16 :: "nat \<Rightarrow> bytes" where
  "to_le_bytes16 unit = rev (be_bytes 2 unit)"

definition encode_text_for_encoding ::
  "'enc encodings \<Rightarrow> 'enc \<Rightarrow> rstr \<Rightarrow> (text_file_error, bytes) result" where
  "encode_text_for_encoding lib encoding text =
     (if encoding = utf_16le lib then Inr (concat (map to_le_bytes16 (encode_utf16 text)))
      else if encoding = utf_16be lib then Inr (concat (map to_be_bytes16 (encode_utf16 text)))
      else case lib_encode lib encoding text of
          (encoded, had_errors) \<Rightarrow> if had_errors then Inl TfEncode else Inr encoded)"

definition is_control :: "uchar \<Rightarrow> bool" where
  "is_control c \<longleftrightarrow> c < 32 \<or> (127 \<le> c \<and> c < 160)"

definition looks_like_text :: "rstr \<Rightarrow> bool" where
  "looks_like_text text =
     (if 0 \<in> set text then False
      else let suspicious_controls =
                 length (filter (\<lambda>ch. is_control ch \<and> ch \<notin> {c_lf, c_cr, c_tab, 12}) text);
               char_count = length text
        in suspicious_controls = 0 \<or> suspicious_controls * 20 \<le> max char_count 1)"

definition decode_without_replacement ::
  "'enc encodings \<Rightarrow> 'enc \<Rightarrow> bytes \<Rightarrow> (text_file_error, rstr) result" where
  "decode_without_replacement lib encoding bs = ok_or (decode_strict lib encoding bs) TfDecode"

definition detect_encoding :: "'enc encodings \<Rightarrow> bytes \<Rightarrow> 'enc \<times> nat" where
  "detect_encoding lib bs = (case for_bom lib bs of
      Some (encoding, bom_len) \<Rightarrow> (encoding, bom_len)
    | None \<Rightarrow> (guess lib bs, 0))"

definition from_bytes ::
  "'enc encodings \<Rightarrow> bytes \<Rightarrow> bool \<Rightarrow> (text_file_error, 'enc text_file) result" where
  "from_bytes lib bs allow_encoding_autodetect = (case from_utf8 bs of
      Some text \<Rightarrow> Inr \<lparr>tf_text = text, tf_encoding = Utf8\<rparr>
    | None \<Rightarrow>
        if \<not> allow_encoding_autodetect then Inl TfDecode
        else case detect_encoding lib bs of (encoding, bom_len) \<Rightarrow>
          let content_bytes = drop bom_len bs
          in bindR (decode_without_replacement lib encoding content_bytes) (\<lambda>text.
             bindR (ensureR (looks_like_text text) TfBinary) (\<lambda>_.
             bindR (encode_text_for_encoding lib encoding text) (\<lambda>again.
             bindR (ensureR (again = content_bytes) TfDecode) (\<lambda>_.
               Inr \<lparr>tf_text = text, tf_encoding = Detected encoding (take bom_len bs)\<rparr>)))))"

definition tf_encode :: "'enc encodings \<Rightarrow> 'enc text_file \<Rightarrow> rstr \<Rightarrow> (text_file_error, bytes) result" where
  "tf_encode lib file text = (case tf_encoding file of
      Utf8 \<Rightarrow> Inr (as_bytes text)
    | Detected encoding bom \<Rightarrow>
        bindR (encode_text_for_encoding lib encoding text) (\<lambda>encoded. Inr (bom @ encoded)))"

section \<open>Properties\<close>

text \<open>
  C8: text files are read without loss. Whatever the encoding libraries answer, if a file's
  bytes are accepted as text, then writing that text back in the remembered encoding gives the
  same bytes, byte order mark included.
\<close>

theorem text_file_lossless:
  assumes "from_bytes lib bs autodetect = Inr file"
  shows "tf_encode lib file (tf_text file) = Inr bs"
proof (cases "from_utf8 bs")
  case (Some t)
  with assms show ?thesis by (auto simp: from_bytes_def tf_encode_def as_bytes_from_utf8)
next
  case None
  with assms show ?thesis
    by (auto simp: from_bytes_def tf_encode_def bindR_eq_Inr ensureR_eq Let_def split: if_splits prod.splits)
qed

text \<open>A library with one single-byte encoding besides UTF-16, for examples.\<close>

definition latin1_lib :: "nat encodings" where
  "latin1_lib = \<lparr>for_bom = (\<lambda>bs. if take 2 bs = [255, 254] then Some (1, 2) else None),
     guess = (\<lambda>_. 0), decode_strict = (\<lambda>e bs. if e = 0 then Some (map unat bs) else None),
     lib_encode = (\<lambda>e s. (map word_of_nat s, list_ex (\<lambda>c. c \<ge> 256) s)), utf_16le = 1, utf_16be = 2\<rparr>"

theorem text_file_lossless_witness:
  "from_bytes latin1_lib [233, 10] True = Inr \<lparr>tf_text = [233, 10], tf_encoding = Detected 0 []\<rparr> \<and>
   tf_encode latin1_lib \<lparr>tf_text = [233, 10], tf_encoding = Detected 0 []\<rparr> [233, 10] = Inr [233, 10]"
proof -
  have f: "from_bytes latin1_lib [233, 10] True = Inr \<lparr>tf_text = [233, 10], tf_encoding = Detected 0 []\<rparr>"
    by code_simp
  from text_file_lossless [OF f] f show ?thesis by simp
qed

end
