(* ===== verification/Host_State.thy ===== *)
theory Host_State
  imports Host_Path Text_File
begin

text \<open>
  What the tools of the host crate share: the configuration they read from \<open>AppState\<close>, the sandbox
  check of \<open>crates/remote-exec-host/src/exec/policy.rs\<close>, and the file system as a parameter. The
  operations of \<open>tokio::fs\<close> act on an arbitrary world and may fail in every call.
\<close>

record file_meta =
  is_file :: bool
  meta_len :: nat

record 'w fs_ops =
  fs_canon :: "'w \<Rightarrow> pathbuf \<Rightarrow> canon_outcome"
  fs_metadata :: "'w \<Rightarrow> pathbuf \<Rightarrow> (io_error, file_meta) result"
  fs_read :: "'w \<Rightarrow> pathbuf \<Rightarrow> (io_error, bytes) result"
  fs_create_dir_all :: "'w \<Rightarrow> pathbuf \<Rightarrow> 'w \<times> (io_error, unit) result"
  fs_write :: "'w \<Rightarrow> pathbuf \<Rightarrow> bytes \<Rightarrow> 'w \<times> (io_error, unit) result"
  fs_remove_file :: "'w \<Rightarrow> pathbuf \<Rightarrow> 'w \<times> (io_error, unit) result"

record ('w, 'enc) host =
  hs_fs :: "'w fs_ops"
  hs_enc :: "'enc encodings"
  hs_default_workdir :: pathbuf
  hs_autodetect :: bool
  hs_allow_apply_patch :: bool
  hs_sandbox :: "compiled_sandbox option"
  hs_instance_id :: rstr

definition resolve_workdir_for_operation :: "('w, 'enc) host \<Rightarrow> rstr option \<Rightarrow> resolved_host_path" where
  "resolve_workdir_for_operation h workdir = (case workdir of
      None \<Rightarrow> \<lparr>rhp_raw = path_text (hs_default_workdir h), rhp_path = hs_default_workdir h\<rparr>
    | Some raw \<Rightarrow> resolve_input_path_for_operation (hs_default_workdir h) raw)"

definition ensure_resolved_sandbox_access ::
  "('w, 'enc) host \<Rightarrow> 'w \<Rightarrow> sandbox_access \<Rightarrow> resolved_host_path \<Rightarrow> (sandbox_error, unit) result" where
  "ensure_resolved_sandbox_access h w access p =
     authorize_resolved_path (fs_canon (hs_fs h) w) (hs_sandbox h) access p"

text \<open>Reading a text file: \<open>TextFile::read\<close>.\<close>

definition text_file_read ::
  "('w, 'enc) host \<Rightarrow> 'w \<Rightarrow> pathbuf \<Rightarrow> (text_file_error, 'enc text_file) result" where
  "text_file_read h w path =
     bindR (map_err TfIo (fs_read (hs_fs h) w path)) (\<lambda>bs. from_bytes (hs_enc h) bs (hs_autodetect h))"

section \<open>Permitted changes\<close>

definition may_write :: "('w, 'enc) host \<Rightarrow> 'w \<Rightarrow> pathbuf \<Rightarrow> bool" where
  "may_write h w p \<longleftrightarrow> authorize_path (fs_canon (hs_fs h) w) (hs_sandbox h) Write p = Inr ()"

text \<open>
  A property of worlds is closed under permitted changes when it survives every change of a path
  that was authorised in a world with the property.
\<close>

definition closed_under_permitted :: "('w, 'enc) host \<Rightarrow> ('w \<Rightarrow> bool) \<Rightarrow> bool" where
  "closed_under_permitted h P \<longleftrightarrow>
     (\<forall>w0 w p. P w0 \<longrightarrow> may_write h w0 p \<longrightarrow> P w \<longrightarrow>
       (\<forall>c. P (fst (fs_write (hs_fs h) w p c))) \<and> P (fst (fs_remove_file (hs_fs h) w p)) \<and>
       (\<forall>d. path_parent p = Some d \<longrightarrow> P (fst (fs_create_dir_all (hs_fs h) w d))))"

lemma permitted_fs:
  assumes "closed_under_permitted h P" and "P w0" and "may_write h w0 p" and "P w"
  shows "P (fst (fs_write (hs_fs h) w p c))" and "P (fst (fs_remove_file (hs_fs h) w p))"
    and "path_parent p = Some d \<Longrightarrow> P (fst (fs_create_dir_all (hs_fs h) w d))"
  using assms by (auto simp: closed_under_permitted_def)

lemma sandboxed_step:
  assumes "P w" and "may_write h w (rhp_path p) \<Longrightarrow> P (fst (f w ()))"
  shows "P (fst (andThen (w, map_err g (ensure_resolved_sandbox_access h w Write p)) f))"
  using assms
  by (cases "ensure_resolved_sandbox_access h w Write p")
    (auto simp: ensure_resolved_sandbox_access_def authorize_resolved_path_def may_write_def)

text \<open>
  A file system whose world records the paths that were changed: every directory exists, no
  regular file does. It serves as the instance of the parameter in examples.
\<close>

definition log_fs :: "pathbuf list fs_ops" where
  "log_fs = \<lparr>fs_canon = (\<lambda>w p. CanonOk p), fs_metadata = (\<lambda>w p. Inl IoNotFound),
     fs_read = (\<lambda>w p. Inr (as_bytes (lit ''old''))), fs_create_dir_all = (\<lambda>w p. (w, Inr ())),
     fs_write = (\<lambda>w p c. (w @ [p], Inr ())), fs_remove_file = (\<lambda>w p. (w @ [p], Inr ()))\<rparr>"

definition log_host :: "(pathbuf list, nat) host" where
  "log_host = \<lparr>hs_fs = log_fs, hs_enc = latin1_lib, hs_default_workdir = [RootDir, Normal (lit ''w'')],
     hs_autodetect = False, hs_allow_apply_patch = True, hs_sandbox = Some sample_sandbox,
     hs_instance_id = lit ''d1''\<rparr>"

definition inside_w :: "pathbuf list \<Rightarrow> bool" where
  "inside_w log = list_all (\<lambda>p. path_is_within (lexical_normalize p) [RootDir, Normal (lit ''w'')]) log"

lemma log_host_may_write:
  assumes "may_write log_host w p"
  shows "path_is_within (lexical_normalize p) [RootDir, Normal (lit ''w'')]"
  using assms
  by (auto simp: may_write_def log_host_def log_fs_def authorize_Inr canonicalize_spec resolved_by_found
      sample_sandbox_def sandbox_list_def lexical_normalize_id lexical_normalize_normal)

lemma log_host_closed: "closed_under_permitted log_host inside_w"
  using log_host_may_write
  by (auto simp: closed_under_permitted_def inside_w_def) (auto simp: log_host_def log_fs_def)

end
