(* ===== verification/Patch_Matcher.thy ===== *)
theory Patch_Matcher
  imports Prelude
begin

text \<open>
  The line matcher of \<open>apply_patch\<close> (\<open>crates/remote-exec-host/src/patch/matcher.rs\<close>).
  A pattern of lines is sought in a file in four passes of decreasing strictness: exact
  equality, equality up to trailing white space, up to surrounding white space, and up to
  typographic variants of spaces, dashes and quotes. The theory states what a pass finds, that
  the passes are ordered by implication, and the contract \<open>seek_sequence\<close> gives the
  patch engine.
\<close>

section \<open>Definitions\<close>

definition normalize_char :: "uchar \<Rightarrow> uchar" where
  "normalize_char ch =
     (if ch = 160 \<or> (8192 \<le> ch \<and> ch \<le> 8202) \<or> ch = 8239 \<or> ch = 8287 \<or> ch = 12288 then c_space
      else if ch = 8208 \<or> ch = 8209 \<or> ch = 8210 \<or> ch = 8211 \<or> ch = 8212 \<or> ch = 8722 then c_minus
      else if ch = 8216 \<or> ch = 8217 \<or> ch = 8219 \<or> ch = 8242 then c_squote
      else if ch = 8220 \<or> ch = 8221 \<or> ch = 8223 \<or> ch = 8243 then c_dquote
      else ch)"

definition normalize_unicode :: "rstr \<Rightarrow> rstr" where
  "normalize_unicode value = map normalize_char value"

text \<open>The closure \<open>is_match\<close> of \<open>find_match\<close>: the window of lines that starts at an index.\<close>

definition is_match_at ::
  "(rstr \<Rightarrow> rstr \<Rightarrow> bool) \<Rightarrow> rstr list \<Rightarrow> rstr list \<Rightarrow> nat \<Rightarrow> bool" where
  "is_match_at matches lines pattern idx =
     list_all (\<lambda>(left, right). matches left right)
       (zip (take (length pattern) (drop idx lines)) pattern)"

definition find_match ::
  "rstr list \<Rightarrow> rstr list \<Rightarrow> nat \<Rightarrow> nat \<Rightarrow> bool \<Rightarrow> (rstr \<Rightarrow> rstr \<Rightarrow> bool) \<Rightarrow> nat option" where
  "find_match lines pattern start max_start eof matches =
     (if eof then find (is_match_at matches lines pattern) (rev [start..<Suc max_start])
      else find (is_match_at matches lines pattern) [start..<Suc max_start])"

text \<open>The four comparisons, as the closures of \<open>seek_sequence\<close> write them.\<close>

definition exact_eq :: "rstr \<Rightarrow> rstr \<Rightarrow> bool" where
  "exact_eq left right \<longleftrightarrow> left = right"

definition trim_end_eq :: "rstr \<Rightarrow> rstr \<Rightarrow> bool" where
  "trim_end_eq left right \<longleftrightarrow> trim_end left = trim_end right"

definition trim_eq :: "rstr \<Rightarrow> rstr \<Rightarrow> bool" where
  "trim_eq left right \<longleftrightarrow> trim left = trim right"

definition unicode_eq :: "rstr \<Rightarrow> rstr \<Rightarrow> bool" where
  "unicode_eq left right \<longleftrightarrow> normalize_unicode (trim left) = normalize_unicode (trim right)"

definition or_else :: "'a option \<Rightarrow> 'a option \<Rightarrow> 'a option" where
  "or_else x y = (case x of None \<Rightarrow> y | Some a \<Rightarrow> Some a)"

definition seek_sequence :: "rstr list \<Rightarrow> rstr list \<Rightarrow> nat \<Rightarrow> bool \<Rightarrow> nat option" where
  "seek_sequence lines pattern start eof =
     (if pattern = [] then Some (min start (length lines))
      else if length lines < length pattern then None
      else let max_start = length lines - length pattern;
               start = min start (length lines)
           in if max_start < start then None
              else or_else (find_match lines pattern start max_start eof exact_eq)
                  (or_else (find_match lines pattern start max_start eof trim_end_eq)
                  (or_else (find_match lines pattern start max_start eof trim_eq)
                           (find_match lines pattern start max_start eof unicode_eq))))"

section \<open>One pass\<close>

lemma is_match_at_iff:
  assumes "idx + length pattern \<le> length lines"
  shows "is_match_at m lines pattern idx \<longleftrightarrow>
    (\<forall>k < length pattern. m (lines ! (idx + k)) (pattern ! k))"
  using assms by (auto simp: is_match_at_def list_all_length add.commute)

lemma is_match_at_mono:
  assumes "is_match_at m lines pattern idx" and "\<And>l r. m l r \<Longrightarrow> m' l r"
  shows "is_match_at m' lines pattern idx"
  using assms by (auto simp: is_match_at_def list_all_iff)

lemma find_Some_in: "find P xs = Some x \<Longrightarrow> P x \<and> x \<in> set xs"
  by (auto simp: find_Some_iff)

lemma find_upt_first:
  "find P [a..<b] = Some i \<longleftrightarrow> a \<le> i \<and> i < b \<and> P i \<and> (\<forall>j. a \<le> j \<and> j < i \<longrightarrow> \<not> P j)"
proof
  assume "find P [a..<b] = Some i"
  then obtain k where k: "k < b - a" "P (a + k)" "i = a + k" "\<forall>j<k. \<not> P (a + j)"
    by (auto simp: find_Some_iff)
  have "\<not> P j" if "a \<le> j" "j < i" for j
    using k(3,4) that by (metis add_less_cancel_left le_Suc_ex)
  with k show "a \<le> i \<and> i < b \<and> P i \<and> (\<forall>j. a \<le> j \<and> j < i \<longrightarrow> \<not> P j)" by auto
next
  assume "a \<le> i \<and> i < b \<and> P i \<and> (\<forall>j. a \<le> j \<and> j < i \<longrightarrow> \<not> P j)"
  then show "find P [a..<b] = Some i"
    by (auto simp: find_Some_iff intro!: exI [of _ "i - a"])
qed

lemma find_rev_upt_last:
  "find P (rev [a..<b]) = Some i \<longleftrightarrow> a \<le> i \<and> i < b \<and> P i \<and> (\<forall>j. i < j \<and> j < b \<longrightarrow> \<not> P j)"
proof (induction b)
  case 0
  then show ?case by simp
next
  case (Suc b)
  show ?case
  proof (cases "a \<le> b")
    case True
    then show ?thesis using Suc by (auto simp: less_Suc_eq)
  next
    case False
    then show ?thesis by auto
  qed
qed

lemma find_match_Some:
  "find_match lines pattern start max_start eof m = Some i \<longleftrightarrow>
     start \<le> i \<and> i \<le> max_start \<and> is_match_at m lines pattern i \<and>
     (\<forall>j. start \<le> j \<and> j \<le> max_start \<and> is_match_at m lines pattern j \<longrightarrow>
       (if eof then j \<le> i else i \<le> j))"
proof (cases eof)
  case True
  have "find_match lines pattern start max_start eof m = Some i \<longleftrightarrow>
      start \<le> i \<and> i \<le> max_start \<and> is_match_at m lines pattern i \<and>
      (\<forall>j. i < j \<and> j \<le> max_start \<longrightarrow> \<not> is_match_at m lines pattern j)"
    using True by (simp add: find_match_def find_rev_upt_last less_Suc_eq_le del: upt_Suc)
  also have "\<dots> \<longleftrightarrow> start \<le> i \<and> i \<le> max_start \<and> is_match_at m lines pattern i \<and>
      (\<forall>j. start \<le> j \<and> j \<le> max_start \<and> is_match_at m lines pattern j \<longrightarrow> j \<le> i)"
    by (metis leI less_le_not_le order.trans order_less_imp_le)
  finally show ?thesis using True by simp
next
  case False
  have "find_match lines pattern start max_start eof m = Some i \<longleftrightarrow>
      start \<le> i \<and> i \<le> max_start \<and> is_match_at m lines pattern i \<and>
      (\<forall>j. start \<le> j \<and> j < i \<longrightarrow> \<not> is_match_at m lines pattern j)"
    using False by (simp add: find_match_def find_upt_first less_Suc_eq_le del: upt_Suc)
  also have "\<dots> \<longleftrightarrow> start \<le> i \<and> i \<le> max_start \<and> is_match_at m lines pattern i \<and>
      (\<forall>j. start \<le> j \<and> j \<le> max_start \<and> is_match_at m lines pattern j \<longrightarrow> i \<le> j)"
    by (metis leI less_le_not_le order.trans order_less_imp_le)
  finally show ?thesis using False by simp
qed

lemma find_match_None:
  "find_match lines pattern start max_start eof m = None \<longleftrightarrow>
     (\<forall>j. start \<le> j \<and> j \<le> max_start \<longrightarrow> \<not> is_match_at m lines pattern j)"
  by (auto simp: find_match_def find_None_iff less_Suc_eq_le simp del: upt_Suc)

section \<open>The passes are ordered\<close>

text \<open>Trimming both ends does not depend on which end is trimmed first.\<close>

lemma dropWhile_rev_dropWhile:
  "rev (dropWhile p (rev (dropWhile p s))) = dropWhile p (rev (dropWhile p (rev s)))"
proof (induction s)
  case Nil
  then show ?case by simp
next
  case (Cons x xs)
  show ?case
  proof (cases "p x")
    case True
    show ?thesis
    proof (cases "\<forall>y \<in> set xs. p y")
      case True
      with \<open>p x\<close> have "dropWhile p (x # xs) = []" and "dropWhile p (rev (x # xs)) = []" by auto
      then show ?thesis by (simp only: rev.simps(1) dropWhile.simps(1))
    next
      case False
      then have "dropWhile p (rev xs @ [x]) = dropWhile p (rev xs) @ [x]"
        by (auto simp: dropWhile_append)
      with Cons \<open>p x\<close> show ?thesis by simp
    qed
  next
    case False
    then have "dropWhile p (rev (x # xs)) = dropWhile p (rev xs) @ [x]"
      by (cases "\<forall>y \<in> set (rev xs). p y") (auto simp: dropWhile_append)
    with False show ?thesis by simp
  qed
qed

lemma trim_via_trim_end: "trim s = trim_start (trim_end s)"
  by (simp add: trim_def trim_start_def trim_end_def trim_start_matches_def trim_end_matches_def
      dropWhile_rev_dropWhile)

lemma exact_imp_trim_end: "exact_eq l r \<Longrightarrow> trim_end_eq l r"
  by (simp add: exact_eq_def trim_end_eq_def)

lemma trim_end_imp_trim: "trim_end_eq l r \<Longrightarrow> trim_eq l r"
  by (simp add: trim_end_eq_def trim_eq_def trim_via_trim_end)

lemma trim_imp_unicode: "trim_eq l r \<Longrightarrow> unicode_eq l r"
  by (simp add: trim_eq_def unicode_eq_def)

lemmas pass_order = exact_imp_trim_end trim_end_imp_trim trim_imp_unicode

lemma exact_match_is_unicode_match:
  "is_match_at exact_eq ls p i \<Longrightarrow> is_match_at unicode_eq ls p i"
  "is_match_at trim_end_eq ls p i \<Longrightarrow> is_match_at unicode_eq ls p i"
  "is_match_at trim_eq ls p i \<Longrightarrow> is_match_at unicode_eq ls p i"
  by (auto elim!: is_match_at_mono intro: pass_order)

section \<open>The contract of \<open>seek_sequence\<close>\<close>

text \<open>The passes in the order the matcher tries them.\<close>

definition passes :: "(rstr \<Rightarrow> rstr \<Rightarrow> bool) list" where
  "passes = [exact_eq, trim_end_eq, trim_eq, unicode_eq]"

text \<open>Index \<open>i\<close> is the window a pass selects: the first in range, or the last for an end-of-file hunk.\<close>

definition selects ::
  "(rstr \<Rightarrow> rstr \<Rightarrow> bool) \<Rightarrow> rstr list \<Rightarrow> rstr list \<Rightarrow> nat \<Rightarrow> bool \<Rightarrow> nat \<Rightarrow> bool" where
  "selects m lines pattern start eof i \<longleftrightarrow>
     start \<le> i \<and> i + length pattern \<le> length lines \<and> is_match_at m lines pattern i \<and>
     (\<forall>j. start \<le> j \<and> j + length pattern \<le> length lines \<and> is_match_at m lines pattern j \<longrightarrow>
       (if eof then j \<le> i else i \<le> j))"

definition no_match ::
  "(rstr \<Rightarrow> rstr \<Rightarrow> bool) \<Rightarrow> rstr list \<Rightarrow> rstr list \<Rightarrow> nat \<Rightarrow> bool" where
  "no_match m lines pattern start \<longleftrightarrow>
     (\<forall>j. start \<le> j \<and> j + length pattern \<le> length lines \<longrightarrow> \<not> is_match_at m lines pattern j)"

lemma or_else_eq:
  "or_else x y = Some a \<longleftrightarrow> x = Some a \<or> (x = None \<and> y = Some a)"
  "or_else x y = None \<longleftrightarrow> x = None \<and> y = None"
  by (auto simp: or_else_def split: option.splits)

lemma find_match_selects:
  assumes "length pattern \<le> length lines"
  shows "find_match lines pattern start (length lines - length pattern) eof m = Some i \<longleftrightarrow>
      selects m lines pattern start eof i"
    and "find_match lines pattern start (length lines - length pattern) eof m = None \<longleftrightarrow>
      no_match m lines pattern start"
  using assms
  by (simp_all add: find_match_Some find_match_None selects_def no_match_def le_diff_conv2 conj_assoc)

lemma no_match_vacuous:
  "pattern \<noteq> [] \<Longrightarrow> length lines < start + length pattern \<Longrightarrow> no_match m lines pattern start"
  by (auto simp: no_match_def)

lemma selects_not_no_match: "selects m ls p s e i \<Longrightarrow> \<not> no_match m ls p s"
  by (auto simp: selects_def no_match_def)

lemma seek_sequence_cases:
  assumes "pattern \<noteq> []"
  shows "seek_sequence lines pattern start eof =
    (if length lines < start + length pattern then None
     else or_else (find_match lines pattern start (length lines - length pattern) eof exact_eq)
         (or_else (find_match lines pattern start (length lines - length pattern) eof trim_end_eq)
         (or_else (find_match lines pattern start (length lines - length pattern) eof trim_eq)
                  (find_match lines pattern start (length lines - length pattern) eof unicode_eq))))"
proof (cases "length lines < start + length pattern")
  case True
  with assms show ?thesis by (cases pattern) (auto simp: seek_sequence_def Let_def min_def)
next
  case False
  with assms show ?thesis by (auto simp: seek_sequence_def Let_def min_def)
qed

text \<open>
  What the patch engine relies on: a found window lies inside the file and not before the
  requested start, and an absent window matches under no pass.
\<close>

locale line_seeker =
  fixes seek :: "rstr list \<Rightarrow> rstr list \<Rightarrow> nat \<Rightarrow> bool \<Rightarrow> nat option"
    and agrees :: "rstr \<Rightarrow> rstr \<Rightarrow> bool"
  assumes seek_nil: "seek ls [] s e = Some (min s (length ls))"
    and seek_window: "p \<noteq> [] \<Longrightarrow> seek ls p s e = Some i \<Longrightarrow>
      s \<le> i \<and> i + length p \<le> length ls \<and> is_match_at agrees ls p i"
    and seek_absent: "p \<noteq> [] \<Longrightarrow> seek ls p s e = None \<Longrightarrow> no_match agrees ls p s"
begin

lemma seek_in_range: "seek ls p s e = Some i \<Longrightarrow> i + length p \<le> length ls"
  using seek_nil [of ls s e] seek_window [of p ls s e i] by (cases "p = []") auto

lemma seek_at_least: "seek ls p s e = Some i \<Longrightarrow> min s (length ls) \<le> i"
  using seek_nil [of ls s e] seek_window [of p ls s e i] by (cases "p = []") auto

lemma seek_succeeds:
  assumes "p \<noteq> []" and "s \<le> i" and "i + length p \<le> length ls" and "is_match_at agrees ls p i"
  shows "\<exists>j. seek ls p s e = Some j"
proof (cases "seek ls p s e")
  case None
  with assms(1) have "no_match agrees ls p s" by (rule seek_absent)
  with assms(2-4) show ?thesis by (auto simp: no_match_def)
next
  case (Some j)
  then show ?thesis by simp
qed

end

lemma seek_sequence_nil: "seek_sequence ls [] s e = Some (min s (length ls))"
  by (simp add: seek_sequence_def)

lemma seek_sequence_window:
  assumes "p \<noteq> []" and "seek_sequence ls p s e = Some i"
  shows "s \<le> i \<and> i + length p \<le> length ls \<and> is_match_at unicode_eq ls p i"
proof -
  have len: "s + length p \<le> length ls"
    using assms by (auto simp: seek_sequence_cases split: if_splits)
  then have "selects exact_eq ls p s e i \<or> selects trim_end_eq ls p s e i \<or>
      selects trim_eq ls p s e i \<or> selects unicode_eq ls p s e i"
    using assms by (auto simp: seek_sequence_cases or_else_eq find_match_selects)
  then show ?thesis
    by (auto simp: selects_def dest: exact_match_is_unicode_match)
qed

lemma seek_sequence_absent:
  assumes "p \<noteq> []"
  shows "seek_sequence ls p s e = None \<longleftrightarrow> no_match unicode_eq ls p s"
proof (cases "length ls < s + length p")
  case True
  with assms show ?thesis by (simp add: seek_sequence_cases no_match_vacuous)
next
  case False
  have "no_match unicode_eq ls p s \<Longrightarrow> no_match m ls p s" if "m \<in> set passes" for m
    using that by (auto simp: no_match_def passes_def dest: exact_match_is_unicode_match)
  with False assms show ?thesis
    by (auto simp: seek_sequence_cases or_else_eq find_match_selects passes_def)
qed

interpretation matcher: line_seeker seek_sequence unicode_eq
  by unfold_locales (simp_all add: seek_sequence_nil seek_sequence_window seek_sequence_absent)

lemma passes_split:
  "(\<exists>a m b. passes = a @ m # b \<and> P m \<and> list_all Q a) \<longleftrightarrow>
    P exact_eq \<or> Q exact_eq \<and> (P trim_end_eq \<or> Q trim_end_eq \<and>
      (P trim_eq \<or> Q trim_eq \<and> P unicode_eq))"
  unfolding passes_def by (simp only: first_split) simp

section \<open>Properties\<close>

text \<open>
  C6: The matcher is exactly the four-pass search: it returns \<open>i\<close> just when some pass selects
  \<open>i\<close> (its first window at or after \<open>start\<close>, or its last one for an end-of-file hunk) and every
  stricter pass matches nowhere in range.
\<close>

theorem seek_sequence_spec:
  assumes "pattern \<noteq> []"
  shows "seek_sequence lines pattern start eof = Some i \<longleftrightarrow>
    (\<exists>stricter m weaker. passes = stricter @ m # weaker \<and> selects m lines pattern start eof i \<and>
       list_all (\<lambda>m'. no_match m' lines pattern start) stricter)"
proof (cases "length lines < start + length pattern")
  case True
  with assms show ?thesis by (auto simp: seek_sequence_cases selects_def)
next
  case False
  then have le: "length pattern \<le> length lines" by simp
  from False assms show ?thesis
    unfolding passes_split by (simp add: seek_sequence_cases or_else_eq find_match_selects [OF le])
qed

theorem seek_sequence_spec_witness:
  "seek_sequence [lit ''a'', lit ''b '', lit ''b''] [lit ''b''] 0 False = Some 2 \<and>
   (\<exists>stricter m weaker. passes = stricter @ m # weaker \<and>
      selects m [lit ''a'', lit ''b '', lit ''b''] [lit ''b''] 0 False 2 \<and>
      list_all (\<lambda>m'. no_match m' [lit ''a'', lit ''b '', lit ''b''] [lit ''b''] 0) stricter)"
proof -
  have s: "seek_sequence [lit ''a'', lit ''b '', lit ''b''] [lit ''b''] 0 False = Some 2"
    by code_simp
  have "[lit ''b''] \<noteq> []" by simp
  from seek_sequence_spec [OF this] s show ?thesis by blast
qed

end
