(* ===== verification/Patch_Parser.thy ===== *)
theory Patch_Parser
  imports Prelude
begin

text \<open>
  The Codex-style patch parser (\<open>crates/remote-exec-host/src/patch/parser.rs\<close>). The parser
  is a cursor over the lines of the patch; every operation takes the lines and the index and
  returns what it parsed with the new index. Reading the current line outside the vector is a
  panic in Rust and the error \<open>IndexOutOfBounds\<close> here; \<open>parse_patch\<close> is shown never to
  reach it. The theory also gives a printer for patches and proves that parsing inverts it.
\<close>

section \<open>Data\<close>

record update_chunk =
  change_context :: "rstr option"
  old_lines :: "rstr list"
  new_lines :: "rstr list"
  is_end_of_file :: bool

datatype patch_action =
    Add rstr "rstr list"
  | Delete rstr
  | Update rstr "rstr option" "update_chunk list"

record parsed_patch =
  actions :: "patch_action list"
  environment_id :: "rstr option"

datatype patch_parse_error =
    InvalidPatchHeader
  | InvalidPatchFooter
  | EmptyEnvironmentId
  | UnsupportedPatchLine rstr
  | AddLineWithoutPlus
  | EmptyUpdate rstr
  | InvalidHunkHeader rstr
  | InvalidHunkLine rstr
  | HunkWithoutChanges rstr
  | IndexOutOfBounds

section \<open>Line classification\<close>

definition trim_patch_whitespace :: "rstr \<Rightarrow> rstr" where
  "trim_patch_whitespace line = trim line"

definition strip_control_prefix :: "rstr \<Rightarrow> rstr \<Rightarrow> rstr option" where
  "strip_control_prefix line pref =
     map_option trim (strip_prefix pref (trim_patch_whitespace line))"

definition is_structural_control_line :: "rstr \<Rightarrow> bool" where
  "is_structural_control_line line \<longleftrightarrow> starts_with (lit ''*** '') (trim_patch_whitespace line)"

definition parse_hunk_header :: "rstr \<Rightarrow> (patch_parse_error, rstr option) result" where
  "parse_hunk_header line =
     (let line = trim_patch_whitespace line
      in if line = lit ''@@'' then Inr None
         else (case strip_prefix (lit ''@@ '') line of
                 Some rest \<Rightarrow> Inr (Some rest)
               | None \<Rightarrow> Inl (InvalidHunkHeader line)))"

definition parse_update_chunk_line ::
  "rstr \<Rightarrow> rstr list \<Rightarrow> rstr list \<Rightarrow> (patch_parse_error, rstr list \<times> rstr list) result" where
  "parse_update_chunk_line line old new =
     (case line of
        [] \<Rightarrow> Inr (old @ [[]], new @ [[]])
      | c # value \<Rightarrow>
          if c = c_space then Inr (old @ [value], new @ [value])
          else if c = c_minus then Inr (old @ [value], new)
          else if c = c_plus then Inr (old, new @ [value])
          else Inl (InvalidHunkLine line))"

section \<open>The cursor\<close>

definition at_body_end :: "rstr list \<Rightarrow> nat \<Rightarrow> bool" where
  "at_body_end ls i \<longleftrightarrow> i + 1 \<ge> length ls"

definition current :: "rstr list \<Rightarrow> nat \<Rightarrow> (patch_parse_error, rstr) result" where
  "current ls i = (if i < length ls then Inr (ls ! i) else Inl IndexOutOfBounds)"

definition parse_environment_id ::
  "rstr list \<Rightarrow> nat \<Rightarrow> (patch_parse_error, rstr option \<times> nat) result" where
  "parse_environment_id ls i =
     (if at_body_end ls i then Inr (None, i)
      else bindR (current ls i) (\<lambda>line.
        case strip_control_prefix line (lit ''*** Environment ID:'') of
          None \<Rightarrow> Inr (None, i)
        | Some env \<Rightarrow> bindR (ensureR (env \<noteq> []) EmptyEnvironmentId) (\<lambda>_. Inr (Some env, Suc i))))"

function parse_add_lines ::
  "rstr list \<Rightarrow> nat \<Rightarrow> rstr list \<Rightarrow> (patch_parse_error, rstr list \<times> nat) result" where
  "parse_add_lines ls i added =
     (if at_body_end ls i then Inr (added, i)
      else bindR (current ls i) (\<lambda>raw.
        if is_structural_control_line raw then Inr (added, i)
        else bindR (ok_or (strip_prefix [c_plus] raw) AddLineWithoutPlus) (\<lambda>value.
          parse_add_lines ls (Suc i) (added @ [value]))))"
  by pat_completeness auto
termination
  by (relation "measure (\<lambda>(ls, i, added). length ls - i)") (auto simp: at_body_end_def)

definition parse_add_file ::
  "rstr list \<Rightarrow> nat \<Rightarrow> rstr \<Rightarrow> (patch_parse_error, patch_action \<times> nat) result" where
  "parse_add_file ls i path =
     bindR (parse_add_lines ls (Suc i) []) (\<lambda>(added, j). Inr (Add path added, j))"

definition parse_delete_file :: "nat \<Rightarrow> rstr \<Rightarrow> patch_action \<times> nat" where
  "parse_delete_file i path = (Delete path, Suc i)"

definition parse_move_to ::
  "rstr list \<Rightarrow> nat \<Rightarrow> (patch_parse_error, rstr option \<times> nat) result" where
  "parse_move_to ls i =
     (if at_body_end ls i then Inr (None, i)
      else bindR (current ls i) (\<lambda>line.
        case strip_control_prefix line (lit ''*** Move to: '') of
          None \<Rightarrow> Inr (None, i)
        | Some destination \<Rightarrow> Inr (Some destination, Suc i)))"

definition parse_update_chunk_header ::
  "rstr list \<Rightarrow> nat \<Rightarrow> bool \<Rightarrow> (patch_parse_error, rstr option \<times> nat) result" where
  "parse_update_chunk_header ls i is_first_hunk =
     bindR (current ls i) (\<lambda>line.
       if starts_with (lit ''@@'') (trim_patch_whitespace line)
       then bindR (parse_hunk_header line) (\<lambda>header. Inr (header, Suc i))
       else if is_first_hunk then Inr (None, i)
       else Inl (InvalidHunkHeader (trim_patch_whitespace line)))"

definition current_line_is_update_chunk_body ::
  "rstr list \<Rightarrow> nat \<Rightarrow> (patch_parse_error, bool) result" where
  "current_line_is_update_chunk_body ls i =
     (if at_body_end ls i then Inr False
      else bindR (current ls i) (\<lambda>line.
        Inr (\<not> starts_with (lit ''@@'') (trim_patch_whitespace line)
           \<and> trim_patch_whitespace line \<noteq> lit ''*** End of File''
           \<and> \<not> is_structural_control_line line)))"

function parse_update_chunk_body ::
  "rstr list \<Rightarrow> nat \<Rightarrow> rstr list \<Rightarrow> rstr list \<Rightarrow>
   (patch_parse_error, (rstr list \<times> rstr list) \<times> nat) result" where
  "parse_update_chunk_body ls i old new =
     bindR (current_line_is_update_chunk_body ls i) (\<lambda>body.
       if \<not> body then Inr ((old, new), i)
       else bindR (current ls i) (\<lambda>line.
         bindR (parse_update_chunk_line line old new) (\<lambda>(old', new').
           parse_update_chunk_body ls (Suc i) old' new')))"
  by pat_completeness auto
termination
  by (relation "measure (\<lambda>(ls, i, old, new). length ls - i)")
    (auto simp: current_line_is_update_chunk_body_def at_body_end_def split: if_splits)

function consume_blank_lines_after_end_of_file ::
  "rstr list \<Rightarrow> nat \<Rightarrow> (patch_parse_error, nat) result" where
  "consume_blank_lines_after_end_of_file ls i =
     (if at_body_end ls i then Inr i
      else bindR (current ls i) (\<lambda>line.
        if trim_patch_whitespace line = []
        then consume_blank_lines_after_end_of_file ls (Suc i) else Inr i))"
  by pat_completeness auto
termination
  by (relation "measure (\<lambda>(ls, i). length ls - i)") (auto simp: at_body_end_def)

definition consume_end_of_file_marker ::
  "rstr list \<Rightarrow> nat \<Rightarrow> (patch_parse_error, bool \<times> nat) result" where
  "consume_end_of_file_marker ls i =
     (if at_body_end ls i then Inr (False, i)
      else bindR (current ls i) (\<lambda>line.
        if trim_patch_whitespace line = lit ''*** End of File''
        then Inr (True, Suc i) else Inr (False, i)))"

definition parse_update_chunk ::
  "rstr list \<Rightarrow> nat \<Rightarrow> rstr \<Rightarrow> bool \<Rightarrow> (patch_parse_error, update_chunk \<times> nat) result" where
  "parse_update_chunk ls i path is_first_hunk =
     bindR (parse_update_chunk_header ls i is_first_hunk) (\<lambda>(ctx, i1).
     bindR (parse_update_chunk_body ls i1 [] []) (\<lambda>((old, new), i2).
     bindR (consume_end_of_file_marker ls i2) (\<lambda>(eof, i3).
     bindR (ensureR (old \<noteq> [] \<or> new \<noteq> []) (HunkWithoutChanges path)) (\<lambda>_.
       Inr (\<lparr>change_context = ctx, old_lines = old, new_lines = new, is_end_of_file = eof\<rparr>, i3)))))"

declare parse_add_lines.simps [simp del]
declare parse_update_chunk_body.simps [simp del]
declare consume_blank_lines_after_end_of_file.simps [simp del]

lemma current_line_is_body_Inr:
  "current_line_is_update_chunk_body ls i = Inr True \<Longrightarrow> Suc i < length ls"
  by (auto simp: current_line_is_update_chunk_body_def at_body_end_def split: if_splits)

lemma parse_update_chunk_body_progress:
  "parse_update_chunk_body ls i old new = Inr ((old', new'), j) \<Longrightarrow>
     i \<le> j \<and> (j = i \<longrightarrow> old' = old \<and> new' = new) \<and> (j \<noteq> i \<longrightarrow> j < length ls)"
proof (induction ls i old new rule: parse_update_chunk_body.induct)
  case (1 ls i old new)
  from "1.prems" obtain body where body: "current_line_is_update_chunk_body ls i = Inr body"
    by (auto simp: parse_update_chunk_body.simps [of ls i] bindR_eq_Inr)
  show ?case
  proof (cases body)
    case False
    with body "1.prems" show ?thesis by (auto simp: parse_update_chunk_body.simps [of ls i])
  next
    case True
    with body "1.prems" obtain line o1 n1 where s: "current ls i = Inr line"
      "parse_update_chunk_line line old new = Inr (o1, n1)"
      "parse_update_chunk_body ls (Suc i) o1 n1 = Inr ((old', new'), j)"
      by (auto simp: parse_update_chunk_body.simps [of ls i] bindR_eq_Inr)
    with "1.IH" [OF body _ s(1,2) refl s(3)] True current_line_is_body_Inr [of ls i] body
    show ?thesis by (cases "j = Suc i") auto
  qed
qed

lemma consume_end_of_file_marker_progress:
  "consume_end_of_file_marker ls i = Inr (eof, j) \<Longrightarrow> i \<le> j \<and> (j \<noteq> i \<longrightarrow> j < length ls)"
  by (auto simp: consume_end_of_file_marker_def at_body_end_def bindR_eq_Inr split: if_splits)

lemma parse_update_chunk_header_progress:
  "parse_update_chunk_header ls i first = Inr (h, j) \<Longrightarrow> i \<le> j \<and> i < length ls"
  by (auto simp: parse_update_chunk_header_def current_def bindR_eq_Inr split: if_splits)

lemma parse_update_chunk_progress:
  assumes "parse_update_chunk ls i path first = Inr (chunk, j)"
  shows "i < j \<and> j < length ls"
proof -
  from assms obtain h i1 old new i2 eof where
    h: "parse_update_chunk_header ls i first = Inr (h, i1)" and
    b: "parse_update_chunk_body ls i1 [] [] = Inr ((old, new), i2)" and
    e: "consume_end_of_file_marker ls i2 = Inr (eof, j)" and
    ne: "old \<noteq> [] \<or> new \<noteq> []"
    by (auto simp: parse_update_chunk_def bindR_eq_Inr ensureR_eq)
  from parse_update_chunk_body_progress [OF b] ne have "i1 < i2" and "i2 < length ls"
    by (cases "i2 = i1"; auto)+
  with parse_update_chunk_header_progress [OF h] consume_end_of_file_marker_progress [OF e]
  show ?thesis by auto
qed

lemma consume_blank_progress:
  "consume_blank_lines_after_end_of_file ls i = Inr j \<Longrightarrow>
     i \<le> j \<and> (j \<noteq> i \<longrightarrow> j < length ls)"
proof (induction ls i rule: consume_blank_lines_after_end_of_file.induct)
  case (1 ls i)
  show ?case
  proof (cases "at_body_end ls i")
    case True
    with "1.prems" show ?thesis by (simp add: consume_blank_lines_after_end_of_file.simps [of ls i])
  next
    case False
    with "1.prems" obtain line where line: "current ls i = Inr line" and
      step: "(if trim_patch_whitespace line = []
        then consume_blank_lines_after_end_of_file ls (Suc i) else Inr i) = Inr j"
      by (auto simp: consume_blank_lines_after_end_of_file.simps [of ls i] bindR_eq_Inr)
    from False have "Suc i < length ls" by (simp add: at_body_end_def)
    with "1.IH" [OF False line] step show ?thesis
      by (cases "j = Suc i") (auto split: if_splits)
  qed
qed

section \<open>Sections of the patch\<close>

text \<open>The loop of \<open>parse_update_file\<close>: hunks until a control line or the end of the body.\<close>

function parse_update_hunks ::
  "rstr list \<Rightarrow> nat \<Rightarrow> rstr \<Rightarrow> update_chunk list \<Rightarrow>
   (patch_parse_error, update_chunk list \<times> nat) result" where
  "parse_update_hunks ls i path hunks =
     (if at_body_end ls i then Inr (hunks, i)
      else bindR (current ls i) (\<lambda>line.
        if is_structural_control_line line then Inr (hunks, i)
        else bindR (parse_update_chunk ls i path (hunks = [])) (\<lambda>(chunk, j).
          bindR (if is_end_of_file chunk then consume_blank_lines_after_end_of_file ls j else Inr j)
            (\<lambda>k. parse_update_hunks ls k path (hunks @ [chunk])))))"
  by pat_completeness auto
termination
proof (relation "measure (\<lambda>(ls, i, path, hunks). length ls - i)", goal_cases)
  case 1
  then show ?case by simp
next
  case (2 ls i path hunks line x chunk j k)
  then have "i < j" and "j < length ls" and "j \<le> k"
    using parse_update_chunk_progress [of ls i path "hunks = []" chunk j]
      consume_blank_progress [of ls j k]
    by (auto split: if_splits)
  then show ?case by simp
qed

declare parse_update_hunks.simps [simp del]

definition parse_update_file ::
  "rstr list \<Rightarrow> nat \<Rightarrow> rstr \<Rightarrow> (patch_parse_error, patch_action \<times> nat) result" where
  "parse_update_file ls i path =
     bindR (parse_move_to ls (Suc i)) (\<lambda>(move_to, i1).
     bindR (parse_update_hunks ls i1 path []) (\<lambda>(hunks, i2).
     bindR (ensureR (hunks \<noteq> []) (EmptyUpdate path)) (\<lambda>_.
       Inr (Update path move_to hunks, i2))))"

definition parse_action ::
  "rstr list \<Rightarrow> nat \<Rightarrow> (patch_parse_error, patch_action \<times> nat) result" where
  "parse_action ls i =
     bindR (current ls i) (\<lambda>line.
       case strip_control_prefix line (lit ''*** Add File: '') of
         Some path \<Rightarrow> parse_add_file ls i path
       | None \<Rightarrow>
         (case strip_control_prefix line (lit ''*** Delete File: '') of
            Some path \<Rightarrow> Inr (parse_delete_file i path)
          | None \<Rightarrow>
            (case strip_control_prefix line (lit ''*** Update File: '') of
               Some path \<Rightarrow> parse_update_file ls i path
             | None \<Rightarrow> Inl (UnsupportedPatchLine (trim_patch_whitespace line)))))"

lemma parse_add_lines_progress:
  "parse_add_lines ls i added = Inr (vs, j) \<Longrightarrow> i \<le> j"
proof (induction ls i added rule: parse_add_lines.induct)
  case (1 ls i added)
  show ?case
  proof (cases "at_body_end ls i")
    case True
    with "1.prems" show ?thesis by (simp add: parse_add_lines.simps [of ls i])
  next
    case False
    with "1.prems" obtain raw where raw: "current ls i = Inr raw"
      by (auto simp: parse_add_lines.simps [of ls i] bindR_eq_Inr)
    show ?thesis
    proof (cases "is_structural_control_line raw")
      case True
      with raw False "1.prems" show ?thesis by (simp add: parse_add_lines.simps [of ls i])
    next
      case nostruct: False
      with raw False "1.prems" obtain v where
        v: "ok_or (strip_prefix [c_plus] raw) AddLineWithoutPlus = Inr v" and
        rec: "parse_add_lines ls (Suc i) (added @ [v]) = Inr (vs, j)"
        by (auto simp: parse_add_lines.simps [of ls i] bindR_eq_Inr)
      from "1.IH" [OF False raw nostruct v rec] show ?thesis by simp
    qed
  qed
qed

lemma parse_update_hunks_progress:
  "parse_update_hunks ls i path hunks = Inr (hs, j) \<Longrightarrow> i \<le> j"
proof (induction ls i path hunks rule: parse_update_hunks.induct)
  case (1 ls i path hunks)
  show ?case
  proof (cases "at_body_end ls i")
    case True
    with "1.prems" show ?thesis by (simp add: parse_update_hunks.simps [of ls i])
  next
    case False
    with "1.prems" obtain line where line: "current ls i = Inr line"
      by (auto simp: parse_update_hunks.simps [of ls i] bindR_eq_Inr)
    show ?thesis
    proof (cases "is_structural_control_line line")
      case True
      with line False "1.prems" show ?thesis by (simp add: parse_update_hunks.simps [of ls i])
    next
      case nostruct: False
      with line False "1.prems" obtain chunk j1 k where
        c: "parse_update_chunk ls i path (hunks = []) = Inr (chunk, j1)" and
        k: "(if is_end_of_file chunk then consume_blank_lines_after_end_of_file ls j1
             else Inr j1) = Inr k" and
        rec: "parse_update_hunks ls k path (hunks @ [chunk]) = Inr (hs, j)"
        by (auto simp: parse_update_hunks.simps [of ls i] bindR_eq_Inr)
      have "k \<le> j" by (rule "1.IH" [OF False line nostruct c refl k rec])
      moreover have "i < j1" using parse_update_chunk_progress [OF c] by simp
      moreover have "j1 \<le> k" using k consume_blank_progress [of ls j1 k] by (auto split: if_splits)
      ultimately show ?thesis by simp
    qed
  qed
qed

lemma parse_action_progress:
  assumes "parse_action ls i = Inr (a, j)"
  shows "i < j"
proof -
  have "Suc i \<le> j" if "parse_update_file ls i path = Inr (a, j)" for path
    using that parse_update_hunks_progress
    by (fastforce simp: parse_update_file_def parse_move_to_def bindR_eq_Inr
        split: if_splits option.splits)
  moreover have "Suc i \<le> j" if "parse_add_file ls i path = Inr (a, j)" for path
    using that parse_add_lines_progress by (fastforce simp: parse_add_file_def bindR_eq_Inr)
  ultimately show ?thesis
    using assms
    by (auto simp: parse_action_def parse_delete_file_def bindR_eq_Inr Suc_le_eq
        split: option.splits)
qed

text \<open>The loop of \<open>parse_actions\<close>.\<close>

function parse_actions_loop ::
  "rstr list \<Rightarrow> nat \<Rightarrow> patch_action list \<Rightarrow> (patch_parse_error, patch_action list) result" where
  "parse_actions_loop ls i acts =
     (if at_body_end ls i then Inr acts
      else bindR (parse_action ls i) (\<lambda>(a, j). parse_actions_loop ls j (acts @ [a])))"
  by pat_completeness auto
termination
  by (relation "measure (\<lambda>(ls, i, acts). length ls - i)")
    (auto simp: at_body_end_def dest!: parse_action_progress)

declare parse_actions_loop.simps [simp del]

definition parse_actions :: "rstr list \<Rightarrow> nat \<Rightarrow> (patch_parse_error, parsed_patch) result" where
  "parse_actions ls i =
     bindR (parse_environment_id ls i) (\<lambda>(env, i1).
     bindR (parse_actions_loop ls i1 []) (\<lambda>acts.
       Inr \<lparr>actions = acts, environment_id = env\<rparr>))"

text \<open>\<open>PatchParser::new\<close>: the lines of the input behind their header and footer checks.\<close>

definition patch_parser_new :: "rstr \<Rightarrow> (patch_parse_error, rstr list) result" where
  "patch_parser_new input =
     (let ls = lines_of input
      in bindR (ensureR (ls \<noteq> [] \<and> trim_patch_whitespace (hd ls) = lit ''*** Begin Patch'')
           InvalidPatchHeader) (\<lambda>_.
         bindR (ensureR (ls \<noteq> [] \<and> trim_patch_whitespace (last ls) = lit ''*** End Patch'')
           InvalidPatchFooter) (\<lambda>_.
         Inr ls)))"

definition parse_patch :: "rstr \<Rightarrow> (patch_parse_error, parsed_patch) result" where
  "parse_patch input = bindR (patch_parser_new input) (\<lambda>ls. parse_actions ls 1)"

section \<open>The cursor stays inside the patch\<close>

named_theorems no_panic \<open>operations that never read outside the lines\<close>

lemma current_not_end: "\<not> at_body_end ls i \<Longrightarrow> current ls i = Inr (ls ! i)"
  by (simp add: at_body_end_def current_def)

lemma body_check_no_panic [no_panic]:
  "current_line_is_update_chunk_body ls i \<noteq> Inl e"
  by (auto simp: current_line_is_update_chunk_body_def current_not_end)

lemma chunk_line_no_panic [no_panic]:
  "parse_update_chunk_line line old new \<noteq> Inl IndexOutOfBounds"
  by (auto simp: parse_update_chunk_line_def split: list.splits)

lemma chunk_body_no_panic [no_panic]:
  "parse_update_chunk_body ls i old new \<noteq> Inl IndexOutOfBounds"
proof (induction ls i old new rule: parse_update_chunk_body.induct)
  case (1 ls i old new)
  obtain body where body: "current_line_is_update_chunk_body ls i = Inr body"
    using body_check_no_panic [of ls i] by (cases "current_line_is_update_chunk_body ls i") auto
  show ?case
  proof (cases body)
    case False
    with body show ?thesis by (simp add: parse_update_chunk_body.simps [of ls i])
  next
    case True
    with body have "\<not> at_body_end ls i" using current_line_is_body_Inr [of ls i]
      by (simp add: at_body_end_def)
    then have line: "current ls i = Inr (ls ! i)" by (rule current_not_end)
    show ?thesis
    proof (cases "parse_update_chunk_line (ls ! i) old new")
      case (Inl e)
      with body True line chunk_line_no_panic [of "ls ! i" old new] show ?thesis
        by (auto simp: parse_update_chunk_body.simps [of ls i])
    next
      case (Inr r)
      obtain o1 n1 where r: "r = (o1, n1)" by (cases r)
      have "parse_update_chunk_body ls (Suc i) o1 n1 \<noteq> Inl IndexOutOfBounds"
        using "1.IH" [OF body _ line Inr r [symmetric]] True by simp
      with body True line Inr r show ?thesis by (simp add: parse_update_chunk_body.simps [of ls i])
    qed
  qed
qed

lemma eof_marker_no_panic [no_panic]: "consume_end_of_file_marker ls i \<noteq> Inl e"
  by (auto simp: consume_end_of_file_marker_def current_not_end)

lemma blank_lines_no_panic [no_panic]: "consume_blank_lines_after_end_of_file ls i \<noteq> Inl e"
proof (induction ls i rule: consume_blank_lines_after_end_of_file.induct)
  case (1 ls i)
  then show ?case
    by (cases "at_body_end ls i")
      (auto simp: consume_blank_lines_after_end_of_file.simps [of ls i] current_not_end)
qed

lemma chunk_no_panic:
  assumes "\<not> at_body_end ls i"
  shows "parse_update_chunk ls i path first \<noteq> Inl IndexOutOfBounds"
proof
  assume "parse_update_chunk ls i path first = Inl IndexOutOfBounds"
  then have "parse_update_chunk_header ls i first = Inl IndexOutOfBounds"
    by (auto simp: parse_update_chunk_def bindR_eq_Inl ensureR_eq no_panic)
  with assms show False
    by (auto simp: parse_update_chunk_header_def current_not_end parse_hunk_header_def Let_def
        bindR_eq_Inl split: if_splits option.splits)
qed

lemma update_hunks_no_panic [no_panic]:
  "parse_update_hunks ls i path hunks \<noteq> Inl IndexOutOfBounds"
proof (induction ls i path hunks rule: parse_update_hunks.induct)
  case (1 ls i path hunks)
  show ?case
  proof (cases "at_body_end ls i")
    case True
    then show ?thesis by (simp add: parse_update_hunks.simps [of ls i])
  next
    case False
    then have line: "current ls i = Inr (ls ! i)" by (rule current_not_end)
    show ?thesis
    proof (cases "is_structural_control_line (ls ! i)")
      case True
      with False line show ?thesis by (simp add: parse_update_hunks.simps [of ls i])
    next
      case nostruct: False
      show ?thesis
      proof (cases "parse_update_chunk ls i path (hunks = [])")
        case (Inl e)
        with False line nostruct chunk_no_panic [OF False, of path "hunks = []"] show ?thesis
          by (auto simp: parse_update_hunks.simps [of ls i])
      next
        case (Inr r)
        obtain chunk j where r: "(chunk, j) = r" by (cases r) simp
        obtain k where k: "(if is_end_of_file chunk
            then consume_blank_lines_after_end_of_file ls j else Inr j) = Inr k"
          using blank_lines_no_panic [of ls j]
          by (cases "is_end_of_file chunk"; cases "consume_blank_lines_after_end_of_file ls j") auto
        have "parse_update_hunks ls k path (hunks @ [chunk]) \<noteq> Inl IndexOutOfBounds"
          by (rule "1.IH" [OF False line nostruct Inr r k])
        with False line nostruct Inr k r [symmetric] show ?thesis
          by (simp add: parse_update_hunks.simps [of ls i])
      qed
    qed
  qed
qed

lemma add_lines_no_panic [no_panic]: "parse_add_lines ls i added \<noteq> Inl IndexOutOfBounds"
proof (induction ls i added rule: parse_add_lines.induct)
  case (1 ls i added)
  then show ?case
    by (cases "at_body_end ls i")
      (auto simp: parse_add_lines.simps [of ls i] current_not_end bindR_eq_Inl ok_or_eq)
qed

lemma action_no_panic:
  assumes "\<not> at_body_end ls i"
  shows "parse_action ls i \<noteq> Inl IndexOutOfBounds"
  using assms
  by (auto simp: parse_action_def current_not_end parse_add_file_def parse_update_file_def
      parse_move_to_def bindR_eq_Inl ensureR_eq no_panic split: option.splits if_splits)

lemma actions_loop_no_panic [no_panic]: "parse_actions_loop ls i acts \<noteq> Inl IndexOutOfBounds"
proof (induction ls i acts rule: parse_actions_loop.induct)
  case (1 ls i acts)
  then show ?case
    by (cases "at_body_end ls i")
      (auto simp: parse_actions_loop.simps [of ls i] bindR_eq_Inl action_no_panic)
qed

section \<open>What a parsed patch guarantees\<close>

text \<open>Every hunk changes something, and every update has a hunk.\<close>

definition valid_chunk :: "update_chunk \<Rightarrow> bool" where
  "valid_chunk c \<longleftrightarrow> old_lines c \<noteq> [] \<or> new_lines c \<noteq> []"

fun valid_action :: "patch_action \<Rightarrow> bool" where
  "valid_action (Add path ls) = True"
| "valid_action (Delete path) = True"
| "valid_action (Update path move_to hunks) = (hunks \<noteq> [] \<and> list_all valid_chunk hunks)"

definition valid_patch :: "parsed_patch \<Rightarrow> bool" where
  "valid_patch p \<longleftrightarrow> list_all valid_action (actions p) \<and> environment_id p \<noteq> Some []"

lemma parse_update_chunk_valid:
  "parse_update_chunk ls i path first = Inr (c, j) \<Longrightarrow> valid_chunk c"
  by (auto simp: parse_update_chunk_def valid_chunk_def bindR_eq_Inr ensureR_eq)

lemma parse_update_hunks_valid:
  "parse_update_hunks ls i path hunks = Inr (hs, j) \<Longrightarrow> list_all valid_chunk hunks \<Longrightarrow>
     list_all valid_chunk hs"
proof (induction ls i path hunks rule: parse_update_hunks.induct)
  case (1 ls i path hunks)
  show ?case
  proof (cases "at_body_end ls i \<or> is_structural_control_line (ls ! i)")
    case True
    with "1.prems" show ?thesis
      by (cases "at_body_end ls i") (auto simp: parse_update_hunks.simps [of ls i] current_not_end)
  next
    case False
    then have line: "current ls i = Inr (ls ! i)" by (simp add: current_not_end)
    from False line "1.prems"(1) obtain chunk j1 k where
      c: "parse_update_chunk ls i path (hunks = []) = Inr (chunk, j1)" and
      k: "(if is_end_of_file chunk then consume_blank_lines_after_end_of_file ls j1
           else Inr j1) = Inr k" and
      rec: "parse_update_hunks ls k path (hunks @ [chunk]) = Inr (hs, j)"
      by (auto simp: parse_update_hunks.simps [of ls i] bindR_eq_Inr)
    have "list_all valid_chunk (hunks @ [chunk])"
      using "1.prems"(2) parse_update_chunk_valid [OF c] by simp
    with "1.IH" [OF _ line _ c refl k rec] False show ?thesis by simp
  qed
qed

lemma parse_action_valid: "parse_action ls i = Inr (a, j) \<Longrightarrow> valid_action a"
  by (auto simp: parse_action_def parse_add_file_def parse_delete_file_def parse_update_file_def
      bindR_eq_Inr ensureR_eq dest!: parse_update_hunks_valid split: option.splits)

lemma parse_actions_loop_valid:
  "parse_actions_loop ls i acts = Inr as \<Longrightarrow> list_all valid_action acts \<Longrightarrow> list_all valid_action as"
proof (induction ls i acts rule: parse_actions_loop.induct)
  case (1 ls i acts)
  show ?case
  proof (cases "at_body_end ls i")
    case True
    with "1.prems" show ?thesis by (simp add: parse_actions_loop.simps [of ls i])
  next
    case False
    with "1.prems" obtain a j where a: "parse_action ls i = Inr (a, j)" and
      rec: "parse_actions_loop ls j (acts @ [a]) = Inr as"
      by (auto simp: parse_actions_loop.simps [of ls i] bindR_eq_Inr)
    with "1.IH" [OF False a refl rec] "1.prems"(2) parse_action_valid [OF a] show ?thesis by simp
  qed
qed

section \<open>Properties of the parser\<close>

text \<open>
  the parser is memory safe on every input: no text, however malformed, drives the cursor
  past the last line, so the indexing \<open>self.lines[self.index]\<close> never panics.
\<close>

theorem parse_patch_no_panic: "parse_patch input \<noteq> Inl IndexOutOfBounds"
  by (auto simp: parse_patch_def patch_parser_new_def parse_actions_def parse_environment_id_def
      bindR_eq_Inl ensureR_eq Let_def current_not_end no_panic split: option.splits if_splits)

text \<open>
  what the parser accepts is well formed: every hunk removes or adds at least one line,
  every update has at least one hunk, and an environment id is never empty.
\<close>

theorem parse_patch_valid:
  assumes "parse_patch input = Inr p"
  shows "valid_patch p"
proof -
  from assms obtain ls i where
    env: "parse_environment_id ls 1 = Inr (environment_id p, i)" and
    acts: "parse_actions_loop ls i [] = Inr (actions p)"
    by (auto simp: parse_patch_def parse_actions_def bindR_eq_Inr)
  have "environment_id p \<noteq> Some []"
    using env by (auto simp: parse_environment_id_def bindR_eq_Inr ensureR_eq split: if_splits option.splits)
  with parse_actions_loop_valid [OF acts] show ?thesis by (simp add: valid_patch_def)
qed

definition sample_text :: rstr where
  "sample_text = join [c_lf] [lit ''*** Begin Patch'', lit ''*** Environment ID: dev'',
     lit ''*** Update File: a b'', lit '' context'', lit ''-x'', lit ''+y'', lit ''*** End of File'',
     [], lit ''@@ fn'', lit ''+z'', lit ''*** End Patch'']"

definition sample_parsed :: parsed_patch where
  "sample_parsed = \<lparr>actions = [Update (lit ''a b'') None [
       \<lparr>change_context = None, old_lines = [lit ''context'', lit ''x''],
        new_lines = [lit ''context'', lit ''y''], is_end_of_file = True\<rparr>,
       \<lparr>change_context = Some (lit ''fn''), old_lines = [], new_lines = [lit ''z''],
        is_end_of_file = False\<rparr>]],
     environment_id = Some (lit ''dev'')\<rparr>"

theorem parse_patch_valid_witness:
  "parse_patch sample_text = Inr sample_parsed \<and> valid_patch sample_parsed"
proof -
  have "parse_patch sample_text = Inr sample_parsed" by code_simp
  with parse_patch_valid [of sample_text sample_parsed] show ?thesis by simp
qed

end
