(* ===== verification/Patch_Engine.thy ===== *)
theory Patch_Engine
  imports Patch_Matcher Patch_Parser
begin

text \<open>
  \<open>crates/remote-exec-host/src/patch/engine.rs\<close>: locating the hunks of an update in the lines of
  a file, planning their replacements against the original lines, and applying the plan from
  the last replacement to the first. The plan is compared with the specification that applies
  the hunks one after the other.
\<close>

section \<open>Definitions\<close>

record planned_replacement =
  rep_start :: nat
  rep_end :: nat
  rep_lines :: "rstr list"

record resolved_segments =
  seg_old :: "rstr list"
  seg_new :: "rstr list"

text \<open>
  The errors of the engine; \<open>SplicePanic\<close> stands for the panic of \<open>Vec::splice\<close> on a range that
  is not inside the vector.
\<close>

datatype engine_error =
    ContextNotFound rstr
  | HunkNotFound "rstr list"
  | NegativeIndex
  | SplicePanic

definition split_current_lines :: "rstr \<Rightarrow> rstr list" where
  "split_current_lines cur = (if cur = [] then [] else map strip_cr (split_on c_lf cur))"

definition has_trailing_eof_sentinel :: "rstr list \<Rightarrow> bool" where
  "has_trailing_eof_sentinel ls \<longleftrightarrow> ls \<noteq> [] \<and> last ls = []"

definition logical_content_len :: "rstr list \<Rightarrow> nat" where
  "logical_content_len ls = (if has_trailing_eof_sentinel ls then length ls - 1 else length ls)"

definition eof_insert_index :: "rstr list \<Rightarrow> nat" where
  "eof_insert_index ls = (if ls \<noteq> [] \<and> last ls = [] then length ls - 1 else length ls)"

definition exact_eof_match_candidates :: "rstr list \<Rightarrow> rstr list \<Rightarrow> (nat \<times> nat) list" where
  "exact_eof_match_candidates ls pattern =
     (let content_len = logical_content_len ls;
          candidates = (case checked_sub content_len (length pattern) of
             Some start \<Rightarrow> [(start, content_len)] | None \<Rightarrow> [])
      in if has_trailing_eof_sentinel ls \<and> length pattern > 1 \<and> has_trailing_eof_sentinel pattern
         then (case checked_sub (length ls) (length pattern) of
             Some start \<Rightarrow> if (start, length ls) \<notin> set candidates
               then candidates @ [(start, length ls)] else candidates
           | None \<Rightarrow> candidates)
         else candidates)"

text \<open>The loop over the candidates.\<close>

fun first_eof_match :: "rstr list \<Rightarrow> rstr list \<Rightarrow> nat \<Rightarrow> (nat \<times> nat) list \<Rightarrow> nat option" where
  "first_eof_match ls pattern start [] = None"
| "first_eof_match ls pattern start ((eof_start, search_len) # cs) =
     (if start > eof_start then first_eof_match ls pattern start cs
      else case seek_sequence (take search_len ls) pattern eof_start True of
          Some idx \<Rightarrow> if idx = eof_start then Some idx else first_eof_match ls pattern start cs
        | None \<Rightarrow> first_eof_match ls pattern start cs)"

definition seek_hunk_sequence :: "rstr list \<Rightarrow> rstr list \<Rightarrow> nat \<Rightarrow> bool \<Rightarrow> nat option" where
  "seek_hunk_sequence ls pattern start eof =
     (if \<not> eof then seek_sequence ls pattern start False
      else first_eof_match ls pattern start (exact_eof_match_candidates ls pattern))"

definition resolve_hunk_start ::
  "rstr list \<Rightarrow> update_chunk \<Rightarrow> nat \<Rightarrow> (engine_error, nat) result" where
  "resolve_hunk_start ls hunk search_start =
     (case change_context hunk of
        Some ctx \<Rightarrow> ok_or (seek_sequence ls [ctx] (min search_start (length ls)) False)
          (ContextNotFound ctx)
      | None \<Rightarrow> Inr (min search_start (length ls)))"

definition strip_optional_trailing_empty :: "rstr list \<Rightarrow> rstr list" where
  "strip_optional_trailing_empty ls = (if ls \<noteq> [] \<and> last ls = [] then butlast ls else ls)"

definition strip_trailing_empty_sentinel :: "resolved_segments \<Rightarrow> resolved_segments option" where
  "strip_trailing_empty_sentinel segs =
     (if length (seg_old segs) > 1 \<and> last (seg_old segs) = []
      then Some \<lparr>seg_old = butlast (seg_old segs),
                 seg_new = strip_optional_trailing_empty (seg_new segs)\<rparr>
      else None)"

definition resolve_segments ::
  "rstr list \<Rightarrow> update_chunk \<Rightarrow> nat \<Rightarrow> (engine_error, resolved_segments) result" where
  "resolve_segments ls hunk start =
     (let initial = \<lparr>seg_old = old_lines hunk, seg_new = new_lines hunk\<rparr>;
          failed = Inl (HunkNotFound (old_lines hunk))
      in if seg_old initial = [] then Inr initial
         else if seek_hunk_sequence ls (seg_old initial) start (is_end_of_file hunk) \<noteq> None
         then Inr initial
         else if is_end_of_file hunk
         then (case strip_trailing_empty_sentinel initial of
             Some retry \<Rightarrow>
               if seg_old retry = [] \<or> seek_hunk_sequence ls (seg_old retry) start True \<noteq> None
               then Inr retry else failed
           | None \<Rightarrow> failed)
         else failed)"

definition resolve_replacement_start ::
  "rstr list \<Rightarrow> update_chunk \<Rightarrow> nat \<Rightarrow> resolved_segments \<Rightarrow> (engine_error, nat) result" where
  "resolve_replacement_start ls hunk start segs =
     (if seg_old segs = []
      then Inr (if \<not> is_end_of_file hunk \<and> change_context hunk \<noteq> None
                then min start (length ls) else eof_insert_index ls)
      else ok_or (seek_hunk_sequence ls (seg_old segs) start (is_end_of_file hunk))
        (HunkNotFound (seg_old segs)))"

definition translate_to_original_index :: "nat \<Rightarrow> int \<Rightarrow> (engine_error, nat) result" where
  "translate_to_original_index current_index line_offset =
     (let original_index = int current_index - line_offset
      in if original_index < 0 then Inl NegativeIndex else Inr (nat original_index))"

definition next_search_start ::
  "nat \<Rightarrow> rstr list \<Rightarrow> rstr list \<Rightarrow> update_chunk \<Rightarrow> nat" where
  "next_search_start start_idx old new hunk =
     (if old = [] \<and> change_context hunk \<noteq> None \<and> \<not> is_end_of_file hunk
      then start_idx + length new + 1 else start_idx + length new)"

text \<open>The three lookups at the head of the planning loop.\<close>

definition locate_hunk ::
  "rstr list \<Rightarrow> update_chunk \<Rightarrow> nat \<Rightarrow> (engine_error, nat \<times> resolved_segments) result" where
  "locate_hunk working hunk search_start =
     bindR (resolve_hunk_start working hunk search_start) (\<lambda>start.
     bindR (resolve_segments working hunk start) (\<lambda>segs.
     bindR (resolve_replacement_start working hunk start segs) (\<lambda>start_idx.
       Inr (start_idx, segs))))"

fun plan_loop ::
  "rstr list \<Rightarrow> nat \<Rightarrow> int \<Rightarrow> planned_replacement list \<Rightarrow> update_chunk list \<Rightarrow>
   (engine_error, planned_replacement list) result" where
  "plan_loop working search_start line_offset reps [] = Inr reps"
| "plan_loop working search_start line_offset reps (hunk # hunks) =
     bindR (locate_hunk working hunk search_start) (\<lambda>(start_idx, segs).
     bindR (translate_to_original_index start_idx line_offset) (\<lambda>original_start.
     let end_idx = start_idx + length (seg_old segs);
         rep = \<lparr>rep_start = original_start, rep_end = original_start + length (seg_old segs),
                rep_lines = seg_new segs\<rparr>
     in bindR (ok_or (splice_vec start_idx end_idx (seg_new segs) working) SplicePanic)
          (\<lambda>working'. plan_loop working'
             (min (next_search_start start_idx (seg_old segs) (seg_new segs) hunk) (length working'))
             (line_offset + int (length (seg_new segs)) - int (length (seg_old segs)))
             (reps @ [rep]) hunks)))"

definition plan_replacements ::
  "rstr list \<Rightarrow> update_chunk list \<Rightarrow> (engine_error, planned_replacement list) result" where
  "plan_replacements original_lines hunks = plan_loop original_lines 0 0 [] hunks"

fun splice_all ::
  "planned_replacement list \<Rightarrow> rstr list \<Rightarrow> (engine_error, rstr list) result" where
  "splice_all [] ls = Inr ls"
| "splice_all (r # rs) ls =
     bindR (ok_or (splice_vec (rep_start r) (rep_end r) (rep_lines r) ls) SplicePanic) (splice_all rs)"

definition apply_hunks ::
  "rstr \<Rightarrow> update_chunk list \<Rightarrow> rstr \<Rightarrow> (engine_error, rstr) result" where
  "apply_hunks cur hunks line_ending =
     (let original_lines = split_current_lines cur
      in bindR (plan_replacements original_lines hunks) (\<lambda>replacements.
         bindR (splice_all (rev replacements) original_lines) (\<lambda>ls.
           Inr (join line_ending ls))))"

text \<open>
  The specification: the hunks are located and applied one after the other, each in the lines
  the previous ones left.
\<close>

fun apply_in_order ::
  "rstr list \<Rightarrow> nat \<Rightarrow> update_chunk list \<Rightarrow> (engine_error, rstr list) result" where
  "apply_in_order ls search_start [] = Inr ls"
| "apply_in_order ls search_start (hunk # hunks) =
     bindR (locate_hunk ls hunk search_start) (\<lambda>(i, segs).
       let ls' = take i ls @ seg_new segs @ drop (i + length (seg_old segs)) ls
       in apply_in_order ls'
            (min (next_search_start i (seg_old segs) (seg_new segs) hunk) (length ls')) hunks)"

text \<open>A hunk whose place is found by its lines or by its context, not by the end of the file.\<close>

definition anchored :: "update_chunk \<Rightarrow> bool" where
  "anchored h \<longleftrightarrow> old_lines h \<noteq> [] \<or> (change_context h \<noteq> None \<and> \<not> is_end_of_file h)"

section \<open>Locating a hunk\<close>

lemma eof_candidate_window:
  assumes "(a, n) \<in> set (exact_eof_match_candidates ls p)"
  shows "a + length p = n \<and> (n = logical_content_len ls \<or> n = length ls)"
  using assms
  by (auto simp: exact_eof_match_candidates_def Let_def checked_sub_def split: if_splits option.splits)

lemma logical_content_len_le: "logical_content_len ls \<le> length ls"
  by (simp add: logical_content_len_def)

lemma first_eof_match_Some:
  assumes "first_eof_match ls p s cs = Some i"
  shows "\<exists>n. (i, n) \<in> set cs \<and> s \<le> i \<and> seek_sequence (take n ls) p i True = Some i"
  using assms
  by (induction ls p s cs rule: first_eof_match.induct) (auto split: if_splits option.splits)

lemma is_match_at_take:
  "is_match_at m (take n ls) p i \<Longrightarrow> i + length p \<le> n \<Longrightarrow> is_match_at m ls p i"
  by (simp add: is_match_at_def drop_take min_absorb1)

lemma seek_hunk_window:
  assumes "seek_hunk_sequence ls p s eof = Some i" and "p \<noteq> []"
  shows "s \<le> i" and "i + length p \<le> length ls" and "is_match_at unicode_eq ls p i"
    and "eof \<Longrightarrow> i + length p = logical_content_len ls \<or> i + length p = length ls"
proof -
  have "s \<le> i \<and> i + length p \<le> length ls \<and> is_match_at unicode_eq ls p i \<and>
      (eof \<longrightarrow> i + length p = logical_content_len ls \<or> i + length p = length ls)"
  proof (cases eof)
    case False
    with assms show ?thesis using matcher.seek_window [of p ls s False i]
      by (simp add: seek_hunk_sequence_def)
  next
    case True
    with assms(1) obtain n where n: "(i, n) \<in> set (exact_eof_match_candidates ls p)" and
      s: "s \<le> i" and k: "seek_sequence (take n ls) p i True = Some i"
      using first_eof_match_Some by (fastforce simp: seek_hunk_sequence_def)
    note w = eof_candidate_window [OF n]
    have "is_match_at unicode_eq (take n ls) p i"
      using matcher.seek_window [OF assms(2) k] by simp
    with w s show ?thesis
      using is_match_at_take [of unicode_eq n ls p i] logical_content_len_le [of ls] by auto
  qed
  then show "s \<le> i" and "i + length p \<le> length ls" and "is_match_at unicode_eq ls p i"
    and "eof \<Longrightarrow> i + length p = logical_content_len ls \<or> i + length p = length ls"
    by simp_all
qed

lemma resolve_hunk_start_ge:
  "resolve_hunk_start ls h s = Inr st \<Longrightarrow> min s (length ls) \<le> st \<and> st \<le> length ls"
  using matcher.seek_in_range [of ls _ "min s (length ls)" False st]
    matcher.seek_at_least [of ls _ "min s (length ls)" False st]
  by (fastforce simp: resolve_hunk_start_def ok_or_eq split: option.splits)

lemma resolve_segments_old:
  assumes "resolve_segments ls h st = Inr segs"
  shows "seg_old segs = old_lines h \<or>
    is_end_of_file h \<and> seg_old segs \<noteq> [] \<and> old_lines h = seg_old segs @ [[]]"
  using assms
  by (cases "old_lines h" rule: rev_cases)
    (auto simp: resolve_segments_def Let_def strip_trailing_empty_sentinel_def
      split: if_splits option.splits)

lemma seg_old_nonempty:
  "resolve_segments ls h st = Inr segs \<Longrightarrow> seg_old segs = [] \<longleftrightarrow> old_lines h = []"
  using resolve_segments_old [of ls h st segs] by auto

lemma locate_hunk_range:
  assumes "locate_hunk ls h s = Inr (i, segs)"
  shows "i + length (seg_old segs) \<le> length ls"
    and "anchored h \<Longrightarrow> s \<le> length ls \<Longrightarrow> s \<le> i"
proof -
  from assms obtain st where st: "resolve_hunk_start ls h s = Inr st" and
    seg: "resolve_segments ls h st = Inr segs" and
    i: "resolve_replacement_start ls h st segs = Inr i"
    by (auto simp: locate_hunk_def bindR_eq_Inr)
  note ge = resolve_hunk_start_ge [OF st]
  show "i + length (seg_old segs) \<le> length ls"
    using i seek_hunk_window(2) [of ls "seg_old segs" st "is_end_of_file h" i]
    by (auto simp: resolve_replacement_start_def eof_insert_index_def ok_or_eq split: if_splits)
  show "s \<le> i" if "anchored h" "s \<le> length ls"
    using i ge that seg_old_nonempty [OF seg]
      seek_hunk_window(1) [of ls "seg_old segs" st "is_end_of_file h" i]
    by (auto simp: resolve_replacement_start_def anchored_def ok_or_eq split: if_splits)
qed

section \<open>The plan refines sequential application\<close>

text \<open>
  The invariant of the planning loop: behind the last replacement the working lines are the
  original lines, the offset is the distance between the two positions, and splicing the plan
  rewrites what lies before them.
\<close>

definition plan_inv ::
  "rstr list \<Rightarrow> rstr list \<Rightarrow> nat \<Rightarrow> int \<Rightarrow> planned_replacement list \<Rightarrow> nat \<Rightarrow> nat \<Rightarrow> bool" where
  "plan_inv original working s offset reps k b \<longleftrightarrow>
     k \<le> length original \<and> b \<le> s \<and> s \<le> length working \<and> drop k original = drop b working \<and>
     offset = int b - int k \<and>
     (\<forall>xs. splice_all (rev reps) (take k original @ xs) = Inr (take b working @ xs))"

lemma plan_inv_step:
  fixes i n :: nat and new :: "rstr list"
  assumes inv: "plan_inv original working s offset reps k b"
    and i: "s \<le> i" "i + n \<le> length working"
  defines "working' \<equiv> take i working @ new @ drop (i + n) working"
    and "o' \<equiv> k + (i - b)"
  shows "translate_to_original_index i offset = Inr o'"
    and "i + length new \<le> s' \<Longrightarrow> s' \<le> length working' \<Longrightarrow>
      plan_inv original working' s' (offset + int (length new) - int n)
       (reps @ [\<lparr>rep_start = o', rep_end = o' + n, rep_lines = new\<rparr>]) (o' + n) (i + length new)"
proof -
  have k: "k \<le> length original" and b: "b \<le> i" and tail: "drop k original = drop b working"
    and off: "offset = int b - int k"
    and spl: "\<And>xs. splice_all (rev reps) (take k original @ xs) = Inr (take b working @ xs)"
    using inv i by (auto simp: plan_inv_def)
  show "translate_to_original_index i offset = Inr o'"
    using b by (simp add: translate_to_original_index_def off o'_def)
  have len: "length original - k = length working - b"
    using arg_cong [OF tail, of length] by simp
  have on: "o' + n \<le> length original" using len i b k by (simp add: o'_def)
  have d: "drop (o' + n) original = drop (i + length new) working'"
  proof -
    have "drop (o' + n) original = drop (i - b + n) (drop k original)"
      by (simp add: o'_def add.commute add.left_commute)
    also have "\<dots> = drop (i + n) working" using b by (simp add: tail)
    finally show ?thesis using i by (simp add: working'_def)
  qed
  have t: "take o' original = take k original @ take (i - b) (drop b working)"
    by (simp add: o'_def take_add tail)
  have sp: "splice_vec o' (o' + n) new (take (o' + n) original @ xs) =
      Some (take k original @ take (i - b) (drop b working) @ new @ xs)" for xs
    using on t by (simp add: splice_vec_def)
  have tw: "take b working @ take (i - b) (drop b working) = take i working"
    using b by (metis le_add_diff_inverse take_add)
  show "plan_inv original working' s' (offset + int (length new) - int n)
       (reps @ [\<lparr>rep_start = o', rep_end = o' + n, rep_lines = new\<rparr>]) (o' + n) (i + length new)"
    if "i + length new \<le> s'" "s' \<le> length working'"
    using that on d spl sp tw b i by (simp add: plan_inv_def off o'_def working'_def)
qed

lemma next_search_start_ge: "i + length new \<le> next_search_start i old new h"
  by (simp add: next_search_start_def)

lemma plan_loop_in_order:
  assumes "plan_inv original working s offset reps k b" and "list_all anchored hunks"
  shows "bindR (plan_loop working s offset reps hunks) (\<lambda>rs. splice_all (rev rs) original) =
    apply_in_order working s hunks"
  using assms
proof (induction hunks arbitrary: working s offset reps k b)
  case Nil
  then have tail: "drop k original = drop b working"
    and spl: "splice_all (rev reps) (take k original @ drop k original) =
      Inr (take b working @ drop k original)"
    by (simp_all add: plan_inv_def)
  have "splice_all (rev reps) original = Inr working"
    using spl unfolding append_take_drop_id by (simp add: tail)
  then show ?case by simp
next
  case (Cons h hunks)
  show ?case
  proof (cases "locate_hunk working h s")
    case (Inl e)
    then show ?thesis by simp
  next
    case (Inr r)
    obtain i segs where r: "r = (i, segs)" by (cases r)
    let ?n = "length (seg_old segs)" and ?new = "seg_new segs"
    let ?w = "take i working @ ?new @ drop (i + ?n) working"
    let ?s = "min (next_search_start i (seg_old segs) ?new h) (length ?w)"
    have h: "anchored h" "list_all anchored hunks" and s: "s \<le> length working"
      using Cons.prems by (simp_all add: plan_inv_def)
    note range = locate_hunk_range [OF Inr [unfolded r]]
    have i: "s \<le> i" using range(2) h(1) s by blast
    have le: "i + length ?new \<le> ?s"
      using next_search_start_ge [of i ?new "seg_old segs" h] range(1) by simp
    have "splice_vec i (i + ?n) ?new working = Some ?w" using range(1) by (simp add: splice_vec_def)
    moreover note plan_inv_step(1) [OF Cons.prems(1) i range(1)]
    moreover note Cons.IH [OF plan_inv_step(2) [OF Cons.prems(1) i range(1) le min.cobounded2] h(2)]
    ultimately show ?thesis
      using Inr r by (simp add: Let_def)
  qed
qed

lemma locate_hunk_no_panic:
  "locate_hunk ls h s \<noteq> Inl SplicePanic" "locate_hunk ls h s \<noteq> Inl NegativeIndex"
  by (auto simp: locate_hunk_def bindR_eq_Inl resolve_hunk_start_def resolve_segments_def Let_def
      resolve_replacement_start_def ok_or_eq split: if_splits option.splits)

lemma apply_in_order_no_panic:
  "apply_in_order ls s hs \<noteq> Inl SplicePanic" "apply_in_order ls s hs \<noteq> Inl NegativeIndex"
  by (induction ls s hs rule: apply_in_order.induct)
    (auto simp: bindR_eq_Inl locate_hunk_no_panic Let_def)

lemma apply_hunks_anchored:
  assumes "list_all anchored hunks"
  shows "apply_hunks cur hunks ending =
    bindR (apply_in_order (split_current_lines cur) 0 hunks) (\<lambda>ls. Inr (join ending ls))"
proof -
  let ?ls = "split_current_lines cur"
  have "plan_inv ?ls ?ls 0 0 [] 0 0" by (simp add: plan_inv_def)
  from plan_loop_in_order [OF this assms] show ?thesis
    by (simp add: apply_hunks_def plan_replacements_def bindR_assoc [symmetric])
qed

text \<open>
  C1: the planned replacements, spliced from the last to the first into the original lines,
  have the effect of applying the hunks one after the other, errors included, when every
  hunk has a place of its own: lines to replace, or a context line and no end-of-file marker.
\<close>

theorem apply_hunks_in_order:
  assumes "list_all anchored hunks"
  shows "apply_hunks cur hunks ending =
    bindR (apply_in_order (split_current_lines cur) 0 hunks) (\<lambda>ls. Inr (join ending ls))"
  using assms by (rule apply_hunks_anchored)

definition sample_hunks :: "update_chunk list" where
  "sample_hunks =
     [\<lparr>change_context = None, old_lines = [lit ''a''], new_lines = [lit ''A'', lit ''B''], is_end_of_file = False\<rparr>,
      \<lparr>change_context = Some (lit ''c''), old_lines = [], new_lines = [lit ''x''], is_end_of_file = False\<rparr>,
      \<lparr>change_context = None, old_lines = [lit ''d''], new_lines = [], is_end_of_file = True\<rparr>]"

definition sample_file :: rstr where
  "sample_file = join [c_lf] [lit ''a'', lit ''b'', lit ''c'', lit ''d'', []]"

theorem apply_hunks_in_order_witness:
  "list_all anchored sample_hunks \<and>
   apply_hunks sample_file sample_hunks [c_lf] =
     bindR (apply_in_order (split_current_lines sample_file) 0 sample_hunks) (\<lambda>ls. Inr (join [c_lf] ls)) \<and>
   apply_in_order (split_current_lines sample_file) 0 sample_hunks =
     Inr [lit ''A'', lit ''B'', lit ''b'', lit ''x'', lit ''c'', []]"
proof -
  have "list_all anchored sample_hunks" by code_simp
  moreover have "apply_in_order (split_current_lines sample_file) 0 sample_hunks =
     Inr [lit ''A'', lit ''B'', lit ''b'', lit ''x'', lit ''c'', []]" by code_simp
  ultimately show ?thesis using apply_hunks_in_order [of sample_hunks sample_file "[c_lf]"] by simp
qed

text \<open>
  for such hunks the engine never panics in \<open>splice\<close> and never reports a negative index.
\<close>

theorem apply_hunks_no_panic:
  assumes "list_all anchored hunks"
  shows "apply_hunks cur hunks ending \<noteq> Inl SplicePanic \<and> apply_hunks cur hunks ending \<noteq> Inl NegativeIndex"
  by (simp add: apply_hunks_anchored [OF assms] bindR_eq_Inl apply_in_order_no_panic)

theorem apply_hunks_no_panic_witness:
  "apply_hunks sample_file sample_hunks [c_lf] \<noteq> Inl SplicePanic \<and>
   apply_hunks sample_file sample_hunks [c_lf] \<noteq> Inl NegativeIndex"
proof -
  have "list_all anchored sample_hunks" by code_simp
  then show ?thesis by (rule apply_hunks_no_panic)
qed

text \<open>
  C7: where a located hunk lies. The lines it replaces are inside the file and not before the
  search start, they agree with the hunk's old lines up to white space and typographic
  characters, an end-of-file hunk ends at the end of the content or of the file, and the old
  lines are the hunk's own or, at the end of the file, those without their last empty line.
\<close>

theorem locate_hunk_spec:
  assumes "locate_hunk ls h s = Inr (i, segs)" and "old_lines h \<noteq> []" and "s \<le> length ls"
  shows "s \<le> i \<and> i + length (seg_old segs) \<le> length ls \<and> is_match_at unicode_eq ls (seg_old segs) i \<and>
    (is_end_of_file h \<longrightarrow> i + length (seg_old segs) \<in> {logical_content_len ls, length ls}) \<and>
    (seg_old segs = old_lines h \<or> is_end_of_file h \<and> old_lines h = seg_old segs @ [[]])"
proof -
  from assms obtain st where st: "resolve_hunk_start ls h s = Inr st" and
    seg: "resolve_segments ls h st = Inr segs" and
    i: "resolve_replacement_start ls h st segs = Inr i"
    by (auto simp: locate_hunk_def bindR_eq_Inr)
  have ne: "seg_old segs \<noteq> []" using seg_old_nonempty [OF seg] assms(2) by simp
  with i have "seek_hunk_sequence ls (seg_old segs) st (is_end_of_file h) = Some i"
    by (simp add: resolve_replacement_start_def ok_or_eq)
  from seek_hunk_window [OF this ne] resolve_hunk_start_ge [OF st] assms(3) resolve_segments_old [OF seg]
  show ?thesis by (auto simp: min_def)
qed

theorem locate_hunk_spec_witness:
  "\<exists>h segs. locate_hunk [lit ''a'', lit ''b '', []] h 0 = Inr (1, segs) \<and> old_lines h = [lit ''b'', []] \<and>
     is_end_of_file h \<and> is_match_at unicode_eq [lit ''a'', lit ''b '', []] (seg_old segs) 1 \<and>
     1 + length (seg_old segs) \<in> {2, 3}"
proof -
  define h where "h = \<lparr>change_context = None, old_lines = [lit ''b'', []], new_lines = [lit ''c'', []],
    is_end_of_file = True\<rparr>"
  let ?ls = "[lit ''a'', lit ''b '', []]"
  define segs where "segs = \<lparr>seg_old = [lit ''b'', []], seg_new = [lit ''c'', []]\<rparr>"
  have l: "locate_hunk ?ls h 0 = Inr (1, segs)" unfolding h_def segs_def by code_simp
  have "logical_content_len ?ls = 2" by code_simp
  with locate_hunk_spec [OF l] show ?thesis using l
    by (intro exI [of _ h] exI [of _ segs]) (auto simp: h_def numeral_2_eq_2 numeral_3_eq_3)
qed


end
