(* ===== verification/Patch_Apply.thy ===== *)
theory Patch_Apply
  imports Host_State Patch_Engine
begin

text \<open>
  \<open>crates/remote-exec-host/src/patch/mod.rs\<close> and \<open>verify.rs\<close>: running the actions of a parsed patch
  against the file system, inside the sandbox. Messages are kept as structured causes.
\<close>

section \<open>Paths in summaries\<close>

definition is_normal_component :: "component \<Rightarrow> bool" where
  "is_normal_component c = (case c of Normal _ \<Rightarrow> True | _ \<Rightarrow> False)"

fun shared_prefix_len :: "pathbuf \<Rightarrow> pathbuf \<Rightarrow> nat" where
  "shared_prefix_len (l # ls) (r # rs) = (if component_eq l r then Suc (shared_prefix_len ls rs) else 0)"
| "shared_prefix_len _ _ = 0"

definition patch_display_path :: "pathbuf \<Rightarrow> rstr" where
  "patch_display_path p =
     (let t = map (\<lambda>c. if c = c_backslash then c_slash else c) (path_text p)
      in if t = [] then lit ''.'' else t)"

definition relative_patch_path :: "pathbuf \<Rightarrow> pathbuf \<Rightarrow> rstr option" where
  "relative_patch_path base0 path0 =
     (let base = lexical_normalize base0; path = lexical_normalize path0;
          root_len = max (length (takeWhile (\<lambda>c. \<not> is_normal_component c) base))
                         (length (takeWhile (\<lambda>c. \<not> is_normal_component c) path))
      in if \<not> (root_len \<le> length base \<and> root_len \<le> length path \<and>
               list_all2 component_eq (take root_len base) (take root_len path)) then None
         else let shared = root_len + shared_prefix_len (drop root_len base) (drop root_len path);
                  ups = map (\<lambda>_. ParentDir) (filter is_normal_component (drop shared base));
                  rest = drop shared path
           in if RootDir \<in> set rest then None
              else Some (patch_display_path (ups @ filter (\<lambda>c. c \<noteq> CurDir) rest)))"

definition display_relative :: "pathbuf \<Rightarrow> pathbuf \<Rightarrow> rstr" where
  "display_relative base path = (case relative_patch_path base path of
      Some t \<Rightarrow> t | None \<Rightarrow> patch_display_path path)"

definition resolve_patch_path :: "pathbuf \<Rightarrow> rstr \<Rightarrow> resolved_host_path" where
  "resolve_patch_path cwd path = resolve_input_path_for_operation cwd path"

section \<open>Actions\<close>

datatype patch_cause =
    CauseSandbox sandbox_error
  | CauseText text_file_error
  | CauseEngine engine_error
  | CauseNotFile rstr
  | CauseIo io_error

datatype patch_error_kind = PkSandboxDenied | PkFailed

definition patch_error_kind_of :: "patch_cause \<Rightarrow> patch_error_kind" where
  "patch_error_kind_of c = (case c of CauseSandbox _ \<Rightarrow> PkSandboxDenied | _ \<Rightarrow> PkFailed)"

definition LF :: rstr where "LF = [c_lf]"

definition CRLF :: rstr where "CRLF = [c_cr, c_lf]"

fun detect_line_ending_from :: "bool \<Rightarrow> rstr \<Rightarrow> rstr" where
  "detect_line_ending_from after_cr [] = LF"
| "detect_line_ending_from after_cr (c # s) =
     (if c \<noteq> c_lf then detect_line_ending_from (c = c_cr) s
      else if after_cr then CRLF else LF)"

definition detect_line_ending :: "rstr \<Rightarrow> rstr" where
  "detect_line_ending s = detect_line_ending_from False s"

definition ensure_trailing_newline :: "rstr \<Rightarrow> rstr \<Rightarrow> rstr" where
  "ensure_trailing_newline s line_ending = (if ends_with [c_lf] s then s else s @ line_ending)"

definition create_parent ::
  "('w, 'enc) host \<Rightarrow> 'w \<Rightarrow> pathbuf \<Rightarrow> 'w \<times> (patch_cause, unit) result" where
  "create_parent h w path = (case path_parent path of
      None \<Rightarrow> (w, Inr ())
    | Some parent \<Rightarrow> mapErr CauseIo (fs_create_dir_all (hs_fs h) w parent))"

definition add_content ::
  "('w, 'enc) host \<Rightarrow> 'w \<Rightarrow> pathbuf \<Rightarrow> rstr \<Rightarrow> rstr \<Rightarrow> (patch_cause, bytes) result" where
  "add_content h w path summary_path content_text =
     (case fs_metadata (hs_fs h) w path of
        Inr metadata \<Rightarrow>
          if is_file metadata
          then bindR (map_err CauseText (text_file_read h w path)) (\<lambda>existing.
                 map_err CauseText (tf_encode (hs_enc h) existing content_text))
          else Inl (CauseNotFile summary_path)
      | Inl IoNotFound \<Rightarrow> Inr (as_bytes content_text)
      | Inl e \<Rightarrow> Inl (CauseIo e))"

definition add_file ::
  "('w, 'enc) host \<Rightarrow> 'w \<Rightarrow> pathbuf \<Rightarrow> rstr \<Rightarrow> rstr list \<Rightarrow> 'w \<times> (patch_cause, rstr) result" where
  "add_file h w cwd path0 ls =
     (let resolved = resolve_patch_path cwd path0; path = rhp_path resolved;
          summary_path = display_relative cwd path;
          content_text = ensure_trailing_newline (join [c_lf] ls) LF
      in andThen (w, map_err CauseSandbox (ensure_resolved_sandbox_access h w Write resolved)) (\<lambda>w _.
         andThen (w, add_content h w path summary_path content_text) (\<lambda>w content.
         andThen (create_parent h w path) (\<lambda>w _.
         andThen (mapErr CauseIo (fs_write (hs_fs h) w path content)) (\<lambda>w _.
           (w, Inr (lit ''A '' @ summary_path)))))))"

definition delete_file ::
  "('w, 'enc) host \<Rightarrow> 'w \<Rightarrow> pathbuf \<Rightarrow> rstr \<Rightarrow> 'w \<times> (patch_cause, rstr) result" where
  "delete_file h w cwd path0 =
     (let resolved = resolve_patch_path cwd path0; path = rhp_path resolved;
          summary_path = display_relative cwd path
      in andThen (w, map_err CauseSandbox (ensure_resolved_sandbox_access h w Write resolved)) (\<lambda>w _.
         andThen (mapErr CauseIo (fs_remove_file (hs_fs h) w path)) (\<lambda>w _.
           (w, Inr (lit ''D '' @ summary_path)))))"

text \<open>The new bytes of an updated file.\<close>

definition update_content ::
  "('w, 'enc) host \<Rightarrow> 'w \<Rightarrow> pathbuf \<Rightarrow> update_chunk list \<Rightarrow> (patch_cause, bytes) result" where
  "update_content h w source_path hunks =
     bindR (map_err CauseText (text_file_read h w source_path)) (\<lambda>cur.
     let line_ending = detect_line_ending (tf_text cur)
     in bindR (map_err CauseEngine (apply_hunks (tf_text cur) hunks line_ending)) (\<lambda>applied.
          map_err CauseText (tf_encode (hs_enc h) cur (ensure_trailing_newline applied line_ending))))"

definition update_file ::
  "('w, 'enc) host \<Rightarrow> 'w \<Rightarrow> pathbuf \<Rightarrow> rstr \<Rightarrow> rstr option \<Rightarrow> update_chunk list \<Rightarrow>
   'w \<times> (patch_cause, rstr) result" where
  "update_file h w cwd path0 move_to hunks =
     (let resolved_source = resolve_patch_path cwd path0; source_path = rhp_path resolved_source
      in andThen (w, map_err CauseSandbox (ensure_resolved_sandbox_access h w Write resolved_source)) (\<lambda>w _.
         andThen (w, update_content h w source_path hunks) (\<lambda>w content.
         let resolved_destination = (case move_to of
               Some destination \<Rightarrow> resolve_patch_path cwd destination | None \<Rightarrow> resolved_source);
             destination_path = rhp_path resolved_destination;
             remove_source = (move_to \<noteq> None \<and> \<not> path_eq source_path destination_path);
             summary_path = display_relative cwd destination_path
         in if \<not> remove_source
            then andThen (mapErr CauseIo (fs_write (hs_fs h) w destination_path content)) (\<lambda>w _.
                   (w, Inr (lit ''M '' @ summary_path)))
            else andThen (w, map_err CauseSandbox
                     (ensure_resolved_sandbox_access h w Write resolved_destination)) (\<lambda>w _.
                 andThen (create_parent h w destination_path) (\<lambda>w _.
                 andThen (mapErr CauseIo (fs_write (hs_fs h) w destination_path content)) (\<lambda>w _.
                 andThen (mapErr CauseIo (fs_remove_file (hs_fs h) w source_path)) (\<lambda>w _.
                   (w, Inr (lit ''M '' @ summary_path)))))))))"

fun execute_action ::
  "('w, 'enc) host \<Rightarrow> 'w \<Rightarrow> pathbuf \<Rightarrow> patch_action \<Rightarrow> 'w \<times> (patch_cause, rstr) result" where
  "execute_action h w cwd (Add path ls) = add_file h w cwd path ls"
| "execute_action h w cwd (Delete path) = delete_file h w cwd path"
| "execute_action h w cwd (Update path move_to hunks) = update_file h w cwd path move_to hunks"

fun action_description :: "patch_action \<Rightarrow> rstr" where
  "action_description (Add path _) = lit ''add `'' @ path @ lit ''`''"
| "action_description (Delete path) = lit ''delete `'' @ path @ lit ''`''"
| "action_description (Update path (Some destination) _) =
     lit ''move `'' @ path @ lit ''` to `'' @ destination @ lit ''`''"
| "action_description (Update path None _) = lit ''update `'' @ path @ lit ''`''"

record execute_failure =
  ef_context :: rstr
  ef_cause :: patch_cause
  ef_updated_paths :: "rstr list"

fun execute_actions_loop ::
  "('w, 'enc) host \<Rightarrow> 'w \<Rightarrow> pathbuf \<Rightarrow> rstr list \<Rightarrow> patch_action list \<Rightarrow>
   'w \<times> (execute_failure, rstr list) result" where
  "execute_actions_loop h w cwd summary [] = (w, Inr summary)"
| "execute_actions_loop h w cwd summary (a # as) =
     (case execute_action h w cwd a of
        (w', Inr updated_path) \<Rightarrow> execute_actions_loop h w' cwd (summary @ [updated_path]) as
      | (w', Inl cause) \<Rightarrow> (w', Inl \<lparr>ef_context = lit ''failed to '' @ action_description a,
          ef_cause = cause, ef_updated_paths = summary\<rparr>))"

definition execute_actions ::
  "('w, 'enc) host \<Rightarrow> 'w \<Rightarrow> pathbuf \<Rightarrow> patch_action list \<Rightarrow> 'w \<times> (execute_failure, rstr list) result" where
  "execute_actions h w cwd as = execute_actions_loop h w cwd [] as"

record patch_apply_request =
  req_patch :: rstr
  req_workdir :: "rstr option"

record patch_apply_response =
  resp_output :: rstr
  resp_instance_id :: "rstr option"
  resp_updated_paths :: "rstr list"
  resp_environment_id :: "rstr option"

datatype patch_apply_failure =
    PatchDisabled
  | PatchUnparsed patch_parse_error
  | PatchExecution execute_failure

definition apply_patch_local_detailed ::
  "('w, 'enc) host \<Rightarrow> 'w \<Rightarrow> patch_apply_request \<Rightarrow>
   'w \<times> (patch_apply_failure, patch_apply_response) result" where
  "apply_patch_local_detailed h w req =
     (if \<not> hs_allow_apply_patch h then (w, Inl PatchDisabled)
      else andThen (w, map_err PatchUnparsed (parse_patch (req_patch req))) (\<lambda>w parsed.
        let cwd = rhp_path (resolve_workdir_for_operation h (req_workdir req))
        in andThen (mapErr PatchExecution (execute_actions h w cwd (actions parsed))) (\<lambda>w summary.
             (w, Inr \<lparr>resp_output = lit ''Success. Updated the following files:'' @ [c_lf]
                        @ join [c_lf] summary @ [c_lf],
                      resp_instance_id = Some (hs_instance_id h),
                      resp_updated_paths = summary,
                      resp_environment_id = environment_id parsed\<rparr>))))"

section \<open>Confinement\<close>

lemma permitted:
  assumes "closed_under_permitted h P" and "P w0" and "may_write h w0 p" and "P w"
  shows "P (fst (fs_write (hs_fs h) w p c))" and "P (fst (fs_remove_file (hs_fs h) w p))"
    and "P (fst (create_parent h w p))"
  using permitted_fs [OF assms] assms(4) by (auto simp: create_parent_def split: option.splits)

lemma resolve_patch_path_wf: "wf_path cwd \<Longrightarrow> wf_path (rhp_path (resolve_patch_path cwd raw))"
  by (simp add: resolve_patch_path_def resolve_input_path_wf)

lemma add_file_confined:
  assumes cl: "closed_under_permitted h P" and w: "P w"
  shows "P (fst (add_file h w cwd path ls))"
  unfolding add_file_def Let_def
  by (intro sandboxed_step [where P = P] pure_step [where P = P] andThen_world [where P = P] w)
    (simp_all add: w permitted [OF cl w])

lemma delete_file_confined:
  assumes cl: "closed_under_permitted h P" and w: "P w"
  shows "P (fst (delete_file h w cwd path))"
  unfolding delete_file_def Let_def
  by (intro sandboxed_step [where P = P] andThen_world [where P = P] w)
    (simp_all add: w permitted [OF cl w])

lemma update_file_confined:
  assumes cl: "closed_under_permitted h P" and w: "P w" and cwd: "wf_path cwd"
  shows "P (fst (update_file h w cwd path move_to hunks))"
  unfolding update_file_def Let_def
proof (intro sandboxed_step [where P = P] pure_step [where P = P] w, goal_cases)
  case (1 content)
  let ?s = "rhp_path (resolve_patch_path cwd path)"
  let ?d = "rhp_path (case move_to of Some d \<Rightarrow> resolve_patch_path cwd d | None \<Rightarrow> resolve_patch_path cwd path)"
  show ?case
  proof (cases "move_to \<noteq> None \<and> \<not> path_eq ?s ?d")
    case True
    then obtain d where d: "move_to = Some d" by auto
    with True have "\<not> path_eq ?s (rhp_path (resolve_patch_path cwd d))" by simp
    with d show ?thesis
      by simp (intro sandboxed_step [where P = P] andThen_world [where P = P] w;
        simp add: w permitted [OF cl w] 1)
  next
    case False
    then have "?d = ?s"
      using wf_path_eq [OF resolve_patch_path_wf [OF cwd, of path] resolve_patch_path_wf [OF cwd], symmetric]
      by (auto split: option.splits)
    with False 1 show ?thesis
      using andThen_world [where P = P] permitted [OF cl w _ w] by (simp add: andThen_world)
  qed
qed

lemma execute_action_confined:
  "closed_under_permitted h P \<Longrightarrow> P w \<Longrightarrow> wf_path cwd \<Longrightarrow> P (fst (execute_action h w cwd a))"
  by (cases a) (simp_all add: add_file_confined delete_file_confined update_file_confined)

lemma execute_actions_loop_confined:
  assumes "closed_under_permitted h P" and "wf_path cwd" and "P w"
  shows "P (fst (execute_actions_loop h w cwd summary as))"
  using assms(3)
proof (induction as arbitrary: w summary)
  case Nil
  then show ?case by simp
next
  case (Cons a as)
  then show ?case
    using execute_action_confined [OF assms(1) Cons.prems assms(2), of a]
    by (auto split: prod.splits sum.splits)
qed

section \<open>Properties\<close>

text \<open>
  C3: a patch stays inside the sandbox. Every property of the file system that survives changes
  of authorised paths survives a whole patch application, whether it succeeds or fails part
  way: files are written, removed and given parent directories only at paths that the sandbox
  authorised for writing, also for the destination of a move.
\<close>

theorem apply_patch_confined:
  assumes "closed_under_permitted h P" and "wf_path (hs_default_workdir h)" and "P w"
  shows "P (fst (apply_patch_local_detailed h w req))"
proof -
  have "wf_path (rhp_path (resolve_workdir_for_operation h (req_workdir req)))"
    using assms(2) by (auto simp: resolve_workdir_for_operation_def resolve_input_path_wf split: option.splits)
  note loop = execute_actions_loop_confined [OF assms(1) this]
  show ?thesis
    unfolding apply_patch_local_detailed_def Let_def
    using assms(3)
    by (auto simp: execute_actions_def loop intro!: pure_step [where P = P] andThen_world [where P = P])
qed

definition move_patch :: rstr where
  "move_patch = join [c_lf] [lit ''*** Begin Patch'', lit ''*** Update File: a'', lit ''*** Move to: d/b'',
     lit ''-old'', lit ''+new'', lit ''*** Add File: ../etc/x'', lit ''+x'', lit ''*** End Patch'']"

theorem apply_patch_confined_witness:
  "inside_w (fst (apply_patch_local_detailed log_host [] \<lparr>req_patch = move_patch, req_workdir = None\<rparr>)) \<and>
   fst (apply_patch_local_detailed log_host [] \<lparr>req_patch = move_patch, req_workdir = None\<rparr>) =
     [[RootDir, Normal (lit ''w''), Normal (lit ''d''), Normal (lit ''b'')],
      [RootDir, Normal (lit ''w''), Normal (lit ''a'')]]"
proof -
  have "wf_path (hs_default_workdir log_host)" and "inside_w []" by code_simp+
  note apply_patch_confined [OF log_host_closed this]
  moreover have "fst (apply_patch_local_detailed log_host [] \<lparr>req_patch = move_patch, req_workdir = None\<rparr>) =
     [[RootDir, Normal (lit ''w''), Normal (lit ''d''), Normal (lit ''b'')],
      [RootDir, Normal (lit ''w''), Normal (lit ''a'')]]"
    by code_simp
  ultimately show ?thesis by blast
qed

lemma execute_actions_loop_summary:
  "execute_actions_loop h w cwd summary as = (case execute_actions_loop h w cwd [] as of
     (w', Inr s) \<Rightarrow> (w', Inr (summary @ s))
   | (w', Inl f) \<Rightarrow> (w', Inl (f\<lparr>ef_updated_paths := summary @ ef_updated_paths f\<rparr>)))"
proof (induction as arbitrary: w summary)
  case Nil
  then show ?case by simp
next
  case (Cons a as)
  show ?case
  proof (cases "execute_action h w cwd a")
    case (Pair w' r)
    then show ?thesis
      using Cons.IH [of w' "summary @ [projr r]"] Cons.IH [of w' "[projr r]"]
      by (cases r) (auto split: prod.splits sum.splits)
  qed
qed

lemma failure_report:
  assumes "execute_actions_loop h w cwd [] as = (w', Inl f)"
  shows "\<exists>k w1. k < length as \<and>
    execute_actions_loop h w cwd [] (take k as) = (w1, Inr (ef_updated_paths f)) \<and>
    length (ef_updated_paths f) = k \<and>
    execute_action h w1 cwd (as ! k) = (w', Inl (ef_cause f)) \<and>
    ef_context f = lit ''failed to '' @ action_description (as ! k)"
  using assms
proof (induction as arbitrary: w f)
  case Nil
  then show ?case by simp
next
  case (Cons a as)
  obtain w2 r where r: "execute_action h w cwd a = (w2, r)" by (cases "execute_action h w cwd a")
  show ?case
  proof (cases r)
    case (Inl c)
    with Cons.prems r show ?thesis by (intro exI [of _ 0] exI [of _ w]) auto
  next
    case (Inr s)
    with Cons.prems r execute_actions_loop_summary [of h w2 cwd "[s]" as]
    obtain g where g: "execute_actions_loop h w2 cwd [] as = (w', Inl g)"
      and f: "f = g\<lparr>ef_updated_paths := s # ef_updated_paths g\<rparr>"
      by (auto split: prod.splits sum.splits)
    from Cons.IH [OF g] obtain k w1 where
      k: "k < length as" "execute_actions_loop h w2 cwd [] (take k as) = (w1, Inr (ef_updated_paths g))"
        "length (ef_updated_paths g) = k" "execute_action h w1 cwd (as ! k) = (w', Inl (ef_cause g))"
        "ef_context g = lit ''failed to '' @ action_description (as ! k)"
      by blast
    with r Inr f execute_actions_loop_summary [of h w2 cwd "[s]" "take k as"]
    show ?thesis by (intro exI [of _ "Suc k"] exI [of _ w1]) simp
  qed
qed

text \<open>
  C11: a failed patch reports exactly what it did. The reported paths are the summaries of the
  first \<open>k\<close> actions, all of which succeeded, one path per action; the error is the error of action
  \<open>k\<close> in the state those actions left, and the context names that action.
\<close>

theorem execute_actions_failure_report:
  assumes "execute_actions h w cwd as = (w', Inl f)"
  shows "\<exists>k w1. k < length as \<and> execute_actions h w cwd (take k as) = (w1, Inr (ef_updated_paths f)) \<and>
    length (ef_updated_paths f) = k \<and> execute_action h w1 cwd (as ! k) = (w', Inl (ef_cause f)) \<and>
    ef_context f = lit ''failed to '' @ action_description (as ! k)"
  using failure_report [of h w cwd as w' f] assms by (simp add: execute_actions_def)

theorem execute_actions_failure_report_witness:
  "\<exists>w' f. execute_actions log_host [] [RootDir, Normal (lit ''w'')] [Delete (lit ''a''), Delete (lit ''/x'')] = (w', Inl f) \<and>
     (\<exists>k w1. k < 2 \<and> length (ef_updated_paths f) = k \<and>
        execute_action log_host w1 [RootDir, Normal (lit ''w'')] ([Delete (lit ''a''), Delete (lit ''/x'')] ! k)
          = (w', Inl (ef_cause f)))"
proof -
  let ?as = "[Delete (lit ''a''), Delete (lit ''/x'')]"
  let ?w' = "[[RootDir, Normal (lit ''w''), Normal (lit ''a'')]]"
  let ?f = "\<lparr>ef_context = lit ''failed to delete `/x`'',
    ef_cause = CauseSandbox (OutsideSandbox Write [RootDir, Normal (lit ''x'')]), ef_updated_paths = [lit ''D a'']\<rparr>"
  have e: "execute_actions log_host [] [RootDir, Normal (lit ''w'')] ?as = (?w', Inl ?f)" by code_simp
  obtain k w1 where "k < length ?as" "length (ef_updated_paths ?f) = k"
    "execute_action log_host w1 [RootDir, Normal (lit ''w'')] (?as ! k) = (?w', Inl (ef_cause ?f))"
    using execute_actions_failure_report [OF e] by blast
  then show ?thesis using e by (intro exI [of _ ?w'] exI [of _ ?f]) auto
qed

section \<open>Line endings\<close>

lemma split_on_crlf:
  "ls \<noteq> [] \<Longrightarrow> \<forall>l \<in> set ls. c_lf \<notin> set l \<Longrightarrow>
     split_on c_lf (join CRLF ls) = map (\<lambda>l. l @ [c_cr]) (butlast ls) @ [last ls]"
proof (induction ls rule: list_nonempty_induct)
  case (single l)
  then show ?case by (simp add: split_on_id)
next
  case (cons l ls)
  have "join CRLF (l # ls) = (l @ [c_cr]) @ c_lf # join CRLF ls"
    using cons.hyps by (simp add: join_Cons CRLF_def)
  moreover have "split_on c_lf (l @ [c_cr]) = [l @ [c_cr]]" using cons.prems by (simp add: split_on_id)
  ultimately show ?case using cons by (simp only: split_on_append) simp
qed

lemma strip_cr_snoc [simp]: "strip_cr (l @ [c_cr]) = l"
  by (simp add: strip_cr_def strip_suffix_def)

lemma strip_cr_plain: "l = [] \<or> last l \<noteq> c_cr \<Longrightarrow> strip_cr l = l"
  by (cases l rule: rev_cases) (auto simp: strip_cr_def strip_suffix_def)

lemma split_lines_join:
  assumes "e = LF \<or> e = CRLF" and "\<forall>l \<in> set ls. c_lf \<notin> set l \<and> (l = [] \<or> last l \<noteq> c_cr)"
    and "ls \<noteq> []"
  shows "map strip_cr (split_on c_lf (join e ls)) = ls"
proof -
  have id: "map strip_cr ls = ls" using assms(2) by (intro map_idI strip_cr_plain) auto
  show ?thesis
  proof (cases "e = LF")
    case True
    then have "split_on c_lf (join e ls) = ls"
      unfolding LF_def using split_on_join [OF assms(3), of c_lf] assms(2) by simp
    with id show ?thesis by simp
  next
    case False
    then have "split_on c_lf (join e ls) = map (\<lambda>l. l @ [c_cr]) (butlast ls) @ [last ls]"
      using assms split_on_crlf [of ls] by simp
    moreover have "strip_cr (last ls) = last ls"
      using assms(2,3) by (intro strip_cr_plain) (meson last_in_set)
    ultimately show ?thesis using assms(3) by (simp add: comp_def)
  qed
qed

lemma detect_skip: "c_lf \<notin> set l \<Longrightarrow>
  detect_line_ending_from b (l @ s) = detect_line_ending_from (if l = [] then b else last l = c_cr) s"
  by (induction l arbitrary: b) auto

lemma detect_join:
  assumes "e = LF \<or> e = CRLF" and "c_lf \<notin> set l" and "l = [] \<or> last l \<noteq> c_cr" and "ls \<noteq> []"
  shows "detect_line_ending (join e (l # ls)) = e"
proof -
  have "join e (l # ls) = l @ e @ join e ls" using assms(4) by (simp add: join_Cons)
  with assms show ?thesis
    by (auto simp: detect_line_ending_def detect_skip LF_def CRLF_def)
qed

text \<open>
  an update keeps the line endings of the file. A text whose lines all end in the same way,
  with line feeds or with carriage return and line feed, is split into its lines and joined
  again with the detected ending without any change.
\<close>

theorem line_endings_kept:
  assumes "e = LF \<or> e = CRLF" and "length ls \<ge> 2"
    and "\<forall>l \<in> set ls. c_lf \<notin> set l \<and> (l = [] \<or> last l \<noteq> c_cr)"
  shows "split_current_lines (join e ls) = ls \<and>
    join (detect_line_ending (join e ls)) (split_current_lines (join e ls)) = join e ls"
proof -
  obtain l l' ls' where ls: "ls = l # l' # ls'"
    using assms(2) by (metis Suc_le_length_iff numeral_2_eq_2)
  have "join e ls \<noteq> []" using assms(1) by (auto simp: ls LF_def CRLF_def)
  then have "split_current_lines (join e ls) = ls"
    using split_lines_join [OF assms(1,3)] ls by (simp add: split_current_lines_def)
  moreover have "detect_line_ending (join e ls) = e"
    unfolding ls using assms(3) by (intro detect_join [OF assms(1)]) (auto simp: ls)
  ultimately show ?thesis by simp
qed

theorem line_endings_kept_witness:
  "split_current_lines (join CRLF [lit ''a'', [], lit ''b'']) = [lit ''a'', [], lit ''b'']"
proof -
  have "\<forall>l \<in> set [lit ''a'', [], lit ''b'']. c_lf \<notin> set l \<and> (l = [] \<or> last l \<noteq> c_cr)" by code_simp
  with line_endings_kept [of CRLF "[lit ''a'', [], lit ''b'']"] show ?thesis by simp
qed

end
