(* ===== verification/Patch_Roundtrip.thy ===== *)
theory Patch_Roundtrip
  imports Patch_Parser
begin

text \<open>
  A printer for parsed patches and the proof that the parser of
  \<open>crates/remote-exec-host/src/patch/parser.rs\<close> inverts it. The proof follows the cursor of the
  parser: one lemma per parsing operation says that on a list of lines holding the rendered
  part at the cursor, the operation returns that part and leaves the cursor behind it.
\<close>

section \<open>Printing\<close>

text \<open>
  A reference printer, the inverse the parser is measured against: removed lines before added
  lines in every hunk, an explicit header on every hunk.
\<close>

definition render_context :: "rstr option \<Rightarrow> rstr" where
  "render_context ctx = (case ctx of None \<Rightarrow> lit ''@@'' | Some c \<Rightarrow> lit ''@@ '' @ c)"

definition render_chunk :: "update_chunk \<Rightarrow> rstr list" where
  "render_chunk c = render_context (change_context c)
     # map ((#) c_minus) (old_lines c) @ map ((#) c_plus) (new_lines c)
     @ (if is_end_of_file c then [lit ''*** End of File''] else [])"

definition render_move :: "rstr option \<Rightarrow> rstr list" where
  "render_move m = (case m of None \<Rightarrow> [] | Some d \<Rightarrow> [lit ''*** Move to: '' @ d])"

fun render_action :: "patch_action \<Rightarrow> rstr list" where
  "render_action (Add path ls) = (lit ''*** Add File: '' @ path) # map ((#) c_plus) ls"
| "render_action (Delete path) = [lit ''*** Delete File: '' @ path]"
| "render_action (Update path move_to hunks) =
     (lit ''*** Update File: '' @ path) # render_move move_to @ concat (map render_chunk hunks)"

definition render_environment :: "rstr option \<Rightarrow> rstr list" where
  "render_environment e = (case e of None \<Rightarrow> [] | Some v \<Rightarrow> [lit ''*** Environment ID: '' @ v])"

definition render_lines :: "parsed_patch \<Rightarrow> rstr list" where
  "render_lines p = lit ''*** Begin Patch'' # render_environment (environment_id p)
     @ concat (map render_action (actions p)) @ [lit ''*** End Patch'']"

definition render_patch :: "parsed_patch \<Rightarrow> rstr" where
  "render_patch p = join [c_lf] (render_lines p) @ [c_lf]"

text \<open>
  The patches the line-based syntax can express: names without surrounding white space, and
  line contents without line feeds or a final carriage return.
\<close>

definition ok_line :: "rstr \<Rightarrow> bool" where
  "ok_line l \<longleftrightarrow> c_lf \<notin> set l \<and> (l = [] \<or> last l \<noteq> c_cr)"

definition ok_name :: "rstr \<Rightarrow> bool" where
  "ok_name n \<longleftrightarrow> n \<noteq> [] \<and> trim n = n \<and> c_lf \<notin> set n"

definition ok_context :: "rstr \<Rightarrow> bool" where
  "ok_context c \<longleftrightarrow> c \<noteq> [] \<and> \<not> is_whitespace (last c) \<and> c_lf \<notin> set c"

definition printable_chunk :: "update_chunk \<Rightarrow> bool" where
  "printable_chunk c \<longleftrightarrow> valid_chunk c \<and> list_all ok_line (old_lines c) \<and> list_all ok_line (new_lines c)
     \<and> pred_option ok_context (change_context c)"

fun printable_action :: "patch_action \<Rightarrow> bool" where
  "printable_action (Add path ls) = (ok_name path \<and> list_all ok_line ls)"
| "printable_action (Delete path) = ok_name path"
| "printable_action (Update path move_to hunks) =
     (ok_name path \<and> pred_option ok_name move_to \<and> hunks \<noteq> [] \<and> list_all printable_chunk hunks)"

definition printable_patch :: "parsed_patch \<Rightarrow> bool" where
  "printable_patch p \<longleftrightarrow> list_all printable_action (actions p) \<and> pred_option ok_name (environment_id p)"

subsection \<open>Rendered lines are classified as intended\<close>

lemma ok_name_ends:
  assumes "ok_name n"
  shows "n \<noteq> []" and "\<not> is_whitespace (last n)" and "\<not> is_whitespace (hd n)"
proof -
  show ne: "n \<noteq> []" using assms by (simp add: ok_name_def)
  have t: "trim n = n" using assms by (simp add: ok_name_def)
  with ne show "\<not> is_whitespace (last n)"
    by (metis trim_def trim_end_def trim_end_matches_last)
  have "trim_start n \<noteq> []" using t ne by (auto simp: trim_def trim_end_def)
  then have "\<not> is_whitespace (hd (trim_start n))"
    unfolding trim_start_def by (rule trim_start_matches_hd)
  moreover have "hd n = hd (trim_start n)"
    using t ne by (metis trim_def trim_end_def trim_end_matches_hd)
  ultimately show "\<not> is_whitespace (hd n)" by simp
qed

lemma trim_control:
  assumes "p \<noteq> []" and "\<not> is_whitespace (hd p)" and "n \<noteq> []" and "\<not> is_whitespace (last n)"
  shows "trim (p @ n) = p @ n"
  using assms by (intro trim_noop) auto

lemma is_whitespace_ascii [simp]:
  "is_whitespace 42 = False" "is_whitespace 64 = False" "is_whitespace 43 = False"
  "is_whitespace 45 = False" "is_whitespace 32 = True" "is_whitespace 13 = True"
  "is_whitespace 10 = True"
  by (simp_all add: is_whitespace_def)

definition sample_patch :: parsed_patch where
  "sample_patch = \<lparr>actions = [Add (lit ''a.txt'') [lit ''+x'', []], Delete (lit ''b''),
     Update (lit ''c d'') (Some (lit ''e'')) [
       \<lparr>change_context = Some (lit ''fn f''), old_lines = [lit ''x''], new_lines = [lit ''*** y''], is_end_of_file = False\<rparr>,
       \<lparr>change_context = None, old_lines = [], new_lines = [lit ''@@''], is_end_of_file = True\<rparr>]],
     environment_id = Some (lit ''dev'')\<rparr>"

lemma trim_Cons:
  assumes "\<not> is_whitespace c"
  shows "\<exists>w. trim (c # v) = c # w"
proof -
  have s: "trim_start (c # v) = c # v"
    unfolding trim_start_def by (rule trim_start_matches_noop) (simp add: assms)
  have ne: "trim (c # v) \<noteq> []"
  proof
    assume "trim (c # v) = []"
    then have "dropWhile is_whitespace (rev (c # v)) = []"
      by (simp add: trim_def s trim_end_def trim_end_matches_def)
    then have "\<forall>x \<in> set (rev (c # v)). is_whitespace x" by (simp only: dropWhile_eq_Nil_conv)
    with assms show False by simp
  qed
  have "hd (trim (c # v)) = c"
    using ne trim_end_matches_hd [of is_whitespace "c # v"] by (simp add: trim_def s trim_end_def)
  with ne show ?thesis by (cases "trim (c # v)") auto
qed

lemmas control_lines =
  trim_patch_whitespace_def strip_control_prefix_def is_structural_control_line_def starts_with_def

lemma trim_star:
  assumes "ok_name n"
  shows "trim (lit (CHR ''*'' # p) @ n) = lit (CHR ''*'' # p) @ n"
  using ok_name_ends [OF assms] by (intro trim_control) (auto simp: lit_def)

lemma name_lines [simp]:
  assumes "ok_name n"
  shows "strip_control_prefix (lit ''*** Add File: '' @ n) (lit ''*** Add File: '') = Some n"
    and "strip_control_prefix (lit ''*** Delete File: '' @ n) (lit ''*** Add File: '') = None"
    and "strip_control_prefix (lit ''*** Delete File: '' @ n) (lit ''*** Delete File: '') = Some n"
    and "strip_control_prefix (lit ''*** Update File: '' @ n) (lit ''*** Add File: '') = None"
    and "strip_control_prefix (lit ''*** Update File: '' @ n) (lit ''*** Delete File: '') = None"
    and "strip_control_prefix (lit ''*** Update File: '' @ n) (lit ''*** Update File: '') = Some n"
    and "strip_control_prefix (lit ''*** Move to: '' @ n) (lit ''*** Move to: '') = Some n"
    and "strip_control_prefix (lit ''*** Add File: '' @ n) (lit ''*** Environment ID:'') = None"
    and "strip_control_prefix (lit ''*** Delete File: '' @ n) (lit ''*** Environment ID:'') = None"
    and "strip_control_prefix (lit ''*** Update File: '' @ n) (lit ''*** Environment ID:'') = None"
    and "is_structural_control_line (lit ''*** Add File: '' @ n)"
    and "is_structural_control_line (lit ''*** Delete File: '' @ n)"
    and "is_structural_control_line (lit ''*** Update File: '' @ n)"
  using assms ok_name_def [of n]
  by (simp_all add: control_lines trim_star) (simp_all add: lit_def)

lemma environment_line [simp]:
  assumes "ok_name n"
  shows "strip_control_prefix (lit ''*** Environment ID: '' @ n) (lit ''*** Environment ID:'') = Some n"
proof -
  have "trim (c_space # n) = n"
    using assms ok_name_ends [OF assms] by (simp add: ok_name_def trim_def trim_start_def trim_start_matches_def)
  with assms show ?thesis
    by (simp add: control_lines trim_star) (simp add: lit_def)
qed

lemma fixed_lines [simp]:
  "trim (lit ''*** End Patch'') = lit ''*** End Patch''"
  "trim (lit ''*** Begin Patch'') = lit ''*** Begin Patch''"
  "trim (lit ''*** End of File'') = lit ''*** End of File''"
  "is_structural_control_line (lit ''*** End Patch'')"
  "is_structural_control_line (lit ''*** End of File'')"
  by code_simp+

lemma body_lines:
  assumes "c = c_plus \<or> c = c_minus"
  shows "\<not> starts_with (lit ''@@'') (trim (c # v))"
    and "trim (c # v) \<noteq> lit ''*** End of File''"
    and "\<not> is_structural_control_line (c # v)"
proof -
  obtain w where w: "trim (c # v) = c # w"
    using assms trim_Cons [of c v] by auto
  with assms show "\<not> starts_with (lit ''@@'') (trim (c # v))"
    and "trim (c # v) \<noteq> lit ''*** End of File''"
    and "\<not> is_structural_control_line (c # v)"
    by (auto simp: control_lines lit_def)
qed

lemma header_lines:
  assumes "pred_option ok_context ctx"
  shows "trim (render_context ctx) = render_context ctx"
    and "starts_with (lit ''@@'') (render_context ctx)"
    and "\<not> is_structural_control_line (render_context ctx)"
    and "parse_hunk_header (render_context ctx) = Inr ctx"
    and "strip_control_prefix (render_context ctx) (lit ''*** Move to: '') = None"
proof -
  have "trim (lit ''@@'') = lit ''@@''" by code_simp
  moreover have "trim (lit ''@@ '' @ c) = lit ''@@ '' @ c" if "ok_context c" for c
    using that by (intro trim_control) (auto simp: ok_context_def lit_def)
  ultimately show t: "trim (render_context ctx) = render_context ctx"
    using assms by (cases ctx) (auto simp: render_context_def)
  show "starts_with (lit ''@@'') (render_context ctx)"
    by (cases ctx) (simp_all add: render_context_def starts_with_def lit_def)
  show "\<not> is_structural_control_line (render_context ctx)"
    unfolding control_lines t by (cases ctx) (simp_all add: render_context_def lit_def)
  show "parse_hunk_header (render_context ctx) = Inr ctx"
    unfolding parse_hunk_header_def trim_patch_whitespace_def t
    by (cases ctx) (simp_all add: render_context_def lit_def)
  show "strip_control_prefix (render_context ctx) (lit ''*** Move to: '') = None"
    unfolding control_lines t by (cases ctx) (simp_all add: render_context_def lit_def)
qed

subsection \<open>Parsing a rendered section\<close>

text \<open>The cursor at the line after a prefix of known length.\<close>

lemma cursor_at [simp]:
  "current (pre @ x # rest) (length pre) = Inr x"
  "at_body_end (pre @ x # rest) (length pre) \<longleftrightarrow> rest = []"
  by (simp_all add: current_def at_body_end_def)

lemma cursor_split: "ls = pre @ x # rest \<Longrightarrow> n = length pre \<Longrightarrow>
    current ls n = Inr x \<and> (at_body_end ls n \<longleftrightarrow> rest = [])"
  by simp

lemma parse_add_lines_render:
  assumes "is_structural_control_line next"
  shows "parse_add_lines (pre @ map ((#) c_plus) vs @ next # rest) (length pre) added =
    Inr (added @ vs, length pre + length vs)"
proof (induction vs arbitrary: pre added)
  case Nil
  with assms show ?case by (simp add: parse_add_lines.simps)
next
  case (Cons v vs)
  have rec: "parse_add_lines ((pre @ [c_plus # v]) @ map ((#) c_plus) vs @ next # rest)
      (length (pre @ [c_plus # v])) (added @ [v]) = Inr (added @ v # vs, length pre + length (v # vs))"
    unfolding Cons.IH by simp
  show ?case
    using rec body_lines(3) [of c_plus v]
    by (simp add: parse_add_lines.simps [of "pre @ (c_plus # v) # map ((#) c_plus) vs @ next # rest" "length pre"])
qed

lemma chunk_body_step:
  assumes "c = c_plus \<or> c = c_minus" and "rest \<noteq> []"
  shows "parse_update_chunk_body (pre @ (c # v) # rest) (length pre) old new =
    parse_update_chunk_body ((pre @ [c # v]) @ rest) (length (pre @ [c # v]))
      (if c = c_minus then old @ [v] else old) (if c = c_plus then new @ [v] else new)"
  using assms body_lines [OF assms(1), of v]
  by (simp add: parse_update_chunk_body.simps [of "pre @ (c # v) # rest" "length pre"]
      current_line_is_update_chunk_body_def trim_patch_whitespace_def)
    (auto simp: parse_update_chunk_line_def)

lemma chunk_body_stop:
  assumes "starts_with (lit ''@@'') (trim next) \<or> is_structural_control_line next"
  shows "parse_update_chunk_body (pre @ next # rest) (length pre) old new =
    Inr ((old, new), length pre)"
  using assms
  by (simp add: parse_update_chunk_body.simps [of "pre @ next # rest" "length pre"]
      current_line_is_update_chunk_body_def trim_patch_whitespace_def) auto

lemma chunk_body_plus:
  assumes "starts_with (lit ''@@'') (trim next) \<or> is_structural_control_line next"
  shows "parse_update_chunk_body (pre @ map ((#) c_plus) ns @ next # rest) (length pre) old new =
    Inr ((old, new @ ns), length pre + length ns)"
proof (induction ns arbitrary: pre new)
  case Nil
  with assms show ?case by (simp add: chunk_body_stop)
next
  case (Cons n ns)
  have "parse_update_chunk_body (pre @ (c_plus # n) # (map ((#) c_plus) ns @ next # rest)) (length pre) old new
      = Inr ((old, (new @ [n]) @ ns), length (pre @ [c_plus # n]) + length ns)"
    unfolding Cons.IH [symmetric] by (subst chunk_body_step) auto
  then show ?case by simp
qed

lemma chunk_body_render:
  assumes "starts_with (lit ''@@'') (trim next) \<or> is_structural_control_line next"
  shows "parse_update_chunk_body (pre @ map ((#) c_minus) os @ map ((#) c_plus) ns @ next # rest)
      (length pre) old new = Inr ((old @ os, new @ ns), length pre + length os + length ns)"
proof (induction os arbitrary: pre old)
  case Nil
  with assms show ?case by (simp add: chunk_body_plus)
next
  case (Cons o1 os)
  have "parse_update_chunk_body
      (pre @ (c_minus # o1) # (map ((#) c_minus) os @ map ((#) c_plus) ns @ next # rest)) (length pre) old new
      = Inr (((old @ [o1]) @ os, new @ ns), length (pre @ [c_minus # o1]) + length os + length ns)"
    unfolding Cons.IH [symmetric] by (subst chunk_body_step) auto
  then show ?case by simp
qed
subsection \<open>Every part of a rendered patch is read back\<close>

text \<open>The lines that end a hunk, and those that end an action.\<close>

definition ends_hunk :: "rstr \<Rightarrow> bool" where
  "ends_hunk l \<longleftrightarrow> (starts_with (lit ''@@'') (trim l) \<or> is_structural_control_line l)
     \<and> trim l \<noteq> lit ''*** End of File'' \<and> trim l \<noteq> []"

lemma render_context_ends_hunk:
  "pred_option ok_context ctx \<Longrightarrow> ends_hunk (render_context ctx)"
  using header_lines [of ctx]
  by (cases ctx) (auto simp: ends_hunk_def, auto simp: render_context_def lit_def)

lemma eof_marker_render:
  assumes "ends_hunk next"
  shows "consume_end_of_file_marker (pre @ next # rest) (length pre) = Inr (False, length pre)"
  using assms by (simp add: consume_end_of_file_marker_def trim_patch_whitespace_def ends_hunk_def)

lemma parse_update_chunk_render:
  assumes c: "printable_chunk c" and n: "ends_hunk next"
  shows "parse_update_chunk (pre @ render_chunk c @ next # rest) (length pre) path first =
    Inr (c, length pre + length (render_chunk c))"
proof -
  define h where "h = render_context (change_context c)"
  define next' where "next' = (if is_end_of_file c then lit ''*** End of File'' else next)"
  define rest' where "rest' = (if is_end_of_file c then next # rest else rest)"
  define body where "body = map ((#) c_minus) (old_lines c) @ map ((#) c_plus) (new_lines c)"
  let ?ls = "pre @ render_chunk c @ next # rest"
  have ls: "?ls = pre @ h # (body @ next' # rest')" "?ls = (pre @ [h]) @ body @ next' # rest'"
    "?ls = (pre @ h # body) @ next' # rest'"
    by (auto simp: render_chunk_def h_def next'_def rest'_def body_def)
  have ctx: "pred_option ok_context (change_context c)" using c by (simp add: printable_chunk_def)
  have head: "parse_update_chunk_header ?ls (length pre) first =
      Inr (change_context c, length (pre @ [h]))"
    unfolding ls(1) using header_lines [OF ctx]
    by (simp add: parse_update_chunk_header_def trim_patch_whitespace_def h_def)
  have stop: "starts_with (lit ''@@'') (trim next') \<or> is_structural_control_line next'"
    using n by (auto simp: next'_def ends_hunk_def)
  have bod: "parse_update_chunk_body ?ls (length (pre @ [h])) [] [] =
      Inr ((old_lines c, new_lines c), length (pre @ h # body))"
    unfolding ls(2)
    using chunk_body_render [OF stop, of "pre @ [h]" "old_lines c" "new_lines c" rest' "[]" "[]"]
    by (simp add: body_def)
  have eof: "consume_end_of_file_marker ?ls (length (pre @ h # body)) =
      Inr (is_end_of_file c, length pre + length (render_chunk c))"
  proof (cases "is_end_of_file c")
    case True
    then show ?thesis
      unfolding ls(3) consume_end_of_file_marker_def cursor_at
      by (simp add: next'_def rest'_def trim_patch_whitespace_def body_def render_chunk_def)
  next
    case False
    then have "next' = next" "rest' = rest" by (simp_all add: next'_def rest'_def)
    with False show ?thesis
      unfolding ls(3) using eof_marker_render [OF n, of "pre @ h # body" rest]
      by (simp add: body_def render_chunk_def)
  qed
  have "old_lines c \<noteq> [] \<or> new_lines c \<noteq> []" using c by (simp add: printable_chunk_def valid_chunk_def)
  with head bod eof show ?thesis by (simp add: parse_update_chunk_def)
qed

lemma consume_blank_render:
  assumes "trim next \<noteq> []"
  shows "consume_blank_lines_after_end_of_file (pre @ next # rest) (length pre) = Inr (length pre)"
  using assms
  by (simp add: consume_blank_lines_after_end_of_file.simps [of "pre @ next # rest"]
      trim_patch_whitespace_def)

lemma parse_update_hunks_render:
  assumes "list_all printable_chunk cs" and "ends_hunk next" and "is_structural_control_line next"
  shows "parse_update_hunks (pre @ concat (map render_chunk cs) @ next # rest) (length pre) path hs =
    Inr (hs @ cs, length pre + length (concat (map render_chunk cs)))"
  using assms(1)
proof (induction cs arbitrary: pre hs)
  case Nil
  with assms show ?case by (simp add: parse_update_hunks.simps [of "pre @ next # rest"])
next
  case (Cons c cs)
  define tl where "tl = concat (map render_chunk cs) @ next # rest"
  obtain n' r' where tl: "tl = n' # r'" and n': "ends_hunk n'"
    using Cons.prems assms(2)
    by (cases cs) (auto simp: tl_def render_chunk_def printable_chunk_def render_context_ends_hunk)
  let ?ls = "pre @ render_chunk c @ tl"
  have c: "printable_chunk c" using Cons.prems by simp
  then have ctx: "pred_option ok_context (change_context c)" by (simp add: printable_chunk_def)
  obtain r where rc: "render_chunk c @ tl = render_context (change_context c) # r" and "r \<noteq> []"
    by (simp add: render_chunk_def tl)
  have cur: "current ?ls (length pre) = Inr (render_context (change_context c))"
    "\<not> at_body_end ?ls (length pre)"
    unfolding rc using \<open>r \<noteq> []\<close> by simp_all
  have chunk: "parse_update_chunk ?ls (length pre) path (hs = []) =
      Inr (c, length (pre @ render_chunk c))"
    using parse_update_chunk_render [OF c n'] by (simp add: tl)
  have blank: "consume_blank_lines_after_end_of_file ?ls (length (pre @ render_chunk c)) =
      Inr (length (pre @ render_chunk c))"
    using consume_blank_render [of n' "pre @ render_chunk c" r'] n' by (simp add: tl ends_hunk_def)
  have rec: "parse_update_hunks ?ls (length (pre @ render_chunk c)) path (hs @ [c]) =
      Inr (hs @ c # cs, length pre + length (concat (map render_chunk (c # cs))))"
    using Cons.IH [of "pre @ render_chunk c" "hs @ [c]"] Cons.prems by (simp add: tl_def)
  show ?case
    using cur chunk blank rec header_lines(3) [OF ctx]
    by (simp add: parse_update_hunks.simps [of ?ls "length pre"] tl_def [symmetric])
qed

definition ends_action :: "rstr \<Rightarrow> bool" where
  "ends_action l \<longleftrightarrow> ends_hunk l \<and> is_structural_control_line l
     \<and> strip_control_prefix l (lit ''*** Environment ID:'') = None"

lemma name_lines_end_action [simp]:
  assumes "ok_name n"
  shows "ends_action (lit ''*** Add File: '' @ n)"
    and "ends_action (lit ''*** Delete File: '' @ n)"
    and "ends_action (lit ''*** Update File: '' @ n)"
  using assms by (simp_all add: ends_action_def ends_hunk_def trim_star) (simp_all add: lit_def)

lemma footer_ends_action [simp]: "ends_action (lit ''*** End Patch'')"
  by (simp add: ends_action_def ends_hunk_def, code_simp)

lemma parse_move_to_render:
  assumes m: "pred_option ok_name m" and cs: "cs \<noteq> []" "list_all printable_chunk cs"
  shows "parse_move_to (pre @ render_move m @ concat (map render_chunk cs) @ next # rest) (length pre) =
    Inr (m, length pre + length (render_move m))"
proof -
  obtain c cs' where c: "cs = c # cs'" using cs by (cases cs) auto
  then have "pred_option ok_context (change_context c)" using cs by (simp add: printable_chunk_def)
  from header_lines(5) [OF this] m show ?thesis
    by (cases m) (simp_all add: parse_move_to_def render_move_def c render_chunk_def)
qed

lemma parse_action_render:
  assumes a: "printable_action a" and n: "ends_action next"
  shows "parse_action (pre @ render_action a @ next # rest) (length pre) =
    Inr (a, length pre + length (render_action a))"
proof (cases a)
  case (Add path vs)
  have "parse_add_lines ((pre @ [l]) @ map ((#) c_plus) vs @ next # rest) (length (pre @ [l])) [] =
      Inr (vs, length (pre @ [l]) + length vs)" for l
    using n by (subst parse_add_lines_render) (simp_all add: ends_action_def)
  with a Add show ?thesis by (simp add: parse_action_def parse_add_file_def)
next
  case (Delete path)
  with a show ?thesis by (simp add: parse_action_def parse_delete_file_def)
next
  case (Update path m cs)
  let ?l = "lit ''*** Update File: '' @ path"
  let ?ls = "pre @ render_action a @ next # rest"
  have p: "ok_name path" "pred_option ok_name m" "cs \<noteq> []" "list_all printable_chunk cs"
    using a Update by simp_all
  have "parse_move_to ?ls (length (pre @ [?l])) = Inr (m, length (pre @ ?l # render_move m))"
    using parse_move_to_render [OF p(2-4), of "pre @ [?l]" "next" rest] Update by simp
  moreover have "parse_update_hunks ?ls (length (pre @ ?l # render_move m)) path [] =
      Inr (cs, length pre + length (render_action a))"
    using parse_update_hunks_render [OF p(4), of "next" "pre @ ?l # render_move m" rest path "[]"]
      n Update by (simp add: ends_action_def)
  ultimately show ?thesis
    using p Update by (simp add: parse_action_def parse_update_file_def)
qed

lemma actions_head:
  assumes "list_all printable_action as"
  obtains n r where "concat (map render_action as) @ [lit ''*** End Patch''] = n # r" and "ends_action n"
proof (cases as)
  case Nil
  then show thesis by (intro that [of "lit ''*** End Patch''" "[]"]) simp_all
next
  case (Cons a as')
  with assms show thesis by (cases a) (auto intro: that)
qed

lemma parse_actions_loop_render:
  assumes "list_all printable_action as"
  shows "parse_actions_loop (pre @ concat (map render_action as) @ [lit ''*** End Patch''])
      (length pre) done = Inr (done @ as)"
  using assms
proof (induction as arbitrary: pre "done")
  case Nil
  then show ?case by (simp add: parse_actions_loop.simps)
next
  case (Cons a as)
  let ?ls = "pre @ render_action a @ concat (map render_action as) @ [lit ''*** End Patch'']"
  obtain n r where nr: "concat (map render_action as) @ [lit ''*** End Patch''] = n # r" "ends_action n"
    using Cons.prems actions_head [of as] by auto
  have "\<not> at_body_end ?ls (length pre)" by (cases a) (simp_all add: at_body_end_def)
  moreover have "parse_action ?ls (length pre) = Inr (a, length (pre @ render_action a))"
    using parse_action_render [of a n pre r] Cons.prems nr by simp
  ultimately show ?case
    using Cons.IH [of "pre @ render_action a" "done @ [a]"] Cons.prems
    by (simp add: parse_actions_loop.simps [of ?ls])
qed

lemma parse_actions_render:
  assumes "printable_patch p"
  shows "parse_actions (render_lines p) 1 = Inr p"
proof -
  let ?b = "lit ''*** Begin Patch''" and ?e = "lit ''*** End Patch''"
  let ?as = "concat (map render_action (actions p))"
  have as: "list_all printable_action (actions p)" and env: "pred_option ok_name (environment_id p)"
    using assms by (simp_all add: printable_patch_def)
  obtain n r where nr: "?as @ [?e] = n # r" "ends_action n" using actions_head [OF as] .
  have one: "1 = length [?b]" by simp
  have "parse_environment_id (render_lines p) 1 =
      Inr (environment_id p, length (?b # render_environment (environment_id p)))"
  proof (cases "environment_id p")
    case None
    then show ?thesis
      unfolding one render_lines_def using nr cursor_at [of "[?b]" n r]
      by (simp add: parse_environment_id_def render_environment_def ends_action_def)
  next
    case (Some v)
    with env show ?thesis
      unfolding one render_lines_def using cursor_at [of "[?b]" "lit ''*** Environment ID: '' @ v" "?as @ [?e]"]
      by (simp add: parse_environment_id_def render_environment_def ok_name_def)
  qed
  moreover have "parse_actions_loop (render_lines p) (length (?b # render_environment (environment_id p))) []
      = Inr (actions p)"
    using parse_actions_loop_render [OF as, of "?b # render_environment (environment_id p)" "[]"]
    by (simp add: render_lines_def)
  ultimately show ?thesis by (simp add: parse_actions_def)
qed

lemma strip_cr_ok_line: "ok_line l \<Longrightarrow> strip_cr l = l"
  by (cases l rule: rev_cases) (auto simp: ok_line_def strip_cr_def strip_suffix_def)

lemma lines_of_join:
  assumes "list_all ok_line ls" and "ls \<noteq> []"
  shows "lines_of (join [c_lf] ls @ [c_lf]) = ls"
proof -
  have "split_on c_lf (join [c_lf] (ls @ [[]])) = ls @ [[]]"
    using assms by (intro split_on_join) (auto simp: ok_line_def list_all_iff)
  moreover have "join [c_lf] (ls @ [[]]) = join [c_lf] ls @ [c_lf]"
    using assms(2) by (induction "[c_lf]" ls rule: join.induct) (simp_all add: join_Cons)
  moreover have "map strip_cr ls = ls"
    using assms(1) by (intro map_idI) (auto simp: list_all_iff intro!: strip_cr_ok_line)
  ultimately show ?thesis by (simp add: lines_of_def Let_def)
qed

lemma render_lines_ok:
  assumes "printable_patch p"
  shows "list_all ok_line (render_lines p)"
proof -
  have plain: "ok_line (lit ''*** Begin Patch'')" "ok_line (lit ''*** End Patch'')"
    "ok_line (lit ''*** End of File'')" "ok_line (lit ''@@'')"
    by code_simp+
  have tail: "ok_line (lit k @ n)" if "c_lf \<notin> set (lit k)" "n \<noteq> []" "\<not> is_whitespace (last n)" "c_lf \<notin> set n"
    for k n
    using that by (auto simp: ok_line_def)
  have name: "ok_line (lit k @ n)" if "c_lf \<notin> set (lit k)" "ok_name n" for k n
    using that ok_name_ends [OF that(2)] by (intro tail) (simp_all add: ok_name_def)
  have mark: "ok_line (c # l)" if "ok_line l" "c = c_plus \<or> c = c_minus" for c l
    using that by (auto simp: ok_line_def)
  have ctx: "ok_line (render_context c)" if "pred_option ok_context c" for c
    using that plain by (cases c) (auto simp: render_context_def ok_context_def lit_def intro!: tail [of "''@@ ''", unfolded lit_def, simplified])
  have chunk: "list_all ok_line (render_chunk c)" if "printable_chunk c" for c
    using that ctx plain mark by (auto simp: render_chunk_def printable_chunk_def list_all_iff)
  have act: "list_all ok_line (render_action a)" if "printable_action a" for a
    using that chunk mark
    by (cases a) (auto simp: list_all_iff render_move_def lit_def split: option.splits
        intro!: name [unfolded lit_def, where k = "''*** Add File: ''", simplified]
          name [unfolded lit_def, where k = "''*** Delete File: ''", simplified]
          name [unfolded lit_def, where k = "''*** Update File: ''", simplified]
          name [unfolded lit_def, where k = "''*** Move to: ''", simplified])
  have "list_all ok_line (render_environment e)" if "pred_option ok_name e" for e
    using that by (cases e) (auto simp: render_environment_def lit_def
        intro!: name [unfolded lit_def, where k = "''*** Environment ID: ''", simplified])
  with assms act plain show ?thesis
    by (auto simp: render_lines_def printable_patch_def list_all_iff)
qed

section \<open>The round trip\<close>

text \<open>
  C5: parsing inverts printing. For every patch the line syntax can express, with any number of
  actions, moves, hunks, end-of-file markers and an optional environment id, \<open>parse_patch\<close>
  of its printed text succeeds and returns exactly that patch.
\<close>

theorem parse_render_patch:
  assumes "printable_patch p"
  shows "parse_patch (render_patch p) = Inr p"
proof -
  have "lines_of (render_patch p) = render_lines p"
    unfolding render_patch_def using render_lines_ok [OF assms]
    by (rule lines_of_join) (simp add: render_lines_def)
  moreover have "hd (render_lines p) = lit ''*** Begin Patch''" "last (render_lines p) = lit ''*** End Patch''"
    "render_lines p \<noteq> []"
    by (simp_all add: render_lines_def)
  ultimately show ?thesis
    using parse_actions_render [OF assms]
    by (simp add: parse_patch_def patch_parser_new_def trim_patch_whitespace_def)
qed

theorem parse_render_patch_witness:
  "printable_patch sample_patch \<and> parse_patch (render_patch sample_patch) = Inr sample_patch"
proof -
  have "printable_patch sample_patch" by code_simp
  with parse_render_patch [of sample_patch] show ?thesis by simp
qed

end
