(* ===== verification/File_Tool.thy ===== *)
theory File_Tool
  imports Host_State
begin

text \<open>
  \<open>crates/remote-exec-host/src/file.rs\<close>: the read, write and edit tools, with the string search
  and replacement of the standard library they use. Messages are left out, error kinds kept.
\<close>

section \<open>Searching and replacing in strings\<close>

text \<open>The first occurrence of a pattern: what is before it and what is behind it.\<close>

fun find_str :: "rstr \<Rightarrow> rstr \<Rightarrow> (rstr \<times> rstr) option" where
  "find_str pat [] = (if pat = [] then Some ([], []) else None)"
| "find_str pat (c # s) = (case strip_prefix pat (c # s) of
      Some r \<Rightarrow> Some ([], r)
    | None \<Rightarrow> map_option (\<lambda>(b, r). (c # b, r)) (find_str pat s))"

lemma find_str_Some: "find_str pat s = Some (b, r) \<Longrightarrow> s = b @ pat @ r"
  by (induction pat s arbitrary: b rule: find_str.induct)
    (auto simp: strip_prefix_eq_Some split: option.splits if_splits)

text \<open>\<open>match_indices(pat).count()\<close> and \<open>replace\<close>; occurrences do not overlap.\<close>

function match_count :: "rstr \<Rightarrow> rstr \<Rightarrow> nat" where
  "match_count pat s = (if pat = [] then length s + 1
     else case find_str pat s of None \<Rightarrow> 0 | Some (b, r) \<Rightarrow> Suc (match_count pat r))"
  by pat_completeness auto
termination
  by (relation "measure (\<lambda>(pat, s). length s)") (auto dest!: find_str_Some)

function str_replace :: "rstr \<Rightarrow> rstr \<Rightarrow> rstr \<Rightarrow> rstr" where
  "str_replace pat new s = (if pat = [] then new @ concat (map (\<lambda>c. c # new) s)
     else case find_str pat s of None \<Rightarrow> s | Some (b, r) \<Rightarrow> b @ new @ str_replace pat new r)"
  by pat_completeness auto
termination
  by (relation "measure (\<lambda>(pat, new, s). length s)") (auto dest!: find_str_Some)

declare match_count.simps [simp del] str_replace.simps [simp del]

definition str_replacen1 :: "rstr \<Rightarrow> rstr \<Rightarrow> rstr \<Rightarrow> rstr" where
  "str_replacen1 pat new s = (case find_str pat s of None \<Rightarrow> s | Some (b, r) \<Rightarrow> b @ new @ r)"

section \<open>The tools\<close>

datatype file_error =
    FeInvalidRequest | FeSandboxDenied sandbox_error | FeMissing | FeNotFile | FeDecodeFailed
  | FeTooLarge | FeOldStringNotFound | FeOldStringAmbiguous | FeReadFailed | FeWriteFailed

record file_read_request =
  frr_path :: rstr
  frr_offset :: "nat option"
  frr_limit :: nat
  frr_max_bytes :: nat

record rendered_read =
  rr_output :: rstr
  rr_lines_returned :: nat
  rr_total_lines :: nat
  rr_eof :: bool

record file_write_request =
  fwr_path :: rstr
  fwr_content :: rstr
  fwr_max_bytes :: nat

record file_write_response =
  fwr_created :: bool
  fwr_line_count :: nat

record file_edit_request =
  fer_path :: rstr
  fer_old_string :: rstr
  fer_new_string :: rstr
  fer_replace_all :: bool
  fer_max_bytes :: nat

record file_edit_response =
  fer_replacements :: nat
  fer_line_count :: nat

definition resolve_file_path :: "('w, 'enc) host \<Rightarrow> rstr \<Rightarrow> resolved_host_path" where
  "resolve_file_path h raw = resolve_input_path_for_operation (hs_default_workdir h) raw"

definition normalize_offset :: "nat option \<Rightarrow> nat" where
  "normalize_offset offset = (case offset of None \<Rightarrow> 1 | Some v \<Rightarrow> if v = 0 then 1 else v)"

definition count_lines :: "rstr \<Rightarrow> nat" where
  "count_lines s = length (lines_of s)"

definition metadata_error :: "io_error \<Rightarrow> file_error" where
  "metadata_error e = (case e of IoNotFound \<Rightarrow> FeMissing | IoOther \<Rightarrow> FeReadFailed)"

definition enforce_max_bytes :: "nat \<Rightarrow> nat \<Rightarrow> (file_error, unit) result" where
  "enforce_max_bytes len max_bytes = (if len > max_bytes then Inl FeTooLarge else Inr ())"

definition text_read_error :: "text_file_error \<Rightarrow> file_error" where
  "text_read_error e = (case text_error_kind e of KindIo \<Rightarrow> FeReadFailed | _ \<Rightarrow> FeDecodeFailed)"

definition text_write_encoding_error :: "text_file_error \<Rightarrow> file_error" where
  "text_write_encoding_error e = FeWriteFailed"

definition write_error :: "io_error \<Rightarrow> file_error" where
  "write_error e = FeWriteFailed"

text \<open>The loop over the line numbers from \<open>start\<close> to \<open>end\<close>.\<close>

definition numbered_lines :: "rstr list \<Rightarrow> nat \<Rightarrow> nat \<Rightarrow> rstr list" where
  "numbered_lines ls start last_line =
     map (\<lambda>line_number. dec_str line_number @ lit '': '' @ ls ! (line_number - 1)) [start..<Suc last_line]"

definition render_read_output :: "rstr \<Rightarrow> nat option \<Rightarrow> nat \<Rightarrow> rendered_read" where
  "render_read_output s offset limit =
     (let start = normalize_offset offset; ls = lines_of s; total_lines = length ls
      in if total_lines = 0 then
           \<lparr>rr_output = lit ''(file is empty)'', rr_lines_returned = 0, rr_total_lines = total_lines,
            rr_eof = True\<rparr>
         else if start > total_lines then
           \<lparr>rr_output = lit ''(offset out of range, file only has '' @ dec_str total_lines @ lit '' lines)'',
            rr_lines_returned = 0, rr_total_lines = total_lines, rr_eof = True\<rparr>
         else
           let last_line = min total_lines (saturating_add start limit - 1);
               body = join [c_lf] (numbered_lines ls start last_line);
               eof = (last_line = total_lines);
               reminder = (if eof then lit ''EOF reached, file has '' @ dec_str total_lines @ lit '' lines''
                 else lit ''showing lines '' @ dec_str start @ lit ''-'' @ dec_str last_line @ lit '' of ''
                   @ dec_str total_lines @ lit '' lines'')
           in \<lparr>rr_output = body @ [c_lf, c_lf] @ lit ''('' @ reminder @ lit '')'',
               rr_lines_returned = last_line - start + 1, rr_total_lines = total_lines, rr_eof = eof\<rparr>)"

definition read_text_file_with_max_bytes ::
  "('w, 'enc) host \<Rightarrow> 'w \<Rightarrow> pathbuf \<Rightarrow> nat \<Rightarrow> (file_error, 'enc text_file) result" where
  "read_text_file_with_max_bytes h w path max_bytes =
     bindR (map_err (text_read_error \<circ> TfIo) (fs_read (hs_fs h) w path)) (\<lambda>bs.
     bindR (enforce_max_bytes (length bs) max_bytes) (\<lambda>_.
       map_err text_read_error (from_bytes (hs_enc h) bs (hs_autodetect h))))"

text \<open>The metadata check the read and the edit tool make.\<close>

definition existing_file ::
  "('w, 'enc) host \<Rightarrow> 'w \<Rightarrow> pathbuf \<Rightarrow> nat \<Rightarrow> (file_error, unit) result" where
  "existing_file h w path max_bytes =
     bindR (map_err metadata_error (fs_metadata (hs_fs h) w path)) (\<lambda>metadata.
     bindR (ensureR (is_file metadata) FeNotFile) (\<lambda>_.
       enforce_max_bytes (meta_len metadata) max_bytes))"

definition read_file_local ::
  "('w, 'enc) host \<Rightarrow> 'w \<Rightarrow> file_read_request \<Rightarrow> (file_error, rendered_read) result" where
  "read_file_local h w req =
     bindR (ensureR (frr_limit req \<noteq> 0) FeInvalidRequest) (\<lambda>_.
     bindR (ensureR (frr_max_bytes req \<noteq> 0) FeInvalidRequest) (\<lambda>_.
     let resolved = resolve_file_path h (frr_path req); path = rhp_path resolved
     in bindR (map_err FeSandboxDenied (ensure_resolved_sandbox_access h w Read resolved)) (\<lambda>_.
        bindR (existing_file h w path (frr_max_bytes req)) (\<lambda>_.
        bindR (read_text_file_with_max_bytes h w path (frr_max_bytes req)) (\<lambda>file.
          Inr (render_read_output (tf_text file) (frr_offset req) (frr_limit req)))))))"

definition ensure_writable_file_target ::
  "('w, 'enc) host \<Rightarrow> 'w \<Rightarrow> pathbuf \<Rightarrow> nat \<Rightarrow> (file_error, bool) result" where
  "ensure_writable_file_target h w path max_bytes = (case fs_metadata (hs_fs h) w path of
      Inr metadata \<Rightarrow>
        if is_file metadata
        then bindR (enforce_max_bytes (meta_len metadata) max_bytes) (\<lambda>_. Inr False)
        else Inl FeNotFile
    | Inl IoNotFound \<Rightarrow> Inr True
    | Inl IoOther \<Rightarrow> Inl FeWriteFailed)"

definition encode_for_existing_file ::
  "('w, 'enc) host \<Rightarrow> 'w \<Rightarrow> pathbuf \<Rightarrow> rstr \<Rightarrow> bool \<Rightarrow> nat \<Rightarrow> (file_error, bytes) result" where
  "encode_for_existing_file h w path content existing max_bytes =
     (if \<not> existing then Inr (as_bytes content)
      else bindR (read_text_file_with_max_bytes h w path max_bytes) (\<lambda>file.
        map_err text_write_encoding_error (tf_encode (hs_enc h) file content)))"

definition write_file_local ::
  "('w, 'enc) host \<Rightarrow> 'w \<Rightarrow> file_write_request \<Rightarrow> 'w \<times> (file_error, file_write_response) result" where
  "write_file_local h w req =
     (let resolved = resolve_file_path h (fwr_path req); path = rhp_path resolved
      in andThen (w, ensureR (fwr_max_bytes req \<noteq> 0) FeInvalidRequest) (\<lambda>w _.
         andThen (w, map_err FeSandboxDenied (ensure_resolved_sandbox_access h w Write resolved)) (\<lambda>w _.
         andThen (w, ensure_writable_file_target h w path (fwr_max_bytes req)) (\<lambda>w created.
         andThen (w, encode_for_existing_file h w path (fwr_content req) (\<not> created) (fwr_max_bytes req))
           (\<lambda>w content.
         andThen (mapErr write_error (fs_write (hs_fs h) w path content)) (\<lambda>w _.
           (w, Inr \<lparr>fwr_created = created, fwr_line_count = count_lines (fwr_content req)\<rparr>)))))))"

definition check_matches :: "nat \<Rightarrow> bool \<Rightarrow> (file_error, unit) result" where
  "check_matches matches replace_all =
     (if matches = 0 then Inl FeOldStringNotFound
      else if matches = 1 then Inr ()
      else if \<not> replace_all then Inl FeOldStringAmbiguous
      else Inr ())"

definition edited_text :: "file_edit_request \<Rightarrow> rstr \<Rightarrow> rstr" where
  "edited_text req s = (if fer_replace_all req
     then str_replace (fer_old_string req) (fer_new_string req) s
     else str_replacen1 (fer_old_string req) (fer_new_string req) s)"

definition edit_file_local ::
  "('w, 'enc) host \<Rightarrow> 'w \<Rightarrow> file_edit_request \<Rightarrow> 'w \<times> (file_error, file_edit_response) result" where
  "edit_file_local h w req =
     (let resolved = resolve_file_path h (fer_path req); path = rhp_path resolved
      in andThen (w, ensureR (fer_max_bytes req \<noteq> 0) FeInvalidRequest) (\<lambda>w _.
         andThen (w, ensureR (fer_old_string req \<noteq> []) FeInvalidRequest) (\<lambda>w _.
         andThen (w, map_err FeSandboxDenied (ensure_resolved_sandbox_access h w Write resolved)) (\<lambda>w _.
         andThen (w, existing_file h w path (fer_max_bytes req)) (\<lambda>w _.
         andThen (w, read_text_file_with_max_bytes h w path (fer_max_bytes req)) (\<lambda>w file.
         let matches = match_count (fer_old_string req) (tf_text file); updated = edited_text req (tf_text file)
         in andThen (w, check_matches matches (fer_replace_all req)) (\<lambda>w _.
            andThen (w, map_err text_write_encoding_error (tf_encode (hs_enc h) file updated)) (\<lambda>w content.
            andThen (mapErr write_error (fs_write (hs_fs h) w path content)) (\<lambda>w _.
              (w, Inr \<lparr>fer_replacements = matches, fer_line_count = count_lines updated\<rparr>))))))))))"

section \<open>Replacement\<close>

lemma find_str_eq_None: "find_str pat s = None \<longleftrightarrow> (\<nexists>b r. s = b @ pat @ r)"
proof (induction pat s rule: find_str.induct)
  case (1 pat)
  then show ?case by auto
next
  case (2 pat c s)
  have "(\<exists>b r. c # s = b @ pat @ r) \<longleftrightarrow> (\<exists>r. c # s = pat @ r) \<or> (\<exists>b r. s = b @ pat @ r)"
    by (metis append_Cons append_Nil neq_Nil_conv list.inject)
  moreover have "(\<exists>r. c # s = pat @ r) \<longleftrightarrow> strip_prefix pat (c # s) \<noteq> None"
    by (metis strip_prefix_eq_Some not_None_eq)
  ultimately show ?case using 2 by (auto split: option.splits)
qed

lemma replace_single:
  assumes "pat \<noteq> []" and "match_count pat s = 1"
  shows "\<exists>b r. s = b @ pat @ r \<and> find_str pat s = Some (b, r) \<and> find_str pat r = None"
  using assms find_str_Some [of pat s]
  by (auto simp: match_count.simps [of pat] split: option.splits)

lemma str_replace_one:
  assumes "pat \<noteq> []" and "match_count pat s = 1"
  shows "str_replace pat new s = str_replacen1 pat new s"
  using replace_single [OF assms] assms(1)
  by (auto simp: str_replace.simps [of pat] str_replacen1_def)

text \<open>The pieces between the occurrences.\<close>

function pieces :: "rstr \<Rightarrow> rstr \<Rightarrow> rstr list" where
  "pieces pat s = (if pat = [] then [s]
     else case find_str pat s of None \<Rightarrow> [s] | Some (b, r) \<Rightarrow> b # pieces pat r)"
  by pat_completeness auto
termination
  by (relation "measure (\<lambda>(pat, s). length s)") (auto dest!: find_str_Some)

declare pieces.simps [simp del]

lemma pieces_ne [simp]: "pieces pat s \<noteq> []"
  by (subst pieces.simps) (auto split: option.splits)

lemma join_pieces: "pat \<noteq> [] \<Longrightarrow> join pat (pieces pat s) = s"
proof (induction pat s rule: pieces.induct)
  case (1 pat s)
  then show ?case
    using find_str_Some [of pat s]
    by (auto simp: pieces.simps [of pat s] join_Cons split: option.splits)
qed

lemma length_pieces: "pat \<noteq> [] \<Longrightarrow> length (pieces pat s) = Suc (match_count pat s)"
proof (induction pat s rule: pieces.induct)
  case (1 pat s)
  then show ?case
    by (auto simp: pieces.simps [of pat s] match_count.simps [of pat s] split: option.splits)
qed

lemma replace_pieces: "pat \<noteq> [] \<Longrightarrow> str_replace pat new s = join new (pieces pat s)"
proof (induction pat s rule: pieces.induct)
  case (1 pat s)
  then show ?case
    by (auto simp: pieces.simps [of pat s] str_replace.simps [of pat new s] join_Cons split: option.splits)
qed

section \<open>Properties\<close>

lemma andThen_Inr:
  "andThen m f = (w', Inr b) \<longleftrightarrow> (\<exists>w a. m = (w, Inr a) \<and> f w a = (w', Inr b))"
  by (cases m; cases "snd m") auto

lemma mapErr_Inr: "mapErr f m = (w, Inr a) \<longleftrightarrow> m = (w, Inr a)"
  by (cases m) (auto simp: mapErr_def map_err_eq_Inr)

text \<open>
  C9: what an edit does. A successful edit split the text of the file at the occurrences of the
  old string, found as many occurrences as it reports and at least one, exactly one unless all
  were to be replaced, and wrote the same pieces joined by the new string, in the file's encoding.
\<close>

theorem edit_file_spec:
  assumes "edit_file_local h w req = (w', Inr resp)"
  shows "\<exists>tf ps content.
    read_text_file_with_max_bytes h w (rhp_path (resolve_file_path h (fer_path req))) (fer_max_bytes req) = Inr tf \<and>
    tf_text tf = join (fer_old_string req) ps \<and> length ps = Suc (fer_replacements resp) \<and>
    1 \<le> fer_replacements resp \<and> (\<not> fer_replace_all req \<longrightarrow> fer_replacements resp = 1) \<and>
    tf_encode (hs_enc h) tf (join (fer_new_string req) ps) = Inr content \<and>
    fs_write (hs_fs h) w (rhp_path (resolve_file_path h (fer_path req))) content = (w', Inr ())"
proof -
  let ?old = "fer_old_string req" and ?p = "rhp_path (resolve_file_path h (fer_path req))"
  from assms obtain tf content where ne: "?old \<noteq> []" and
    f: "read_text_file_with_max_bytes h w ?p (fer_max_bytes req) = Inr tf" and
    m: "check_matches (match_count ?old (tf_text tf)) (fer_replace_all req) = Inr ()" and
    c: "tf_encode (hs_enc h) tf (edited_text req (tf_text tf)) = Inr content" and
    wr: "fs_write (hs_fs h) w ?p content = (w', Inr ())" and
    r: "fer_replacements resp = match_count ?old (tf_text tf)"
    by (auto simp: edit_file_local_def Let_def andThen_Inr ensureR_eq map_err_eq_Inr mapErr_Inr)
  have e: "edited_text req (tf_text tf) = join (fer_new_string req) (pieces ?old (tf_text tf))"
    using m str_replace_one [OF ne]
    by (auto simp: edited_text_def check_matches_def replace_pieces [OF ne, symmetric] split: if_splits)
  show ?thesis
    using f m c wr r e length_pieces [OF ne, of "tf_text tf"] join_pieces [OF ne, of "tf_text tf"]
    by (intro exI [of _ tf] exI [of _ "pieces ?old (tf_text tf)"] exI [of _ content])
      (auto simp: check_matches_def split: if_splits)
qed

definition edit_host :: "(pathbuf list, nat) host" where
  "edit_host = log_host\<lparr>hs_fs := log_fs\<lparr>fs_metadata := (\<lambda>w p. Inr \<lparr>is_file = True, meta_len = 3\<rparr>)\<rparr>\<rparr>"

definition edit_request :: file_edit_request where
  "edit_request = \<lparr>fer_path = lit ''a'', fer_old_string = lit ''l'', fer_new_string = lit ''LL'',
     fer_replace_all = False, fer_max_bytes = 100\<rparr>"

theorem edit_file_spec_witness:
  "\<exists>w' resp. edit_file_local edit_host [] edit_request = (w', Inr resp) \<and> fer_replacements resp = 1 \<and>
     (\<exists>tf ps content. tf_text tf = join (lit ''l'') ps \<and> length ps = 2 \<and>
        tf_encode latin1_lib tf (join (lit ''LL'') ps) = Inr content)"
proof -
  let ?w = "[[RootDir, Normal (lit ''w''), Normal (lit ''a'')]]"
  let ?r = "\<lparr>fer_replacements = 1, fer_line_count = 1\<rparr>"
  have e: "edit_file_local edit_host [] edit_request = (?w, Inr ?r)" by code_simp
  have enc: "hs_enc edit_host = latin1_lib" by (simp add: edit_host_def log_host_def)
  obtain tf ps content where "tf_text tf = join (fer_old_string edit_request) ps"
    "length ps = Suc (fer_replacements ?r)"
    "tf_encode (hs_enc edit_host) tf (join (fer_new_string edit_request) ps) = Inr content"
    using edit_file_spec [OF e] by blast
  then have "tf_text tf = join (lit ''l'') ps \<and> length ps = 2 \<and>
      tf_encode latin1_lib tf (join (lit ''LL'') ps) = Inr content"
    by (simp add: enc) (simp add: edit_request_def)
  with e show ?thesis by (metis file_edit_response.select_convs(1))
qed

text \<open>
  reading a page. With a limit of at least one and an offset inside the file, the tool returns
  the lines from the offset on, as many as the limit allows, each behind its line number; it
  makes progress, and reports the end exactly when the page reaches the last line.
\<close>

theorem render_read_output_page:
  assumes "0 < limit" and "normalize_offset offset \<le> length (lines_of s)" and "length (lines_of s) < usize_max"
  shows "let r = render_read_output s offset limit; start = normalize_offset offset; ls = lines_of s;
      n = min limit (length ls - start + 1)
    in rr_lines_returned r = n \<and> 0 < n \<and> rr_total_lines r = length ls \<and>
       (rr_eof r \<longleftrightarrow> start + n = length ls + 1) \<and>
       (\<exists>reminder. rr_output r = join [c_lf] (map (\<lambda>i. dec_str (start + i) @ lit '': '' @ take n (drop (start - 1) ls) ! i)
          [0..<n]) @ [c_lf, c_lf] @ reminder)"
proof -
  define start where "start = normalize_offset offset"
  define ls where "ls = lines_of s"
  define n where "n = min limit (length ls - start + 1)"
  have st: "1 \<le> start" by (auto simp: start_def normalize_offset_def split: option.splits)
  have le: "start \<le> length ls" using assms(2) by (simp add: start_def ls_def)
  have end_eq: "min (length ls) (saturating_add start limit - 1) = start + n - 1"
    using assms(1,3) st le by (auto simp: saturating_add_def n_def ls_def min_def)
  have n: "0 < n" "start + n - 1 \<le> length ls" using assms(1) le by (auto simp: n_def)
  have idx: "numbered_lines ls start (start + n - 1) =
      map (\<lambda>i. dec_str (start + i) @ lit '': '' @ take n (drop (start - 1) ls) ! i) [0..<n]"
    using st n le by (intro nth_equalityI) (auto simp: numbered_lines_def nth_append)
  define rem where "rem = lit ''('' @ (if start + n - 1 = length ls
      then lit ''EOF reached, file has '' @ dec_str (length ls) @ lit '' lines''
      else lit ''showing lines '' @ dec_str start @ lit ''-'' @ dec_str (start + n - 1) @ lit '' of ''
        @ dec_str (length ls) @ lit '' lines'') @ lit '')''"
  have r: "render_read_output s offset limit =
      \<lparr>rr_output = join [c_lf] (numbered_lines ls start (start + n - 1)) @ [c_lf, c_lf] @ rem,
       rr_lines_returned = start + n - 1 - start + 1, rr_total_lines = length ls,
       rr_eof = (start + n - 1 = length ls)\<rparr>"
    unfolding render_read_output_def Let_def start_def [symmetric] ls_def [symmetric] end_eq rem_def
    using st le by auto
  show ?thesis
    unfolding Let_def start_def [symmetric] ls_def [symmetric] n_def [symmetric] r idx
    using st n by auto
qed

theorem render_read_output_page_witness:
  "rr_lines_returned (render_read_output (lit ''a'' @ [c_lf] @ lit ''b'' @ [c_lf] @ lit ''c'') (Some 2) 1) = 1"
proof -
  let ?s = "lit ''a'' @ [c_lf] @ lit ''b'' @ [c_lf] @ lit ''c''"
  have "length (lines_of ?s) = 3" and "normalize_offset (Some 2) = 2" by code_simp+
  then show ?thesis
    using render_read_output_page [of 1 "Some 2" ?s] by (simp add: Let_def usize_max_def)
qed

lemma write_file_world:
  assumes "closed_under_permitted h P" and "P w"
  shows "P (fst (write_file_local h w req))"
  unfolding write_file_local_def Let_def
  by (intro pure_step [where P = P] sandboxed_step [where P = P] andThen_world [where P = P] assms(2))
    (simp_all add: permitted_fs [OF assms _ assms(2)])

lemma edit_file_world:
  assumes "closed_under_permitted h P" and "P w"
  shows "P (fst (edit_file_local h w req))"
  unfolding edit_file_local_def Let_def
  by (intro pure_step [where P = P] sandboxed_step [where P = P] andThen_world [where P = P] assms(2))
    (simp_all add: permitted_fs [OF assms _ assms(2)])

text \<open>
  C10: the write and the edit tool stay inside the sandbox: they keep every property of the file
  system that survives changes of paths authorised for writing, whatever their outcome.
\<close>

theorem file_tools_confined:
  assumes "closed_under_permitted h P" and "P w"
  shows "P (fst (write_file_local h w write_req)) \<and> P (fst (edit_file_local h w edit_req))"
  using write_file_world [OF assms] edit_file_world [OF assms] by blast

theorem file_tools_confined_witness:
  "inside_w (fst (write_file_local log_host [] \<lparr>fwr_path = lit ''a'', fwr_content = lit ''x'', fwr_max_bytes = 9\<rparr>)) \<and>
   fst (write_file_local log_host [] \<lparr>fwr_path = lit ''a'', fwr_content = lit ''x'', fwr_max_bytes = 9\<rparr>) =
     [[RootDir, Normal (lit ''w''), Normal (lit ''a'')]] \<and>
   fst (write_file_local log_host [] \<lparr>fwr_path = lit ''../b'', fwr_content = lit ''x'', fwr_max_bytes = 9\<rparr>) = []"
proof -
  have "inside_w []" by code_simp
  note file_tools_confined [OF log_host_closed this]
  moreover have "fst (write_file_local log_host [] \<lparr>fwr_path = lit ''a'', fwr_content = lit ''x'', fwr_max_bytes = 9\<rparr>) =
     [[RootDir, Normal (lit ''w''), Normal (lit ''a'')]]" by code_simp
  moreover have "fst (write_file_local log_host [] \<lparr>fwr_path = lit ''../b'', fwr_content = lit ''x'', fwr_max_bytes = 9\<rparr>) = []"
    by code_simp
  ultimately show ?thesis by blast
qed

end
