(* ===== verification/Frame_Codec.thy ===== *)
theory Frame_Codec
  imports Prelude
begin

text \<open>
  \<open>crates/remote-exec-proto/src/port_tunnel/codec.rs\<close>: the frames of the port tunnel between the
  broker and a daemon, a 16-byte header followed by metadata and data. Metadata is opaque here;
  its JSON form belongs to \<open>serde_json\<close>.
\<close>

section \<open>Definitions\<close>

definition HEADER_LEN :: nat where "HEADER_LEN = 16"
definition MAX_META_LEN :: nat where "MAX_META_LEN = 16 * 1024"
definition MAX_DATA_LEN :: nat where "MAX_DATA_LEN = 256 * 1024"

lemmas frame_limits = HEADER_LEN_def MAX_META_LEN_def MAX_DATA_LEN_def

datatype frame_type =
    FError | FClose | SessionOpen | SessionReady | SessionResume | SessionResumed
  | TunnelOpen | TunnelReady | TunnelClose | TcpListen | TcpListenOk | TcpAccept | TcpConnect
  | TcpConnectOk | TcpData | TcpEof | TunnelClosed | TunnelHeartbeat | TunnelHeartbeatAck
  | ForwardRecovering | ForwardRecovered | ForwardDrop | UdpBind | UdpBindOk | UdpDatagram

primrec frame_type_as_u8 :: "frame_type \<Rightarrow> u8" where
  "frame_type_as_u8 FError = 1"
| "frame_type_as_u8 FClose = 2"
| "frame_type_as_u8 SessionOpen = 3"
| "frame_type_as_u8 SessionReady = 4"
| "frame_type_as_u8 SessionResume = 5"
| "frame_type_as_u8 SessionResumed = 6"
| "frame_type_as_u8 TunnelOpen = 7"
| "frame_type_as_u8 TunnelReady = 8"
| "frame_type_as_u8 TunnelClose = 9"
| "frame_type_as_u8 TcpListen = 10"
| "frame_type_as_u8 TcpListenOk = 11"
| "frame_type_as_u8 TcpAccept = 12"
| "frame_type_as_u8 TcpConnect = 13"
| "frame_type_as_u8 TcpConnectOk = 14"
| "frame_type_as_u8 TcpData = 15"
| "frame_type_as_u8 TcpEof = 16"
| "frame_type_as_u8 TunnelClosed = 17"
| "frame_type_as_u8 TunnelHeartbeat = 18"
| "frame_type_as_u8 TunnelHeartbeatAck = 19"
| "frame_type_as_u8 ForwardRecovering = 20"
| "frame_type_as_u8 ForwardRecovered = 21"
| "frame_type_as_u8 ForwardDrop = 22"
| "frame_type_as_u8 UdpBind = 30"
| "frame_type_as_u8 UdpBindOk = 31"
| "frame_type_as_u8 UdpDatagram = 32"

definition frame_type_from_u8 :: "u8 \<Rightarrow> frame_type option" where
  "frame_type_from_u8 v =
     (if v = 1 then Some FError else if v = 2 then Some FClose
      else if v = 3 then Some SessionOpen else if v = 4 then Some SessionReady
      else if v = 5 then Some SessionResume else if v = 6 then Some SessionResumed
      else if v = 7 then Some TunnelOpen else if v = 8 then Some TunnelReady
      else if v = 9 then Some TunnelClose else if v = 10 then Some TcpListen
      else if v = 11 then Some TcpListenOk else if v = 12 then Some TcpAccept
      else if v = 13 then Some TcpConnect else if v = 14 then Some TcpConnectOk
      else if v = 15 then Some TcpData else if v = 16 then Some TcpEof
      else if v = 17 then Some TunnelClosed else if v = 18 then Some TunnelHeartbeat
      else if v = 19 then Some TunnelHeartbeatAck else if v = 20 then Some ForwardRecovering
      else if v = 21 then Some ForwardRecovered else if v = 22 then Some ForwardDrop
      else if v = 30 then Some UdpBind else if v = 31 then Some UdpBindOk
      else if v = 32 then Some UdpDatagram else None)"

record frame =
  fr_type :: frame_type
  fr_flags :: u8
  fr_stream_id :: u32
  fr_meta :: bytes
  fr_data :: bytes

record frame_header =
  fh_type :: frame_type
  fh_flags :: u8
  fh_stream_id :: u32
  fh_meta_len :: nat
  fh_data_len :: nat

datatype frame_error =
    MetaTooLong | DataTooLong | ReservedNotZero | UnknownFrameType u8
  | MetaLengthMismatch | DataLengthMismatch | HeaderIncomplete | FrameTooLarge
  | BodyIncomplete | TrailingBytes

definition is_stream_frame :: "frame \<Rightarrow> bool" where
  "is_stream_frame f \<longleftrightarrow> fr_stream_id f \<noteq> 0"

definition is_data_plane_frame :: "frame \<Rightarrow> bool" where
  "is_data_plane_frame f \<longleftrightarrow> is_stream_frame f \<and> fr_data f \<noteq> []"

definition wire_len :: "frame \<Rightarrow> nat" where
  "wire_len f = saturating_add (saturating_add HEADER_LEN (length (fr_meta f))) (length (fr_data f))"

definition data_plane_charge :: "frame \<Rightarrow> nat" where
  "data_plane_charge f = (if is_data_plane_frame f then wire_len f else 0)"

definition encode_frame_header :: "frame \<Rightarrow> (frame_error, bytes) result" where
  "encode_frame_header f =
     (if length (fr_meta f) > MAX_META_LEN then Inl MetaTooLong
      else if length (fr_data f) > MAX_DATA_LEN then Inl DataTooLong
      else Inr ([frame_type_as_u8 (fr_type f), fr_flags f, 0, 0] @ be_bytes 4 (unat (fr_stream_id f))
        @ be_bytes 4 (length (fr_meta f)) @ be_bytes 4 (length (fr_data f))))"

definition encode_frame :: "frame \<Rightarrow> (frame_error, bytes) result" where
  "encode_frame f = bindR (encode_frame_header f) (\<lambda>header. Inr (header @ fr_meta f @ fr_data f))"

definition decode_frame_header :: "bytes \<Rightarrow> (frame_error, frame_header) result" where
  "decode_frame_header header =
     (if header ! 2 \<noteq> 0 \<or> header ! 3 \<noteq> 0 then Inl ReservedNotZero
      else bindR (ok_or (frame_type_from_u8 (header ! 0)) (UnknownFrameType (header ! 0))) (\<lambda>ft.
        let stream_id = be_value (take 4 (drop 4 header));
            meta_len = be_value (take 4 (drop 8 header));
            data_len = be_value (take 4 (drop 12 header))
        in if meta_len > MAX_META_LEN then Inl MetaTooLong
           else if data_len > MAX_DATA_LEN then Inl DataTooLong
           else Inr \<lparr>fh_type = ft, fh_flags = header ! 1, fh_stream_id = word_of_nat stream_id,
                     fh_meta_len = meta_len, fh_data_len = data_len\<rparr>))"

definition frame_from_parts :: "frame_header \<Rightarrow> bytes \<Rightarrow> bytes \<Rightarrow> (frame_error, frame) result" where
  "frame_from_parts header meta data =
     (if length meta \<noteq> fh_meta_len header then Inl MetaLengthMismatch
      else if length data \<noteq> fh_data_len header then Inl DataLengthMismatch
      else Inr \<lparr>fr_type = fh_type header, fr_flags = fh_flags header,
                fr_stream_id = fh_stream_id header, fr_meta = meta, fr_data = data\<rparr>)"

definition decode_frame :: "bytes \<Rightarrow> (frame_error, frame) result" where
  "decode_frame bs =
     (if length bs < HEADER_LEN then Inl HeaderIncomplete
      else bindR (decode_frame_header (take HEADER_LEN bs)) (\<lambda>header.
        bindR (ok_or (Option.bind (checked_add HEADER_LEN (fh_meta_len header))
                 (\<lambda>len. checked_add len (fh_data_len header))) FrameTooLarge) (\<lambda>frame_len.
          if length bs < frame_len then Inl BodyIncomplete
          else if length bs > frame_len then Inl TrailingBytes
          else let meta_end = HEADER_LEN + fh_meta_len header
            in frame_from_parts header (take (fh_meta_len header) (drop HEADER_LEN bs))
                 (take (frame_len - meta_end) (drop meta_end bs)))))"

section \<open>Frame types\<close>

interpretation frame_type: strict_codec frame_type_as_u8 frame_type_from_u8 "\<lambda>_. True"
proof
  show "frame_type_from_u8 (frame_type_as_u8 t) = Some t" for t
    by (cases t) (simp_all add: frame_type_from_u8_def)
  show "True \<and> frame_type_as_u8 t = v" if "frame_type_from_u8 v = Some t" for v t
    using that by (auto simp: frame_type_from_u8_def split: if_splits)
qed

section \<open>Headers\<close>

definition frame_ok :: "frame \<Rightarrow> bool" where
  "frame_ok f \<longleftrightarrow> length (fr_meta f) \<le> MAX_META_LEN \<and> length (fr_data f) \<le> MAX_DATA_LEN"

definition header_of :: "frame \<Rightarrow> frame_header" where
  "header_of f = \<lparr>fh_type = fr_type f, fh_flags = fr_flags f, fh_stream_id = fr_stream_id f,
     fh_meta_len = length (fr_meta f), fh_data_len = length (fr_data f)\<rparr>"

lemma be_value_4: "n < 4294967296 \<Longrightarrow> be_value (be_bytes 4 n) = n"
  by (simp add: be_value_be_bytes)

lemma unat_u32_less: "unat (x :: u32) < 4294967296"
  by (rule order_less_le_trans [OF unsigned_less]) simp

lemma encode_header_length: "encode_frame_header f = Inr h \<Longrightarrow> length h = HEADER_LEN"
  by (auto simp: encode_frame_header_def HEADER_LEN_def split: if_splits)

lemma decode_encode_header:
  assumes "encode_frame_header f = Inr h"
  shows "decode_frame_header h = Inr (header_of f)"
proof -
  have ok: "length (fr_meta f) \<le> 16384" "length (fr_data f) \<le> 262144"
    and h: "h = [frame_type_as_u8 (fr_type f), fr_flags f, 0, 0] @ be_bytes 4 (unat (fr_stream_id f))
        @ be_bytes 4 (length (fr_meta f)) @ be_bytes 4 (length (fr_data f))"
    using assms by (auto simp: encode_frame_header_def frame_limits split: if_splits)
  have v: "be_value (take 4 (drop 4 h)) = unat (fr_stream_id f)"
    "be_value (take 4 (drop 8 h)) = length (fr_meta f)"
    "be_value (take 4 (drop 12 h)) = length (fr_data f)"
    using ok unat_u32_less [of "fr_stream_id f"]
    by (simp_all only: h drop_append take_append be_bytes_length length_append list.size)
      (simp_all add: be_value_4)
  have "h ! 0 = frame_type_as_u8 (fr_type f)" "h ! 1 = fr_flags f" "h ! 2 = 0" "h ! 3 = 0"
    by (simp_all add: h nth_append numeral_2_eq_2 numeral_3_eq_3)
  with v ok show ?thesis
    by (simp add: decode_frame_header_def header_of_def frame_limits frame_type.dec_enc Let_def)
qed

lemma checked_frame_len:
  assumes "m \<le> MAX_META_LEN" and "d \<le> MAX_DATA_LEN"
  shows "Option.bind (checked_add HEADER_LEN m) (\<lambda>len. checked_add len d) = Some (HEADER_LEN + m + d)"
  using assms by (simp add: checked_add_def frame_limits usize_max_def)

lemma decode_header_limits:
  "decode_frame_header h = Inr hdr \<Longrightarrow> fh_meta_len hdr \<le> MAX_META_LEN \<and> fh_data_len hdr \<le> MAX_DATA_LEN"
  by (auto simp: decode_frame_header_def bindR_eq_Inr Let_def split: if_splits)

lemma decode_frame_split:
  assumes "length h = HEADER_LEN" and "decode_frame_header h = Inr hdr"
  shows "decode_frame (h @ body) =
    (if length body < fh_meta_len hdr + fh_data_len hdr then Inl BodyIncomplete
     else if length body > fh_meta_len hdr + fh_data_len hdr then Inl TrailingBytes
     else Inr \<lparr>fr_type = fh_type hdr, fr_flags = fh_flags hdr, fr_stream_id = fh_stream_id hdr,
       fr_meta = take (fh_meta_len hdr) body, fr_data = drop (fh_meta_len hdr) body\<rparr>)"
  using assms decode_header_limits [OF assms(2)]
  by (auto simp: decode_frame_def checked_frame_len frame_from_parts_def Let_def)

lemma decode_encode_frame:
  assumes "encode_frame f = Inr bs"
  shows "decode_frame bs = Inr f"
proof -
  from assms obtain h where h: "encode_frame_header f = Inr h" and bs: "bs = h @ fr_meta f @ fr_data f"
    by (auto simp: encode_frame_def bindR_eq_Inr)
  show ?thesis
    unfolding bs decode_frame_split [OF encode_header_length [OF h] decode_encode_header [OF h]]
    by (simp add: header_of_def)
qed

lemma encode_ok: "frame_ok f \<longleftrightarrow> (\<exists>bs. encode_frame f = Inr bs)"
  by (auto simp: frame_ok_def encode_frame_def encode_frame_header_def)

lemma list16:
  assumes "length h = 16"
  shows "h = [h ! 0, h ! 1, h ! 2, h ! 3] @ take 4 (drop 4 h) @ take 4 (drop 8 h) @ take 4 (drop 12 h)"
proof (rule nth_equalityI)
  show "h ! i = ([h ! 0, h ! 1, h ! 2, h ! 3] @ take 4 (drop 4 h) @ take 4 (drop 8 h) @ take 4 (drop 12 h)) ! i"
    if "i < length h" for i
    using that assms by (auto simp: nth_append nth_Cons' less_Suc_eq numeral_eq_Suc)
qed (use assms in simp)

lemma encode_decode_header:
  assumes "length h = HEADER_LEN" and "decode_frame_header h = Inr hdr" and "header_of f = hdr"
  shows "encode_frame_header f = Inr h"
proof -
  have len: "length h = 16" using assms(1) by (simp add: HEADER_LEN_def)
  have z: "h ! 2 = 0" "h ! 3 = 0" and t: "frame_type_from_u8 (h ! 0) = Some (fr_type f)"
    and fl: "fr_flags f = h ! 1" and sid: "fr_stream_id f = word_of_nat (be_value (take 4 (drop 4 h)))"
    and m: "length (fr_meta f) = be_value (take 4 (drop 8 h))" "length (fr_meta f) \<le> MAX_META_LEN"
    and d: "length (fr_data f) = be_value (take 4 (drop 12 h))" "length (fr_data f) \<le> MAX_DATA_LEN"
    using assms(2,3) by (auto simp: decode_frame_header_def header_of_def bindR_eq_Inr ok_or_eq Let_def split: if_splits)
  have b: "be_bytes 4 (be_value (take 4 (drop k h))) = take 4 (drop k h)" if "k + 4 \<le> 16" for k
    using be_bytes_be_value [of "take 4 (drop k h)"] len that by simp
  have "be_value (take 4 (drop 4 h)) < 2 ^ 32"
    using be_value_less [of "take 4 (drop 4 h)"] len by simp
  then have "unat (fr_stream_id f) = be_value (take 4 (drop 4 h))"
    by (simp add: sid unat_of_nat)
  moreover have "frame_type_as_u8 (fr_type f) = h ! 0" using frame_type.enc_dec [OF t] by simp
  ultimately have "[frame_type_as_u8 (fr_type f), fr_flags f, 0, 0] @ be_bytes 4 (unat (fr_stream_id f))
        @ be_bytes 4 (length (fr_meta f)) @ be_bytes 4 (length (fr_data f)) = h"
    using list16 [OF len] by (simp add: fl z m(1) d(1) b)
  with m(2) d(2) show ?thesis by (simp add: encode_frame_header_def)
qed

lemma encode_decode_frame:
  assumes "decode_frame bs = Inr f"
  shows "encode_frame f = Inr bs"
proof -
  define h where "h = take HEADER_LEN bs"
  define body where "body = drop HEADER_LEN bs"
  have bs: "bs = h @ body" by (simp add: h_def body_def)
  from assms have len: "length h = HEADER_LEN" and "\<exists>hdr. decode_frame_header h = Inr hdr"
    by (auto simp: decode_frame_def h_def bindR_eq_Inr split: if_splits)
  then obtain hdr where hdr: "decode_frame_header h = Inr hdr" by blast
  from assms [unfolded bs decode_frame_split [OF len hdr]]
  have f: "length body = fh_meta_len hdr + fh_data_len hdr" "header_of f = hdr" "fr_meta f @ fr_data f = body"
    by (auto simp: header_of_def split: if_splits)
  from encode_decode_header [OF len hdr f(2)] f(3) show ?thesis by (simp add: encode_frame_def bs)
qed

definition decode_frame_opt :: "bytes \<Rightarrow> frame option" where
  "decode_frame_opt bs = (case decode_frame bs of Inr f \<Rightarrow> Some f | Inl _ \<Rightarrow> None)"

interpretation frame: strict_codec "\<lambda>f. projr (encode_frame f)" decode_frame_opt frame_ok
proof
  show "decode_frame_opt (projr (encode_frame f)) = Some f" if "frame_ok f" for f
    using that encode_ok [of f] decode_encode_frame [of f] by (auto simp: decode_frame_opt_def)
  show "frame_ok f \<and> projr (encode_frame f) = bs" if "decode_frame_opt bs = Some f" for bs f
    using that encode_decode_frame [of bs f] encode_ok [of f]
    by (auto simp: decode_frame_opt_def split: sum.splits)
qed

text \<open>
  C13: the tunnel codec is exact. A byte sequence decodes to a frame precisely when it is the
  encoding of that frame: every frame within the limits survives the wire, and no other
  bytes, with a reserved bit, a foreign type, a wrong length or trailing data, are accepted.
\<close>

theorem frame_codec_exact: "decode_frame bs = Inr f \<longleftrightarrow> encode_frame f = Inr bs"
  using decode_encode_frame encode_decode_frame by blast

text \<open>
  The size of an encoded frame. A frame that is encoded respects the limits, takes exactly
  \<open>wire_len\<close> bytes, and is charged to the data plane either with all of them or not at all.
\<close>

theorem encode_frame_wire_len:
  assumes "encode_frame f = Inr bs"
  shows "frame_ok f \<and> length bs = wire_len f \<and>
    data_plane_charge f = (if fr_stream_id f \<noteq> 0 \<and> fr_data f \<noteq> [] then length bs else 0)"
proof -
  have ok: "frame_ok f" using assms encode_ok by blast
  then have "length bs = HEADER_LEN + length (fr_meta f) + length (fr_data f)"
    using assms encode_header_length [of f] by (auto simp: encode_frame_def bindR_eq_Inr)
  moreover have "wire_len f = HEADER_LEN + length (fr_meta f) + length (fr_data f)"
    using ok by (simp add: wire_len_def frame_ok_def saturating_add_def usize_max_def frame_limits)
  ultimately show ?thesis
    using ok by (simp add: data_plane_charge_def is_data_plane_frame_def is_stream_frame_def)
qed

theorem encode_frame_wire_len_witness:
  "wire_len \<lparr>fr_type = TcpData, fr_flags = 0, fr_stream_id = 7, fr_meta = [], fr_data = [1, 2]\<rparr> = 18"
proof -
  let ?f = "\<lparr>fr_type = TcpData, fr_flags = 0, fr_stream_id = 7, fr_meta = [], fr_data = [1, 2]\<rparr>"
  have "encode_frame ?f = Inr [15, 0, 0, 0, 0, 0, 0, 7, 0, 0, 0, 0, 0, 0, 0, 2, 1, 2]" by code_simp
  from encode_frame_wire_len [OF this] show ?thesis by simp
qed

end
