(* ===== verification/Rpc_Error.thy ===== *)
theory Rpc_Error
  imports Prelude
begin

text \<open>
  \<open>crates/remote-exec-proto/src/rpc/error.rs\<close>, the error codes on the wire, and
  \<open>crates/remote-exec-host/src/error.rs\<close>, the errors of the host tools and their HTTP status.
\<close>

section \<open>Definitions\<close>

datatype (plugins only: code) rpc_error_code =
    RcBadRequest
  | RcUnauthorized
  | RcUnknownSession
  | RcExecSessionLockTimeout
  | RcNotFound
  | RcUnknownEndpoint
  | RcInvalidPortTunnel
  | RcPortTunnelUnavailable
  | RcPortTunnelLimitExceeded
  | RcPortTunnelAlreadyAttached
  | RcPortTunnelResumeExpired
  | RcPortTunnelGenerationMismatch
  | RcUnknownPortTunnelSession
  | RcPortTunnelClosed
  | RcInvalidPortTunnelMetadata
  | RcInvalidEndpoint
  | RcPortBindFailed
  | RcPortAcceptFailed
  | RcPortConnectFailed
  | RcPortReadFailed
  | RcPortWriteFailed
  | RcPortConnectionClosed
  | RcUnknownPortConnection
  | RcUnknownPortBind
  | RcSandboxDenied
  | RcStdinClosed
  | RcStdinWriteTimeout
  | RcTtyDisabled
  | RcTtyUnsupported
  | RcInvalidPtySize
  | RcLoginShellUnsupported
  | RcLoginShellDisabled
  | RcExecDisabled
  | RcPatchDisabled
  | RcInvalidDetail
  | RcImageMissing
  | RcImageNotFile
  | RcImageDecodeFailed
  | RcTransferPathNotAbsolute
  | RcTransferDestinationExists
  | RcTransferParentMissing
  | RcTransferDestinationUnsupported
  | RcTransferCompressionUnsupported
  | RcTransferSourceUnsupported
  | RcTransferSourceMissing
  | RcTransferFailed
  | RcPatchFailed
  | RcFileMissing
  | RcFileNotFile
  | RcFileDecodeFailed
  | RcFileTooLarge
  | RcFileOldStringNotFound
  | RcFileOldStringAmbiguous
  | RcFileReadFailed
  | RcFileWriteFailed
  | RcInternal

primrec wire_value :: "rpc_error_code \<Rightarrow> rstr" where
  "wire_value RcBadRequest = lit ''bad_request''"
| "wire_value RcUnauthorized = lit ''unauthorized''"
| "wire_value RcUnknownSession = lit ''unknown_session''"
| "wire_value RcExecSessionLockTimeout = lit ''exec_session_lock_timeout''"
| "wire_value RcNotFound = lit ''not_found''"
| "wire_value RcUnknownEndpoint = lit ''unknown_endpoint''"
| "wire_value RcInvalidPortTunnel = lit ''invalid_port_tunnel''"
| "wire_value RcPortTunnelUnavailable = lit ''port_tunnel_unavailable''"
| "wire_value RcPortTunnelLimitExceeded = lit ''port_tunnel_limit_exceeded''"
| "wire_value RcPortTunnelAlreadyAttached = lit ''port_tunnel_already_attached''"
| "wire_value RcPortTunnelResumeExpired = lit ''port_tunnel_resume_expired''"
| "wire_value RcPortTunnelGenerationMismatch = lit ''port_tunnel_generation_mismatch''"
| "wire_value RcUnknownPortTunnelSession = lit ''unknown_port_tunnel_session''"
| "wire_value RcPortTunnelClosed = lit ''port_tunnel_closed''"
| "wire_value RcInvalidPortTunnelMetadata = lit ''invalid_port_tunnel_metadata''"
| "wire_value RcInvalidEndpoint = lit ''invalid_endpoint''"
| "wire_value RcPortBindFailed = lit ''port_bind_failed''"
| "wire_value RcPortAcceptFailed = lit ''port_accept_failed''"
| "wire_value RcPortConnectFailed = lit ''port_connect_failed''"
| "wire_value RcPortReadFailed = lit ''port_read_failed''"
| "wire_value RcPortWriteFailed = lit ''port_write_failed''"
| "wire_value RcPortConnectionClosed = lit ''port_connection_closed''"
| "wire_value RcUnknownPortConnection = lit ''unknown_port_connection''"
| "wire_value RcUnknownPortBind = lit ''unknown_port_bind''"
| "wire_value RcSandboxDenied = lit ''sandbox_denied''"
| "wire_value RcStdinClosed = lit ''stdin_closed''"
| "wire_value RcStdinWriteTimeout = lit ''stdin_write_timeout''"
| "wire_value RcTtyDisabled = lit ''tty_disabled''"
| "wire_value RcTtyUnsupported = lit ''tty_unsupported''"
| "wire_value RcInvalidPtySize = lit ''invalid_pty_size''"
| "wire_value RcLoginShellUnsupported = lit ''login_shell_unsupported''"
| "wire_value RcLoginShellDisabled = lit ''login_shell_disabled''"
| "wire_value RcExecDisabled = lit ''exec_disabled''"
| "wire_value RcPatchDisabled = lit ''patch_disabled''"
| "wire_value RcInvalidDetail = lit ''invalid_detail''"
| "wire_value RcImageMissing = lit ''image_missing''"
| "wire_value RcImageNotFile = lit ''image_not_file''"
| "wire_value RcImageDecodeFailed = lit ''image_decode_failed''"
| "wire_value RcTransferPathNotAbsolute = lit ''transfer_path_not_absolute''"
| "wire_value RcTransferDestinationExists = lit ''transfer_destination_exists''"
| "wire_value RcTransferParentMissing = lit ''transfer_parent_missing''"
| "wire_value RcTransferDestinationUnsupported = lit ''transfer_destination_unsupported''"
| "wire_value RcTransferCompressionUnsupported = lit ''transfer_compression_unsupported''"
| "wire_value RcTransferSourceUnsupported = lit ''transfer_source_unsupported''"
| "wire_value RcTransferSourceMissing = lit ''transfer_source_missing''"
| "wire_value RcTransferFailed = lit ''transfer_failed''"
| "wire_value RcPatchFailed = lit ''patch_failed''"
| "wire_value RcFileMissing = lit ''file_missing''"
| "wire_value RcFileNotFile = lit ''file_not_file''"
| "wire_value RcFileDecodeFailed = lit ''file_decode_failed''"
| "wire_value RcFileTooLarge = lit ''file_too_large''"
| "wire_value RcFileOldStringNotFound = lit ''file_old_string_not_found''"
| "wire_value RcFileOldStringAmbiguous = lit ''file_old_string_ambiguous''"
| "wire_value RcFileReadFailed = lit ''file_read_failed''"
| "wire_value RcFileWriteFailed = lit ''file_write_failed''"
| "wire_value RcInternal = lit ''internal_error''"

text \<open>The arms of \<open>from_wire_value\<close>, in order; the last is the alias of older daemons.\<close>

definition wire_table :: "(rstr \<times> rpc_error_code) list" where
  "wire_table = [
     (lit ''bad_request'', RcBadRequest),
     (lit ''unauthorized'', RcUnauthorized),
     (lit ''unknown_session'', RcUnknownSession),
     (lit ''exec_session_lock_timeout'', RcExecSessionLockTimeout),
     (lit ''not_found'', RcNotFound),
     (lit ''unknown_endpoint'', RcUnknownEndpoint),
     (lit ''invalid_port_tunnel'', RcInvalidPortTunnel),
     (lit ''port_tunnel_unavailable'', RcPortTunnelUnavailable),
     (lit ''port_tunnel_limit_exceeded'', RcPortTunnelLimitExceeded),
     (lit ''port_tunnel_already_attached'', RcPortTunnelAlreadyAttached),
     (lit ''port_tunnel_resume_expired'', RcPortTunnelResumeExpired),
     (lit ''port_tunnel_generation_mismatch'', RcPortTunnelGenerationMismatch),
     (lit ''unknown_port_tunnel_session'', RcUnknownPortTunnelSession),
     (lit ''port_tunnel_closed'', RcPortTunnelClosed),
     (lit ''invalid_port_tunnel_metadata'', RcInvalidPortTunnelMetadata),
     (lit ''invalid_endpoint'', RcInvalidEndpoint),
     (lit ''port_bind_failed'', RcPortBindFailed),
     (lit ''port_accept_failed'', RcPortAcceptFailed),
     (lit ''port_connect_failed'', RcPortConnectFailed),
     (lit ''port_read_failed'', RcPortReadFailed),
     (lit ''port_write_failed'', RcPortWriteFailed),
     (lit ''port_connection_closed'', RcPortConnectionClosed),
     (lit ''unknown_port_connection'', RcUnknownPortConnection),
     (lit ''unknown_port_bind'', RcUnknownPortBind),
     (lit ''sandbox_denied'', RcSandboxDenied),
     (lit ''stdin_closed'', RcStdinClosed),
     (lit ''stdin_write_timeout'', RcStdinWriteTimeout),
     (lit ''tty_disabled'', RcTtyDisabled),
     (lit ''tty_unsupported'', RcTtyUnsupported),
     (lit ''invalid_pty_size'', RcInvalidPtySize),
     (lit ''login_shell_unsupported'', RcLoginShellUnsupported),
     (lit ''login_shell_disabled'', RcLoginShellDisabled),
     (lit ''exec_disabled'', RcExecDisabled),
     (lit ''patch_disabled'', RcPatchDisabled),
     (lit ''invalid_detail'', RcInvalidDetail),
     (lit ''image_missing'', RcImageMissing),
     (lit ''image_not_file'', RcImageNotFile),
     (lit ''image_decode_failed'', RcImageDecodeFailed),
     (lit ''transfer_path_not_absolute'', RcTransferPathNotAbsolute),
     (lit ''transfer_destination_exists'', RcTransferDestinationExists),
     (lit ''transfer_parent_missing'', RcTransferParentMissing),
     (lit ''transfer_destination_unsupported'', RcTransferDestinationUnsupported),
     (lit ''transfer_compression_unsupported'', RcTransferCompressionUnsupported),
     (lit ''transfer_source_unsupported'', RcTransferSourceUnsupported),
     (lit ''transfer_source_missing'', RcTransferSourceMissing),
     (lit ''transfer_failed'', RcTransferFailed),
     (lit ''patch_failed'', RcPatchFailed),
     (lit ''file_missing'', RcFileMissing),
     (lit ''file_not_file'', RcFileNotFile),
     (lit ''file_decode_failed'', RcFileDecodeFailed),
     (lit ''file_too_large'', RcFileTooLarge),
     (lit ''file_old_string_not_found'', RcFileOldStringNotFound),
     (lit ''file_old_string_ambiguous'', RcFileOldStringAmbiguous),
     (lit ''file_read_failed'', RcFileReadFailed),
     (lit ''file_write_failed'', RcFileWriteFailed),
     (lit ''internal_error'', RcInternal),
     (lit ''internal'', RcInternal)]"

definition from_wire_value :: "rstr \<Rightarrow> rpc_error_code option" where
  "from_wire_value v = map_of wire_table v"

record rpc_error_body =
  eb_code :: rstr
  eb_message :: rstr

definition rpc_error_body_new :: "rpc_error_code \<Rightarrow> rstr \<Rightarrow> rpc_error_body" where
  "rpc_error_body_new c m = \<lparr>eb_code = wire_value c, eb_message = m\<rparr>"

definition from_raw_code :: "rstr \<Rightarrow> rstr \<Rightarrow> rpc_error_body" where
  "from_raw_code c m = \<lparr>eb_code = c, eb_message = m\<rparr>"

definition error_body_code :: "rpc_error_body \<Rightarrow> rpc_error_code option" where
  "error_body_code b = from_wire_value (eb_code b)"

section \<open>Errors of the host\<close>

record host_rpc_error =
  he_status :: nat
  he_code :: rpc_error_code
  he_message :: rstr

definition into_http_rpc_parts :: "host_rpc_error \<Rightarrow> nat \<times> rpc_error_body" where
  "into_http_rpc_parts e =
     ((if 100 \<le> he_status e \<and> he_status e \<le> 999 then he_status e else 500),
      rpc_error_body_new (he_code e) (he_message e))"

definition into_rpc_parts :: "host_rpc_error \<Rightarrow> nat \<times> rpc_error_body" where
  "into_rpc_parts e = (he_status e, rpc_error_body_new (he_code e) (he_message e))"

definition bad_request :: "rpc_error_code \<Rightarrow> rstr \<Rightarrow> host_rpc_error" where
  "bad_request c m = \<lparr>he_status = 400, he_code = c, he_message = m\<rparr>"

definition internal_error :: "rpc_error_code \<Rightarrow> rstr \<Rightarrow> host_rpc_error" where
  "internal_error c m = \<lparr>he_status = 500, he_code = c, he_message = m\<rparr>"

text \<open>The four error types the macro \<open>define_domain_error\<close> generates, as one sum of their kinds.\<close>

datatype transfer_error_kind =
    TkSandboxDenied | TkPathNotAbsolute | TkDestinationExists | TkParentMissing
  | TkDestinationUnsupported | TkCompressionUnsupported | TkSourceUnsupported | TkSourceMissing
  | TkFailed | TkInternal

datatype image_error_kind =
    IkSandboxDenied | IkInvalidDetail | IkMissing | IkNotFile | IkDecodeFailed | IkInternal

datatype patch_kind = PkeSandboxDenied | PkeFailed | PkeInternal

datatype file_error_kind =
    FkInvalidRequest | FkSandboxDenied | FkMissing | FkNotFile | FkDecodeFailed | FkTooLarge
  | FkOldStringNotFound | FkOldStringAmbiguous | FkReadFailed | FkWriteFailed | FkInternal

datatype domain_kind =
    DkTransfer transfer_error_kind | DkImage image_error_kind | DkPatch patch_kind | DkFile file_error_kind

primrec transfer_code :: "transfer_error_kind \<Rightarrow> rpc_error_code" where
  "transfer_code TkSandboxDenied = RcSandboxDenied"
| "transfer_code TkPathNotAbsolute = RcTransferPathNotAbsolute"
| "transfer_code TkDestinationExists = RcTransferDestinationExists"
| "transfer_code TkParentMissing = RcTransferParentMissing"
| "transfer_code TkDestinationUnsupported = RcTransferDestinationUnsupported"
| "transfer_code TkCompressionUnsupported = RcTransferCompressionUnsupported"
| "transfer_code TkSourceUnsupported = RcTransferSourceUnsupported"
| "transfer_code TkSourceMissing = RcTransferSourceMissing"
| "transfer_code TkFailed = RcTransferFailed"
| "transfer_code TkInternal = RcInternal"

primrec image_code :: "image_error_kind \<Rightarrow> rpc_error_code" where
  "image_code IkSandboxDenied = RcSandboxDenied"
| "image_code IkInvalidDetail = RcInvalidDetail"
| "image_code IkMissing = RcImageMissing"
| "image_code IkNotFile = RcImageNotFile"
| "image_code IkDecodeFailed = RcImageDecodeFailed"
| "image_code IkInternal = RcInternal"

primrec patch_code :: "patch_kind \<Rightarrow> rpc_error_code" where
  "patch_code PkeSandboxDenied = RcSandboxDenied"
| "patch_code PkeFailed = RcPatchFailed"
| "patch_code PkeInternal = RcInternal"

primrec file_code :: "file_error_kind \<Rightarrow> rpc_error_code" where
  "file_code FkInvalidRequest = RcBadRequest"
| "file_code FkSandboxDenied = RcSandboxDenied"
| "file_code FkMissing = RcFileMissing"
| "file_code FkNotFile = RcFileNotFile"
| "file_code FkDecodeFailed = RcFileDecodeFailed"
| "file_code FkTooLarge = RcFileTooLarge"
| "file_code FkOldStringNotFound = RcFileOldStringNotFound"
| "file_code FkOldStringAmbiguous = RcFileOldStringAmbiguous"
| "file_code FkReadFailed = RcFileReadFailed"
| "file_code FkWriteFailed = RcFileWriteFailed"
| "file_code FkInternal = RcInternal"

primrec domain_code :: "domain_kind \<Rightarrow> rpc_error_code" where
  "domain_code (DkTransfer k) = transfer_code k"
| "domain_code (DkImage k) = image_code k"
| "domain_code (DkPatch k) = patch_code k"
| "domain_code (DkFile k) = file_code k"

definition domain_is_internal :: "domain_kind \<Rightarrow> bool" where
  "domain_is_internal k \<longleftrightarrow> k \<in> {DkTransfer TkInternal, DkImage IkInternal, DkPatch PkeInternal, DkFile FkInternal}"

definition with_context :: "rstr \<Rightarrow> rstr \<Rightarrow> rstr" where
  "with_context context m = context @ lit '': '' @ m"

definition into_host_rpc_error :: "domain_kind \<Rightarrow> rstr \<Rightarrow> host_rpc_error" where
  "into_host_rpc_error k m =
     (if domain_is_internal k then internal_error (domain_code k) m else bad_request (domain_code k) m)"

section \<open>The wire codes\<close>

lemma lit_inject [simp]: "lit a = lit b \<longleftrightarrow> a = b"
  by (simp add: lit_def inj_map_eq_map inj_def)

lemma from_wire_value_wire_value: "from_wire_value (wire_value c) = Some c"
  by (cases c; simp only:; code_simp)

lemma from_wire_value_cases:
  assumes "from_wire_value v = Some c"
  shows "v = wire_value c \<or> c = RcInternal \<and> v = lit ''internal''"
proof -
  from assms have "(v, c) \<in> set wire_table" unfolding from_wire_value_def by (rule map_of_SomeD)
  then show ?thesis by (auto simp: wire_table_def)
qed

interpretation rpc_code: codec wire_value from_wire_value "\<lambda>_. True"
  by unfold_locales (rule from_wire_value_wire_value)

text \<open>
  the error codes have one spelling each. A string is read as a code exactly when it is the
  code's own spelling, or the alias \<open>internal\<close> of older daemons for the internal error; every code
  is read back from what was written.
\<close>

theorem from_wire_value_iff:
  "from_wire_value v = Some c \<longleftrightarrow> v = wire_value c \<or> c = RcInternal \<and> v = lit ''internal''"
proof
  assume "v = wire_value c \<or> c = RcInternal \<and> v = lit ''internal''"
  then show "from_wire_value v = Some c"
    by (auto simp: from_wire_value_wire_value) (simp add: from_wire_value_def wire_table_def)
qed (rule from_wire_value_cases)

text \<open>
  Failures are blamed correctly. A host error is reported as a server error exactly when its
  code is the internal one, all others as client errors, and the body sent carries a code the
  receiver reads back.
\<close>

theorem host_error_status:
  "let (status, body) = into_http_rpc_parts (into_host_rpc_error k m)
   in (status = 500 \<longleftrightarrow> error_body_code body = Some RcInternal) \<and>
      (status = 400 \<longleftrightarrow> error_body_code body \<noteq> Some RcInternal) \<and>
      error_body_code body = Some (domain_code k)"
proof -
  have "domain_is_internal k \<longleftrightarrow> domain_code k = RcInternal"
  proof (cases k)
    case (DkTransfer t) then show ?thesis by (cases t) (simp_all add: domain_is_internal_def)
  next
    case (DkImage t) then show ?thesis by (cases t) (simp_all add: domain_is_internal_def)
  next
    case (DkPatch t) then show ?thesis by (cases t) (simp_all add: domain_is_internal_def)
  next
    case (DkFile t) then show ?thesis by (cases t) (simp_all add: domain_is_internal_def)
  qed
  then show ?thesis
    by (simp add: into_http_rpc_parts_def into_host_rpc_error_def internal_error_def bad_request_def
        error_body_code_def rpc_error_body_new_def rpc_code.dec_enc)
qed

end
