(* ===== verification/Transfer_Stream.thy ===== *)
theory Transfer_Stream
  imports Rpc_Error
begin

text \<open>
  \<open>crates/remote-exec-proto/src/rpc/transfer/stream.rs\<close>: the framed byte stream that carries an
  archive between broker and daemon. A transport is the list of chunks it delivers, an error
  being its last item; \<open>serde_json\<close> is the parameter \<open>json\<close>.
\<close>

section \<open>Frames\<close>

definition TRANSFER_STREAM_PREFACE :: bytes where
  "TRANSFER_STREAM_PREFACE = map of_char ''REXFER2'' @ [10]"

definition FRAME_HEADER_LEN :: nat where "FRAME_HEADER_LEN = 12"
definition DATA_FRAME_MAX_BYTES :: nat where "DATA_FRAME_MAX_BYTES = 64 * 1024"
definition CONTROL_FRAME_MAX_BYTES :: nat where "CONTROL_FRAME_MAX_BYTES = 64 * 1024"

lemmas stream_limits = FRAME_HEADER_LEN_def DATA_FRAME_MAX_BYTES_def CONTROL_FRAME_MAX_BYTES_def

datatype stream_frame_type = TsData | TsComplete | TsError

definition stream_type_from_byte :: "u8 \<Rightarrow> stream_frame_type option" where
  "stream_type_from_byte v = (if v = 1 then Some TsData else if v = 2 then Some TsComplete
     else if v = 3 then Some TsError else None)"

primrec stream_type_as_byte :: "stream_frame_type \<Rightarrow> u8" where
  "stream_type_as_byte TsData = 1"
| "stream_type_as_byte TsComplete = 2"
| "stream_type_as_byte TsError = 3"

definition payload_limit :: "stream_frame_type \<Rightarrow> nat" where
  "payload_limit t = (case t of TsData \<Rightarrow> DATA_FRAME_MAX_BYTES | _ \<Rightarrow> CONTROL_FRAME_MAX_BYTES)"

definition is_terminal :: "stream_frame_type \<Rightarrow> bool" where
  "is_terminal t \<longleftrightarrow> t = TsComplete \<or> t = TsError"

record stream_frame_header =
  sh_type :: stream_frame_type
  sh_payload_len :: nat

datatype stream_frame_decode_error =
    UnknownStreamFrameType u8 | NonZeroFlags u8 | NonZeroReserved nat | PayloadTooLarge nat nat

definition encode_transfer_stream_frame_header :: "stream_frame_header \<Rightarrow> bytes" where
  "encode_transfer_stream_frame_header h =
     [stream_type_as_byte (sh_type h), 0, 0, 0] @ be_bytes 8 (sh_payload_len h)"

definition decode_transfer_stream_frame_header ::
  "bytes \<Rightarrow> (stream_frame_decode_error, stream_frame_header) result" where
  "decode_transfer_stream_frame_header bs =
     bindR (ok_or (stream_type_from_byte (bs ! 0)) (UnknownStreamFrameType (bs ! 0))) (\<lambda>ft.
       if bs ! 1 \<noteq> 0 then Inl (NonZeroFlags (bs ! 1))
       else let reserved = be_value [bs ! 2, bs ! 3]
         in if reserved \<noteq> 0 then Inl (NonZeroReserved reserved)
            else let payload_len = be_value (take 8 (drop 4 bs)); limit = payload_limit ft
              in if payload_len > limit then Inl (PayloadTooLarge payload_len limit)
                 else Inr \<lparr>sh_type = ft, sh_payload_len = payload_len\<rparr>)"

definition encode_transfer_stream_frame :: "stream_frame_type \<Rightarrow> bytes \<Rightarrow> bytes" where
  "encode_transfer_stream_frame ft payload =
     encode_transfer_stream_frame_header \<lparr>sh_type = ft, sh_payload_len = length payload\<rparr> @ payload"

definition encode_transfer_stream_data_frame :: "bytes \<Rightarrow> bytes" where
  "encode_transfer_stream_data_frame payload = encode_transfer_stream_frame TsData payload"

record stream_json =
  complete_to_json :: "nat \<Rightarrow> bytes"
  complete_from_json :: "bytes \<Rightarrow> nat option"
  error_to_json :: "rpc_error_body \<Rightarrow> bytes"
  error_from_json :: "bytes \<Rightarrow> rpc_error_body option"

definition encode_transfer_stream_complete_frame :: "stream_json \<Rightarrow> nat \<Rightarrow> bytes" where
  "encode_transfer_stream_complete_frame json archive_bytes =
     encode_transfer_stream_frame TsComplete (complete_to_json json archive_bytes)"

definition encode_transfer_stream_error_frame :: "stream_json \<Rightarrow> rpc_error_body \<Rightarrow> bytes" where
  "encode_transfer_stream_error_frame json e = encode_transfer_stream_frame TsError (error_to_json json e)"

definition transfer_stream_data_frame_header :: "nat \<Rightarrow> bytes" where
  "transfer_stream_data_frame_header payload_len =
     encode_transfer_stream_frame_header \<lparr>sh_type = TsData, sh_payload_len = payload_len\<rparr>"

section \<open>Encoding a body\<close>

text \<open>
  The states of \<open>encode_transfer_stream_body\<close>. One step yields the next chunk of the encoded body,
  an error of the source stream, or its end.
\<close>

datatype 'e source_item = SrcBytes bytes | SrcError 'e

datatype 'e body_state =
    BsPreface "'e source_item list" nat
  | BsData "'e source_item list" nat
  | BsPayload "'e source_item list" nat bytes
  | BsDone

datatype ('e, 's) yielded = YieldChunk bytes 's | YieldError 'e | YieldEnd

fun body_data_step :: "stream_json \<Rightarrow> 'e source_item list \<Rightarrow> nat \<Rightarrow> ('e, 'e body_state) yielded" where
  "body_data_step json [] archive_bytes =
     YieldChunk (encode_transfer_stream_complete_frame json archive_bytes) BsDone"
| "body_data_step json (SrcError e # src) archive_bytes = YieldError e"
| "body_data_step json (SrcBytes bs # src) archive_bytes =
     (if bs = [] then body_data_step json src archive_bytes
      else YieldChunk (transfer_stream_data_frame_header (length bs))
             (BsPayload src (saturating_add archive_bytes (length bs)) bs))"

fun body_step :: "stream_json \<Rightarrow> 'e body_state \<Rightarrow> ('e, 'e body_state) yielded" where
  "body_step json (BsPreface src n) = YieldChunk TRANSFER_STREAM_PREFACE (BsData src n)"
| "body_step json (BsData src n) = body_data_step json src n"
| "body_step json (BsPayload src n payload) = YieldChunk payload (BsData src n)"
| "body_step json BsDone = YieldEnd"

text \<open>The whole stream, \<open>try_unfold\<close> over the steps.\<close>

fun body_size :: "'e body_state \<Rightarrow> nat" where
  "body_size (BsPreface src n) = 2 * length src + 3"
| "body_size (BsData src n) = 2 * length src + 2"
| "body_size (BsPayload src n payload) = 2 * length src + 3"
| "body_size BsDone = 0"

lemma body_data_step_size:
  "body_data_step json src n = YieldChunk bs st \<Longrightarrow> body_size st < 2 * length src + 2"
  by (induction json src n rule: body_data_step.induct) (auto split: if_splits)

lemma body_step_size: "body_step json s = YieldChunk bs s' \<Longrightarrow> body_size s' < body_size s"
  by (cases s) (auto dest: body_data_step_size)

function unfold_body :: "stream_json \<Rightarrow> 'e body_state \<Rightarrow> ('e, bytes) result list" where
  "unfold_body json s = (case body_step json s of
      YieldChunk bs s' \<Rightarrow> Inr bs # unfold_body json s'
    | YieldError e \<Rightarrow> [Inl e]
    | YieldEnd \<Rightarrow> [])"
  by pat_completeness auto
termination
  by (relation "measure (\<lambda>(json, s). body_size s)") (auto dest: body_step_size)

declare unfold_body.simps [simp del]

definition encode_transfer_stream_body :: "stream_json \<Rightarrow> 'e source_item list \<Rightarrow> ('e, bytes) result list" where
  "encode_transfer_stream_body json src = unfold_body json (BsPreface src 0)"

text \<open>\<open>encode_transfer_export_item_stream\<close>: the same for the items of an export.\<close>

datatype 'e export_item = ExData bytes | ExComplete nat | ExError 'e

datatype 'e export_state =
    EsPreface "'e export_item list" | EsItems "'e export_item list" | EsPayload "'e export_item list" bytes | EsDone

fun export_step ::
  "stream_json \<Rightarrow> ('e \<Rightarrow> rpc_error_body) \<Rightarrow> 'e export_state \<Rightarrow> (bytes \<times> 'e export_state) option" where
  "export_step json map_error (EsPreface items) = Some (TRANSFER_STREAM_PREFACE, EsItems items)"
| "export_step json map_error (EsItems (ExData bs # items)) =
     Some (transfer_stream_data_frame_header (length bs), EsPayload items bs)"
| "export_step json map_error (EsItems (ExComplete n # items)) =
     Some (encode_transfer_stream_complete_frame json n, EsDone)"
| "export_step json map_error (EsItems (ExError e # items)) =
     Some (encode_transfer_stream_error_frame json (map_error e), EsDone)"
| "export_step json map_error (EsItems []) =
     Some (encode_transfer_stream_error_frame json (rpc_error_body_new RcInternal
       (lit ''transfer export stream ended before terminal state'')), EsDone)"
| "export_step json map_error (EsPayload items payload) = Some (payload, EsItems items)"
| "export_step json map_error EsDone = None"

fun export_size :: "'e export_state \<Rightarrow> nat" where
  "export_size (EsPreface items) = 2 * length items + 3"
| "export_size (EsItems items) = 2 * length items + 2"
| "export_size (EsPayload items payload) = 2 * length items + 3"
| "export_size EsDone = 0"

lemma export_step_size: "export_step json f s = Some (bs, s') \<Longrightarrow> export_size s' < export_size s"
  by (cases "(json, f, s)" rule: export_step.cases) auto

function unfold_export :: "stream_json \<Rightarrow> ('e \<Rightarrow> rpc_error_body) \<Rightarrow> 'e export_state \<Rightarrow> bytes list" where
  "unfold_export json f s = (case export_step json f s of
      Some (bs, s') \<Rightarrow> bs # unfold_export json f s' | None \<Rightarrow> [])"
  by pat_completeness auto
termination
  by (relation "measure (\<lambda>(json, f, s). export_size s)") (auto dest: export_step_size)

declare unfold_export.simps [simp del]

definition encode_transfer_export_item_stream ::
  "stream_json \<Rightarrow> ('e \<Rightarrow> rpc_error_body) \<Rightarrow> 'e export_item list \<Rightarrow> bytes list" where
  "encode_transfer_export_item_stream json f items = unfold_export json f (EsPreface items)"

section \<open>Decoding a body\<close>

datatype 'e stream_decode_error =
    DeTransport 'e | DeEnded rstr | DeBadHeader stream_frame_decode_error | DeBadPreface
  | DeMalformedComplete | DeMalformedError | DeErrorFrame rstr rstr

record 'e stream_decoder =
  sd_stream :: "('e, bytes) result list"
  sd_buffer :: bytes
  sd_preface_read :: bool
  sd_terminal :: bool

definition stream_decoder_new :: "('e, bytes) result list \<Rightarrow> 'e stream_decoder" where
  "stream_decoder_new st = \<lparr>sd_stream = st, sd_buffer = [], sd_preface_read = False, sd_terminal = False\<rparr>"

text \<open>
  \<open>read_exact\<close>: take chunks until the buffer is long enough, then split it. The result carries the
  rest of the stream and the buffer also when it fails.
\<close>

fun fill_buffer ::
  "nat \<Rightarrow> rstr \<Rightarrow> ('e, bytes) result list \<Rightarrow> bytes \<Rightarrow>
   ('e, bytes) result list \<times> bytes \<times> ('e stream_decode_error, unit) result" where
  "fill_buffer len lbl [] buf = (if length buf \<ge> len then ([], buf, Inr ()) else ([], buf, Inl (DeEnded lbl)))"
| "fill_buffer len lbl (c # st) buf =
     (if length buf \<ge> len then (c # st, buf, Inr ())
      else case c of Inl e \<Rightarrow> (st, buf, Inl (DeTransport e)) | Inr chunk \<Rightarrow> fill_buffer len lbl st (buf @ chunk))"

definition read_exact ::
  "'e stream_decoder \<Rightarrow> nat \<Rightarrow> rstr \<Rightarrow> 'e stream_decoder \<times> ('e stream_decode_error, bytes) result" where
  "read_exact d len lbl = (case fill_buffer len lbl (sd_stream d) (sd_buffer d) of
      (st, buf, Inl e) \<Rightarrow> (d\<lparr>sd_stream := st, sd_buffer := buf\<rparr>, Inl e)
    | (st, buf, Inr _) \<Rightarrow> (d\<lparr>sd_stream := st, sd_buffer := drop len buf\<rparr>, Inr (take len buf)))"

definition read_frame ::
  "'e stream_decoder \<Rightarrow>
   'e stream_decoder \<times> ('e stream_decode_error, stream_frame_header \<times> bytes) result" where
  "read_frame d = (case read_exact d FRAME_HEADER_LEN (lit ''transfer stream frame header'') of
      (d1, Inl e) \<Rightarrow> (d1, Inl e)
    | (d1, Inr header_bytes) \<Rightarrow> (case decode_transfer_stream_frame_header header_bytes of
          Inl e \<Rightarrow> (d1, Inl (DeBadHeader e))
        | Inr header \<Rightarrow> (case read_exact d1 (sh_payload_len header) (lit ''transfer stream frame payload'') of
              (d2, Inl e) \<Rightarrow> (d2, Inl e)
            | (d2, Inr payload) \<Rightarrow> (d2, Inr (header, payload)))))"

definition read_preface ::
  "'e stream_decoder \<Rightarrow> 'e stream_decoder \<times> ('e stream_decode_error, unit) result" where
  "read_preface d = (if sd_preface_read d then (d, Inr ())
     else case read_exact d (length TRANSFER_STREAM_PREFACE) (lit ''transfer stream preface'') of
         (d1, Inl e) \<Rightarrow> (d1, Inl e)
       | (d1, Inr preface) \<Rightarrow>
           if preface \<noteq> TRANSFER_STREAM_PREFACE then (d1, Inl DeBadPreface)
           else (d1\<lparr>sd_preface_read := True\<rparr>, Inr ()))"

definition error_frame_to_decode_error :: "stream_json \<Rightarrow> bytes \<Rightarrow> 'e stream_decode_error" where
  "error_frame_to_decode_error json payload = (case error_from_json json payload of
      Some e \<Rightarrow> DeErrorFrame (eb_code e) (eb_message e) | None \<Rightarrow> DeMalformedError)"

text \<open>The bytes a decoder can still see; every frame read makes them fewer.\<close>

definition avail :: "'e stream_decoder \<Rightarrow> nat" where
  "avail d = length (sd_buffer d) + sum_list (map (\<lambda>c. case c of Inl _ \<Rightarrow> 0 | Inr b \<Rightarrow> length b) (sd_stream d))"

lemma fill_buffer_avail:
  "fill_buffer len lbl st buf = (st', buf', Inr ()) \<Longrightarrow>
     len \<le> length buf' \<and>
     length buf' + sum_list (map (\<lambda>c. case c of Inl _ \<Rightarrow> 0 | Inr b \<Rightarrow> length b) st') =
     length buf + sum_list (map (\<lambda>c. case c of Inl _ \<Rightarrow> 0 | Inr b \<Rightarrow> length b) st)"
  by (induction len lbl st buf rule: fill_buffer.induct) (auto split: if_splits sum.splits)

lemma read_exact_avail: "read_exact d len lbl = (d', Inr bs) \<Longrightarrow> avail d' + len = avail d"
  using fill_buffer_avail [of len lbl "sd_stream d" "sd_buffer d"]
  by (auto simp: read_exact_def avail_def split: prod.splits sum.splits)

lemma read_frame_avail: "read_frame d = (d', Inr hp) \<Longrightarrow> avail d' < avail d"
  by (auto simp: read_frame_def FRAME_HEADER_LEN_def split: prod.splits sum.splits
      dest!: read_exact_avail)

function next_data_loop ::
  "stream_json \<Rightarrow> 'e stream_decoder \<Rightarrow> 'e stream_decoder \<times> ('e stream_decode_error, bytes option) result" where
  "next_data_loop json d = (case read_frame d of
      (d1, Inl e) \<Rightarrow> (d1, Inl e)
    | (d1, Inr (header, payload)) \<Rightarrow> (case sh_type header of
          TsData \<Rightarrow> if payload = [] then next_data_loop json d1 else (d1, Inr (Some payload))
        | TsComplete \<Rightarrow> (case complete_from_json json payload of
              None \<Rightarrow> (d1, Inl DeMalformedComplete)
            | Some _ \<Rightarrow> (d1\<lparr>sd_terminal := True\<rparr>, Inr None))
        | TsError \<Rightarrow> (d1\<lparr>sd_terminal := True\<rparr>, Inl (error_frame_to_decode_error json payload))))"
  by pat_completeness auto
termination
  by (relation "measure (\<lambda>(json, d). avail d)") (auto dest!: read_frame_avail [OF sym])

declare next_data_loop.simps [simp del]

definition next_data_frame ::
  "stream_json \<Rightarrow> 'e stream_decoder \<Rightarrow> 'e stream_decoder \<times> ('e stream_decode_error, bytes option) result" where
  "next_data_frame json d = (if sd_terminal d then (d, Inr None)
     else case read_preface d of
         (d1, Inl e) \<Rightarrow> (d1, Inl e)
       | (d1, Inr _) \<Rightarrow> next_data_loop json d1)"

lemma next_data_loop_avail: "next_data_loop json d = (d', Inr (Some p)) \<Longrightarrow> avail d' < avail d"
proof (induction json d rule: next_data_loop.induct)
  case (1 json d)
  obtain d1 r where r: "read_frame d = (d1, r)" by (cases "read_frame d")
  with "1.prems" obtain hdr pl where hp: "r = Inr (hdr, pl)"
    by (cases r) (auto simp: next_data_loop.simps [of json d])
  have "avail d1 < avail d" using read_frame_avail r hp by blast
  moreover have "avail d' < avail d1" if "sh_type hdr = TsData" "pl = []"
    using "1.IH" [of d1 r "(hdr, pl)" hdr pl] that r hp "1.prems"
    by (simp add: next_data_loop.simps [of json d])
  ultimately show ?case
    using "1.prems" r hp
    by (cases "sh_type hdr = TsData \<and> pl = []")
      (auto simp: next_data_loop.simps [of json d] split: stream_frame_type.splits option.splits)
qed

lemma next_data_frame_avail: "next_data_frame json d = (d', Inr (Some p)) \<Longrightarrow> avail d' < avail d"
proof -
  assume n: "next_data_frame json d = (d', Inr (Some p))"
  have "avail d1 \<le> avail d" if "read_preface d = (d1, Inr u)" for d1 u
    using that
    by (auto simp: read_preface_def avail_def split: if_splits prod.splits sum.splits dest!: read_exact_avail)
  with n show ?thesis
    by (fastforce simp: next_data_frame_def split: if_splits prod.splits sum.splits dest: next_data_loop_avail)
qed

text \<open>\<open>decode_transfer_stream_body\<close>: the data frames in order and the error that ended them, if any.\<close>

function decode_from ::
  "stream_json \<Rightarrow> 'e stream_decoder \<Rightarrow> bytes list \<times> 'e stream_decode_error option" where
  "decode_from json d = (case next_data_frame json d of
      (d', Inl e) \<Rightarrow> ([], Some e)
    | (d', Inr None) \<Rightarrow> ([], None)
    | (d', Inr (Some p)) \<Rightarrow> (case decode_from json d' of (ps, e) \<Rightarrow> (p # ps, e)))"
  by pat_completeness auto
termination
  by (relation "measure (\<lambda>(json, d). avail d)") (auto dest!: next_data_frame_avail [OF sym])

declare decode_from.simps [simp del]

definition decode_transfer_stream_body ::
  "stream_json \<Rightarrow> ('e, bytes) result list \<Rightarrow> bytes list \<times> 'e stream_decode_error option" where
  "decode_transfer_stream_body json st = decode_from json (stream_decoder_new st)"

section \<open>Headers\<close>

interpretation stream_type: strict_codec stream_type_as_byte stream_type_from_byte "\<lambda>_. True"
proof
  show "stream_type_from_byte (stream_type_as_byte t) = Some t" for t
    by (cases t) (simp_all add: stream_type_from_byte_def)
  show "True \<and> stream_type_as_byte t = v" if "stream_type_from_byte v = Some t" for v t
    using that by (auto simp: stream_type_from_byte_def split: if_splits)
qed

lemma encode_header_len [simp]: "length (encode_transfer_stream_frame_header h) = FRAME_HEADER_LEN"
  by (simp add: encode_transfer_stream_frame_header_def FRAME_HEADER_LEN_def)

lemma decode_encode_stream_header:
  assumes "sh_payload_len h \<le> payload_limit (sh_type h)"
  shows "decode_transfer_stream_frame_header (encode_transfer_stream_frame_header h) = Inr h"
proof -
  have "sh_payload_len h \<le> 65536"
    using assms by (auto simp: payload_limit_def stream_limits split: stream_frame_type.splits)
  then have "be_value (be_bytes 8 (sh_payload_len h)) = sh_payload_len h" by (simp add: be_value_be_bytes)
  moreover have "be_value [0, 0] = 0" by (simp add: be_value_def)
  ultimately show ?thesis
    using assms
    by (simp add: decode_transfer_stream_frame_header_def encode_transfer_stream_frame_header_def
        stream_type.dec_enc Let_def numeral_2_eq_2 numeral_3_eq_3)
qed

section \<open>Reading from a stream without errors\<close>

definition clean :: "'e stream_decoder \<Rightarrow> bool" where
  "clean d \<longleftrightarrow> list_all (Not \<circ> isl) (sd_stream d)"

definition remaining :: "'e stream_decoder \<Rightarrow> bytes" where
  "remaining d = sd_buffer d @ concat (map projr (sd_stream d))"

lemma fill_buffer_clean:
  assumes "list_all (Not \<circ> isl) st"
  shows "len \<le> length buf + length (concat (map projr st)) \<Longrightarrow>
      \<exists>st' buf'. fill_buffer len lbl st buf = (st', buf', Inr ()) \<and> list_all (Not \<circ> isl) st' \<and> len \<le> length buf' \<and>
        buf' @ concat (map projr st') = buf @ concat (map projr st)"
    and "\<not> len \<le> length buf + length (concat (map projr st)) \<Longrightarrow>
      \<exists>st' buf'. fill_buffer len lbl st buf = (st', buf', Inl (DeEnded lbl))"
  using assms
  by (induction len lbl st buf rule: fill_buffer.induct) (auto split: sum.splits)

lemma read_exact_clean:
  assumes "clean d"
  shows "len \<le> length (remaining d) \<Longrightarrow>
      \<exists>d'. read_exact d len lbl = (d', Inr (take len (remaining d))) \<and> clean d' \<and>
        remaining d' = drop len (remaining d) \<and> sd_preface_read d' = sd_preface_read d \<and>
        sd_terminal d' = sd_terminal d"
    and "length (remaining d) < len \<Longrightarrow> \<exists>d'. read_exact d len lbl = (d', Inl (DeEnded lbl))"
proof -
  have c: "list_all (Not \<circ> isl) (sd_stream d)" using assms by (simp add: clean_def)
  show "\<exists>d'. read_exact d len lbl = (d', Inr (take len (remaining d))) \<and> clean d' \<and>
        remaining d' = drop len (remaining d) \<and> sd_preface_read d' = sd_preface_read d \<and>
        sd_terminal d' = sd_terminal d" if len: "len \<le> length (remaining d)"
  proof -
    obtain st' buf' where f: "fill_buffer len lbl (sd_stream d) (sd_buffer d) = (st', buf', Inr ())"
      "list_all (Not \<circ> isl) st'" "len \<le> length buf'" "buf' @ concat (map projr st') = remaining d"
      using fill_buffer_clean(1) [OF c, of len "sd_buffer d" lbl] len by (auto simp: remaining_def)
    then have "take len (remaining d) = take len buf'"
      "drop len (remaining d) = drop len buf' @ concat (map projr st')"
      by (simp_all add: f(4) [symmetric])
    with f show ?thesis by (simp add: read_exact_def clean_def remaining_def)
  qed
  show "\<exists>d'. read_exact d len lbl = (d', Inl (DeEnded lbl))" if "length (remaining d) < len"
    using fill_buffer_clean(2) [OF c, of len "sd_buffer d" lbl] that
    by (auto simp: read_exact_def remaining_def)
qed

lemma read_frame_clean:
  assumes d: "clean d" and r: "remaining d = encode_transfer_stream_frame ft pl @ rest"
    and l: "length pl \<le> payload_limit ft"
  shows "\<exists>d'. read_frame d = (d', Inr (\<lparr>sh_type = ft, sh_payload_len = length pl\<rparr>, pl)) \<and> clean d' \<and>
    remaining d' = rest \<and> sd_preface_read d' = sd_preface_read d \<and> sd_terminal d' = sd_terminal d"
proof -
  let ?h = "\<lparr>sh_type = ft, sh_payload_len = length pl\<rparr>"
  have r': "remaining d = encode_transfer_stream_frame_header ?h @ pl @ rest"
    using r by (simp add: encode_transfer_stream_frame_def)
  obtain d1 where d1: "read_exact d FRAME_HEADER_LEN (lit ''transfer stream frame header'') =
      (d1, Inr (encode_transfer_stream_frame_header ?h))" "clean d1" "remaining d1 = pl @ rest"
      "sd_preface_read d1 = sd_preface_read d" "sd_terminal d1 = sd_terminal d"
    using read_exact_clean(1) [OF d, of FRAME_HEADER_LEN "lit ''transfer stream frame header''"]
    by (auto simp: r')
  obtain d2 where "read_exact d1 (length pl) (lit ''transfer stream frame payload'') = (d2, Inr pl)"
      "clean d2" "remaining d2 = rest" "sd_preface_read d2 = sd_preface_read d1" "sd_terminal d2 = sd_terminal d1"
    using read_exact_clean(1) [OF d1(2), of "length pl" "lit ''transfer stream frame payload''"] d1(3) by auto
  with d1 decode_encode_stream_header [of ?h] l show ?thesis by (simp add: read_frame_def)
qed

lemma read_frame_short:
  assumes d: "clean d" and r: "encode_transfer_stream_frame ft pl = remaining d @ ahead" and m: "ahead \<noteq> []"
    and l: "length pl \<le> payload_limit ft"
  shows "\<exists>d' lbl. read_frame d = (d', Inl (DeEnded lbl))"
proof (cases "length (remaining d) < FRAME_HEADER_LEN")
  case True
  then show ?thesis
    using read_exact_clean(2) [OF d True, of "lit ''transfer stream frame header''"]
    by (auto simp: read_frame_def)
next
  case False
  let ?h = "\<lparr>sh_type = ft, sh_payload_len = length pl\<rparr>"
  have t: "take FRAME_HEADER_LEN (remaining d) = encode_transfer_stream_frame_header ?h"
    using False arg_cong [OF r [unfolded encode_transfer_stream_frame_def], of "take FRAME_HEADER_LEN"]
    by simp
  obtain d1 where d1: "read_exact d FRAME_HEADER_LEN (lit ''transfer stream frame header'') =
      (d1, Inr (encode_transfer_stream_frame_header ?h))" "clean d1"
      "remaining d1 = drop FRAME_HEADER_LEN (remaining d)"
    using read_exact_clean(1) [OF d, of FRAME_HEADER_LEN "lit ''transfer stream frame header''"] False t
    by auto
  have "length (remaining d) < FRAME_HEADER_LEN + length pl"
    using arg_cong [OF r, of length] m by (cases ahead) (simp_all add: encode_transfer_stream_frame_def)
  then have "length (remaining d1) < length pl" using d1(3) False by simp
  from read_exact_clean(2) [OF d1(2) this] obtain d2 where
    "read_exact d1 (length pl) (lit ''transfer stream frame payload'') =
      (d2, Inl (DeEnded (lit ''transfer stream frame payload'')))" by blast
  with d1 decode_encode_stream_header [of ?h] l show ?thesis by (simp add: read_frame_def)
qed

section \<open>Encoded bodies\<close>

text \<open>The documented behaviour of the JSON library the decoder relies on.\<close>

definition complete_json_ok :: "stream_json \<Rightarrow> bool" where
  "complete_json_ok json \<longleftrightarrow> (\<forall>n \<le> usize_max. length (complete_to_json json n) \<le> CONTROL_FRAME_MAX_BYTES \<and>
     complete_from_json json (complete_to_json json n) = Some n)"

definition body_bytes :: "stream_json \<Rightarrow> bytes list \<Rightarrow> nat \<Rightarrow> bytes" where
  "body_bytes json chunks n = concat (map encode_transfer_stream_data_frame (filter (\<lambda>b. b \<noteq> []) chunks))
     @ encode_transfer_stream_complete_frame json (foldl (\<lambda>a b. saturating_add a (length b)) n chunks)"

lemma saturating_add_0: "n \<le> usize_max \<Longrightarrow> saturating_add n 0 = n"
  by (simp add: saturating_add_def)

lemma saturating_total: "foldl (\<lambda>a b. saturating_add a (length b)) 0 chunks \<le> usize_max"
  by (induction chunks rule: rev_induct) (simp_all add: saturating_add_def)

lemma unfold_data_frames:
  "n \<le> usize_max \<Longrightarrow>
   \<exists>out. unfold_body json (BsData (map SrcBytes chunks :: 'e source_item list) n) = map Inr out \<and>
     concat out = body_bytes json chunks n"
proof (induction chunks arbitrary: n)
  case Nil
  have "unfold_body json (BsDone :: 'e body_state) = []" by (simp add: unfold_body.simps)
  then show ?case
    by (intro exI [of _ "[encode_transfer_stream_complete_frame json n]"])
      (simp add: unfold_body.simps [of json "BsData [] n"] body_bytes_def)
next
  case (Cons b chunks)
  show ?case
  proof (cases "b = []")
    case True
    have "unfold_body json (BsData (map SrcBytes (b # chunks) :: 'e source_item list) n) =
        unfold_body json (BsData (map SrcBytes chunks) n)"
      using True by (simp add: unfold_body.simps [of json "BsData _ n"])
    with Cons True show ?thesis by (simp add: body_bytes_def saturating_add_0)
  next
    case False
    let ?m = "saturating_add n (length b)"
    have "?m \<le> usize_max" by (simp add: saturating_add_def)
    from Cons.IH [OF this] obtain out where
      out: "unfold_body json (BsData (map SrcBytes chunks :: 'e source_item list) ?m) = map Inr out"
        "concat out = body_bytes json chunks ?m" by blast
    have "unfold_body json (BsPayload (map SrcBytes chunks :: 'e source_item list) ?m b) = Inr b # map Inr out"
      by (simp add: unfold_body.simps [of json "BsPayload _ _ _"] out(1))
    then have "unfold_body json (BsData (map SrcBytes (b # chunks) :: 'e source_item list) n) =
        map Inr (transfer_stream_data_frame_header (length b) # b # out)"
      using False by (simp add: unfold_body.simps [of json "BsData _ n"])
    with False out(2) show ?thesis
      by (intro exI [of _ "transfer_stream_data_frame_header (length b) # b # out"])
        (simp add: body_bytes_def encode_transfer_stream_data_frame_def encode_transfer_stream_frame_def
          transfer_stream_data_frame_header_def)
  qed
qed

lemma encode_body_bytes:
  "\<exists>out. encode_transfer_stream_body json (map SrcBytes chunks :: 'e source_item list) = map Inr out \<and>
     concat out = TRANSFER_STREAM_PREFACE @ body_bytes json chunks 0"
proof -
  obtain out where out: "unfold_body json (BsData (map SrcBytes chunks :: 'e source_item list) 0) = map Inr out"
    "concat out = body_bytes json chunks 0"
    using unfold_data_frames [of 0 json chunks] by auto
  then show ?thesis
    by (intro exI [of _ "TRANSFER_STREAM_PREFACE # out"])
      (simp add: encode_transfer_stream_body_def unfold_body.simps [of json "BsPreface _ _"])
qed

section \<open>Decoded bodies\<close>

lemma read_preface_clean:
  assumes "clean d" and "\<not> sd_preface_read d" and "remaining d = TRANSFER_STREAM_PREFACE @ rest"
  shows "\<exists>d'. read_preface d = (d', Inr ()) \<and> clean d' \<and> remaining d' = rest \<and> sd_preface_read d' \<and>
    sd_terminal d' = sd_terminal d"
proof -
  obtain d1 where "read_exact d (length TRANSFER_STREAM_PREFACE) (lit ''transfer stream preface'') =
      (d1, Inr TRANSFER_STREAM_PREFACE)" "clean d1" "remaining d1 = rest" "sd_terminal d1 = sd_terminal d"
    using read_exact_clean(1) [OF assms(1), of "length TRANSFER_STREAM_PREFACE" "lit ''transfer stream preface''"]
    by (auto simp: assms(3))
  with assms(2) show ?thesis by (simp add: read_preface_def clean_def remaining_def)
qed

definition reading :: "'e stream_decoder \<Rightarrow> bool" where
  "reading d \<longleftrightarrow> clean d \<and> sd_preface_read d \<and> \<not> sd_terminal d"

lemma next_frame_reading: "reading d \<Longrightarrow> next_data_frame json d = next_data_loop json d"
  by (simp add: reading_def next_data_frame_def read_preface_def)

lemma next_data_step:
  assumes "reading d" and "remaining d = encode_transfer_stream_data_frame b @ rest"
    and "b \<noteq> []" and "length b \<le> DATA_FRAME_MAX_BYTES"
  shows "\<exists>d'. next_data_frame json d = (d', Inr (Some b)) \<and> reading d' \<and> remaining d' = rest"
proof -
  obtain d' where "read_frame d = (d', Inr (\<lparr>sh_type = TsData, sh_payload_len = length b\<rparr>, b))"
    "clean d'" "remaining d' = rest" "sd_preface_read d' = sd_preface_read d" "sd_terminal d' = sd_terminal d"
    using read_frame_clean [of d TsData b rest] assms
    by (auto simp: reading_def encode_transfer_stream_data_frame_def payload_limit_def)
  with assms(1,3) show ?thesis
    by (simp add: next_frame_reading next_data_loop.simps [of json d]) (simp add: reading_def)
qed

lemma next_complete_step:
  assumes "reading d" and "remaining d = encode_transfer_stream_complete_frame json n @ rest"
    and "complete_json_ok json" and "n \<le> usize_max"
  shows "\<exists>d'. next_data_frame json d = (d', Inr None)"
proof -
  obtain d' where "read_frame d = (d', Inr (\<lparr>sh_type = TsComplete,
      sh_payload_len = length (complete_to_json json n)\<rparr>, complete_to_json json n))"
    using read_frame_clean [of d TsComplete "complete_to_json json n" rest] assms
    by (auto simp: reading_def encode_transfer_stream_complete_frame_def payload_limit_def complete_json_ok_def)
  with assms show ?thesis
    by (simp add: next_frame_reading next_data_loop.simps [of json d] complete_json_ok_def)
qed

lemma decode_from_body:
  assumes "n \<le> usize_max" and "complete_json_ok json" and "list_all (\<lambda>b. b \<noteq> [] \<and> length b \<le> DATA_FRAME_MAX_BYTES) bs"
    and "reading d" and "remaining d = concat (map encode_transfer_stream_data_frame bs)
      @ encode_transfer_stream_complete_frame json n @ rest"
  shows "decode_from json d = (bs, None)"
  using assms(3-)
proof (induction bs arbitrary: d)
  case Nil
  then obtain d' where "next_data_frame json d = (d', Inr None)"
    using next_complete_step [of d json n rest] assms(1,2) by auto
  then show ?case by (simp add: decode_from.simps [of json d])
next
  case (Cons b bs)
  then obtain d' where d': "next_data_frame json d = (d', Inr (Some b))" "reading d'"
    "remaining d' = concat (map encode_transfer_stream_data_frame bs)
      @ encode_transfer_stream_complete_frame json n @ rest"
    using next_data_step [of d b "concat (map encode_transfer_stream_data_frame bs)
      @ encode_transfer_stream_complete_frame json n @ rest" json] by auto
  from Cons.IH [OF _ d'(2,3)] Cons.prems(1) have "decode_from json d' = (bs, None)" by simp
  with d'(1) show ?case by (simp add: decode_from.simps [of json d])
qed

lemma new_decoder:
  "clean (stream_decoder_new st) = list_all (Not \<circ> isl) st"
  "remaining (stream_decoder_new st) = concat (map projr st)"
  "\<not> sd_preface_read (stream_decoder_new st)" "\<not> sd_terminal (stream_decoder_new st)"
  by (simp_all add: stream_decoder_new_def clean_def remaining_def)

lemma decode_after_preface:
  assumes "\<not> sd_terminal d" and "read_preface d = (d', Inr ())" and "reading d'"
  shows "decode_from json d = decode_from json d'"
  using assms next_frame_reading [OF assms(3), of json]
  by (simp add: decode_from.simps [of json d] decode_from.simps [of json d'] next_data_frame_def [of json d])

lemma filtered_chunks:
  "list_all (\<lambda>b. length b \<le> DATA_FRAME_MAX_BYTES) chunks \<Longrightarrow>
     list_all (\<lambda>b. b \<noteq> [] \<and> length b \<le> DATA_FRAME_MAX_BYTES) (filter (\<lambda>b. b \<noteq> []) chunks)"
  by (auto simp: list_all_iff)

text \<open>
  C14: a transferred body arrives intact. Whatever chunks the transport cuts the encoded body
  into, the decoder yields the non-empty chunks of the source in their order and then the end
  of the stream, provided no chunk exceeds the frame limit and the JSON library reads the
  completion record it wrote.
\<close>

theorem transfer_body_roundtrip:
  assumes "complete_json_ok json" and "list_all (\<lambda>b. length b \<le> DATA_FRAME_MAX_BYTES) chunks"
    and "concat transport = concat (map projr (encode_transfer_stream_body json
      (map SrcBytes chunks :: 'e source_item list)))"
  shows "decode_transfer_stream_body json (map Inr transport :: ('e, bytes) result list) =
    (filter (\<lambda>b. b \<noteq> []) chunks, None)"
proof -
  let ?d = "stream_decoder_new (map Inr transport :: ('e, bytes) result list)"
  have "concat transport = TRANSFER_STREAM_PREFACE @ body_bytes json chunks 0"
    using encode_body_bytes [of json chunks, where 'e = 'e] assms(3) by (auto simp: comp_def)
  then have "remaining ?d = TRANSFER_STREAM_PREFACE @ body_bytes json chunks 0"
    by (simp add: new_decoder comp_def)
  moreover have "clean ?d" by (simp add: new_decoder list_all_iff)
  ultimately obtain d' where d': "read_preface ?d = (d', Inr ())" "clean d'" "sd_preface_read d'"
    "remaining d' = body_bytes json chunks 0" "sd_terminal d' = sd_terminal ?d"
    using read_preface_clean [of ?d] new_decoder(3) by blast
  then have "reading d'" by (simp add: reading_def new_decoder)
  from decode_from_body [OF saturating_total [of chunks] assms(1) filtered_chunks [OF assms(2)] this, where rest = "[]"] d'(4)
  have "decode_from json d' = (filter (\<lambda>b. b \<noteq> []) chunks, None)" by (simp add: body_bytes_def)
  with decode_after_preface [OF _ d'(1) \<open>reading d'\<close>, of json] show ?thesis
    by (simp add: decode_transfer_stream_body_def new_decoder)
qed

text \<open>A completion record of eight bytes, an instance of the parameter.\<close>

definition fixed_json :: stream_json where
  "fixed_json = \<lparr>complete_to_json = be_bytes 8, complete_from_json = (\<lambda>b. Some (be_value b)),
     error_to_json = (\<lambda>b. [1]), error_from_json = (\<lambda>b. Some (rpc_error_body_new RcInternal (lit ''x'')))\<rparr>"

lemma fixed_json_ok: "complete_json_ok fixed_json"
  by (simp add: complete_json_ok_def fixed_json_def stream_limits be_value_be_bytes usize_max_def)

theorem transfer_body_roundtrip_witness:
  "\<exists>transport. length transport = 55 \<and>
     decode_transfer_stream_body fixed_json (map Inr transport :: (nat, bytes) result list) = ([[1, 2], [3]], None)"
proof -
  let ?src = "map SrcBytes [[1, 2], [], [3]] :: nat source_item list"
  let ?t = "map (\<lambda>b. [b]) (concat (map projr (encode_transfer_stream_body fixed_json ?src)))"
  have "concat ?t = concat (map projr (encode_transfer_stream_body fixed_json ?src))" by simp
  moreover have "list_all (\<lambda>b. length b \<le> DATA_FRAME_MAX_BYTES) [[1, 2], [], [3]]"
    by (simp add: stream_limits)
  moreover have "filter (\<lambda>b. b \<noteq> []) [[1, 2], [], [3 :: u8]] = [[1, 2], [3]]" by simp
  moreover have "length ?t = 55" by code_simp
  ultimately show ?thesis
    using transfer_body_roundtrip [OF fixed_json_ok, of "[[1, 2], [], [3]]" ?t, where 'e = nat] by metis
qed

lemma decode_from_cut:
  assumes "n \<le> usize_max" and "complete_json_ok json" and "list_all (\<lambda>b. b \<noteq> [] \<and> length b \<le> DATA_FRAME_MAX_BYTES) bs"
    and "reading d" and "x \<noteq> []" and "concat (map encode_transfer_stream_data_frame bs)
      @ encode_transfer_stream_complete_frame json n = remaining d @ x"
  shows "\<exists>ps qs lbl. decode_from json d = (ps, Some (DeEnded lbl)) \<and> bs = ps @ qs"
  using assms(3,4,6)
proof (induction bs arbitrary: d)
  case Nil
  then obtain d' lbl where "read_frame d = (d', Inl (DeEnded lbl))"
    using read_frame_short [of d TsComplete "complete_to_json json n" x] assms(1,2,5)
    by (auto simp: reading_def encode_transfer_stream_complete_frame_def payload_limit_def complete_json_ok_def)
  with Nil.prems(2) show ?case
    by (simp add: decode_from.simps [of json d] next_frame_reading next_data_loop.simps [of json d])
next
  case (Cons b bs)
  let ?R = "concat (map encode_transfer_stream_data_frame bs) @ encode_transfer_stream_complete_frame json n"
  have "encode_transfer_stream_data_frame b @ ?R = remaining d @ x" using Cons.prems(3) by simp
  then show ?case
  proof (cases rule: append_cut)
    case (1 us)
    then obtain d' lbl where "read_frame d = (d', Inl (DeEnded lbl))"
      using read_frame_short [of d TsData b us] Cons.prems(1,2)
      by (auto simp: reading_def encode_transfer_stream_data_frame_def payload_limit_def)
    with Cons.prems(2) have "decode_from json d = ([], Some (DeEnded lbl))"
      by (simp add: decode_from.simps [of json d] next_frame_reading next_data_loop.simps [of json d])
    then show ?thesis by blast
  next
    case (2 us)
    obtain d' where d': "next_data_frame json d = (d', Inr (Some b))" "reading d'" "remaining d' = us"
      using next_data_step [of d b us json] 2(1) Cons.prems(1,2) by auto
    from Cons.IH [OF _ d'(2)] 2(2) d'(3) Cons.prems(1) obtain ps qs lbl where
      "decode_from json d' = (ps, Some (DeEnded lbl))" "bs = ps @ qs" by auto
    with d'(1) have "decode_from json d = (b # ps, Some (DeEnded lbl)) \<and> b # bs = (b # ps) @ qs"
      by (simp add: decode_from.simps [of json d])
    then show ?thesis by blast
  qed
qed

lemma preface_cut:
  assumes "clean d" and "\<not> sd_preface_read d" and "length (remaining d) < length TRANSFER_STREAM_PREFACE"
  shows "\<exists>d' lbl. read_preface d = (d', Inl (DeEnded lbl))"
  using read_exact_clean(2) [OF assms(1,3), of "lit ''transfer stream preface''"] assms(2)
  by (auto simp: read_preface_def)

text \<open>
  C15: a truncated body is never mistaken for a complete one. If the transport ends anywhere before
  the last byte of the encoded body, the decoder reports an early end, after yielding only
  chunks the source had sent, in their order.
\<close>

theorem transfer_body_truncation_detected:
  assumes "complete_json_ok json" and "list_all (\<lambda>b. length b \<le> DATA_FRAME_MAX_BYTES) chunks"
    and "concat (map projr (encode_transfer_stream_body json (map SrcBytes chunks :: 'e source_item list))) =
      concat transport @ missing" and "missing \<noteq> []"
  shows "\<exists>ps qs lbl. decode_transfer_stream_body json (map Inr transport :: ('e, bytes) result list) =
    (ps, Some (DeEnded lbl)) \<and> filter (\<lambda>b. b \<noteq> []) chunks = ps @ qs"
proof -
  let ?d = "stream_decoder_new (map Inr transport :: ('e, bytes) result list)"
  have clean: "clean ?d" and rem: "remaining ?d = concat transport"
    by (simp_all add: new_decoder list_all_iff comp_def)
  have "TRANSFER_STREAM_PREFACE @ body_bytes json chunks 0 = concat transport @ missing"
    using encode_body_bytes [of json chunks, where 'e = 'e] assms(3) by (auto simp: comp_def)
  then show ?thesis
  proof (cases rule: append_cut)
    case (1 us)
    have "length TRANSFER_STREAM_PREFACE = length (concat transport) + length us"
      using 1(2) by (metis length_append)
    with 1(1) have "length (concat transport) < length TRANSFER_STREAM_PREFACE" by simp
    then obtain d' lbl where "read_preface ?d = (d', Inl (DeEnded lbl))"
      using preface_cut [OF clean] rem new_decoder(3) by metis
    then have "decode_from json ?d = ([], Some (DeEnded lbl))"
      by (simp add: decode_from.simps [of json ?d] next_data_frame_def new_decoder)
    then show ?thesis by (simp add: decode_transfer_stream_body_def)
  next
    case (2 us)
    then obtain d' where d': "read_preface ?d = (d', Inr ())" "clean d'" "sd_preface_read d'"
      "remaining d' = us" "sd_terminal d' = sd_terminal ?d"
      using read_preface_clean [OF clean, of us] new_decoder(3) rem by metis
    then have r: "reading d'" by (simp add: reading_def new_decoder)
    have "\<exists>ps qs lbl. decode_from json d' = (ps, Some (DeEnded lbl)) \<and> filter (\<lambda>b. b \<noteq> []) chunks = ps @ qs"
      using decode_from_cut [OF saturating_total [of chunks] assms(1) filtered_chunks [OF assms(2)] r assms(4)] 2(2) d'(4)
      by (simp add: body_bytes_def)
    with decode_after_preface [OF _ d'(1) r, of json] show ?thesis
      by (simp add: decode_transfer_stream_body_def new_decoder)
  qed
qed

theorem transfer_body_truncation_detected_witness:
  "\<exists>ps qs lbl. decode_transfer_stream_body fixed_json
      (map Inr [TRANSFER_STREAM_PREFACE @ [1, 0, 0, 0, 0]] :: (nat, bytes) result list) =
      (ps, Some (DeEnded lbl)) \<and> [[7 :: u8]] = ps @ qs"
proof -
  let ?src = "map SrcBytes [[7]] :: nat source_item list"
  let ?t = "[TRANSFER_STREAM_PREFACE @ [1, 0, 0, 0, 0]]"
  let ?m = "drop 13 (concat (map projr (encode_transfer_stream_body fixed_json ?src)))"
  have "concat (map projr (encode_transfer_stream_body fixed_json ?src)) = concat ?t @ ?m" by code_simp
  moreover have "?m \<noteq> []" by code_simp
  moreover have "list_all (\<lambda>b. length b \<le> DATA_FRAME_MAX_BYTES) [[7 :: u8]]" by (simp add: stream_limits)
  moreover have "filter (\<lambda>b. b \<noteq> []) [[7 :: u8]] = [[7]]" by simp
  ultimately show ?thesis
    using transfer_body_truncation_detected [OF fixed_json_ok, of "[[7]]" ?t ?m, where 'e = nat] by simp
qed

section \<open>Exports\<close>

text \<open>What the receiver of an export should see: the data, and how the export ended.\<close>

fun export_outcome ::
  "('e \<Rightarrow> rpc_error_body) \<Rightarrow> 'e export_item list \<Rightarrow> bytes list \<times> rpc_error_body option" where
  "export_outcome f [] = ([], Some (rpc_error_body_new RcInternal
     (lit ''transfer export stream ended before terminal state'')))"
| "export_outcome f (ExComplete n # items) = ([], None)"
| "export_outcome f (ExError e # items) = ([], Some (f e))"
| "export_outcome f (ExData b # items) = (case export_outcome f items of
     (ps, e) \<Rightarrow> (if b = [] then ps else b # ps, e))"

definition export_ok :: "'e export_item list \<Rightarrow> bool" where
  "export_ok items = list_all (\<lambda>i. case i of ExData b \<Rightarrow> length b \<le> DATA_FRAME_MAX_BYTES
     | ExComplete n \<Rightarrow> n \<le> usize_max | ExError _ \<Rightarrow> True) items"

definition error_json_ok :: "stream_json \<Rightarrow> rpc_error_body \<Rightarrow> bool" where
  "error_json_ok json b \<longleftrightarrow> length (error_to_json json b) \<le> CONTROL_FRAME_MAX_BYTES \<and>
     error_from_json json (error_to_json json b) = Some b"

definition frame_error :: "rpc_error_body \<Rightarrow> 'e stream_decode_error" where
  "frame_error b = DeErrorFrame (eb_code b) (eb_message b)"

fun export_bytes :: "stream_json \<Rightarrow> ('e \<Rightarrow> rpc_error_body) \<Rightarrow> 'e export_item list \<Rightarrow> bytes" where
  "export_bytes json f [] = encode_transfer_stream_error_frame json (rpc_error_body_new RcInternal
     (lit ''transfer export stream ended before terminal state''))"
| "export_bytes json f (ExComplete n # items) = encode_transfer_stream_complete_frame json n"
| "export_bytes json f (ExError e # items) = encode_transfer_stream_error_frame json (f e)"
| "export_bytes json f (ExData b # items) = encode_transfer_stream_data_frame b @ export_bytes json f items"

lemma unfold_export_items: "concat (unfold_export json f (EsItems items)) = export_bytes json f items"
proof (induction items)
  case Nil
  then show ?case by (simp add: unfold_export.simps)
next
  case (Cons i items)
  have "concat (unfold_export json f (EsPayload items b)) = b @ export_bytes json f items" for b
    using Cons by (simp add: unfold_export.simps [of json f "EsPayload _ _"])
  moreover have "unfold_export json f EsDone = []" by (simp add: unfold_export.simps)
  ultimately show ?case
    by (cases i) (simp_all add: unfold_export.simps [of json f "EsItems _"] encode_transfer_stream_data_frame_def
        encode_transfer_stream_frame_def transfer_stream_data_frame_header_def)
qed

lemma next_empty_data_step:
  assumes "reading d" and "remaining d = encode_transfer_stream_data_frame [] @ rest"
  shows "\<exists>d'. decode_from json d = decode_from json d' \<and> reading d' \<and> remaining d' = rest"
proof -
  obtain d' where d': "read_frame d = (d', Inr (\<lparr>sh_type = TsData, sh_payload_len = 0\<rparr>, []))"
    "clean d'" "remaining d' = rest" "sd_preface_read d' = sd_preface_read d" "sd_terminal d' = sd_terminal d"
    using read_frame_clean [of d TsData "[]" rest] assms
    by (auto simp: reading_def encode_transfer_stream_data_frame_def)
  then have r: "reading d'" using assms(1) by (simp add: reading_def)
  have "next_data_frame json d = next_data_frame json d'"
    using d'(1) by (simp add: next_frame_reading [OF assms(1)] next_frame_reading [OF r] next_data_loop.simps [of json d])
  then have "decode_from json d = decode_from json d'"
    by (simp add: decode_from.simps [of json d] decode_from.simps [of json d'])
  with r d'(3) show ?thesis by blast
qed

lemma error_frame_step:
  assumes "reading d" and "remaining d = encode_transfer_stream_error_frame json b @ rest" and "error_json_ok json b"
  shows "decode_from json d = ([], Some (frame_error b))"
proof -
  obtain d' where "read_frame d = (d', Inr (\<lparr>sh_type = TsError, sh_payload_len = length (error_to_json json b)\<rparr>,
      error_to_json json b))"
    using read_frame_clean [of d TsError "error_to_json json b" rest] assms
    by (auto simp: reading_def encode_transfer_stream_error_frame_def payload_limit_def error_json_ok_def)
  with assms show ?thesis
    by (simp add: decode_from.simps [of json d] next_frame_reading next_data_loop.simps [of json d]
        error_frame_to_decode_error_def error_json_ok_def frame_error_def)
qed

lemma decode_from_export:
  assumes "complete_json_ok json" and "export_ok items" and "\<And>b. snd (export_outcome f items) = Some b \<Longrightarrow> error_json_ok json b"
    and "reading d" and "remaining d = export_bytes json f items"
  shows "decode_from json d = (fst (export_outcome f items), map_option frame_error (snd (export_outcome f items)))"
  using assms(2-)
proof (induction items arbitrary: d)
  case Nil
  then show ?case using error_frame_step [OF Nil.prems(3), of json _ "[]"] by simp
next
  case (Cons i items)
  show ?case
  proof (cases i)
    case (ExComplete n)
    then obtain d' where "next_data_frame json d = (d', Inr None)"
      using next_complete_step [OF Cons.prems(3), of json n "[]"] Cons.prems assms(1) by (auto simp: export_ok_def)
    with ExComplete show ?thesis by (simp add: decode_from.simps [of json d])
  next
    case (ExError e)
    with Cons.prems show ?thesis using error_frame_step [OF Cons.prems(3), of json "f e" "[]"] by simp
  next
    case (ExData b)
    have ok: "export_ok items" "length b \<le> DATA_FRAME_MAX_BYTES" using Cons.prems(1) ExData by (simp_all add: export_ok_def)
    have rem: "remaining d = encode_transfer_stream_data_frame b @ export_bytes json f items"
      using Cons.prems(4) ExData by simp
    have err: "error_json_ok json b'" if "snd (export_outcome f items) = Some b'" for b'
      using Cons.prems(2) [of b'] that ExData by (cases "export_outcome f items") simp
    show ?thesis
    proof (cases "b = []")
      case True
      then obtain d' where "decode_from json d = decode_from json d'" "reading d'"
        "remaining d' = export_bytes json f items"
        using next_empty_data_step [OF Cons.prems(3)] rem by blast
      with Cons.IH [OF ok(1) err] True ExData show ?thesis by (simp split: prod.splits)
    next
      case False
      then obtain d' where "next_data_frame json d = (d', Inr (Some b))" "reading d'"
        "remaining d' = export_bytes json f items"
        using next_data_step [OF Cons.prems(3) rem False ok(2)] by blast
      with Cons.IH [OF ok(1) err, of d'] False ExData show ?thesis
        by (simp add: decode_from.simps [of json d] split: prod.splits)
    qed
  qed
qed

text \<open>
  C16: an export reports how it ended. Over any transport the receiver gets the data items in
  order, then the end after a completion, the very error the exporter met, or an internal error
  when the exporter stopped without saying how it ended; never a silent success.
\<close>

theorem export_stream_outcome:
  assumes "complete_json_ok json" and "export_ok items"
    and "\<And>b. snd (export_outcome f items) = Some b \<Longrightarrow> error_json_ok json b"
    and "concat transport = concat (encode_transfer_export_item_stream json f items)"
  shows "decode_transfer_stream_body json (map Inr transport :: ('t, bytes) result list) =
    (fst (export_outcome f items), map_option frame_error (snd (export_outcome f items)))"
proof -
  let ?d = "stream_decoder_new (map Inr transport :: ('t, bytes) result list)"
  have "concat transport = TRANSFER_STREAM_PREFACE @ export_bytes json f items"
    using assms(4) by (simp add: encode_transfer_export_item_stream_def unfold_export.simps [of json f "EsPreface _"]
        unfold_export_items)
  then have "remaining ?d = TRANSFER_STREAM_PREFACE @ export_bytes json f items"
    by (simp add: new_decoder comp_def)
  moreover have "clean ?d" by (simp add: new_decoder list_all_iff)
  ultimately obtain d' where d': "read_preface ?d = (d', Inr ())" "clean d'" "sd_preface_read d'"
    "remaining d' = export_bytes json f items" "sd_terminal d' = sd_terminal ?d"
    using read_preface_clean [of ?d] new_decoder(3) by blast
  then have "reading d'" by (simp add: reading_def new_decoder)
  with decode_from_export [OF assms(1,2,3) this d'(4)] decode_after_preface [OF _ d'(1), of json]
  show ?thesis by (simp add: decode_transfer_stream_body_def new_decoder)
qed

theorem export_stream_outcome_witness:
  "decode_transfer_stream_body fixed_json
     (map Inr (encode_transfer_export_item_stream fixed_json (\<lambda>e :: nat. rpc_error_body_new RcInternal (lit ''x''))
       [ExData [1], ExData [], ExError 4]) :: (nat, bytes) result list) =
   ([[1]], Some (DeErrorFrame (lit ''internal_error'') (lit ''x'')))"
proof -
  let ?f = "\<lambda>e :: nat. rpc_error_body_new RcInternal (lit ''x'')"
  let ?items = "[ExData [1], ExData [], ExError 4]"
  have "export_ok ?items" by (simp add: export_ok_def stream_limits)
  moreover have "error_json_ok fixed_json b" if "snd (export_outcome ?f ?items) = Some b" for b
    using that by (simp add: error_json_ok_def fixed_json_def stream_limits)
  ultimately show ?thesis
    using export_stream_outcome [OF fixed_json_ok, of ?items ?f "encode_transfer_export_item_stream fixed_json ?f ?items",
        where 't = nat]
    by (simp add: frame_error_def rpc_error_body_new_def)
qed

end
