(* ===== verification/Endpoints.thy ===== *)
theory Endpoints
  imports Prelude
begin

text \<open>
  \<open>crates/remote-exec-proto/src/port_forward.rs\<close>: the spelling of the endpoints of a port forward.
  \<open>parse_u16\<close> is \<open>str::parse::<u16>\<close>, which takes an optional plus sign and any number of
  leading zeros.
\<close>

section \<open>Definitions\<close>

datatype endpoint_error =
    EmptyEndpoint | MissingIpv6Bracket rstr | InvalidIpv6Endpoint rstr | InvalidEndpoint rstr
  | EmptyHost | InvalidPort rstr | ZeroConnectPort rstr

definition parse_u16 :: "rstr \<Rightarrow> nat option" where
  "parse_u16 s =
     (let digits = (case strip_prefix [c_plus] s of Some r \<Rightarrow> r | None \<Rightarrow> s)
      in if digits \<noteq> [] \<and> list_all is_ascii_digit digits \<and> dec_value digits < 65536
         then Some (dec_value digits) else None)"

definition parse_port :: "rstr \<Rightarrow> (endpoint_error, nat) result" where
  "parse_port v = ok_or (parse_u16 v) (InvalidPort v)"

definition split_host_port :: "rstr \<Rightarrow> (endpoint_error, rstr \<times> rstr) result" where
  "split_host_port endpoint = (case strip_prefix [c_lbracket] endpoint of
      Some rest \<Rightarrow>
        bindR (ok_or (split_once c_rbracket rest) (MissingIpv6Bracket endpoint)) (\<lambda>(host, suffix).
        bindR (ok_or (strip_prefix [c_colon] suffix) (InvalidIpv6Endpoint endpoint)) (\<lambda>port.
          Inr (host, port)))
    | None \<Rightarrow> ok_or (rsplit_once c_colon endpoint) (InvalidEndpoint endpoint))"

definition validate_host_port :: "rstr \<Rightarrow> (endpoint_error, unit) result" where
  "validate_host_port endpoint =
     bindR (split_host_port endpoint) (\<lambda>(host, port).
       if host = [] then Inl EmptyHost
       else bindR (parse_port port) (\<lambda>_. Inr ()))"

definition normalize_endpoint :: "rstr \<Rightarrow> (endpoint_error, rstr) result" where
  "normalize_endpoint raw =
     (let endpoint = trim raw
      in if endpoint = [] then Inl EmptyEndpoint
         else if list_all is_ascii_digit endpoint
         then bindR (parse_port endpoint) (\<lambda>port. Inr (lit ''127.0.0.1:'' @ dec_str port))
         else bindR (validate_host_port endpoint) (\<lambda>_. Inr endpoint))"

definition endpoint_port :: "rstr \<Rightarrow> (endpoint_error, nat) result" where
  "endpoint_port endpoint = bindR (split_host_port endpoint) (\<lambda>(_, port). parse_port port)"

definition ensure_nonzero_connect_endpoint :: "rstr \<Rightarrow> (endpoint_error, rstr) result" where
  "ensure_nonzero_connect_endpoint raw =
     bindR (normalize_endpoint raw) (\<lambda>endpoint.
     bindR (endpoint_port endpoint) (\<lambda>port.
       if port = 0 then Inl (ZeroConnectPort endpoint) else Inr endpoint))"

definition udp_connector_endpoint :: "rstr \<Rightarrow> (endpoint_error, rstr) result" where
  "udp_connector_endpoint connect_endpoint =
     bindR (normalize_endpoint connect_endpoint) (\<lambda>normalized.
       Inr (if starts_with [c_lbracket] normalized then lit ''[::]:0'' else lit ''0.0.0.0:0''))"

section \<open>Ports\<close>

lemma digit_not_plus: "is_ascii_digit c \<Longrightarrow> c \<noteq> c_plus"
  by (auto simp: is_ascii_digit_def)

lemma parse_u16_dec: "p < 65536 \<Longrightarrow> parse_u16 (dec_str p) = Some p"
proof -
  assume p: "p < 65536"
  obtain c s where s: "dec_str p = c # s" using dec_str_props(3) [of p] by (cases "dec_str p") auto
  then have "is_ascii_digit c" using dec_str_props(2) [of p] by simp
  then have "strip_prefix [c_plus] (dec_str p) = None" using digit_not_plus [of c] s by auto
  with p show ?thesis using dec_str_props [of p] by (simp add: parse_u16_def)
qed

lemma parse_u16_bound: "parse_u16 s = Some p \<Longrightarrow> p < 65536"
  by (auto simp: parse_u16_def Let_def split: if_splits)

section \<open>Normal endpoints\<close>

text \<open>An endpoint that is spelled out: trimmed, with a host that is not empty and a port.\<close>

definition full_endpoint :: "rstr \<Rightarrow> bool" where
  "full_endpoint e \<longleftrightarrow> e \<noteq> [] \<and> trim e = e \<and> \<not> list_all is_ascii_digit e \<and>
     (\<exists>host port p. split_host_port e = Inr (host, port) \<and> host \<noteq> [] \<and> parse_port port = Inr p)"

lemma full_endpoint_normal: "full_endpoint e \<Longrightarrow> normalize_endpoint e = Inr e"
  by (auto simp: full_endpoint_def normalize_endpoint_def validate_host_port_def Let_def)

lemma local_port_endpoint:
  assumes "p < 65536"
  shows "full_endpoint (lit ''127.0.0.1:'' @ dec_str p)"
    and "endpoint_port (lit ''127.0.0.1:'' @ dec_str p) = Inr p"
proof -
  let ?e = "lit ''127.0.0.1:'' @ dec_str p"
  have d: "list_all is_ascii_digit (dec_str p)" and ne: "dec_str p \<noteq> []" by (rule dec_str_props)+
  have "is_ascii_digit (last (dec_str p))" using d ne by (simp add: list_all_iff)
  then have last: "\<not> is_whitespace (last (dec_str p))" by (auto simp: is_ascii_digit_def is_whitespace_def)
  have trim: "trim ?e = ?e"
    using ne last by (intro trim_noop) (auto simp: lit_def is_whitespace_def)
  have nocolon: "c_colon \<notin> set (dec_str p)" using d by (auto simp: list_all_iff is_ascii_digit_def)
  have e: "?e = lit ''127.0.0.1'' @ c_colon # dec_str p" by (simp add: lit_def)
  have "rsplit_once c_colon ?e = Some (lit ''127.0.0.1'', dec_str p)"
    unfolding rsplit_once_eq_Some using e nocolon by simp
  then have split: "split_host_port ?e = Inr (lit ''127.0.0.1'', dec_str p)"
    by (simp add: split_host_port_def lit_def)
  then show "endpoint_port ?e = Inr p"
    using parse_u16_dec [OF assms] by (simp add: endpoint_port_def parse_port_def)
  have "lit ''127.0.0.1'' \<noteq> []" "\<not> list_all is_ascii_digit ?e"
    by (simp_all add: lit_def is_ascii_digit_def)
  with split trim show "full_endpoint ?e"
    using parse_u16_dec [OF assms] by (auto simp: full_endpoint_def parse_port_def)
qed

lemma normalize_full:
  assumes "normalize_endpoint raw = Inr e"
  shows "full_endpoint e"
proof (cases "list_all is_ascii_digit (trim raw)")
  case True
  with assms obtain p where "parse_u16 (trim raw) = Some p" "e = lit ''127.0.0.1:'' @ dec_str p"
    by (auto simp: normalize_endpoint_def Let_def bindR_eq_Inr parse_port_def ok_or_eq split: if_splits)
  then show ?thesis using local_port_endpoint(1) parse_u16_bound by simp
next
  case False
  with assms have e: "e = trim raw" "trim raw \<noteq> []" and v: "validate_host_port (trim raw) = Inr ()"
    by (auto simp: normalize_endpoint_def Let_def bindR_eq_Inr split: if_splits)
  from v have "\<exists>host port p. split_host_port (trim raw) = Inr (host, port) \<and> host \<noteq> [] \<and> parse_port port = Inr p"
    by (auto simp: validate_host_port_def bindR_eq_Inr split: if_splits)
  with e False show ?thesis by (auto simp: full_endpoint_def)
qed

text \<open>
  what endpoint normalisation guarantees. A normalised endpoint has a non-empty host and a
  port below 65536, and normalising it again changes nothing; a bare port number becomes that
  port on the loopback address.
\<close>

theorem normalize_endpoint_sound:
  "(normalize_endpoint raw = Inr e \<longrightarrow>
     normalize_endpoint e = Inr e \<and>
     (\<exists>host port p. split_host_port e = Inr (host, port) \<and> host \<noteq> [] \<and> endpoint_port e = Inr p \<and> p < 65536)) \<and>
   (p < 65536 \<longrightarrow> normalize_endpoint (dec_str p) = Inr (lit ''127.0.0.1:'' @ dec_str p) \<and>
     endpoint_port (lit ''127.0.0.1:'' @ dec_str p) = Inr p)"
proof -
  have "normalize_endpoint e = Inr e \<and>
     (\<exists>host port p. split_host_port e = Inr (host, port) \<and> host \<noteq> [] \<and> endpoint_port e = Inr p \<and> p < 65536)"
    if "normalize_endpoint raw = Inr e"
  proof -
    have f: "full_endpoint e" by (rule normalize_full [OF that])
    then obtain host port p where "split_host_port e = Inr (host, port)" "host \<noteq> []" "parse_port port = Inr p"
      by (auto simp: full_endpoint_def)
    then have "endpoint_port e = Inr p" "p < 65536"
      using parse_u16_bound by (auto simp: endpoint_port_def parse_port_def ok_or_eq)
    with f \<open>split_host_port e = _\<close> \<open>host \<noteq> []\<close> show ?thesis using full_endpoint_normal by blast
  qed
  moreover have "normalize_endpoint (dec_str p) = Inr (lit ''127.0.0.1:'' @ dec_str p)" if "p < 65536"
  proof -
    have d: "list_all is_ascii_digit (dec_str p)" "dec_str p \<noteq> []" by (rule dec_str_props)+
    have "\<not> is_whitespace c" if "is_ascii_digit c" for c
      using that by (auto simp: is_ascii_digit_def is_whitespace_def)
    then have "trim (dec_str p) = dec_str p"
      using d by (intro trim_noop) (auto simp: list_all_iff)
    with d that parse_u16_dec [OF that] show ?thesis by (simp add: normalize_endpoint_def parse_port_def)
  qed
  ultimately show ?thesis using local_port_endpoint(2) by blast
qed

theorem normalize_endpoint_sound_witness:
  "normalize_endpoint (lit '' [::1]:080 '') = Inr (lit ''[::1]:080'') \<and>
   normalize_endpoint (lit ''[::1]:080'') = Inr (lit ''[::1]:080'') \<and>
   normalize_endpoint (dec_str 22) = Inr (lit ''127.0.0.1:'' @ dec_str 22)"
proof -
  have "normalize_endpoint (lit '' [::1]:080 '') = Inr (lit ''[::1]:080'')" by code_simp
  with normalize_endpoint_sound [of "lit '' [::1]:080 ''" "lit ''[::1]:080''" 22] show ?thesis by simp
qed

text \<open>
  A connect endpoint is usable. An endpoint is accepted for connecting exactly when it
  normalises and the port of the normalised form is between 1 and 65535.
\<close>

theorem connect_endpoint_nonzero:
  "ensure_nonzero_connect_endpoint raw = Inr e \<longleftrightarrow>
     normalize_endpoint raw = Inr e \<and> (\<exists>p. endpoint_port e = Inr p \<and> 0 < p \<and> p < 65536)"
  using parse_u16_bound
  by (fastforce simp: ensure_nonzero_connect_endpoint_def endpoint_port_def parse_port_def bindR_eq_Inr
      ok_or_eq split: if_splits)

end
