(* ===== verification/Exec_Output.thy ===== *)
theory Exec_Output
  imports Utf8
begin

text \<open>
  \<open>crates/remote-exec-host/src/exec/output.rs\<close>, the truncation of command output to a number of
  tokens, and \<open>transcript.rs\<close>, the bounded record of a session. Positions in a string are byte
  offsets of its UTF-8 form, as in the sources. The truncation loop is a partial function:
  \<open>None\<close> stands for a slice off a character boundary, which panics, or a loop that never returns.
\<close>

section \<open>Byte positions\<close>

fun is_char_boundary :: "rstr \<Rightarrow> nat \<Rightarrow> bool" where
  "is_char_boundary [] i \<longleftrightarrow> i = 0"
| "is_char_boundary (c # s) i \<longleftrightarrow> i = 0 \<or> (len_utf8 c \<le> i \<and> is_char_boundary s (i - len_utf8 c))"

fun str_split_at :: "rstr \<Rightarrow> nat \<Rightarrow> (rstr \<times> rstr) option" where
  "str_split_at [] i = (if i = 0 then Some ([], []) else None)"
| "str_split_at (c # s) i = (if i = 0 then Some ([], c # s)
     else if len_utf8 c \<le> i
     then map_option (\<lambda>(a, b). (c # a, b)) (str_split_at s (i - len_utf8 c)) else None)"

fun floor_from :: "rstr \<Rightarrow> nat \<Rightarrow> nat" where
  "floor_from raw 0 = 0"
| "floor_from raw (Suc i) = (if is_char_boundary raw (Suc i) then Suc i else floor_from raw i)"

definition floor_char_boundary :: "rstr \<Rightarrow> nat \<Rightarrow> nat" where
  "floor_char_boundary raw max_bytes = floor_from raw (min max_bytes (str_len raw))"

function ceil_from :: "rstr \<Rightarrow> nat \<Rightarrow> nat" where
  "ceil_from raw i = (if i < str_len raw \<and> \<not> is_char_boundary raw i then ceil_from raw (Suc i) else i)"
  by pat_completeness auto
termination
  by (relation "measure (\<lambda>(raw, i). str_len raw - i)") auto

declare ceil_from.simps [simp del]

definition ceil_char_boundary :: "rstr \<Rightarrow> nat \<Rightarrow> nat" where
  "ceil_char_boundary raw min_bytes = ceil_from raw (min min_bytes (str_len raw))"

definition suffix_start_for_budget :: "rstr \<Rightarrow> nat \<Rightarrow> nat" where
  "suffix_start_for_budget raw max_bytes =
     (if max_bytes \<ge> str_len raw then 0 else ceil_char_boundary raw (str_len raw - max_bytes))"

section \<open>Truncation\<close>

definition DEFAULT_MAX_OUTPUT_TOKENS :: nat where "DEFAULT_MAX_OUTPUT_TOKENS = 10000"
definition BYTES_PER_TOKEN :: nat where "BYTES_PER_TOKEN = 4"

definition effective_max_output_tokens :: "nat option \<Rightarrow> nat option" where
  "effective_max_output_tokens m = Some (case m of Some v \<Rightarrow> v | None \<Rightarrow> DEFAULT_MAX_OUTPUT_TOKENS)"

text \<open>The cast to \<open>u32\<close> wraps.\<close>

definition approximate_token_count :: "nat \<Rightarrow> nat" where
  "approximate_token_count bs = (if bs = 0 then 0 else div_ceil bs BYTES_PER_TOKEN mod 2 ^ 32)"

definition count_output_lines :: "rstr \<Rightarrow> nat" where
  "count_output_lines raw = (if raw = [] then 0
     else length (split_on c_lf raw) - (if ends_with [c_lf] raw then 1 else 0))"

definition truncation_prefix :: "rstr \<Rightarrow> rstr" where
  "truncation_prefix raw = lit ''Total output lines: '' @ dec_str (count_output_lines raw) @ [c_lf, c_lf]"

definition truncation_marker :: "nat \<Rightarrow> rstr" where
  "truncation_marker truncated_tokens = [8230] @ dec_str truncated_tokens @ lit '' tokens truncated'' @ [8230]"

text \<open>The end of the head and the start of the tail for a payload budget.\<close>

definition truncation_cut :: "rstr \<Rightarrow> nat \<Rightarrow> nat \<times> nat" where
  "truncation_cut raw payload_budget =
     (let head_budget = payload_budget div 2; tail_budget = payload_budget - head_budget;
          head_end = floor_char_boundary raw head_budget
      in (head_end, max (suffix_start_for_budget raw tail_budget) head_end))"

partial_function (option) truncate_loop :: "rstr \<Rightarrow> rstr \<Rightarrow> nat \<Rightarrow> nat \<Rightarrow> rstr option" where
  [code]: "truncate_loop raw prefix max_output_bytes truncated_tokens =
     (let marker = truncation_marker truncated_tokens
      in if max_output_bytes \<le> str_len prefix + str_len marker then Some (prefix @ marker)
         else let cut = truncation_cut raw (max_output_bytes - str_len prefix - str_len marker);
                  next_truncated_tokens = approximate_token_count (snd cut - fst cut)
           in if next_truncated_tokens = truncated_tokens
              then Option.bind (str_split_at raw (fst cut)) (\<lambda>(head, _).
                   Option.bind (str_split_at raw (snd cut)) (\<lambda>(_, tail).
                     Some (prefix @ head @ marker @ tail)))
              else truncate_loop raw prefix max_output_bytes next_truncated_tokens)"

definition truncate_to_token_limit :: "rstr \<Rightarrow> nat option \<Rightarrow> rstr option" where
  "truncate_to_token_limit raw max_output_tokens = (case max_output_tokens of
      None \<Rightarrow> Some raw
    | Some limit \<Rightarrow>
        if limit = 0 then Some []
        else let max_output_bytes = limit * BYTES_PER_TOKEN
          in if str_len raw \<le> max_output_bytes then Some raw
             else truncate_loop raw (truncation_prefix raw) max_output_bytes
                    (approximate_token_count (str_len raw)))"

record output_snapshot =
  os_original_token_count :: nat
  os_output :: rstr

definition snapshot_output :: "rstr \<Rightarrow> nat option \<Rightarrow> output_snapshot option" where
  "snapshot_output raw max_output_tokens =
     map_option (\<lambda>out. \<lparr>os_original_token_count = approximate_token_count (str_len raw), os_output = out\<rparr>)
       (truncate_to_token_limit raw (effective_max_output_tokens max_output_tokens))"

section \<open>Transcripts\<close>

record transcript_buffer =
  tb_limit :: nat
  tb_head :: bytes
  tb_tail :: bytes
  tb_total :: nat

definition transcript_new :: "nat \<Rightarrow> transcript_buffer" where
  "transcript_new limit = \<lparr>tb_limit = limit, tb_head = [], tb_tail = [], tb_total = 0\<rparr>"

definition transcript_push :: "transcript_buffer \<Rightarrow> bytes \<Rightarrow> transcript_buffer" where
  "transcript_push tb bs =
     (let head_limit = tb_limit tb div 2; tail_limit = tb_limit tb - head_limit;
          head = (if length (tb_head tb) < head_limit
                  then tb_head tb @ take (min (head_limit - length (tb_head tb)) (length bs)) bs
                  else tb_head tb);
          tb1 = tb\<lparr>tb_total := tb_total tb + length bs, tb_head := head\<rparr>
      in if tail_limit = 0 then tb1\<lparr>tb_tail := []\<rparr>
         else if length bs \<ge> tail_limit then tb1\<lparr>tb_tail := drop (length bs - tail_limit) bs\<rparr>
         else let overflow = saturating_add (length (tb_tail tb)) (length bs) - tail_limit
           in tb1\<lparr>tb_tail := drop overflow (tb_tail tb) @ bs\<rparr>)"

section \<open>Boundaries\<close>

lemma len_utf8_pos: "0 < len_utf8 c"
  by (simp add: len_utf8_def)

lemma str_split_at_append: "str_split_at (a @ b) (str_len a) = Some (a, b)"
proof (induction a)
  case Nil
  then show ?case by (cases b) auto
next
  case (Cons c a)
  then show ?case using len_utf8_pos [of c] by simp
qed

lemma boundary_iff: "is_char_boundary s i \<longleftrightarrow> (\<exists>a b. s = a @ b \<and> i = str_len a)"
proof (induction s arbitrary: i)
  case Nil
  then show ?case by auto
next
  case (Cons c s)
  have "(\<exists>a b. c # s = a @ b \<and> i = str_len a) \<longleftrightarrow>
        i = 0 \<or> (\<exists>a b. s = a @ b \<and> i = len_utf8 c + str_len a)"
    by (auto simp: Cons_eq_append_conv) (metis append_Cons str_len_simps(2))
  also have "\<dots> \<longleftrightarrow> is_char_boundary (c # s) i"
    by (auto simp: Cons)
  finally show ?case ..
qed

lemma floor_from_spec:
  "floor_from raw i \<le> i \<and> is_char_boundary raw (floor_from raw i) \<and>
   (\<forall>b\<le>i. is_char_boundary raw b \<longrightarrow> b \<le> floor_from raw i)"
proof (induction i)
  case 0
  then show ?case by (cases raw) auto
next
  case (Suc i)
  then show ?case by (auto simp: le_Suc_eq)
qed

lemma ceil_from_spec:
  "i \<le> str_len raw \<Longrightarrow> i \<le> ceil_from raw i \<and> is_char_boundary raw (ceil_from raw i) \<and>
   (\<forall>b\<ge>i. is_char_boundary raw b \<longrightarrow> ceil_from raw i \<le> b)"
proof (induction raw i rule: ceil_from.induct)
  case (1 raw i)
  have e: "is_char_boundary raw (str_len raw)" unfolding boundary_iff by (metis append_Nil2)
  show ?case
  proof (cases "i < str_len raw \<and> \<not> is_char_boundary raw i")
    case True
    then have "ceil_from raw i = ceil_from raw (Suc i)" by (simp add: ceil_from.simps [of raw i])
    with "1.IH" [OF True] True show ?thesis
      by (metis Suc_leD Suc_leI le_neq_implies_less)
  next
    case False
    with 1 e show ?thesis by (auto simp: ceil_from.simps [of raw i])
  qed
qed

lemma floor_char_boundary_spec:
  "floor_char_boundary raw n \<le> n" "is_char_boundary raw (floor_char_boundary raw n)"
  "floor_char_boundary raw n \<le> str_len raw"
  using floor_from_spec [of raw "min n (str_len raw)"] by (auto simp: floor_char_boundary_def)

lemma floor_char_boundary_mono: "m \<le> n \<Longrightarrow> floor_char_boundary raw m \<le> floor_char_boundary raw n"
  using floor_from_spec [of raw "min m (str_len raw)"] floor_from_spec [of raw "min n (str_len raw)"]
  unfolding floor_char_boundary_def by (meson min.mono order_refl order_trans)

lemma boundary_zero: "is_char_boundary raw 0"
  by (cases raw) auto

lemma boundary_le: "is_char_boundary raw b \<Longrightarrow> b \<le> str_len raw"
  by (auto simp: boundary_iff)

lemma suffix_start_spec:
  "is_char_boundary raw (suffix_start_for_budget raw n)"
  "str_len raw - suffix_start_for_budget raw n \<le> n"
  using ceil_from_spec [of "min (str_len raw - n) (str_len raw)" raw]
  by (auto simp: suffix_start_for_budget_def ceil_char_boundary_def boundary_zero)

lemma suffix_start_antimono: "m \<le> n \<Longrightarrow> suffix_start_for_budget raw n \<le> suffix_start_for_budget raw m"
proof -
  assume "m \<le> n"
  then have "str_len raw - n \<le> str_len raw - m" by simp
  then show ?thesis
    using ceil_from_spec [of "str_len raw - n" raw] ceil_from_spec [of "str_len raw - m" raw] \<open>m \<le> n\<close>
    by (auto simp: suffix_start_for_budget_def ceil_char_boundary_def)
qed

section \<open>One round of the loop\<close>

definition removed :: "rstr \<Rightarrow> nat \<Rightarrow> nat" where
  "removed raw budget = snd (truncation_cut raw budget) - fst (truncation_cut raw budget)"

lemma removed_antimono: "m \<le> n \<Longrightarrow> removed raw n \<le> removed raw m"
proof -
  assume mn: "m \<le> n"
  have "floor_char_boundary raw (m div 2) \<le> floor_char_boundary raw (n div 2)"
    by (rule floor_char_boundary_mono) (use mn in simp)
  moreover have "suffix_start_for_budget raw (n - n div 2) \<le> suffix_start_for_budget raw (m - m div 2)"
    by (rule suffix_start_antimono) (use mn in presburger)
  ultimately show ?thesis by (simp add: removed_def truncation_cut_def Let_def max_def diff_le_mono2 diff_le_mono)
    (meson diff_le_mono diff_le_mono2 order_trans)
qed

lemma removed_le: "removed raw n \<le> str_len raw"
  using boundary_le [OF suffix_start_spec(1) [of raw "n - n div 2"]] floor_char_boundary_spec(3) [of raw "n div 2"]
  by (simp add: removed_def truncation_cut_def Let_def)

lemma truncation_cut_split:
  assumes "truncation_cut raw budget = (i, j)"
  obtains h m t where "raw = h @ m @ t" "i = str_len h" "j = str_len (h @ m)"
    "str_len h \<le> budget div 2" "str_len t \<le> budget - budget div 2" "removed raw budget = str_len m"
proof -
  let ?s = "suffix_start_for_budget raw (budget - budget div 2)"
  have i: "i = floor_char_boundary raw (budget div 2)" and j: "j = max ?s i"
    using assms by (auto simp: truncation_cut_def Let_def)
  have ij: "i \<le> j" "is_char_boundary raw i" "is_char_boundary raw j"
    using floor_char_boundary_spec(2) suffix_start_spec(1) by (auto simp: i j max_def)
  then obtain h r q t where hr: "raw = h @ r" "i = str_len h" "raw = q @ t" "j = str_len q"
    by (metis boundary_iff)
  obtain m where m: "q = h @ m"
  proof -
    from hr have "h @ r = q @ t" by simp
    then consider us where "h = q @ us" "us @ r = t" | us where "q = h @ us"
      by (auto simp: append_eq_append_conv2)
    then show thesis
    proof cases
      case 1
      with hr ij(1) have "str_len us = 0" by simp
      then have "us = []" using len_utf8_pos [of "us ! 0"] by (cases us) auto
      with 1 show thesis using that [of "[]"] by simp
    qed (rule that)
  qed
  have "?s \<le> str_len q" using hr(4) j by simp
  then have "str_len t \<le> budget - budget div 2"
    using suffix_start_spec(2) [of raw "budget - budget div 2"] arg_cong [OF hr(3), of str_len]
    unfolding str_len_simps by linarith
  moreover have "str_len h \<le> budget div 2"
    using floor_char_boundary_spec(1) [of raw "budget div 2"] hr i by simp
  moreover have "removed raw budget = str_len m" using assms hr m by (simp add: removed_def)
  ultimately show thesis using that [of h m t] hr m by simp
qed

lemma dec_str_length_mono: "m \<le> n \<Longrightarrow> length (dec_str m) \<le> length (dec_str n)"
proof (induction n arbitrary: m rule: dec_str.induct)
  case (1 n)
  have "0 < length (dec_str (n div 10))" using dec_str_props(3) by simp
  with 1 show ?case
    by (cases "n < 10") (auto simp: dec_str.simps [of n] dec_str.simps [of m] div_le_mono)
qed

lemma str_len_digits: "list_all is_ascii_digit s \<Longrightarrow> str_len s = length s"
  by (induction s) (auto simp: is_ascii_digit_def len_utf8_def)

lemma marker_len_mono: "m \<le> n \<Longrightarrow> str_len (truncation_marker m) \<le> str_len (truncation_marker n)"
  using dec_str_length_mono [of m n] dec_str_props(2) by (simp add: truncation_marker_def str_len_digits)

lemma token_count_eq: "n \<le> 2 ^ 33 \<Longrightarrow> approximate_token_count n = (n + 3) div 4"
  by (simp add: approximate_token_count_def div_ceil_def BYTES_PER_TOKEN_def add.commute)

lemma token_count_mono: "m \<le> n \<Longrightarrow> n \<le> 2 ^ 33 \<Longrightarrow> approximate_token_count m \<le> approximate_token_count n"
  by (simp add: token_count_eq div_le_mono)

section \<open>The loop\<close>

definition next_tokens :: "rstr \<Rightarrow> rstr \<Rightarrow> nat \<Rightarrow> nat \<Rightarrow> nat" where
  "next_tokens raw pre lim t =
     approximate_token_count (removed raw (lim - str_len pre - str_len (truncation_marker t)))"

lemma next_tokens_mono:
  assumes "str_len raw \<le> 2 ^ 33" "t \<le> u"
  shows "next_tokens raw pre lim t \<le> next_tokens raw pre lim u"
  unfolding next_tokens_def
  by (rule token_count_mono)
    (use assms marker_len_mono [of t u] removed_le [of raw] order_trans in \<open>auto intro!: removed_antimono\<close>)

definition cut_output :: "rstr \<Rightarrow> rstr \<Rightarrow> nat \<Rightarrow> rstr \<Rightarrow> bool" where
  "cut_output raw pre lim out \<longleftrightarrow> str_len out \<le> lim \<and>
     (\<exists>h m t. raw = h @ m @ t \<and> out = pre @ h @ truncation_marker (approximate_token_count (str_len m)) @ t)"

lemma truncate_loop_returns:
  assumes raw: "str_len raw \<le> 2 ^ 33"
  shows "str_len pre + str_len (truncation_marker t) < lim \<Longrightarrow> next_tokens raw pre lim t \<le> t \<Longrightarrow>
    \<exists>out. truncate_loop raw pre lim t = Some out \<and> cut_output raw pre lim out"
proof (induction t rule: less_induct)
  case (less t)
  let ?b = "lim - str_len pre - str_len (truncation_marker t)"
  let ?u = "next_tokens raw pre lim t"
  obtain i j where ij: "truncation_cut raw ?b = (i, j)" by (cases "truncation_cut raw ?b")
  then obtain h m tl where c: "raw = h @ m @ tl" "i = str_len h" "j = str_len (h @ m)"
    "str_len h \<le> ?b div 2" "str_len tl \<le> ?b - ?b div 2" "removed raw ?b = str_len m"
    by (rule truncation_cut_split)
  have step: "truncate_loop raw pre lim t =
      (if ?u = t then Some (pre @ h @ truncation_marker t @ tl) else truncate_loop raw pre lim ?u)"
    using less.prems(1) ij c str_split_at_append [of h "m @ tl"] str_split_at_append [of "h @ m" tl]
    by (subst truncate_loop.simps) (simp add: Let_def next_tokens_def)
  show ?case
  proof (cases "?u = t")
    case True
    then have "t = approximate_token_count (str_len m)" using c(6) by (simp add: next_tokens_def)
    moreover have "str_len (pre @ h @ truncation_marker t @ tl) \<le> lim" using c(4,5) less.prems(1) by simp
    ultimately show ?thesis using True step c(1) unfolding cut_output_def by auto
  next
    case False
    with less.prems(2) have u: "?u < t" by simp
    then have "next_tokens raw pre lim ?u \<le> ?u" using next_tokens_mono [OF raw] by simp
    moreover have "str_len pre + str_len (truncation_marker ?u) < lim"
      using less.prems(1) marker_len_mono [of ?u t] u by linarith
    ultimately show ?thesis using less.IH [OF u] step False by simp
  qed
qed

text \<open>
  output truncation returns and keeps its budget. For outputs up to 8 GiB the search for a
  consistent token count ends. Without a limit, or within it, the output is unchanged; a limit of
  0 gives the empty string. Otherwise the result is the line count, a beginning of the output, a
  marker with the number of tokens actually left out and an end of the output, within four bytes
  per token of the limit; when line count and marker alone reach the limit, it is these two.
\<close>

theorem truncate_to_token_limit_spec:
  assumes raw: "str_len raw \<le> 2 ^ 33"
  shows "\<exists>out. truncate_to_token_limit raw limit = Some out \<and>
    (case limit of None \<Rightarrow> out = raw
     | Some n \<Rightarrow> if n = 0 then out = [] else if str_len raw \<le> n * 4 then out = raw
       else let all = truncation_prefix raw @ truncation_marker (approximate_token_count (str_len raw))
         in if n * 4 \<le> str_len all then out = all
            else str_len out \<le> n * 4 \<and> (\<exists>h m t. raw = h @ m @ t \<and>
              out = truncation_prefix raw @ h @ truncation_marker (approximate_token_count (str_len m)) @ t))"
proof (cases "\<exists>n. limit = Some n \<and> n \<noteq> 0 \<and> n * 4 < str_len raw")
  case False
  then show ?thesis
    by (auto simp: truncate_to_token_limit_def BYTES_PER_TOKEN_def Let_def split: option.splits)
next
  case True
  then obtain n where n: "limit = Some n" "n \<noteq> 0" "n * 4 < str_len raw" by blast
  let ?p = "truncation_prefix raw" and ?t = "approximate_token_count (str_len raw)"
  have e: "truncate_to_token_limit raw limit = truncate_loop raw ?p (n * 4) ?t"
    using n by (simp add: truncate_to_token_limit_def BYTES_PER_TOKEN_def Let_def)
  show ?thesis
  proof (cases "n * 4 \<le> str_len ?p + str_len (truncation_marker ?t)")
    case True
    then show ?thesis using n e by (subst (asm) truncate_loop.simps) (simp add: Let_def)
  next
    case False
    moreover have "next_tokens raw ?p (n * 4) ?t \<le> ?t"
      unfolding next_tokens_def using token_count_mono [OF removed_le raw] by blast
    ultimately show ?thesis
      using truncate_loop_returns [OF raw, of ?p ?t "n * 4"] n e by (simp add: cut_output_def)
  qed
qed

theorem truncate_to_token_limit_spec_witness:
  "\<exists>out h m t. truncate_to_token_limit (replicate 100 97) (Some 20) = Some out \<and> str_len out \<le> 80 \<and>
     replicate 100 97 = h @ m @ t \<and>
     out = lit ''Total output lines: 1'' @ [10, 10] @ h @ truncation_marker (approximate_token_count (str_len m)) @ t"
proof -
  have l: "str_len (replicate 100 97) = 100" by (simp add: str_len_def len_utf8_def sum_list_replicate)
  have p: "truncation_prefix (replicate 100 97) = lit ''Total output lines: 1'' @ [10, 10]" by code_simp
  have "str_len (lit ''Total output lines: 1'' @ [10, 10] @ truncation_marker (approximate_token_count 100)) < 80"
    by code_simp
  with truncate_to_token_limit_spec [of "replicate 100 97" "Some 20"] l p show ?thesis
    by (auto simp: Let_def)
qed

section \<open>Transcripts\<close>

lemma drop_last_step:
  "b < n \<Longrightarrow> drop (length (drop (length xs - n) xs) + b - n) (drop (length xs - n) xs) = drop (length xs + b - n) xs"
  by (simp add: ac_simps) (rule arg_cong [where f = "\<lambda>k. drop k xs"], arith)

lemma transcript_step:
  assumes "tb_limit tb \<le> usize_max" "tb_head tb = take (tb_limit tb div 2) all"
    "tb_tail tb = drop (length all - (tb_limit tb - tb_limit tb div 2)) all"
  shows "transcript_push tb bs = tb\<lparr>tb_head := take (tb_limit tb div 2) (all @ bs),
     tb_tail := drop (length (all @ bs) - (tb_limit tb - tb_limit tb div 2)) (all @ bs),
     tb_total := tb_total tb + length bs\<rparr>"
proof -
  let ?n = "tb_limit tb - tb_limit tb div 2"
  have sat: "saturating_add (length (tb_tail tb)) (length bs) = length (tb_tail tb) + length bs"
    if "length bs < ?n"
  proof -
    have "length (tb_tail tb) + length bs \<le> tb_limit tb" using that assms(3) by simp
    with assms(1) show ?thesis by (simp add: saturating_add_def)
  qed
  have tail: "drop (length (tb_tail tb) + length bs - ?n) (tb_tail tb) = drop (length all + length bs - ?n) all"
    if "length bs < ?n" unfolding assms(3) by (rule drop_last_step [OF that])
  from sat tail assms(2) show ?thesis
    by (cases "length all < tb_limit tb div 2") (auto simp: transcript_push_def Let_def min_def)
qed

text \<open>
  a transcript keeps the two ends of what was written. After any sequence of pushes the head
  is the first half-limit of all bytes pushed, the tail the last of them in the other half, and
  the total counts every byte.
\<close>

theorem transcript_keeps_ends:
  assumes "limit \<le> usize_max"
  shows "foldl transcript_push (transcript_new limit) chunks =
    \<lparr>tb_limit = limit, tb_head = take (limit div 2) (concat chunks),
     tb_tail = drop (length (concat chunks) - (limit - limit div 2)) (concat chunks),
     tb_total = length (concat chunks)\<rparr>"
proof (induction chunks rule: rev_induct)
  case Nil
  then show ?case by (simp add: transcript_new_def)
next
  case (snoc bs chunks)
  then show ?case by (subst foldl_append) (simp add: transcript_step [where all = "concat chunks"] assms)
qed

theorem transcript_keeps_ends_witness:
  "tb_tail (foldl transcript_push (transcript_new 10) [[0, 1, 2, 3], [4, 5, 6, 7], [8, 9, 10, 11]]) = [7, 8, 9, 10, 11]"
  using transcript_keeps_ends [of 10 "[[0, 1, 2, 3], [4, 5, 6, 7], [8, 9, 10, 11]]"]
  by (simp add: usize_max_def)

end
