(* ===== verification/Hash_Map.thy ===== *)
theory Hash_Map
  imports Prelude "HOL-Library.AList"
begin

text \<open>
  \<open>std::collections::HashMap\<close> as the stores use it: an association list with distinct keys, in the
  order an iteration gives the entries. The locale \<open>hash_map\<close> states what a store may rely on.
\<close>

type_synonym ('k, 'v) table = "('k \<times> 'v) list"

definition tab_get :: "('k, 'v) table \<Rightarrow> 'k \<Rightarrow> 'v option" where
  "tab_get t k = map_of t k"

definition tab_insert :: "'k \<Rightarrow> 'v \<Rightarrow> ('k, 'v) table \<Rightarrow> ('k, 'v) table" where
  "tab_insert k v t = AList.update k v t"

definition tab_remove :: "'k \<Rightarrow> ('k, 'v) table \<Rightarrow> ('k, 'v) table" where
  "tab_remove k t = AList.delete k t"

definition tab_ok :: "('k, 'v) table \<Rightarrow> bool" where
  "tab_ok t \<longleftrightarrow> distinct (map fst t)"

locale hash_map =
  fixes get :: "'m \<Rightarrow> 'k \<Rightarrow> 'v option" and ins :: "'k \<Rightarrow> 'v \<Rightarrow> 'm \<Rightarrow> 'm" and rem :: "'k \<Rightarrow> 'm \<Rightarrow> 'm"
    and ok :: "'m \<Rightarrow> bool" and count :: "'m \<Rightarrow> nat"
  assumes get_insert: "get (ins k v m) j = (if j = k then Some v else get m j)"
    and get_remove: "get (rem k m) j = (if j = k then None else get m j)"
    and ok_insert: "ok m \<Longrightarrow> ok (ins k v m)"
    and ok_remove: "ok m \<Longrightarrow> ok (rem k m)"
    and count_dom: "ok m \<Longrightarrow> finite (dom (get m)) \<and> count m = card (dom (get m))"
begin

lemma count_insert: "ok m \<Longrightarrow> count (ins k v m) = (if get m k = None then Suc (count m) else count m)"
proof -
  assume m: "ok m"
  have "dom (get (ins k v m)) = insert k (dom (get m))" by (auto simp: get_insert split: if_splits)
  with count_dom [OF m] count_dom [OF ok_insert [OF m]] show ?thesis
    by (auto simp: insert_absorb card_insert_if)
qed

lemma count_remove: "ok m \<Longrightarrow> count (rem k m) = (if get m k = None then count m else count m - 1)"
proof -
  assume m: "ok m"
  have "dom (get (rem k m)) = dom (get m) - {k}" by (auto simp: get_remove split: if_splits)
  with count_dom [OF m] count_dom [OF ok_remove [OF m]] show ?thesis by (auto simp: card_Diff_singleton_if)
qed

lemma count_insert_le: "ok m \<Longrightarrow> count (ins k v m) \<le> Suc (count m)"
  by (simp add: count_insert)

lemma count_remove_le: "ok m \<Longrightarrow> count (rem k m) \<le> count m"
  by (simp add: count_remove)

lemma count_remove_present: "ok m \<Longrightarrow> get m k = Some v \<Longrightarrow> Suc (count (rem k m)) = count m"
  using count_dom [of m] card_gt_0_iff [of "dom (get m)"] by (auto simp: count_remove)

end

interpretation tab: hash_map tab_get tab_insert tab_remove tab_ok length
proof
  fix k j :: 'k and v :: 'v and m :: "('k, 'v) table"
  show "tab_get (tab_insert k v m) j = (if j = k then Some v else tab_get m j)"
    by (simp add: tab_get_def tab_insert_def update_conv')
  show "tab_get (tab_remove k m) j = (if j = k then None else tab_get m j)"
    by (simp add: tab_get_def tab_remove_def delete_conv')
  show "tab_ok m \<Longrightarrow> tab_ok (tab_insert k v m)"
    by (simp add: tab_ok_def tab_insert_def distinct_update)
  show "tab_ok m \<Longrightarrow> tab_ok (tab_remove k m)"
    by (simp add: tab_ok_def tab_remove_def distinct_delete)
  assume "tab_ok m"
  then have "card (set (map fst m)) = length (map fst m)" unfolding tab_ok_def by (rule distinct_card)
  then show "finite (dom (tab_get m)) \<and> length m = card (dom (tab_get m))"
    by (simp add: tab_get_def [abs_def] dom_map_of_conv_image_fst finite_dom_map_of)
qed

lemma tab_get_mem: "tab_ok t \<Longrightarrow> tab_get t k = Some v \<longleftrightarrow> (k, v) \<in> set t"
  by (simp add: tab_ok_def tab_get_def)

lemma tab_ok_empty [simp]: "tab_ok []"
  by (simp add: tab_ok_def)

lemma tab_get_empty [simp]: "tab_get [] k = None"
  by (simp add: tab_get_def)

section \<open>Counting entries\<close>

definition tab_count :: "('v \<Rightarrow> bool) \<Rightarrow> ('k, 'v) table \<Rightarrow> nat" where
  "tab_count P t = length (filter (\<lambda>x. P (snd x)) t)"

lemma tab_count_empty [simp]: "tab_count P [] = 0"
  by (simp add: tab_count_def)

lemma tab_count_insert_new: "tab_get t k = None \<Longrightarrow> tab_count P (tab_insert k v t) = tab_count P t + (if P v then 1 else 0)"
  by (induction t) (auto simp: tab_count_def tab_get_def tab_insert_def split: if_splits)

lemma tab_count_insert_old:
  "tab_get t k = Some w \<Longrightarrow> tab_count P (tab_insert k v t) + (if P w then 1 else 0) = tab_count P t + (if P v then 1 else 0)"
  by (induction t) (auto simp: tab_count_def tab_get_def tab_insert_def split: if_splits)

lemma tab_remove_absent: "tab_get t k = None \<Longrightarrow> tab_remove k t = t"
  by (simp add: tab_get_def tab_remove_def map_of_eq_None_iff delete_id)

lemma tab_count_remove:
  "tab_ok t \<Longrightarrow> tab_get t k = Some w \<Longrightarrow> tab_count P (tab_remove k t) + (if P w then 1 else 0) = tab_count P t"
proof (induction t)
  case (Cons x t)
  show ?case
  proof (cases "fst x = k")
    case True
    then have "AList.delete k t = t"
      using Cons.prems(1) by (intro delete_id) (auto simp: tab_ok_def)
    with True Cons.prems show ?thesis
      by (auto simp: tab_count_def tab_get_def tab_remove_def)
  next
    case False
    with Cons show ?thesis by (auto simp: tab_count_def tab_get_def tab_remove_def tab_ok_def)
  qed
qed simp

lemma tab_count_pos: "tab_get t k = Some w \<Longrightarrow> P w \<Longrightarrow> 0 < tab_count P t"
  by (induction t) (auto simp: tab_count_def tab_get_def split: if_splits)

lemma tab_count_remove_le: "tab_count P (tab_remove k t) \<le> tab_count P t"
  by (induction t) (auto simp: tab_count_def tab_remove_def)

end
