(* ===== verification/Exec_Store.thy ===== *)
theory Exec_Store
  imports Hash_Map "HOL-Library.Multiset"
begin

text \<open>
  \<open>crates/remote-exec-host/src/exec/store.rs\<close>: the sessions of a daemon. A session is the
  identity of its \<open>Arc\<close>, and whether its process has exited is a parameter. Every definition is
  one critical section of the lock or the code between two of them, so that the operations can be
  run alone (\<open>store_insert\<close>) and interleaved (\<open>insert_step\<close>).
\<close>

section \<open>The store\<close>

definition DEFAULT_SESSION_LIMIT :: nat where "DEFAULT_SESSION_LIMIT = 64"
definition RECENT_PROTECTION_COUNT :: nat where "RECENT_PROTECTION_COUNT = 8"
definition WARNING_THRESHOLD_HEADROOM :: nat where "WARNING_THRESHOLD_HEADROOM = 4"

record session_entry =
  se_session :: nat
  se_touched :: nat

record candidate =
  cd_id :: rstr
  cd_session :: nat
  cd_touched :: nat

record session_store =
  ss_sessions :: "(rstr, session_entry) table"
  ss_limit :: nat

datatype session_lock_error = UnknownSession | TimedOut

record session_lease =
  sl_id :: rstr
  sl_session :: nat

definition session_matches :: "session_entry \<Rightarrow> nat \<Rightarrow> bool" where
  "session_matches entry session \<longleftrightarrow> se_session entry = session"

definition is_current :: "session_store \<Rightarrow> rstr \<Rightarrow> nat \<Rightarrow> bool" where
  "is_current st session_id session = (case tab_get (ss_sessions st) session_id of
      Some current \<Rightarrow> session_matches current session | None \<Rightarrow> False)"

text \<open>\<open>SessionStore::new\<close> asserts a positive limit.\<close>

definition store_new :: "nat \<Rightarrow> session_store option" where
  "store_new limit = (if limit > 0 then Some \<lparr>ss_sessions = [], ss_limit = limit\<rparr> else None)"

definition store_default :: "session_store option" where
  "store_default = store_new DEFAULT_SESSION_LIMIT"

definition warning_threshold :: "session_store \<Rightarrow> nat" where
  "warning_threshold st = ss_limit st - WARNING_THRESHOLD_HEADROOM"

definition crosses_warning_threshold :: "session_store \<Rightarrow> nat \<Rightarrow> bool" where
  "crosses_warning_threshold st threshold \<longleftrightarrow>
     length (ss_sessions st) < threshold \<and> length (ss_sessions st) + 1 \<ge> threshold"

definition protected_recent_count :: "session_store \<Rightarrow> nat" where
  "protected_recent_count st = min (ss_limit st - 1) RECENT_PROTECTION_COUNT"

definition store_remove :: "session_store \<Rightarrow> rstr \<Rightarrow> session_store" where
  "store_remove st session_id = st\<lparr>ss_sessions := tab_remove session_id (ss_sessions st)\<rparr>"

definition touch_if_current :: "session_store \<Rightarrow> rstr \<Rightarrow> nat \<Rightarrow> nat \<Rightarrow> session_store" where
  "touch_if_current st session_id session now =
     (case tab_get (ss_sessions st) session_id of
        Some entry \<Rightarrow> if session_matches entry session
          then st\<lparr>ss_sessions := tab_insert session_id (entry\<lparr>se_touched := now\<rparr>) (ss_sessions st)\<rparr> else st
      | None \<Rightarrow> st)"

definition lock_if_current_after_guard ::
  "session_store \<Rightarrow> rstr \<Rightarrow> nat \<Rightarrow> nat \<Rightarrow> session_store \<times> session_lease option" where
  "lock_if_current_after_guard st session_id session now =
     (if is_current st session_id session
      then (touch_if_current st session_id session now, Some \<lparr>sl_id = session_id, sl_session = session\<rparr>)
      else (st, None))"

text \<open>
  \<open>lock_with_timeout\<close>. The store may change while the session's mutex is awaited: \<open>before\<close> is the
  store the entry was read from, \<open>after\<close> the store once the mutex was acquired, if it was in time.
\<close>

definition store_lock_with_timeout ::
  "session_store \<Rightarrow> session_store option \<Rightarrow> rstr \<Rightarrow> nat \<Rightarrow>
   session_store option \<times> (session_lock_error, session_lease) result" where
  "store_lock_with_timeout before after session_id now =
     (case tab_get (ss_sessions before) session_id of
        None \<Rightarrow> (after, Inl UnknownSession)
      | Some entry \<Rightarrow> (case after of
            None \<Rightarrow> (None, Inl TimedOut)
          | Some st \<Rightarrow> (case lock_if_current_after_guard st session_id (se_session entry) now of
                (st', Some lease) \<Rightarrow> (Some st', Inr lease)
              | (st', None) \<Rightarrow> (Some st', Inl UnknownSession))))"

definition lease_retire :: "session_store \<Rightarrow> session_lease \<Rightarrow> session_store \<times> bool" where
  "lease_retire st lease =
     (if is_current st (sl_id lease) (sl_session lease) then (store_remove st (sl_id lease), True)
      else (st, False))"

definition candidate_of :: "rstr \<times> session_entry \<Rightarrow> candidate" where
  "candidate_of x = \<lparr>cd_id = fst x, cd_session = se_session (snd x), cd_touched = se_touched (snd x)\<rparr>"

definition snapshot_for_prune :: "session_store \<Rightarrow> candidate list option" where
  "snapshot_for_prune st =
     (if length (ss_sessions st) < ss_limit st then None
      else Some (sort_key cd_touched (map candidate_of (ss_sessions st))))"

definition remove_if_current :: "session_store \<Rightarrow> rstr \<Rightarrow> nat \<Rightarrow> session_store \<times> session_entry option" where
  "remove_if_current st session_id session =
     (if is_current st session_id session
      then (store_remove st session_id, tab_get (ss_sessions st) session_id) else (st, None))"

definition find_oldest_exited :: "(nat \<Rightarrow> bool) \<Rightarrow> candidate list \<Rightarrow> candidate option" where
  "find_oldest_exited exited snapshot = find (\<lambda>c. exited (cd_session c)) snapshot"

definition prunable :: "session_store \<Rightarrow> candidate list \<Rightarrow> candidate list" where
  "prunable st snapshot = take (length snapshot - protected_recent_count st) snapshot"

definition choose_victim :: "(nat \<Rightarrow> bool) \<Rightarrow> session_store \<Rightarrow> candidate list \<Rightarrow> candidate option" where
  "choose_victim exited st snapshot = (case find_oldest_exited exited (prunable st snapshot) of
      Some c \<Rightarrow> Some c
    | None \<Rightarrow> (case prunable st snapshot of [] \<Rightarrow> None | c # _ \<Rightarrow> Some c))"

text \<open>\<open>prune_for_insert\<close> alone: the loop leaves with the entry it removed and terminates.\<close>

partial_function (option) prune_for_insert ::
  "(nat \<Rightarrow> bool) \<Rightarrow> session_store \<Rightarrow> (session_store \<times> session_entry option) option" where
  [code]: "prune_for_insert exited st = (case snapshot_for_prune st of
      None \<Rightarrow> Some (st, None)
    | Some snapshot \<Rightarrow> (case choose_victim exited st snapshot of
          None \<Rightarrow> Some (st, None)
        | Some victim \<Rightarrow> (case remove_if_current st (cd_id victim) (cd_session victim) of
              (st', Some e) \<Rightarrow> Some (st', Some e)
            | (st', None) \<Rightarrow> prune_for_insert exited st')))"

definition store_entry :: "session_store \<Rightarrow> rstr \<Rightarrow> nat \<Rightarrow> nat \<Rightarrow> session_store" where
  "store_entry st session_id session now =
     st\<lparr>ss_sessions := tab_insert session_id \<lparr>se_session = session, se_touched = now\<rparr> (ss_sessions st)\<rparr>"

record insert_outcome =
  io_crossed_warning_threshold :: bool
  io_warning_threshold :: nat
  io_lease :: session_lease
  io_terminated :: "nat option"

definition store_insert ::
  "(nat \<Rightarrow> bool) \<Rightarrow> session_store \<Rightarrow> rstr \<Rightarrow> nat \<Rightarrow> nat \<Rightarrow> (session_store \<times> insert_outcome) option" where
  "store_insert exited st session_id session now =
     map_option (\<lambda>(st', removed).
       (store_entry st' session_id session now,
        \<lparr>io_crossed_warning_threshold = crosses_warning_threshold st (warning_threshold st),
         io_warning_threshold = warning_threshold st,
         io_lease = \<lparr>sl_id = session_id, sl_session = session\<rparr>,
         io_terminated = map_option se_session removed\<rparr>))
     (prune_for_insert exited st)"

section \<open>Concurrent insertions\<close>

text \<open>
  An insertion in flight is about to take a snapshot, about to remove the victim it chose, or
  about to store its session. Between two critical sections any other insertion may run, sessions
  may be removed, retired or touched, and processes may exit. At most \<open>k\<close> insertions are in
  flight at a time.
\<close>

datatype insertion =
    InsPrune rstr nat
  | InsRemove rstr nat candidate
  | InsStore rstr nat

inductive insert_step ::
  "nat \<Rightarrow> session_store \<times> insertion multiset \<Rightarrow> session_store \<times> insertion multiset \<Rightarrow> bool" for k where
  Begin: "size T < k \<Longrightarrow> insert_step k (st, T) (st, add_mset (InsPrune i s) T)"
| Room: "snapshot_for_prune st = None \<Longrightarrow>
    insert_step k (st, add_mset (InsPrune i s) T) (st, add_mset (InsStore i s) T)"
| Choose: "snapshot_for_prune st = Some snapshot \<Longrightarrow> choose_victim exited st snapshot = Some victim \<Longrightarrow>
    insert_step k (st, add_mset (InsPrune i s) T) (st, add_mset (InsRemove i s victim) T)"
| Give_up: "snapshot_for_prune st = Some snapshot \<Longrightarrow> choose_victim exited st snapshot = None \<Longrightarrow>
    insert_step k (st, add_mset (InsPrune i s) T) (st, add_mset (InsStore i s) T)"
| Pruned: "remove_if_current st (cd_id victim) (cd_session victim) = (st', Some e) \<Longrightarrow>
    insert_step k (st, add_mset (InsRemove i s victim) T) (st', add_mset (InsStore i s) T)"
| Retry: "remove_if_current st (cd_id victim) (cd_session victim) = (st', None) \<Longrightarrow>
    insert_step k (st, add_mset (InsRemove i s victim) T) (st', add_mset (InsPrune i s) T)"
| Store: "insert_step k (st, add_mset (InsStore i s) T) (store_entry st i s now, T)"
| Remove: "insert_step k (st, T) (store_remove st i, T)"
| Retire: "lease_retire st lease = (st', r) \<Longrightarrow> insert_step k (st, T) (st', T)"
| Touch: "insert_step k (st, T) (touch_if_current st i s now, T)"

section \<open>The victim\<close>

definition store_ok :: "session_store \<Rightarrow> bool" where
  "store_ok st \<longleftrightarrow> tab_ok (ss_sessions st) \<and> 0 < ss_limit st"

definition candidates :: "session_store \<Rightarrow> candidate list" where
  "candidates st = sort_key cd_touched (map candidate_of (ss_sessions st))"

lemma snapshot_eq: "snapshot_for_prune st = (if length (ss_sessions st) < ss_limit st then None else Some (candidates st))"
  by (simp add: snapshot_for_prune_def candidates_def)

lemma candidates_props:
  "length (candidates st) = length (ss_sessions st)" "sorted (map cd_touched (candidates st))"
  by (simp_all add: candidates_def)

lemma mset_candidates: "mset (candidates st) = mset (map candidate_of (ss_sessions st))"
  by (simp add: candidates_def)

lemma candidate_entry:
  assumes "tab_ok (ss_sessions st)"
  shows "c \<in> set (candidates st) \<longleftrightarrow>
    tab_get (ss_sessions st) (cd_id c) = Some \<lparr>se_session = cd_session c, se_touched = cd_touched c\<rparr>"
proof -
  have "c = candidate_of x \<longleftrightarrow> x = (cd_id c, \<lparr>se_session = cd_session c, se_touched = cd_touched c\<rparr>)" for x
    by (cases c; cases x) (auto simp: candidate_of_def)
  then show ?thesis by (simp add: candidates_def tab_get_mem [OF assms] image_iff)
qed

lemma candidates_filter:
  "length (filter P (candidates st)) = length (filter (\<lambda>x. P (candidate_of x)) (ss_sessions st))"
proof -
  have "length (filter P (candidates st)) = size (filter_mset P (mset (candidates st)))"
    by (metis mset_filter size_mset)
  also have "\<dots> = length (filter P (map candidate_of (ss_sessions st)))"
    by (simp only: mset_candidates mset_filter [symmetric] size_mset)
  finally show ?thesis by (simp add: filter_map comp_def)
qed

lemma candidates_distinct: "tab_ok (ss_sessions st) \<Longrightarrow> distinct (map cd_id (candidates st))"
proof -
  assume ok: "tab_ok (ss_sessions st)"
  have "mset (map cd_id (candidates st)) = mset (map fst (ss_sessions st))"
    unfolding mset_map mset_candidates by (simp add: image_mset.compositionality comp_def candidate_of_def)
  then show ?thesis using ok unfolding tab_ok_def by (metis mset_eq_imp_distinct_iff)
qed

lemma choose_victim_some:
  assumes "store_ok st" "ss_limit st \<le> length (ss_sessions st)"
  shows "\<exists>q v. choose_victim exited st (candidates st) = Some v \<and> v = candidates st ! q \<and>
    q < length (ss_sessions st) - protected_recent_count st \<and>
    (exited (cd_session v) \<or> q = 0 \<and> (\<forall>c \<in> set (prunable st (candidates st)). \<not> exited (cd_session c)))"
proof -
  let ?p = "prunable st (candidates st)"
  have len: "length ?p = length (ss_sessions st) - protected_recent_count st"
    by (simp add: prunable_def candidates_props)
  then have ne: "0 < length ?p"
    using assms by (auto simp: store_ok_def protected_recent_count_def)
  have nth: "q < length ?p \<Longrightarrow> ?p ! q = candidates st ! q" for q by (simp add: prunable_def)
  show ?thesis
  proof (cases "find_oldest_exited exited ?p")
    case None
    then have "\<forall>c \<in> set ?p. \<not> exited (cd_session c)" by (simp add: find_oldest_exited_def find_None_iff)
    moreover have "choose_victim exited st (candidates st) = Some (?p ! 0)"
      using None ne by (cases ?p) (auto simp: choose_victim_def)
    ultimately show ?thesis using ne nth len by (intro exI [of _ 0]) auto
  next
    case (Some v)
    then obtain q where "q < length ?p" "v = ?p ! q" "exited (cd_session v)"
      unfolding find_oldest_exited_def find_Some_iff by blast
    with Some show ?thesis using nth len by (auto simp: choose_victim_def)
  qed
qed

lemma remove_victim:
  assumes "store_ok st" "v \<in> set (candidates st)"
  shows "remove_if_current st (cd_id v) (cd_session v) =
    (store_remove st (cd_id v), Some \<lparr>se_session = cd_session v, se_touched = cd_touched v\<rparr>)"
  using assms candidate_entry [of st v]
  by (simp add: store_ok_def remove_if_current_def is_current_def session_matches_def)

lemma prune_for_insert_returns:
  assumes "store_ok st"
  shows "prune_for_insert exited st =
    (if length (ss_sessions st) < ss_limit st then Some (st, None)
     else let v = the (choose_victim exited st (candidates st))
       in Some (store_remove st (cd_id v), Some \<lparr>se_session = cd_session v, se_touched = cd_touched v\<rparr>))"
proof (cases "length (ss_sessions st) < ss_limit st")
  case True
  then show ?thesis by (subst prune_for_insert.simps) (simp add: snapshot_eq)
next
  case False
  then obtain q v where v: "choose_victim exited st (candidates st) = Some v" "v = candidates st ! q"
    "q < length (candidates st)"
    using choose_victim_some [OF assms, of exited] unfolding candidates_props by fastforce
  then have "v \<in> set (candidates st)" by simp
  with v False show ?thesis
    by (subst prune_for_insert.simps) (simp add: snapshot_eq remove_victim [OF assms] Let_def)
qed

lemma sorted_after:
  assumes "sorted (map f xs)" "q < length xs" "x \<in> set (drop q xs)"
  shows "f (xs ! q) \<le> f x"
proof -
  from assms(3) obtain r where r: "r < length xs - q" "x = xs ! (q + r)"
    by (auto simp: in_set_conv_nth add.commute)
  then show ?thesis using sorted_nth_mono [OF assms(1), of q "q + r"] assms(2) by simp
qed

lemma victim_protects_recent:
  assumes "store_ok st" "q < length (ss_sessions st) - protected_recent_count st"
    "protected_recent_count st \<le> length (ss_sessions st)"
  shows "protected_recent_count st \<le>
    length (filter (\<lambda>x. fst x \<noteq> cd_id (candidates st ! q) \<and> cd_touched (candidates st ! q) \<le> se_touched (snd x)) (ss_sessions st))"
proof -
  let ?c = "candidates st" and ?n = "length (ss_sessions st) - protected_recent_count st"
  let ?P = "\<lambda>c. cd_id c \<noteq> cd_id (?c ! q) \<and> cd_touched (?c ! q) \<le> cd_touched c"
  have q: "q < length ?c" "?n \<le> length ?c" using assms(2) by (simp_all add: candidates_props)
  have "?P x" if "x \<in> set (drop ?n ?c)" for x
  proof
    from that obtain r where r: "r < length ?c - ?n" "x = ?c ! (?n + r)"
      by (auto simp: in_set_conv_nth)
    then show "cd_id x \<noteq> cd_id (?c ! q)"
      using candidates_distinct [of st] assms(1,2) q
      by (auto simp: store_ok_def distinct_conv_nth)
    have "x \<in> set (drop q ?c)" using that set_drop_subset_set_drop [of q ?n ?c] assms(2) by auto
    then show "cd_touched (?c ! q) \<le> cd_touched x"
      by (rule sorted_after [OF candidates_props(2) q(1)])
  qed
  then have "filter ?P (drop ?n ?c) = drop ?n ?c" by simp
  then have "length (drop ?n ?c) \<le> length (filter ?P ?c)"
    by (metis append_take_drop_id filter_append le_add2 length_append)
  then show ?thesis using assms(3) unfolding candidates_filter by (simp add: candidates_props candidate_of_def)
qed

lemma later_than_recent:
  assumes "q < length (candidates st)" "length (ss_sessions st) - protected_recent_count st \<le> q"
  shows "length (filter (\<lambda>x. cd_touched (candidates st ! q) < se_touched (snd x)) (ss_sessions st)) < protected_recent_count st"
proof -
  let ?c = "candidates st" and ?P = "\<lambda>c. cd_touched (candidates st ! q) < cd_touched c"
  have "filter ?P (take (Suc q) ?c) = []"
  proof (clarsimp simp: filter_empty_conv in_set_conv_nth)
    fix r assume "r < Suc q" "cd_touched (?c ! q) < cd_touched (?c ! r)"
    then show False
      using sorted_nth_mono [OF candidates_props(2), of r q st] assms(1) by simp
  qed
  then have "length (filter ?P ?c) = length (filter ?P (drop (Suc q) ?c))"
    by (metis append_take_drop_id append_Nil filter_append)
  also have "\<dots> \<le> length ?c - Suc q" by (metis length_drop length_filter_le)
  finally have "length (filter ?P ?c) < protected_recent_count st"
    using assms by (simp only: candidates_props)
  then show ?thesis unfolding candidates_filter by (simp add: candidate_of_def)
qed

text \<open>
  What the choice of a victim promises: the protected number of other sessions were touched no
  earlier, and unless it has exited it is the oldest of all and every exited session is among the
  most recent ones.
\<close>

definition right_victim :: "(nat \<Rightarrow> bool) \<Rightarrow> session_store \<Rightarrow> rstr \<Rightarrow> session_entry \<Rightarrow> bool" where
  "right_victim exited st v e \<longleftrightarrow> tab_get (ss_sessions st) v = Some e \<and>
     min (ss_limit st - 1) 8 \<le>
       length (filter (\<lambda>x. fst x \<noteq> v \<and> se_touched e \<le> se_touched (snd x)) (ss_sessions st)) \<and>
     (exited (se_session e) \<or>
       (\<forall>x \<in> set (ss_sessions st). se_touched e \<le> se_touched (snd x) \<and>
         (exited (se_session (snd x)) \<longrightarrow>
           length (filter (\<lambda>y. se_touched (snd x) < se_touched (snd y)) (ss_sessions st)) < min (ss_limit st - 1) 8)))"

lemma oldest_victim:
  assumes "\<forall>c \<in> set (prunable st (candidates st)). \<not> exited (cd_session c)" "x \<in> set (ss_sessions st)"
  shows "cd_touched (candidates st ! 0) \<le> se_touched (snd x) \<and> (exited (se_session (snd x)) \<longrightarrow>
    length (filter (\<lambda>y. se_touched (snd x) < se_touched (snd y)) (ss_sessions st)) < protected_recent_count st)"
proof -
  let ?c = "candidates st"
  have "candidate_of x \<in> set ?c" using assms(2) by (simp add: candidates_def)
  then obtain r where r: "r < length ?c" "candidate_of x = ?c ! r" by (metis in_set_conv_nth)
  then have x: "cd_touched (?c ! r) = se_touched (snd x)" "cd_session (?c ! r) = se_session (snd x)"
    by (simp_all add: candidate_of_def flip: r(2))
  have "map cd_touched ?c ! 0 \<le> map cd_touched ?c ! r"
    using sorted_nth_mono [OF candidates_props(2), of 0 r st] r by simp
  moreover have "\<not> r < length (ss_sessions st) - protected_recent_count st" if "exited (se_session (snd x))"
    using assms(1) that r(1) x(2) nth_mem [of r "prunable st ?c"]
    by (fastforce simp: prunable_def candidates_props)
  moreover have "0 < length ?c" using r(1) by (cases ?c) auto
  ultimately show ?thesis using later_than_recent [of r st] r(1) x(1) by (auto simp: not_less)
qed

lemma choose_victim_right:
  assumes ok: "store_ok st" and full: "ss_limit st \<le> length (ss_sessions st)"
  obtains v where "choose_victim exited st (candidates st) = Some v"
    "right_victim exited st (cd_id v) \<lparr>se_session = cd_session v, se_touched = cd_touched v\<rparr>"
proof -
  let ?c = "candidates st" and ?p = "protected_recent_count st"
  obtain q v where v: "choose_victim exited st ?c = Some v" "v = ?c ! q" "q < length (ss_sessions st) - ?p"
    and ex: "exited (cd_session v) \<or> q = 0 \<and> (\<forall>c \<in> set (prunable st ?c). \<not> exited (cd_session c))"
    using choose_victim_some [OF ok full, of exited] by fastforce
  have p: "min (ss_limit st - 1) 8 = ?p" "?p \<le> length (ss_sessions st)"
    using full by (auto simp: protected_recent_count_def RECENT_PROTECTION_COUNT_def)
  have "v \<in> set ?c" using v(2,3) by (simp add: candidates_props)
  then have "tab_get (ss_sessions st) (cd_id v) = Some \<lparr>se_session = cd_session v, se_touched = cd_touched v\<rparr>"
    using candidate_entry ok by (simp add: store_ok_def)
  moreover have "?p \<le> length (filter (\<lambda>x. fst x \<noteq> cd_id v \<and> cd_touched v \<le> se_touched (snd x)) (ss_sessions st))"
    using victim_protects_recent [OF ok v(3) p(2)] v(2) by simp
  ultimately have "right_victim exited st (cd_id v) \<lparr>se_session = cd_session v, se_touched = cd_touched v\<rparr>"
    using ex oldest_victim [of st exited] v(2) unfolding right_victim_def p(1) by auto
  with v(1) show thesis by (rule that)
qed



section \<open>Interleavings\<close>

definition pending_stores :: "insertion multiset \<Rightarrow> nat" where
  "pending_stores T = size {#p \<in># T. (case p of InsStore _ _ \<Rightarrow> True | _ \<Rightarrow> False)#}"

lemma pending_simps [simp]:
  "pending_stores {#} = 0"
  "pending_stores (add_mset (InsPrune i s) T) = pending_stores T"
  "pending_stores (add_mset (InsRemove i s v) T) = pending_stores T"
  "pending_stores (add_mset (InsStore i s) T) = Suc (pending_stores T)"
  by (simp_all add: pending_stores_def)

lemma pending_le: "pending_stores T \<le> size T"
  unfolding pending_stores_def by (rule size_filter_mset_lesseq)

definition bounded :: "nat \<Rightarrow> nat \<Rightarrow> session_store \<times> insertion multiset \<Rightarrow> bool" where
  "bounded limit k c \<longleftrightarrow> store_ok (fst c) \<and> ss_limit (fst c) = limit \<and> size (snd c) \<le> k \<and>
     length (ss_sessions (fst c)) + pending_stores (snd c) < limit + k"

lemma store_remove_le:
  "store_ok st \<Longrightarrow> store_ok (store_remove st i) \<and> ss_limit (store_remove st i) = ss_limit st \<and>
     length (ss_sessions (store_remove st i)) \<le> length (ss_sessions st)"
  by (simp add: store_ok_def store_remove_def tab.ok_remove tab.count_remove_le)

lemma touch_keeps:
  "store_ok st \<Longrightarrow> store_ok (touch_if_current st i s now) \<and> ss_limit (touch_if_current st i s now) = ss_limit st \<and>
     length (ss_sessions (touch_if_current st i s now)) = length (ss_sessions st)"
  by (auto simp: store_ok_def touch_if_current_def tab.ok_insert tab.count_insert split: option.splits)

lemma store_entry_le:
  "store_ok st \<Longrightarrow> store_ok (store_entry st i s now) \<and> ss_limit (store_entry st i s now) = ss_limit st \<and>
     length (ss_sessions (store_entry st i s now)) \<le> Suc (length (ss_sessions st))"
  by (simp add: store_ok_def store_entry_def tab.ok_insert tab.count_insert_le)

lemma remove_if_current_some:
  "store_ok st \<Longrightarrow> remove_if_current st i s = (st', Some e) \<Longrightarrow>
     store_ok st' \<and> ss_limit st' = ss_limit st \<and> Suc (length (ss_sessions st')) = length (ss_sessions st)"
  by (auto simp: remove_if_current_def store_ok_def store_remove_def tab.ok_remove tab.count_remove_present
      split: if_splits)

lemma remove_if_current_none: "remove_if_current st i s = (st', None) \<Longrightarrow> st' = st"
  by (auto simp: remove_if_current_def is_current_def split: if_splits option.splits)

lemma retire_le:
  "store_ok st \<Longrightarrow> lease_retire st l = (st', r) \<Longrightarrow>
     store_ok st' \<and> ss_limit st' = ss_limit st \<and> length (ss_sessions st') \<le> length (ss_sessions st)"
  using store_remove_le by (auto simp: lease_retire_def split: if_splits)

lemmas insert_step_facts = store_remove_le touch_keeps store_entry_le remove_if_current_some retire_le

lemma insert_step_bounded: "insert_step k c c' \<Longrightarrow> bounded limit k c \<Longrightarrow> bounded limit k c'"
proof (induction rule: insert_step.induct)
  case (Room st i s T)
  then have "length (ss_sessions st) < limit" by (auto simp: bounded_def snapshot_eq split: if_splits)
  with Room pending_le [of T] show ?case by (simp add: bounded_def)
next
  case (Give_up st snapshot exited i s T)
  then have "ss_limit st \<le> length (ss_sessions st)" "snapshot = candidates st" "store_ok st"
    by (auto simp: bounded_def snapshot_eq split: if_splits)
  with Give_up show ?case using choose_victim_some [of st exited] by auto
next
  case (Pruned st victim st' e i s T)
  then show ?case using remove_if_current_some [of st] by (fastforce simp: bounded_def)
next
  case (Store st i s T now)
  then show ?case using store_entry_le [of st i s now] by (simp add: bounded_def)
next
  case (Remove st T i)
  then show ?case using store_remove_le [of st i] by (simp add: bounded_def)
next
  case (Retire st lease st' r T)
  then show ?case using retire_le [of st lease] by (fastforce simp: bounded_def)
next
  case (Touch st T i s now)
  then show ?case using touch_keeps [of st i s now] by (simp add: bounded_def)
qed (auto simp: bounded_def dest: remove_if_current_none)

text \<open>
  C33: how far concurrent insertions can exceed the limit. However the critical sections of at most
  \<open>k\<close> insertions in flight interleave with each other and with removals, retirements and touches,
  the store holds at most \<open>limit + k - 1\<close> sessions; the check and the insertion are not one
  critical section, and the witness reaches this bound.
\<close>

theorem concurrent_insert_bound:
  assumes "store_new limit = Some st0" "(insert_step k)\<^sup>*\<^sup>* (st0, {#}) (st, T)" "0 < k"
  shows "tab_ok (ss_sessions st) \<and> ss_limit st = limit \<and> length (ss_sessions st) \<le> limit + k - 1"
proof -
  have "bounded limit k (st0, {#})"
    using assms(1,3) by (auto simp: bounded_def store_new_def store_ok_def split: if_splits)
  with assms(2) have "bounded limit k (st, T)"
    by (induction rule: rtranclp_induct) (auto intro: insert_step_bounded)
  then show ?thesis by (auto simp: bounded_def store_ok_def)
qed

theorem concurrent_insert_bound_witness:
  "\<exists>st. (insert_step 2)\<^sup>*\<^sup>* (\<lparr>ss_sessions = [], ss_limit = 1\<rparr>, {#}) (st, {#}) \<and>
     length (ss_sessions st) = 2 \<and> length (ss_sessions st) \<le> 1 + 2 - 1"
proof -
  let ?st0 = "\<lparr>ss_sessions = [], ss_limit = 1\<rparr> :: session_store"
  let ?st1 = "store_entry ?st0 [97] 1 0"
  let ?st2 = "store_entry ?st1 [98] 2 0"
  note next_step = rtranclp.rtrancl_into_rtrancl [of "insert_step 2"]
  have room: "snapshot_for_prune ?st0 = None" by (simp add: snapshot_for_prune_def)
  have "(insert_step 2)\<^sup>*\<^sup>* (?st0, {#}) (?st0, {#InsPrune [97] 1#})"
    by (rule next_step [OF rtranclp.rtrancl_refl], rule Begin) simp
  then have "(insert_step 2)\<^sup>*\<^sup>* (?st0, {#}) (?st0, {#InsPrune [98] 2, InsPrune [97] 1#})"
    by (rule next_step, intro Begin) simp
  then have "(insert_step 2)\<^sup>*\<^sup>* (?st0, {#}) (?st0, {#InsStore [98] 2, InsPrune [97] 1#})"
    by (rule next_step) (rule Room [OF room])
  then have "(insert_step 2)\<^sup>*\<^sup>* (?st0, {#}) (?st0, {#InsPrune [97] 1, InsStore [98] 2#})"
    by (simp add: add_mset_commute)
  then have "(insert_step 2)\<^sup>*\<^sup>* (?st0, {#}) (?st0, {#InsStore [97] 1, InsStore [98] 2#})"
    by (rule next_step) (rule Room [OF room])
  then have "(insert_step 2)\<^sup>*\<^sup>* (?st0, {#}) (?st1, {#InsStore [98] 2#})"
    by (rule next_step) (rule Store)
  then have run: "(insert_step 2)\<^sup>*\<^sup>* (?st0, {#}) (?st2, {#})"
    by (rule next_step) (rule Store)
  have "store_new 1 = Some ?st0" by (simp add: store_new_def)
  from concurrent_insert_bound [OF this run] run show ?thesis
    by (intro exI [of _ ?st2]) (simp add: store_entry_def tab_insert_def)
qed

end
