(* ===== verification/Forward_Store.thy ===== *)
theory Forward_Store
  imports Hash_Map "HOL-Library.List_Lexorder" "HOL-Library.Multiset"
begin

text \<open>
  \<open>crates/remote-exec-broker/src/port_forward/store.rs\<close> and \<open>limits.rs\<close>: the port forwards of a
  broker, their reservations and limits, and the public entries of
  \<open>crates/remote-exec-proto/src/public/forward_ports.rs\<close>. Every operation is one critical section of
  the store's lock; closing a lifecycle, which talks to daemons, is a parameter. Counters are
  natural numbers, their saturation at \<open>u64\<close> included.
\<close>

section \<open>Entries\<close>

datatype forward_protocol = Tcp | Udp
datatype forward_status = StOpen | StClosed | StFailed
datatype forward_phase = PhOpening | PhReady | PhReconnecting | PhDraining | PhClosing | PhClosed | PhFailed
datatype side_role = RoleListen | RoleConnect
datatype side_health = ShStarting | ShReady | ShReconnecting | ShDegraded | ShClosed | ShFailed

record side_state =
  sd_side :: rstr
  sd_role :: side_role
  sd_generation :: nat
  sd_health :: side_health
  sd_last_error :: "rstr option"

record limit_summary =
  ls_max_active_tcp_streams :: nat
  ls_max_udp_peers :: nat
  ls_max_pending_tcp_bytes_per_stream :: nat
  ls_max_pending_tcp_bytes_per_forward :: nat
  ls_max_tunnel_queued_bytes :: nat
  ls_max_reconnecting_forwards :: nat

record forward_entry =
  fe_id :: rstr
  fe_listen_side :: rstr
  fe_listen_endpoint :: rstr
  fe_connect_side :: rstr
  fe_connect_endpoint :: rstr
  fe_protocol :: forward_protocol
  fe_status :: forward_status
  fe_last_error :: "rstr option"
  fe_phase :: forward_phase
  fe_listen_state :: side_state
  fe_connect_state :: side_state
  fe_active_tcp_streams :: nat
  fe_dropped_tcp_streams :: nat
  fe_dropped_udp_datagrams :: nat
  fe_reconnect_attempts :: nat
  fe_last_reconnect_at :: "nat option"
  fe_limits :: limit_summary

definition new_open ::
  "rstr \<Rightarrow> rstr \<Rightarrow> rstr \<Rightarrow> rstr \<Rightarrow> rstr \<Rightarrow> forward_protocol \<Rightarrow> limit_summary \<Rightarrow> forward_entry" where
  "new_open forward_id listen_side listen_endpoint connect_side connect_endpoint protocol limits =
     \<lparr>fe_id = forward_id, fe_listen_side = listen_side, fe_listen_endpoint = listen_endpoint,
      fe_connect_side = connect_side, fe_connect_endpoint = connect_endpoint, fe_protocol = protocol,
      fe_status = StOpen, fe_last_error = None, fe_phase = PhReady,
      fe_listen_state = \<lparr>sd_side = listen_side, sd_role = RoleListen, sd_generation = 1,
        sd_health = ShReady, sd_last_error = None\<rparr>,
      fe_connect_state = \<lparr>sd_side = connect_side, sd_role = RoleConnect, sd_generation = 1,
        sd_health = ShReady, sd_last_error = None\<rparr>,
      fe_active_tcp_streams = 0, fe_dropped_tcp_streams = 0, fe_dropped_udp_datagrams = 0,
      fe_reconnect_attempts = 0, fe_last_reconnect_at = None, fe_limits = limits\<rparr>"

definition derive_phase :: "forward_entry \<Rightarrow> forward_phase" where
  "derive_phase e =
     (let l = sd_health (fe_listen_state e); c = sd_health (fe_connect_state e)
      in if l = ShFailed \<or> c = ShFailed then PhFailed
         else if l = ShClosed \<and> c = ShClosed then PhClosed
         else if l = ShReady \<and> c = ShReady then PhReady
         else PhReconnecting)"

definition is_reconnecting_entry :: "forward_entry \<Rightarrow> bool" where
  "is_reconnecting_entry e \<longleftrightarrow> fe_status e = StOpen \<and> derive_phase e = PhReconnecting"

definition mark_entry_failed :: "rstr \<Rightarrow> forward_entry \<Rightarrow> forward_entry" where
  "mark_entry_failed error e =
     e\<lparr>fe_status := StFailed, fe_phase := PhFailed,
       fe_listen_state := (fe_listen_state e)\<lparr>sd_health := ShFailed\<rparr>,
       fe_connect_state := (fe_connect_state e)\<lparr>sd_health := ShFailed\<rparr>,
       fe_last_error := Some error\<rparr>"

definition closed_entry :: "forward_entry \<Rightarrow> forward_entry" where
  "closed_entry e =
     e\<lparr>fe_status := StClosed, fe_phase := PhClosed,
       fe_listen_state := (fe_listen_state e)\<lparr>sd_health := ShClosed\<rparr>,
       fe_connect_state := (fe_connect_state e)\<lparr>sd_health := ShClosed\<rparr>,
       fe_last_error := None\<rparr>"

definition prepare_reconnect_entry :: "nat \<Rightarrow> forward_entry \<Rightarrow> forward_entry" where
  "prepare_reconnect_entry now e =
     e\<lparr>fe_reconnect_attempts := fe_reconnect_attempts e + 1, fe_last_reconnect_at := Some now\<rparr>"

primrec side_state_update :: "side_role \<Rightarrow> (side_state \<Rightarrow> side_state) \<Rightarrow> forward_entry \<Rightarrow> forward_entry" where
  "side_state_update RoleListen f e = e\<lparr>fe_listen_state := f (fe_listen_state e)\<rparr>"
| "side_state_update RoleConnect f e = e\<lparr>fe_connect_state := f (fe_connect_state e)\<rparr>"

definition mark_side_reconnecting :: "rstr \<Rightarrow> side_state \<Rightarrow> side_state" where
  "mark_side_reconnecting error s = s\<lparr>sd_health := ShReconnecting, sd_last_error := Some error\<rparr>"

definition mark_side_ready :: "side_state \<Rightarrow> side_state" where
  "mark_side_ready s = s\<lparr>sd_health := ShReady, sd_last_error := None\<rparr>"

definition update_phase :: "forward_entry \<Rightarrow> forward_entry" where
  "update_phase e = e\<lparr>fe_phase := derive_phase e\<rparr>"

definition release_active_tcp_streams :: "nat \<Rightarrow> forward_entry \<Rightarrow> forward_entry" where
  "release_active_tcp_streams amount e = e\<lparr>fe_active_tcp_streams := fe_active_tcp_streams e - amount\<rparr>"

section \<open>Limits\<close>

record broker_limits =
  bl_max_open_forwards_total :: nat
  bl_max_forwards_per_side_pair :: nat
  bl_max_active_tcp_streams_per_forward :: nat
  bl_max_pending_tcp_bytes_per_stream :: nat
  bl_max_pending_tcp_bytes_per_forward :: nat
  bl_max_udp_peers_per_forward :: nat
  bl_max_tunnel_queued_bytes :: nat
  bl_max_reconnecting_forwards :: nat

definition default_broker_limits :: broker_limits where
  "default_broker_limits =
     \<lparr>bl_max_open_forwards_total = 64, bl_max_forwards_per_side_pair = 16,
      bl_max_active_tcp_streams_per_forward = 256, bl_max_pending_tcp_bytes_per_stream = 256 * 1024,
      bl_max_pending_tcp_bytes_per_forward = 2 * 1024 * 1024, bl_max_udp_peers_per_forward = 256,
      bl_max_tunnel_queued_bytes = 8 * 1024 * 1024, bl_max_reconnecting_forwards = 16\<rparr>"

definition public_summary :: "broker_limits \<Rightarrow> limit_summary" where
  "public_summary l =
     \<lparr>ls_max_active_tcp_streams = bl_max_active_tcp_streams_per_forward l,
      ls_max_udp_peers = bl_max_udp_peers_per_forward l,
      ls_max_pending_tcp_bytes_per_stream = bl_max_pending_tcp_bytes_per_stream l,
      ls_max_pending_tcp_bytes_per_forward = bl_max_pending_tcp_bytes_per_forward l,
      ls_max_tunnel_queued_bytes = bl_max_tunnel_queued_bytes l,
      ls_max_reconnecting_forwards = bl_max_reconnecting_forwards l\<rparr>"

definition validate_limits :: "broker_limits \<Rightarrow> bool" where
  "validate_limits l \<longleftrightarrow>
     bl_max_open_forwards_total l > 0 \<and> bl_max_forwards_per_side_pair l > 0 \<and>
     bl_max_active_tcp_streams_per_forward l > 0 \<and> bl_max_pending_tcp_bytes_per_stream l > 0 \<and>
     bl_max_pending_tcp_bytes_per_forward l \<ge> bl_max_pending_tcp_bytes_per_stream l \<and>
     bl_max_udp_peers_per_forward l > 0 \<and> bl_max_tunnel_queued_bytes l > 0 \<and>
     bl_max_reconnecting_forwards l > 0"

record tunnel_limits =
  tl_max_active_tcp_streams :: nat
  tl_max_udp_peers :: nat
  tl_max_queued_bytes :: nat

definition effective_forward_limits :: "limit_summary \<Rightarrow> tunnel_limits \<Rightarrow> tunnel_limits \<Rightarrow> limit_summary" where
  "effective_forward_limits broker listen connect =
     \<lparr>ls_max_active_tcp_streams =
        min (min (ls_max_active_tcp_streams broker) (tl_max_active_tcp_streams listen)) (tl_max_active_tcp_streams connect),
      ls_max_udp_peers = min (min (ls_max_udp_peers broker) (tl_max_udp_peers listen)) (tl_max_udp_peers connect),
      ls_max_pending_tcp_bytes_per_stream = ls_max_pending_tcp_bytes_per_stream broker,
      ls_max_pending_tcp_bytes_per_forward = ls_max_pending_tcp_bytes_per_forward broker,
      ls_max_tunnel_queued_bytes =
        min (min (ls_max_tunnel_queued_bytes broker) (tl_max_queued_bytes listen)) (tl_max_queued_bytes connect),
      ls_max_reconnecting_forwards = ls_max_reconnecting_forwards broker\<rparr>"

section \<open>The store\<close>

record side_pair =
  sp_listen :: rstr
  sp_connect :: rstr

datatype side_owner = BrokerHost | OwnerTarget rstr rstr

record lifecycle =
  lc_listen_session :: nat
  lc_listen_owner :: side_owner
  lc_connect_owner :: side_owner

record forward_record =
  rc_entry :: forward_entry
  rc_lifecycle :: lifecycle

record close_candidate =
  cc_id :: rstr
  cc_entry :: forward_entry
  cc_lifecycle :: lifecycle

record forward_state =
  pf_public :: "(rstr, forward_entry) table"
  pf_lifecycle :: "(rstr, lifecycle) table"
  pf_pending :: "(rstr, side_pair) table"
  pf_reconnecting_count :: nat

record reservation =
  rv_id :: rstr
  rv_side_pair :: side_pair
  rv_pending :: bool

datatype forward_error =
    OpenLimitExceeded | SidePairLimitExceeded | ReconnectLimitExceeded
  | ReservationMismatch | ReservationSidePairMismatch | ReservationNotPending rstr
  | UnknownForward rstr | MissingLifecycle rstr | CloseFailed rstr rstr

definition empty_forward_state :: forward_state where
  "empty_forward_state = \<lparr>pf_public = [], pf_lifecycle = [], pf_pending = [], pf_reconnecting_count = 0\<rparr>"

definition side_pair_matches_entry :: "side_pair \<Rightarrow> forward_entry \<Rightarrow> bool" where
  "side_pair_matches_entry p e \<longleftrightarrow> fe_listen_side e = sp_listen p \<and> fe_connect_side e = sp_connect p"

definition open_count :: "forward_state \<Rightarrow> nat" where
  "open_count st = length (pf_public st) + length (pf_pending st)"

definition side_pair_count :: "forward_state \<Rightarrow> side_pair \<Rightarrow> nat" where
  "side_pair_count st p =
     length (filter (\<lambda>x. side_pair_matches_entry p (snd x)) (pf_public st)) +
     length (filter (\<lambda>x. snd x = p) (pf_pending st))"

text \<open>\<open>new_forward_id\<close> yields the identifiers of \<open>ids\<close> one after the other; used ones are skipped.\<close>

fun unused_forward_id :: "forward_state \<Rightarrow> rstr list \<Rightarrow> (rstr \<times> rstr list) option" where
  "unused_forward_id st [] = None"
| "unused_forward_id st (i # ids) =
     (if tab_get (pf_public st) i = None \<and> tab_get (pf_pending st) i = None then Some (i, ids)
      else unused_forward_id st ids)"

fun reserve_loop :: "nat \<Rightarrow> side_pair \<Rightarrow> forward_state \<Rightarrow> rstr list \<Rightarrow> (forward_state \<times> reservation list) option" where
  "reserve_loop 0 p st ids = Some (st, [])"
| "reserve_loop (Suc n) p st ids = (case unused_forward_id st ids of
      None \<Rightarrow> None
    | Some (i, ids') \<Rightarrow>
        map_option (\<lambda>(st', rs). (st', \<lparr>rv_id = i, rv_side_pair = p, rv_pending = True\<rparr> # rs))
          (reserve_loop n p (st\<lparr>pf_pending := tab_insert i p (pf_pending st)\<rparr>) ids'))"

definition reserve_open_batch ::
  "forward_state \<Rightarrow> rstr \<Rightarrow> rstr \<Rightarrow> nat \<Rightarrow> broker_limits \<Rightarrow> rstr list \<Rightarrow>
   (forward_state \<times> (forward_error, reservation list) result) option" where
  "reserve_open_batch st listen_side connect_side requested limits ids =
     (let p = \<lparr>sp_listen = listen_side, sp_connect = connect_side\<rparr>
      in if \<not> open_count st + requested \<le> bl_max_open_forwards_total limits then Some (st, Inl OpenLimitExceeded)
         else if \<not> side_pair_count st p + requested \<le> bl_max_forwards_per_side_pair limits
         then Some (st, Inl SidePairLimitExceeded)
         else map_option (\<lambda>(st', rs). (st', Inr rs)) (reserve_loop requested p st ids))"

text \<open>Dropping a reservation.\<close>

definition release_reservation :: "forward_state \<Rightarrow> reservation \<Rightarrow> forward_state" where
  "release_reservation st r =
     (if \<not> rv_pending r then st else st\<lparr>pf_pending := tab_remove (rv_id r) (pf_pending st)\<rparr>)"

definition insert_forward :: "forward_state \<Rightarrow> forward_entry \<Rightarrow> lifecycle \<Rightarrow> forward_state" where
  "insert_forward st entry lc =
     (let c = pf_reconnecting_count st;
          c1 = (case tab_get (pf_public st) (fe_id entry) of
                  Some old \<Rightarrow> if is_reconnecting_entry old then c - 1 else c | None \<Rightarrow> c)
      in st\<lparr>pf_public := tab_insert (fe_id entry) entry (pf_public st),
            pf_lifecycle := tab_insert (fe_id entry) lc (pf_lifecycle st),
            pf_reconnecting_count := (if is_reconnecting_entry entry then c1 + 1 else c1)\<rparr>)"

definition commit_open ::
  "forward_state \<Rightarrow> reservation \<Rightarrow> forward_record \<Rightarrow> forward_state \<times> (forward_error, unit) result" where
  "commit_open st r rec =
     (let removed = st\<lparr>pf_pending := tab_remove (rv_id r) (pf_pending st)\<rparr>
      in if fe_id (rc_entry rec) \<noteq> rv_id r then (removed, Inl ReservationMismatch)
         else if \<not> side_pair_matches_entry (rv_side_pair r) (rc_entry rec)
         then (removed, Inl ReservationSidePairMismatch)
         else if tab_get (pf_pending st) (rv_id r) = None then (removed, Inl (ReservationNotPending (rv_id r)))
         else (insert_forward removed (rc_entry rec) (rc_lifecycle rec), Inr ()))"

record forward_filter =
  ff_listen_side :: "rstr option"
  ff_connect_side :: "rstr option"
  ff_ids :: "rstr list"

definition filter_matches :: "forward_filter \<Rightarrow> forward_entry \<Rightarrow> bool" where
  "filter_matches f e \<longleftrightarrow>
     (case ff_listen_side f of Some s \<Rightarrow> fe_listen_side e = s | None \<Rightarrow> True) \<and>
     (case ff_connect_side f of Some s \<Rightarrow> fe_connect_side e = s | None \<Rightarrow> True) \<and>
     (ff_ids f = [] \<or> fe_id e \<in> set (ff_ids f))"

definition list_forwards :: "forward_state \<Rightarrow> forward_filter \<Rightarrow> forward_entry list" where
  "list_forwards st f = sort_key fe_id (filter (filter_matches f) (map snd (pf_public st)))"

section \<open>Changing an entry\<close>

definition adjust_reconnecting_count :: "nat \<Rightarrow> bool \<Rightarrow> bool \<Rightarrow> nat" where
  "adjust_reconnecting_count amount before after =
     (if \<not> before \<and> after then amount + 1 else if before \<and> \<not> after then amount - 1 else amount)"

definition mutate_entry :: "forward_state \<Rightarrow> rstr \<Rightarrow> (forward_entry \<Rightarrow> forward_entry) \<Rightarrow> forward_state" where
  "mutate_entry st i f = (case tab_get (pf_public st) i of
      None \<Rightarrow> st
    | Some e \<Rightarrow> st\<lparr>pf_public := tab_insert i (f e) (pf_public st),
        pf_reconnecting_count := adjust_reconnecting_count (pf_reconnecting_count st)
          (is_reconnecting_entry e) (is_reconnecting_entry (f e))\<rparr>)"

definition with_phase_adjustment :: "forward_state \<Rightarrow> rstr \<Rightarrow> (forward_entry \<Rightarrow> forward_entry) \<Rightarrow> forward_state" where
  "with_phase_adjustment st i f = (case tab_get (pf_public st) i of
      None \<Rightarrow> st
    | Some e \<Rightarrow> if fe_status e \<noteq> StOpen then st
        else st\<lparr>pf_public := tab_insert i (f e) (pf_public st),
          pf_reconnecting_count := adjust_reconnecting_count (pf_reconnecting_count st)
            (is_reconnecting_entry e) (is_reconnecting_entry (f e))\<rparr>)"

definition reconnect_limit_text :: rstr where
  "reconnect_limit_text = lit ''port_forward_limit_exceeded: broker reconnecting forward limit reached''"

definition ensure_reconnect_capacity ::
  "forward_state \<Rightarrow> rstr \<Rightarrow> nat \<Rightarrow> forward_state \<times> (forward_error, unit) result" where
  "ensure_reconnect_capacity st i max_reconnecting = (case tab_get (pf_public st) i of
      None \<Rightarrow> (st, Inr ())
    | Some e \<Rightarrow>
        if fe_status e \<noteq> StOpen then (st, Inr ())
        else if \<not> is_reconnecting_entry e \<and> pf_reconnecting_count st \<ge> max_reconnecting
        then (st\<lparr>pf_public := tab_insert i (mark_entry_failed reconnect_limit_text e) (pf_public st)\<rparr>,
              Inl ReconnectLimitExceeded)
        else (st, Inr ()))"

definition mark_failed :: "forward_state \<Rightarrow> rstr \<Rightarrow> rstr \<Rightarrow> forward_state" where
  "mark_failed st i error = mutate_entry st i (mark_entry_failed error)"

definition record_dropped_tcp_streams :: "forward_state \<Rightarrow> rstr \<Rightarrow> nat \<Rightarrow> forward_state" where
  "record_dropped_tcp_streams st i amount = (if amount = 0 then st
     else mutate_entry st i (\<lambda>e. e\<lparr>fe_dropped_tcp_streams := saturating_add (fe_dropped_tcp_streams e) amount\<rparr>))"

definition record_dropped_udp_datagrams :: "forward_state \<Rightarrow> rstr \<Rightarrow> nat \<Rightarrow> forward_state" where
  "record_dropped_udp_datagrams st i amount = (if amount = 0 then st
     else mutate_entry st i (\<lambda>e. e\<lparr>fe_dropped_udp_datagrams := saturating_add (fe_dropped_udp_datagrams e) amount\<rparr>))"

definition record_dropped_tcp_streams_and_release_active :: "forward_state \<Rightarrow> rstr \<Rightarrow> nat \<Rightarrow> forward_state" where
  "record_dropped_tcp_streams_and_release_active st i amount = (if amount = 0 then st
     else mutate_entry st i (\<lambda>e. release_active_tcp_streams amount
       (e\<lparr>fe_dropped_tcp_streams := saturating_add (fe_dropped_tcp_streams e) amount\<rparr>)))"

definition release_active_tcp_stream :: "forward_state \<Rightarrow> rstr \<Rightarrow> forward_state" where
  "release_active_tcp_stream st i = mutate_entry st i (release_active_tcp_streams 1)"

definition try_reserve_active_tcp_stream :: "forward_state \<Rightarrow> rstr \<Rightarrow> nat \<Rightarrow> forward_state \<times> bool" where
  "try_reserve_active_tcp_stream st i max_active =
     (mutate_entry st i (\<lambda>e. if fe_active_tcp_streams e < max_active
        then e\<lparr>fe_active_tcp_streams := fe_active_tcp_streams e + 1\<rparr> else e),
      case tab_get (pf_public st) i of None \<Rightarrow> True | Some e \<Rightarrow> fe_active_tcp_streams e < max_active)"

definition mark_reconnecting ::
  "forward_state \<Rightarrow> rstr \<Rightarrow> side_role \<Rightarrow> rstr \<Rightarrow> nat \<Rightarrow> nat \<Rightarrow> forward_state \<times> (forward_error, unit) result" where
  "mark_reconnecting st i role error max_reconnecting now =
     (case ensure_reconnect_capacity st i max_reconnecting of
        (st', Inl err) \<Rightarrow> (st', Inl err)
      | (st', Inr _) \<Rightarrow> (with_phase_adjustment st' i (\<lambda>e. update_phase
          (side_state_update role (mark_side_reconnecting error) (prepare_reconnect_entry now e))), Inr ()))"

definition mark_connect_reopening_after_listen_recovery ::
  "forward_state \<Rightarrow> rstr \<Rightarrow> rstr \<Rightarrow> nat \<Rightarrow> nat \<Rightarrow> forward_state \<times> (forward_error, unit) result" where
  "mark_connect_reopening_after_listen_recovery st i error max_reconnecting now =
     (case ensure_reconnect_capacity st i max_reconnecting of
        (st', Inl err) \<Rightarrow> (st', Inl err)
      | (st', Inr _) \<Rightarrow> (with_phase_adjustment st' i (\<lambda>e. update_phase
          (side_state_update RoleConnect (mark_side_reconnecting error)
            (side_state_update RoleListen mark_side_ready (prepare_reconnect_entry now e)))), Inr ()))"

definition mark_ready :: "forward_state \<Rightarrow> rstr \<Rightarrow> side_role \<Rightarrow> forward_state" where
  "mark_ready st i role = mutate_entry st i (\<lambda>e. if fe_status e \<noteq> StOpen then e
     else update_phase (side_state_update role mark_side_ready e))"

definition set_forward_generation :: "forward_state \<Rightarrow> rstr \<Rightarrow> nat \<Rightarrow> forward_state" where
  "set_forward_generation st i generation = mutate_entry st i (\<lambda>e. if fe_status e \<noteq> StOpen then e
     else side_state_update RoleConnect (\<lambda>s. s\<lparr>sd_generation := generation\<rparr>)
       (side_state_update RoleListen (\<lambda>s. s\<lparr>sd_generation := generation\<rparr>) e))"

section \<open>Closing\<close>

fun unique_close_ids :: "forward_state \<Rightarrow> rstr list \<Rightarrow> rstr list \<Rightarrow> (forward_error, rstr list) result" where
  "unique_close_ids st seen [] = Inr []"
| "unique_close_ids st seen (i # ids) =
     (if tab_get (pf_public st) i = None then Inl (UnknownForward i)
      else if i \<in> set seen then unique_close_ids st seen ids
      else bindR (unique_close_ids st (i # seen) ids) (\<lambda>is. Inr (i # is)))"

definition validated_unique_close_ids :: "forward_state \<Rightarrow> rstr list \<Rightarrow> (forward_error, rstr list) result" where
  "validated_unique_close_ids st ids = unique_close_ids st [] ids"

definition take_forward :: "forward_state \<Rightarrow> rstr \<Rightarrow> forward_state \<times> (forward_error, close_candidate) result" where
  "take_forward st i = (case tab_get (pf_public st) i of
      None \<Rightarrow> (st, Inl (UnknownForward i))
    | Some e \<Rightarrow> (case tab_get (pf_lifecycle st) i of
          None \<Rightarrow> (st\<lparr>pf_public := tab_insert i e (tab_remove i (pf_public st))\<rparr>, Inl (MissingLifecycle i))
        | Some lc \<Rightarrow>
            (st\<lparr>pf_public := tab_remove i (pf_public st), pf_lifecycle := tab_remove i (pf_lifecycle st),
               pf_reconnecting_count := (if is_reconnecting_entry e then pf_reconnecting_count st - 1
                 else pf_reconnecting_count st)\<rparr>,
             Inr \<lparr>cc_id = i, cc_entry = e, cc_lifecycle = lc\<rparr>)))"

fun take_forwards :: "forward_state \<Rightarrow> rstr list \<Rightarrow> forward_state \<times> (forward_error, close_candidate list) result" where
  "take_forwards st [] = (st, Inr [])"
| "take_forwards st (i # ids) = (case take_forward st i of
      (st', Inl err) \<Rightarrow> (st', Inl err)
    | (st', Inr c) \<Rightarrow> (case take_forwards st' ids of
          (st'', Inl err) \<Rightarrow> (st'', Inl err)
        | (st'', Inr cs) \<Rightarrow> (st'', Inr (c # cs))))"

definition take_close_candidates ::
  "forward_state \<Rightarrow> rstr list \<Rightarrow> forward_state \<times> (forward_error, close_candidate list) result" where
  "take_close_candidates st ids = (case validated_unique_close_ids st ids of
      Inl err \<Rightarrow> (st, Inl err) | Inr is \<Rightarrow> take_forwards st is)"

definition side_owned_by_target_instance :: "side_owner \<Rightarrow> rstr \<Rightarrow> rstr \<Rightarrow> bool" where
  "side_owned_by_target_instance owner target instance_id \<longleftrightarrow> owner = OwnerTarget target instance_id"

definition owned_by_target_instance :: "lifecycle \<Rightarrow> rstr \<Rightarrow> rstr \<Rightarrow> bool" where
  "owned_by_target_instance lc target instance_id \<longleftrightarrow>
     side_owned_by_target_instance (lc_listen_owner lc) target instance_id \<or>
     side_owned_by_target_instance (lc_connect_owner lc) target instance_id"

text \<open>The candidates a failed take leaves out are the \<open>None\<close>s of the filter map.\<close>

fun take_present :: "forward_state \<Rightarrow> rstr list \<Rightarrow> forward_state \<times> close_candidate list" where
  "take_present st [] = (st, [])"
| "take_present st (i # ids) = (case take_forward st i of
      (st', Inl _) \<Rightarrow> take_present st' ids
    | (st', Inr c) \<Rightarrow> (case take_present st' ids of (st'', cs) \<Rightarrow> (st'', c # cs)))"

definition take_target_instance_close_candidates ::
  "forward_state \<Rightarrow> rstr \<Rightarrow> rstr \<Rightarrow> forward_state \<times> close_candidate list" where
  "take_target_instance_close_candidates st target instance_id =
     take_present st (filter (\<lambda>i. case tab_get (pf_lifecycle st) i of
        Some lc \<Rightarrow> owned_by_target_instance lc target instance_id | None \<Rightarrow> False) (map fst (pf_public st)))"

definition restore_close_candidates :: "forward_state \<Rightarrow> close_candidate list \<Rightarrow> forward_state" where
  "restore_close_candidates st cs = foldl (\<lambda>s c. insert_forward s (cc_entry c) (cc_lifecycle c)) st cs"

text \<open>
  \<open>close_lifecycle\<close> is the parameter \<open>close\<close>: it returns the error of a failed cleanup. The store
  the failing step restores into is the one left after the takes of this call.
\<close>

definition close_error_text :: "rstr \<Rightarrow> rstr \<Rightarrow> rstr" where
  "close_error_text i err = lit ''closing port forward `'' @ i @ lit ''`: '' @ err"

fun close_candidates ::
  "(lifecycle \<Rightarrow> rstr option) \<Rightarrow> forward_state \<Rightarrow> close_candidate list \<Rightarrow>
   forward_state \<times> (forward_error, forward_entry list) result" where
  "close_candidates close st [] = (st, Inr [])"
| "close_candidates close st (c # cs) = (case close (cc_lifecycle c) of
      Some err \<Rightarrow>
        (restore_close_candidates st
           (c\<lparr>cc_entry := mark_entry_failed (close_error_text (cc_id c) err) (cc_entry c)\<rparr> # cs),
         Inl (CloseFailed (cc_id c) err))
    | None \<Rightarrow> (case close_candidates close st cs of
          (st', Inl err) \<Rightarrow> (st', Inl err)
        | (st', Inr closed) \<Rightarrow> (st', Inr (closed_entry (cc_entry c) # closed))))"

definition close_forwards ::
  "(lifecycle \<Rightarrow> rstr option) \<Rightarrow> forward_state \<Rightarrow> rstr list \<Rightarrow>
   forward_state \<times> (forward_error, forward_entry list) result" where
  "close_forwards close st ids = (case take_close_candidates st ids of
      (st', Inl err) \<Rightarrow> (st', Inl err)
    | (st', Inr cs) \<Rightarrow> close_candidates close st' cs)"

definition close_target_instance ::
  "(lifecycle \<Rightarrow> rstr option) \<Rightarrow> forward_state \<Rightarrow> rstr \<Rightarrow> rstr \<Rightarrow>
   forward_state \<times> (forward_error, forward_entry list) result" where
  "close_target_instance close st target instance_id =
     (case take_target_instance_close_candidates st target instance_id of
        (st', cs) \<Rightarrow> close_candidates close st' cs)"

definition drain_records :: "forward_state \<Rightarrow> forward_state \<times> forward_record list" where
  "drain_records st =
     (st\<lparr>pf_public := [], pf_lifecycle := []\<rparr>,
      List.map_filter (\<lambda>(i, e). map_option (\<lambda>lc. \<lparr>rc_entry = e, rc_lifecycle = lc\<rparr>) (tab_get (pf_lifecycle st) i))
        (pf_public st))"

definition drain :: "forward_state \<Rightarrow> forward_state \<times> forward_record list" where
  "drain st = drain_records (st\<lparr>pf_reconnecting_count := 0\<rparr>)"

definition close_record :: "(lifecycle \<Rightarrow> rstr option) \<Rightarrow> forward_record \<Rightarrow> forward_entry" where
  "close_record close r = closed_entry (rc_entry r)"

definition close_all :: "(lifecycle \<Rightarrow> rstr option) \<Rightarrow> forward_state \<Rightarrow> forward_state \<times> forward_entry list" where
  "close_all close st = (case drain st of (st', rs) \<Rightarrow> (st', map (close_record close) rs))"

section \<open>The invariant\<close>

text \<open>
  An open entry is ready or reconnecting and its phase is the one its sides give; a failed one
  has failed on both sides. Closed entries are never in the store.
\<close>

definition entry_ok :: "forward_entry \<Rightarrow> bool" where
  "entry_ok e \<longleftrightarrow> (case fe_status e of
      StOpen \<Rightarrow> fe_phase e = derive_phase e \<and>
        sd_health (fe_listen_state e) \<in> {ShReady, ShReconnecting} \<and>
        sd_health (fe_connect_state e) \<in> {ShReady, ShReconnecting}
    | StFailed \<Rightarrow> fe_phase e = PhFailed \<and> sd_health (fe_listen_state e) = ShFailed \<and>
        sd_health (fe_connect_state e) = ShFailed
    | StClosed \<Rightarrow> False)"

definition store_inv :: "forward_state \<Rightarrow> bool" where
  "store_inv st \<longleftrightarrow>
     tab_ok (pf_public st) \<and> tab_ok (pf_lifecycle st) \<and> tab_ok (pf_pending st) \<and>
     (\<forall>i. tab_get (pf_public st) i = None \<longleftrightarrow> tab_get (pf_lifecycle st) i = None) \<and>
     (\<forall>i. tab_get (pf_pending st) i \<noteq> None \<longrightarrow> tab_get (pf_public st) i = None) \<and>
     (\<forall>i e. tab_get (pf_public st) i = Some e \<longrightarrow> fe_id e = i \<and> entry_ok e) \<and>
     pf_reconnecting_count st = tab_count is_reconnecting_entry (pf_public st)"

lemmas tab_simps = tab.get_insert tab.get_remove tab.ok_insert tab.ok_remove

lemma store_inv_public:
  "store_inv st \<Longrightarrow> tab_get (pf_public st) i = Some e \<Longrightarrow>
     fe_id e = i \<and> entry_ok e \<and> tab_get (pf_pending st) i = None \<and> (\<exists>lc. tab_get (pf_lifecycle st) i = Some lc)"
  unfolding store_inv_def by (metis not_None_eq)

lemma put_entry:
  assumes inv: "store_inv st" and e: "tab_get (pf_public st) i = Some e" and e': "fe_id e' = i" "entry_ok e'"
  shows "store_inv (st\<lparr>pf_public := tab_insert i e' (pf_public st),
    pf_reconnecting_count := adjust_reconnecting_count (pf_reconnecting_count st)
      (is_reconnecting_entry e) (is_reconnecting_entry e')\<rparr>)"
  using inv e' store_inv_public [OF inv e] tab_count_insert_old [OF e, of is_reconnecting_entry e']
    tab_count_pos [OF e, of is_reconnecting_entry]
  by (auto simp: store_inv_def tab_simps adjust_reconnecting_count_def split: if_splits)

lemma mutate_entry_inv:
  assumes "store_inv st" "\<And>e. entry_ok e \<Longrightarrow> entry_ok (f e) \<and> fe_id (f e) = fe_id e"
  shows "store_inv (mutate_entry st i f)"
proof (cases "tab_get (pf_public st) i")
  case (Some e)
  with assms store_inv_public [OF assms(1) Some] show ?thesis
    by (simp add: mutate_entry_def put_entry)
qed (simp add: mutate_entry_def assms)

lemma with_phase_adjustment_inv:
  assumes "store_inv st" "\<And>e. entry_ok e \<Longrightarrow> fe_status e = StOpen \<Longrightarrow> entry_ok (f e) \<and> fe_id (f e) = fe_id e"
  shows "store_inv (with_phase_adjustment st i f)"
proof (cases "tab_get (pf_public st) i")
  case (Some e)
  with assms store_inv_public [OF assms(1) Some] show ?thesis
    by (simp add: with_phase_adjustment_def put_entry)
qed (simp add: with_phase_adjustment_def assms)

lemmas entry_defs = entry_ok_def derive_phase_def mark_entry_failed_def update_phase_def prepare_reconnect_entry_def
  mark_side_reconnecting_def mark_side_ready_def release_active_tcp_streams_def Let_def

lemma failed_ok: "entry_ok (mark_entry_failed err e) \<and> fe_id (mark_entry_failed err e) = fe_id e"
  by (simp add: entry_defs)

lemma failed_not_reconnecting [simp]: "\<not> is_reconnecting_entry (mark_entry_failed err e)"
  by (simp add: is_reconnecting_entry_def mark_entry_failed_def)

lemma side_reconnecting_ok:
  "entry_ok e \<Longrightarrow> fe_status e = StOpen \<Longrightarrow>
     entry_ok (update_phase (side_state_update role (mark_side_reconnecting err) (prepare_reconnect_entry now e))) \<and>
     fe_id (update_phase (side_state_update role (mark_side_reconnecting err) (prepare_reconnect_entry now e))) = fe_id e"
  by (cases role) (auto simp: entry_defs)

lemma reopening_ok:
  "entry_ok e \<Longrightarrow> fe_status e = StOpen \<Longrightarrow>
     entry_ok (update_phase (side_state_update RoleConnect (mark_side_reconnecting err)
       (side_state_update RoleListen mark_side_ready (prepare_reconnect_entry now e)))) \<and>
     fe_id (update_phase (side_state_update RoleConnect (mark_side_reconnecting err)
       (side_state_update RoleListen mark_side_ready (prepare_reconnect_entry now e)))) = fe_id e"
  by (auto simp: entry_defs)

lemma ready_ok:
  "entry_ok e \<Longrightarrow> fe_status e = StOpen \<Longrightarrow>
     entry_ok (update_phase (side_state_update role mark_side_ready e)) \<and>
     fe_id (update_phase (side_state_update role mark_side_ready e)) = fe_id e"
  by (cases role) (auto simp: entry_defs)

lemma generation_ok:
  "entry_ok e \<Longrightarrow> entry_ok (side_state_update RoleConnect (\<lambda>s. s\<lparr>sd_generation := g\<rparr>)
       (side_state_update RoleListen (\<lambda>s. s\<lparr>sd_generation := g\<rparr>) e)) \<and>
     fe_id (side_state_update RoleConnect (\<lambda>s. s\<lparr>sd_generation := g\<rparr>)
       (side_state_update RoleListen (\<lambda>s. s\<lparr>sd_generation := g\<rparr>) e)) = fe_id e"
  by (auto simp: entry_defs split: forward_status.splits)

lemma counters_ok:
  "entry_ok (e\<lparr>fe_dropped_tcp_streams := n\<rparr>) = entry_ok e"
  "entry_ok (e\<lparr>fe_dropped_udp_datagrams := n\<rparr>) = entry_ok e"
  "entry_ok (e\<lparr>fe_active_tcp_streams := n\<rparr>) = entry_ok e"
  "entry_ok (release_active_tcp_streams n e) = entry_ok e"
  by (auto simp: entry_defs split: forward_status.splits)

lemma ensure_capacity_inv:
  "store_inv st \<Longrightarrow> ensure_reconnect_capacity st i m = (st', r) \<Longrightarrow> store_inv st'"
proof -
  assume inv: "store_inv st" and r: "ensure_reconnect_capacity st i m = (st', r)"
  have "store_inv (st\<lparr>pf_public := tab_insert i (mark_entry_failed t e) (pf_public st)\<rparr>)"
    if "tab_get (pf_public st) i = Some e" "\<not> is_reconnecting_entry e" for e t
    using put_entry [OF inv that(1), of "mark_entry_failed t e"] that(2) failed_ok [of t e] store_inv_public [OF inv that(1)]
    by (simp add: adjust_reconnecting_count_def)
  with inv r show ?thesis
    by (auto simp: ensure_reconnect_capacity_def split: option.splits if_splits)
qed

section \<open>Operations on one entry\<close>

datatype entry_op =
    OpFailed rstr | OpDropTcp nat | OpDropUdp nat | OpDropRelease nat | OpRelease | OpReserve nat
  | OpReconnecting side_role rstr nat | OpReopening rstr nat | OpReady side_role | OpGeneration nat

primrec apply_entry_op :: "broker_limits \<Rightarrow> forward_state \<Rightarrow> rstr \<Rightarrow> entry_op \<Rightarrow> forward_state" where
  "apply_entry_op L st i (OpFailed err) = mark_failed st i err"
| "apply_entry_op L st i (OpDropTcp n) = record_dropped_tcp_streams st i n"
| "apply_entry_op L st i (OpDropUdp n) = record_dropped_udp_datagrams st i n"
| "apply_entry_op L st i (OpDropRelease n) = record_dropped_tcp_streams_and_release_active st i n"
| "apply_entry_op L st i OpRelease = release_active_tcp_stream st i"
| "apply_entry_op L st i (OpReserve m) =
     fst (try_reserve_active_tcp_stream st i (min m (bl_max_active_tcp_streams_per_forward L)))"
| "apply_entry_op L st i (OpReconnecting role err now) =
     fst (mark_reconnecting st i role err (bl_max_reconnecting_forwards L) now)"
| "apply_entry_op L st i (OpReopening err now) =
     fst (mark_connect_reopening_after_listen_recovery st i err (bl_max_reconnecting_forwards L) now)"
| "apply_entry_op L st i (OpReady role) = mark_ready st i role"
| "apply_entry_op L st i (OpGeneration g) = set_forward_generation st i g"

lemma mark_reconnecting_inv: "store_inv st \<Longrightarrow> store_inv (fst (mark_reconnecting st i role err m now))"
  by (auto simp: mark_reconnecting_def split: prod.splits sum.splits
      intro!: with_phase_adjustment_inv side_reconnecting_ok elim: ensure_capacity_inv)

lemma mark_reopening_inv:
  "store_inv st \<Longrightarrow> store_inv (fst (mark_connect_reopening_after_listen_recovery st i err m now))"
  by (auto simp: mark_connect_reopening_after_listen_recovery_def simp del: side_state_update.simps
      split: prod.splits sum.splits
      intro!: with_phase_adjustment_inv reopening_ok elim: ensure_capacity_inv)

lemma entry_op_inv: "store_inv st \<Longrightarrow> store_inv (apply_entry_op L st i a)"
proof (cases a)
  case (OpDropRelease n)
  assume "store_inv st"
  then show ?thesis
    by (auto simp: OpDropRelease record_dropped_tcp_streams_and_release_active_def counters_ok
        release_active_tcp_streams_def intro!: mutate_entry_inv)
next
  case (OpReconnecting role err now)
  assume "store_inv st"
  then show ?thesis by (simp add: OpReconnecting mark_reconnecting_inv)
next
  case (OpReopening err now)
  assume "store_inv st"
  then show ?thesis by (simp add: OpReopening mark_reopening_inv)
next
  case (OpReady role)
  assume "store_inv st"
  then show ?thesis using ready_ok by (auto simp: OpReady mark_ready_def intro!: mutate_entry_inv)
next
  case (OpGeneration g)
  assume "store_inv st"
  then show ?thesis using generation_ok
    by (auto simp: OpGeneration set_forward_generation_def simp del: side_state_update.simps intro!: mutate_entry_inv)
qed (auto simp: mark_failed_def record_dropped_tcp_streams_def record_dropped_udp_datagrams_def
    release_active_tcp_stream_def try_reserve_active_tcp_stream_def counters_ok failed_ok
    release_active_tcp_streams_def intro!: mutate_entry_inv)

section \<open>Reservations and closing\<close>

definition closing_ok :: "forward_state \<Rightarrow> close_candidate list \<Rightarrow> bool" where
  "closing_ok st cs \<longleftrightarrow> distinct (map cc_id cs) \<and>
     (\<forall>c \<in> set cs. fe_id (cc_entry c) = cc_id c \<and> entry_ok (cc_entry c) \<and>
       tab_get (pf_public st) (cc_id c) = None \<and> tab_get (pf_pending st) (cc_id c) = None)"

lemma unused_forward_id_spec:
  "unused_forward_id st ids = Some (i, ids') \<Longrightarrow>
     tab_get (pf_public st) i = None \<and> tab_get (pf_pending st) i = None \<and> i \<in> set ids \<and> set ids' \<subseteq> set ids"
  by (induction ids) (auto split: if_splits)

lemma reserve_loop_props:
  "reserve_loop n p st ids = Some (st', rs) \<Longrightarrow> store_inv st \<Longrightarrow>
     store_inv st' \<and> pf_public st' = pf_public st \<and> pf_lifecycle st' = pf_lifecycle st \<and>
     pf_reconnecting_count st' = pf_reconnecting_count st \<and>
     length (pf_pending st') = length (pf_pending st) + n \<and>
     tab_count Q (pf_pending st') = tab_count Q (pf_pending st) + (if Q p then n else 0) \<and>
     (\<forall>i. tab_get (pf_pending st') i \<noteq> None \<longrightarrow> tab_get (pf_pending st) i \<noteq> None \<or> i \<in> set ids)"
proof (induction n arbitrary: st ids rs)
  case (Suc n)
  from Suc.prems(1) obtain i ids' rs' where i: "unused_forward_id st ids = Some (i, ids')"
    and r: "reserve_loop n p (st\<lparr>pf_pending := tab_insert i p (pf_pending st)\<rparr>) ids' = Some (st', rs')"
    by (auto split: option.splits)
  note u = unused_forward_id_spec [OF i]
  have "store_inv (st\<lparr>pf_pending := tab_insert i p (pf_pending st)\<rparr>)"
    using Suc.prems(2) u by (auto simp: store_inv_def tab_simps split: if_splits)
  note ih = Suc.IH [OF r this]
  have "tab_ok (pf_pending st)" using Suc.prems(2) by (simp add: store_inv_def)
  then have "length (tab_insert i p (pf_pending st)) = Suc (length (pf_pending st))"
    using u by (simp add: tab.count_insert)
  with ih u tab_count_insert_new [of "pf_pending st" i Q p]
  show ?case by (fastforce simp: tab_simps split: if_splits)
qed simp

lemma insert_forward_inv:
  assumes "store_inv st" "tab_get (pf_public st) (fe_id e) = None" "tab_get (pf_pending st) (fe_id e) = None" "entry_ok e"
  shows "store_inv (insert_forward st e lc)"
proof -
  have "insert_forward st e lc = st\<lparr>pf_public := tab_insert (fe_id e) e (pf_public st),
      pf_lifecycle := tab_insert (fe_id e) lc (pf_lifecycle st),
      pf_reconnecting_count := pf_reconnecting_count st + (if is_reconnecting_entry e then 1 else 0)\<rparr>"
    using assms(2) by (simp add: insert_forward_def)
  with assms show ?thesis
    by (simp add: store_inv_def tab_simps tab_count_insert_new)
qed

lemma take_forward_cases:
  assumes inv: "store_inv st"
  shows "(case tab_get (pf_public st) i of
      None \<Rightarrow> take_forward st i = (st, Inl (UnknownForward i))
    | Some e \<Rightarrow> \<exists>st' lc. take_forward st i = (st', Inr \<lparr>cc_id = i, cc_entry = e, cc_lifecycle = lc\<rparr>) \<and>
        tab_get (pf_lifecycle st) i = Some lc \<and> store_inv st' \<and>
        tab_get (pf_public st') = (tab_get (pf_public st))(i := None) \<and> pf_pending st' = pf_pending st \<and>
        pf_public st' = tab_remove i (pf_public st) \<and> pf_lifecycle st' = tab_remove i (pf_lifecycle st) \<and>
        pf_reconnecting_count st' \<le> pf_reconnecting_count st)"
proof (cases "tab_get (pf_public st) i")
  case (Some e)
  then obtain lc where lc: "tab_get (pf_lifecycle st) i = Some lc" using store_inv_public [OF inv] by blast
  have "tab_ok (pf_public st)" using inv by (simp add: store_inv_def)
  note c = tab_count_remove [OF this Some, of is_reconnecting_entry]
  have "store_inv (fst (take_forward st i))"
    using inv c Some lc by (auto simp: take_forward_def store_inv_def tab_simps)
  with Some lc show ?thesis by (auto simp: take_forward_def tab.get_remove)
qed (simp add: take_forward_def)

lemma take_forward_closing:
  assumes inv: "store_inv st" and cl: "closing_ok st cs" and t: "take_forward st i = (st', r)"
  shows "store_inv st' \<and> closing_ok st' (case r of Inr c \<Rightarrow> cs @ [c] | Inl _ \<Rightarrow> cs)"
proof (cases "tab_get (pf_public st) i")
  case None
  with take_forward_cases [OF inv, of i] t inv cl show ?thesis by auto
next
  case (Some e)
  with take_forward_cases [OF inv, of i] t
  obtain lc where r: "r = Inr \<lparr>cc_id = i, cc_entry = e, cc_lifecycle = lc\<rparr>" "store_inv st'"
    "tab_get (pf_public st') = (tab_get (pf_public st))(i := None)" "pf_pending st' = pf_pending st"
    by auto
  have "fe_id e = i \<and> entry_ok e \<and> tab_get (pf_pending st) i = None" using store_inv_public [OF inv Some] by blast
  with r cl Some show ?thesis by (auto simp: closing_ok_def)
qed

lemma take_forwards_closing:
  "store_inv st \<Longrightarrow> closing_ok st cs \<Longrightarrow> take_forwards st ids = (st', r) \<Longrightarrow>
     store_inv st' \<and> closing_ok st' (case r of Inr new \<Rightarrow> cs @ new | Inl _ \<Rightarrow> cs)"
proof (induction ids arbitrary: st cs st' r)
  case (Cons i ids)
  obtain s1 r1 where t: "take_forward st i = (s1, r1)" by (cases "take_forward st i")
  note one = take_forward_closing [OF Cons.prems(1,2) t]
  show ?case
  proof (cases r1)
    case (Inl err)
    with t one Cons.prems(3) show ?thesis by auto
  next
    case (Inr c)
    obtain s2 r2 where t2: "take_forwards s1 ids = (s2, r2)" by (cases "take_forwards s1 ids")
    have *: "store_inv s2 \<and> closing_ok s2 (case r2 of Inr new \<Rightarrow> (cs @ [c]) @ new | Inl _ \<Rightarrow> cs @ [c])"
      by (rule Cons.IH [OF _ _ t2]) (use one Inr in auto)
    have "closing_ok s2 cs" if "closing_ok s2 (cs @ [c])" using that by (auto simp: closing_ok_def)
    with * t Inr t2 Cons.prems(3) show ?thesis by (cases r2) auto
  qed
qed auto

lemma take_present_closing:
  "store_inv st \<Longrightarrow> closing_ok st cs \<Longrightarrow> take_present st ids = (st', new) \<Longrightarrow>
     store_inv st' \<and> closing_ok st' (cs @ new)"
proof (induction ids arbitrary: st cs st' new)
  case (Cons i ids)
  obtain s1 r1 where t: "take_forward st i = (s1, r1)" by (cases "take_forward st i")
  note one = take_forward_closing [OF Cons.prems(1,2) t]
  obtain s2 n2 where t2: "take_present s1 ids = (s2, n2)" by (cases "take_present s1 ids")
  show ?case
  proof (cases r1)
    case (Inl err)
    with t t2 one Cons.prems(3) Cons.IH [of s1 cs s2 n2] show ?thesis by auto
  next
    case (Inr c)
    with t t2 one Cons.prems(3) Cons.IH [of s1 "cs @ [c]" s2 n2] show ?thesis by auto
  qed
qed auto

lemma restore_inv:
  "store_inv st \<Longrightarrow> closing_ok st (cs @ rest) \<Longrightarrow>
     store_inv (restore_close_candidates st cs) \<and> closing_ok (restore_close_candidates st cs) rest"
proof (induction cs arbitrary: st)
  case Nil
  then show ?case by (simp add: restore_close_candidates_def)
next
  case (Cons c cs)
  let ?s = "insert_forward st (cc_entry c) (cc_lifecycle c)"
  have c: "fe_id (cc_entry c) = cc_id c" using Cons.prems(2) by (simp add: closing_ok_def)
  have "store_inv ?s"
    using Cons.prems by (intro insert_forward_inv) (auto simp: closing_ok_def)
  moreover have "closing_ok ?s (cs @ rest)"
    using Cons.prems(2) c by (force simp: closing_ok_def insert_forward_def Let_def tab_simps image_iff)
  ultimately show ?case using Cons.IH [of ?s] by (simp add: restore_close_candidates_def)
qed

lemma closing_ok_mset: "mset cs = mset ds \<Longrightarrow> closing_ok st cs \<longleftrightarrow> closing_ok st ds"
proof -
  assume m: "mset cs = mset ds"
  then have "mset (map cc_id cs) = mset (map cc_id ds)" by simp
  then show ?thesis
    using mset_eq_setD [OF m] mset_eq_imp_distinct_iff [of "map cc_id cs" "map cc_id ds"]
    by (simp add: closing_ok_def)
qed

section \<open>Runs of the store\<close>

text \<open>
  A configuration is the store and the forwards that were taken out to be closed. Any operation
  may run between taking forwards and the end of their closing. Identifiers come from a generator
  that does not repeat the identifier of a forward that is being closed.
\<close>

type_synonym forward_config = "forward_state \<times> close_candidate list"

inductive forward_step :: "broker_limits \<Rightarrow> forward_config \<Rightarrow> forward_config \<Rightarrow> bool" for L where
  Reserve: "reserve_open_batch st listen connect n L ids = Some (st', r) \<Longrightarrow>
    set ids \<inter> cc_id ` set C = {} \<Longrightarrow> forward_step L (st, C) (st', C)"
| Release: "forward_step L (st, C) (release_reservation st r, C)"
| Commit: "tab_get (pf_pending st) (rv_id r) \<in> {None, Some (rv_side_pair r)} \<Longrightarrow>
    rc_entry rec = new_open i ls le cs ce protocol limits \<Longrightarrow> commit_open st r rec = (st', res) \<Longrightarrow>
    forward_step L (st, C) (st', C)"
| Entry: "forward_step L (st, C) (apply_entry_op L st i a, C)"
| Take: "take_close_candidates st ids = (st', Inr new) \<Longrightarrow> forward_step L (st, C) (st', C @ new)"
| Take_failed: "take_close_candidates st ids = (st', Inl err) \<Longrightarrow> forward_step L (st, C) (st', C)"
| Take_target: "take_target_instance_close_candidates st target inst = (st', new) \<Longrightarrow>
    forward_step L (st, C) (st', C @ new)"
| Closed: "mset C = mset (c # C') \<Longrightarrow> forward_step L (st, C) (st, C')"
| Drain: "forward_step L (st, C) (fst (drain st), C)"

inductive restore_step :: "forward_config \<Rightarrow> forward_config \<Rightarrow> bool" where
  Restore: "mset C = mset (c # cs @ C') \<Longrightarrow>
    restore_step (st, C) (restore_close_candidates st (c\<lparr>cc_entry := mark_entry_failed err (cc_entry c)\<rparr> # cs), C')"

definition config_inv :: "forward_config \<Rightarrow> bool" where
  "config_inv c \<longleftrightarrow> store_inv (fst c) \<and> closing_ok (fst c) (snd c)"

lemma closing_ok_mono:
  "closing_ok st cs \<Longrightarrow> (\<And>i. tab_get (pf_public st) i = None \<Longrightarrow> tab_get (pf_pending st) i = None \<Longrightarrow>
      i \<in> cc_id ` set cs \<Longrightarrow> tab_get (pf_public st') i = None \<and> tab_get (pf_pending st') i = None) \<Longrightarrow> closing_ok st' cs"
  by (auto simp: closing_ok_def)

lemma mutate_entry_doms [simp]:
  "tab_get (pf_public (mutate_entry st i f)) j = None \<longleftrightarrow> tab_get (pf_public st) j = None"
  "pf_pending (mutate_entry st i f) = pf_pending st"
  by (auto simp: mutate_entry_def tab_simps split: option.splits)

lemma with_phase_doms [simp]:
  "tab_get (pf_public (with_phase_adjustment st i f)) j = None \<longleftrightarrow> tab_get (pf_public st) j = None"
  "pf_pending (with_phase_adjustment st i f) = pf_pending st"
  by (auto simp: with_phase_adjustment_def tab_simps split: option.splits)

lemma ensure_capacity_doms:
  "ensure_reconnect_capacity st i m = (st', r) \<Longrightarrow>
     (\<forall>j. tab_get (pf_public st') j = None \<longleftrightarrow> tab_get (pf_public st) j = None) \<and> pf_pending st' = pf_pending st"
  by (auto simp: ensure_reconnect_capacity_def tab_simps split: option.splits if_splits)

lemma entry_op_doms:
  "(tab_get (pf_public (apply_entry_op L st i a)) j = None \<longleftrightarrow> tab_get (pf_public st) j = None) \<and>
   pf_pending (apply_entry_op L st i a) = pf_pending st"
  by (cases a)
    (auto simp: mark_failed_def record_dropped_tcp_streams_def record_dropped_udp_datagrams_def
      record_dropped_tcp_streams_and_release_active_def release_active_tcp_stream_def
      try_reserve_active_tcp_stream_def mark_ready_def set_forward_generation_def mark_reconnecting_def
      mark_connect_reopening_after_listen_recovery_def split: prod.splits sum.splits dest: ensure_capacity_doms)

lemma release_inv: "store_inv st \<Longrightarrow> store_inv (st\<lparr>pf_pending := tab_remove i (pf_pending st)\<rparr>)"
  by (auto simp: store_inv_def tab_simps)

lemma new_open_ok: "entry_ok (new_open i ls le cs ce protocol limits)"
  by (simp add: new_open_def entry_ok_def derive_phase_def)

lemma commit_inv:
  assumes "store_inv st" "entry_ok (rc_entry rec)" "commit_open st r rec = (st', res)"
  shows "store_inv st'"
proof -
  have "store_inv (st\<lparr>pf_pending := tab_remove (rv_id r) (pf_pending st)\<rparr>)" using assms(1) by (rule release_inv)
  moreover have "tab_get (pf_public st) (rv_id r) = None" if "tab_get (pf_pending st) (rv_id r) \<noteq> None"
    using assms(1) that by (simp add: store_inv_def)
  ultimately show ?thesis
    using assms(2,3) by (auto simp: commit_open_def Let_def tab_simps split: if_splits intro!: insert_forward_inv)
qed

lemma commit_doms:
  assumes "commit_open st r rec = (st', res)" "tab_get (pf_public st) j = None" "tab_get (pf_pending st) j = None"
  shows "tab_get (pf_public st') j = None \<and> tab_get (pf_pending st') j = None"
  using assms by (auto simp: commit_open_def Let_def tab_simps insert_forward_def split: if_splits)

lemma reserve_inv:
  assumes "store_inv st" "reserve_open_batch st listen connect n L ids = Some (st', r)"
  shows "store_inv st' \<and> pf_public st' = pf_public st \<and>
    (\<forall>i. tab_get (pf_pending st') i \<noteq> None \<longrightarrow> tab_get (pf_pending st) i \<noteq> None \<or> i \<in> set ids)"
proof (cases r)
  case (Inl err)
  then show ?thesis using assms by (auto simp: reserve_open_batch_def Let_def split: if_splits)
next
  case (Inr rs)
  then have "reserve_loop n \<lparr>sp_listen = listen, sp_connect = connect\<rparr> st ids = Some (st', rs)"
    using assms(2) by (auto simp: reserve_open_batch_def Let_def split: if_splits)
  from reserve_loop_props [OF this assms(1)] show ?thesis by blast
qed

lemma drain_inv: "store_inv st \<Longrightarrow> store_inv (fst (drain st))"
  by (auto simp: store_inv_def drain_def drain_records_def)

lemma forward_step_inv: "forward_step L c c' \<Longrightarrow> config_inv c \<Longrightarrow> config_inv c'"
proof (induction rule: forward_step.induct)
  case (Reserve st listen connect n ids st' r C)
  then have "store_inv st" "closing_ok st C" by (simp_all add: config_inv_def)
  note r = reserve_inv [OF this(1) Reserve(1)]
  have "closing_ok st' C"
    by (rule closing_ok_mono [OF \<open>closing_ok st C\<close>]) (use r Reserve(2) in \<open>metis disjoint_iff\<close>)
  with r show ?case by (simp add: config_inv_def)
next
  case (Release st C r)
  then show ?case
    using release_inv by (auto simp: config_inv_def release_reservation_def closing_ok_def tab_simps)
next
  case (Commit st r rec i ls le cs ce protocol limits st' res C)
  then have "store_inv st" "closing_ok st C" by (simp_all add: config_inv_def)
  moreover have "store_inv st'" using commit_inv [OF \<open>store_inv st\<close> _ Commit(3)] Commit(2) new_open_ok by simp
  moreover have "closing_ok st' C"
    by (rule closing_ok_mono [OF \<open>closing_ok st C\<close>]) (rule commit_doms [OF Commit(3)])
  ultimately show ?case by (simp add: config_inv_def)
next
  case (Entry st C i a)
  then have "store_inv st" "closing_ok st C" by (simp_all add: config_inv_def)
  moreover have "closing_ok (apply_entry_op L st i a) C"
    by (rule closing_ok_mono [OF \<open>closing_ok st C\<close>]) (simp add: entry_op_doms)
  ultimately show ?case by (simp add: config_inv_def entry_op_inv)
next
  case (Take st ids st' new C)
  then show ?case using take_forwards_closing [of st C]
    by (fastforce simp: config_inv_def take_close_candidates_def split: sum.splits)
next
  case (Take_failed st ids st' err C)
  then show ?case using take_forwards_closing [of st C]
    by (fastforce simp: config_inv_def take_close_candidates_def split: sum.splits)
next
  case (Take_target st target inst st' new C)
  then show ?case using take_present_closing [of st C]
    by (fastforce simp: config_inv_def take_target_instance_close_candidates_def)
next
  case (Closed C c C' st)
  then have "closing_ok st (c # C')" using closing_ok_mset [OF Closed(1), of st] by (simp add: config_inv_def)
  with Closed show ?case by (simp add: config_inv_def closing_ok_def)
next
  case (Drain st C)
  then show ?case
    using drain_inv by (auto simp: config_inv_def closing_ok_def drain_def drain_records_def)
qed

lemma restore_step_inv: "restore_step c c' \<Longrightarrow> config_inv c \<Longrightarrow> config_inv c'"
proof (induction rule: restore_step.induct)
  case (Restore C c cs C' st err)
  then have "store_inv st" "closing_ok st (c # cs @ C')"
    using closing_ok_mset [OF Restore(1)] by (simp_all add: config_inv_def)
  moreover from this(2) have "closing_ok st ((c\<lparr>cc_entry := mark_entry_failed err (cc_entry c)\<rparr> # cs) @ C')"
    using failed_ok by (simp add: closing_ok_def)
  ultimately show ?case using restore_inv by (simp add: config_inv_def)
qed

text \<open>
  C17: the store stays consistent. However openings, commits, drops of reservations, changes of
  entries, takes, closes, failed closes and drains interleave, every listed forward has a lifecycle
  and none is also reserved, its phase is the one its sides give, and the number of reconnecting
  forwards the limit is checked against is the number of listed forwards that are reconnecting.
\<close>

theorem forward_store_consistent:
  assumes "(\<lambda>c c'. forward_step L c c' \<or> restore_step c c')\<^sup>*\<^sup>* (empty_forward_state, []) (st, C)"
  shows "(\<forall>i. tab_get (pf_public st) i = None \<longleftrightarrow> tab_get (pf_lifecycle st) i = None) \<and>
    (\<forall>i e. tab_get (pf_public st) i = Some e \<longrightarrow>
       fe_id e = i \<and> tab_get (pf_pending st) i = None \<and>
       (fe_status e = StOpen \<and> fe_phase e = derive_phase e \<and> fe_phase e \<in> {PhReady, PhReconnecting} \<or>
        fe_status e = StFailed \<and> fe_phase e = PhFailed)) \<and>
    pf_reconnecting_count st = length (filter (\<lambda>x. is_reconnecting_entry (snd x)) (pf_public st))"
proof -
  have "config_inv (empty_forward_state, [])"
    by (simp add: config_inv_def store_inv_def closing_ok_def empty_forward_state_def)
  with assms have "config_inv (st, C)"
    by (induction rule: rtranclp_induct) (auto intro: forward_step_inv restore_step_inv)
  then have inv: "store_inv st" by (simp add: config_inv_def)
  then have "fe_id e = i \<and> entry_ok e \<and> tab_get (pf_pending st) i = None"
    if "tab_get (pf_public st) i = Some e" for i e using store_inv_public that by blast
  moreover have "fe_status e = StOpen \<and> fe_phase e = derive_phase e \<and> fe_phase e \<in> {PhReady, PhReconnecting} \<or>
      fe_status e = StFailed \<and> fe_phase e = PhFailed" if "entry_ok e" for e
    using that by (auto simp: entry_ok_def derive_phase_def split: forward_status.splits)
  ultimately show ?thesis using inv by (auto simp: store_inv_def tab_count_def)
qed

section \<open>Limits\<close>

definition within_limits :: "broker_limits \<Rightarrow> forward_state \<Rightarrow> bool" where
  "within_limits L st \<longleftrightarrow> open_count st \<le> bl_max_open_forwards_total L \<and>
     (\<forall>p. side_pair_count st p \<le> bl_max_forwards_per_side_pair L) \<and>
     pf_reconnecting_count st \<le> bl_max_reconnecting_forwards L \<and>
     (\<forall>i e. tab_get (pf_public st) i = Some e \<longrightarrow> fe_active_tcp_streams e \<le> bl_max_active_tcp_streams_per_forward L)"

lemma side_pair_count_eq:
  "side_pair_count st p = tab_count (side_pair_matches_entry p) (pf_public st) + tab_count (\<lambda>q. q = p) (pf_pending st)"
  by (simp add: side_pair_count_def tab_count_def)

definition same_sides :: "forward_entry \<Rightarrow> forward_entry \<Rightarrow> bool" where
  "same_sides e e' \<longleftrightarrow> fe_listen_side e' = fe_listen_side e \<and> fe_connect_side e' = fe_connect_side e"

lemma put_within:
  assumes inv: "store_inv st" and w: "within_limits L st" and e: "tab_get (pf_public st) i = Some e"
    and e': "same_sides e e'" "fe_active_tcp_streams e' \<le> bl_max_active_tcp_streams_per_forward L"
    and n: "n \<le> bl_max_reconnecting_forwards L"
  shows "within_limits L (st\<lparr>pf_public := tab_insert i e' (pf_public st), pf_reconnecting_count := n\<rparr>)"
proof -
  have "tab_count (side_pair_matches_entry p) (tab_insert i e' (pf_public st)) =
      tab_count (side_pair_matches_entry p) (pf_public st)" for p
    using tab_count_insert_old [OF e, of "side_pair_matches_entry p" e'] e'(1)
    by (auto simp: same_sides_def side_pair_matches_entry_def)
  moreover have "length (tab_insert i e' (pf_public st)) = length (pf_public st)"
    using inv e by (simp add: tab.count_insert store_inv_def)
  ultimately show ?thesis
    using w e'(2) n by (simp add: within_limits_def open_count_def side_pair_count_eq tab_simps)
qed

lemma mutate_within:
  assumes "store_inv st" "within_limits L st"
    and "\<And>e. fe_active_tcp_streams e \<le> bl_max_active_tcp_streams_per_forward L \<Longrightarrow>
      same_sides e (f e) \<and> fe_active_tcp_streams (f e) \<le> bl_max_active_tcp_streams_per_forward L"
    and "\<And>e. is_reconnecting_entry (f e) \<Longrightarrow> entry_ok e \<Longrightarrow> is_reconnecting_entry e"
  shows "within_limits L (mutate_entry st i f)"
proof (cases "tab_get (pf_public st) i")
  case (Some e)
  have "fe_active_tcp_streams e \<le> bl_max_active_tcp_streams_per_forward L" "entry_ok e"
    using assms(2) Some store_inv_public [OF assms(1) Some] by (auto simp: within_limits_def)
  moreover from this(2) have "adjust_reconnecting_count (pf_reconnecting_count st) (is_reconnecting_entry e)
      (is_reconnecting_entry (f e)) \<le> bl_max_reconnecting_forwards L"
    using assms(2,4) by (auto simp: within_limits_def adjust_reconnecting_count_def)
  ultimately show ?thesis
    using put_within [OF assms(1,2) Some] assms(3) Some by (simp add: mutate_entry_def)
qed (simp add: mutate_entry_def assms)

lemma capacity_then_adjust:
  assumes inv: "store_inv st" and w: "within_limits L st"
    and c: "ensure_reconnect_capacity st i (bl_max_reconnecting_forwards L) = (st', r)"
    and f: "\<And>e. same_sides e (f e) \<and> fe_active_tcp_streams (f e) = fe_active_tcp_streams e"
  shows "within_limits L st' \<and> (r = Inr () \<longrightarrow> within_limits L (with_phase_adjustment st' i f))"
proof (cases "tab_get (pf_public st) i")
  case None
  with c w show ?thesis by (auto simp: ensure_reconnect_capacity_def with_phase_adjustment_def)
next
  case (Some e)
  have a: "fe_active_tcp_streams e \<le> bl_max_active_tcp_streams_per_forward L"
    "pf_reconnecting_count st \<le> bl_max_reconnecting_forwards L"
    using w Some by (auto simp: within_limits_def)
  have s: "same_sides e (mark_entry_failed t e)" "fe_active_tcp_streams (mark_entry_failed t e) = fe_active_tcp_streams e" for t
    by (simp_all add: same_sides_def mark_entry_failed_def)
  from put_within [OF inv w Some s(1), of reconnect_limit_text "pf_reconnecting_count st"] s(2) a
  have failed: "within_limits L (st\<lparr>pf_public := tab_insert i (mark_entry_failed reconnect_limit_text e) (pf_public st)\<rparr>)"
    by simp
  have "adjust_reconnecting_count (pf_reconnecting_count st) (is_reconnecting_entry e) (is_reconnecting_entry (f e))
      \<le> bl_max_reconnecting_forwards L" if "fe_status e = StOpen" "r = Inr ()"
    using that c Some a(2) by (auto simp: ensure_reconnect_capacity_def adjust_reconnecting_count_def split: if_splits)
  then have "within_limits L (with_phase_adjustment st i f)" if "r = Inr ()"
    using put_within [OF inv w Some] f [of e] a(1) Some that w by (simp add: with_phase_adjustment_def)
  with failed c Some w show ?thesis by (auto simp: ensure_reconnect_capacity_def split: if_splits)
qed

lemma reconnecting_counters:
  "is_reconnecting_entry (e\<lparr>fe_dropped_tcp_streams := n\<rparr>) = is_reconnecting_entry e"
  "is_reconnecting_entry (e\<lparr>fe_dropped_udp_datagrams := n\<rparr>) = is_reconnecting_entry e"
  "is_reconnecting_entry (e\<lparr>fe_active_tcp_streams := n\<rparr>) = is_reconnecting_entry e"
  "is_reconnecting_entry (release_active_tcp_streams n e) = is_reconnecting_entry e"
  by (simp_all add: is_reconnecting_entry_def derive_phase_def release_active_tcp_streams_def)

lemma failed_sides: "same_sides e (mark_entry_failed t e)" "fe_active_tcp_streams (mark_entry_failed t e) = fe_active_tcp_streams e"
  by (simp_all add: same_sides_def mark_entry_failed_def)

lemma counter_sides:
  "same_sides e (e\<lparr>fe_dropped_tcp_streams := n\<rparr>)" "same_sides e (e\<lparr>fe_dropped_udp_datagrams := n\<rparr>)"
  "same_sides e (e\<lparr>fe_active_tcp_streams := n\<rparr>)" "same_sides e e"
  "same_sides e (release_active_tcp_streams n e') = same_sides e e'"
  "fe_active_tcp_streams (release_active_tcp_streams n e) = fe_active_tcp_streams e - n"
  by (simp_all add: same_sides_def release_active_tcp_streams_def)

lemma generation_sides:
  fixes g e defines "e' \<equiv> side_state_update RoleConnect (\<lambda>s. s\<lparr>sd_generation := g\<rparr>)
       (side_state_update RoleListen (\<lambda>s. s\<lparr>sd_generation := g\<rparr>) e)"
  shows "same_sides e e'" "fe_active_tcp_streams e' = fe_active_tcp_streams e"
    "is_reconnecting_entry e' = is_reconnecting_entry e"
  by (simp_all add: e'_def same_sides_def is_reconnecting_entry_def derive_phase_def)

lemma entry_op_within:
  assumes inv: "store_inv st" and w: "within_limits L st"
  shows "within_limits L (apply_entry_op L st i a)"
proof (cases a)
  case (OpReconnecting role err now)
  obtain st' r where c: "ensure_reconnect_capacity st i (bl_max_reconnecting_forwards L) = (st', r)"
    by (cases "ensure_reconnect_capacity st i (bl_max_reconnecting_forwards L)")
  let ?f = "\<lambda>e. update_phase (side_state_update role (mark_side_reconnecting err) (prepare_reconnect_entry now e))"
  have "same_sides e (?f e) \<and> fe_active_tcp_streams (?f e) = fe_active_tcp_streams e" for e
    by (cases role) (simp_all add: same_sides_def update_phase_def prepare_reconnect_entry_def)
  from capacity_then_adjust [OF inv w c, of ?f] this show ?thesis
    using c by (cases r) (auto simp: OpReconnecting mark_reconnecting_def)
next
  case (OpReopening err now)
  obtain st' r where c: "ensure_reconnect_capacity st i (bl_max_reconnecting_forwards L) = (st', r)"
    by (cases "ensure_reconnect_capacity st i (bl_max_reconnecting_forwards L)")
  let ?f = "\<lambda>e. update_phase (side_state_update RoleConnect (mark_side_reconnecting err)
    (side_state_update RoleListen mark_side_ready (prepare_reconnect_entry now e)))"
  have "same_sides e (?f e) \<and> fe_active_tcp_streams (?f e) = fe_active_tcp_streams e" for e
    by (simp add: same_sides_def update_phase_def prepare_reconnect_entry_def)
  from capacity_then_adjust [OF inv w c, of ?f] this show ?thesis
    using c by (cases r) (auto simp: OpReopening mark_connect_reopening_after_listen_recovery_def)
next
  case (OpReady role)
  have "is_reconnecting_entry e"
    if "is_reconnecting_entry (update_phase (side_state_update role mark_side_ready e))" "entry_ok e" for e
    using that by (cases role) (auto simp: is_reconnecting_entry_def derive_phase_def entry_ok_def
        update_phase_def mark_side_ready_def Let_def split: if_splits)
  moreover have "same_sides e (update_phase (side_state_update role mark_side_ready e))"
    "fe_active_tcp_streams (update_phase (side_state_update role mark_side_ready e)) = fe_active_tcp_streams e" for e
    by (cases role; simp add: same_sides_def update_phase_def)+
  ultimately show ?thesis
    unfolding OpReady apply_entry_op.simps mark_ready_def
    by - (rule mutate_within [OF inv w], auto simp: counter_sides split: if_splits)
next
  case (OpGeneration g)
  show ?thesis
    unfolding OpGeneration apply_entry_op.simps set_forward_generation_def
    by (rule mutate_within [OF inv w])
      (auto simp: counter_sides generation_sides simp del: side_state_update.simps split: if_splits)
next
  case (OpFailed err)
  show ?thesis
    unfolding OpFailed apply_entry_op.simps mark_failed_def
    by (rule mutate_within [OF inv w]) (simp_all add: failed_sides)
next
  case (OpReserve m)
  show ?thesis
    unfolding OpReserve apply_entry_op.simps try_reserve_active_tcp_stream_def fst_conv
    by (rule mutate_within [OF inv w]) (auto simp: counter_sides reconnecting_counters split: if_splits)
next
  case (OpDropRelease n)
  show ?thesis
    unfolding OpDropRelease apply_entry_op.simps record_dropped_tcp_streams_and_release_active_def
    by (cases "n = 0") (simp add: w, simp, rule mutate_within [OF inv w], simp_all add: counter_sides reconnecting_counters)
next
  case (OpDropTcp n)
  show ?thesis
    unfolding OpDropTcp apply_entry_op.simps record_dropped_tcp_streams_def
    by (cases "n = 0") (simp add: w, simp, rule mutate_within [OF inv w], simp_all add: counter_sides reconnecting_counters)
next
  case (OpDropUdp n)
  show ?thesis
    unfolding OpDropUdp apply_entry_op.simps record_dropped_udp_datagrams_def
    by (cases "n = 0") (simp add: w, simp, rule mutate_within [OF inv w], simp_all add: counter_sides reconnecting_counters)
next
  case OpRelease
  show ?thesis
    unfolding OpRelease apply_entry_op.simps release_active_tcp_stream_def
    by (rule mutate_within [OF inv w]) (simp_all add: counter_sides reconnecting_counters)
qed

lemma fewer_within:
  assumes "within_limits L st" "\<And>P. tab_count P (pf_public st') \<le> tab_count P (pf_public st)"
    "\<And>P. tab_count P (pf_pending st') \<le> tab_count P (pf_pending st)"
    "pf_reconnecting_count st' \<le> pf_reconnecting_count st"
    "\<And>i e. tab_get (pf_public st') i = Some e \<Longrightarrow> tab_get (pf_public st) i = Some e"
  shows "within_limits L st'"
proof -
  have "length (pf_public st') \<le> length (pf_public st)" "length (pf_pending st') \<le> length (pf_pending st)"
    using assms(2,3) [of "\<lambda>_. True"] by (simp_all add: tab_count_def)
  then have "open_count st' \<le> open_count st" by (simp add: open_count_def)
  moreover have "side_pair_count st' p \<le> side_pair_count st p" for p
    unfolding side_pair_count_eq by (intro add_mono assms)
  ultimately show ?thesis
    using assms(1,4,5) unfolding within_limits_def by (meson order_trans)
qed

lemma remove_pending_within:
  "within_limits L st \<Longrightarrow> within_limits L (st\<lparr>pf_pending := tab_remove i (pf_pending st)\<rparr>)"
  by (erule fewer_within) (simp_all add: tab_count_remove_le)

lemma reserve_within:
  assumes inv: "store_inv st" and w: "within_limits L st"
    and r: "reserve_open_batch st listen connect n L ids = Some (st', res)"
  shows "within_limits L st'"
proof (cases res)
  case (Inl err)
  with r w show ?thesis by (auto simp: reserve_open_batch_def Let_def split: if_splits)
next
  case (Inr rs)
  let ?p = "\<lparr>sp_listen = listen, sp_connect = connect\<rparr>"
  from Inr r have l: "reserve_loop n ?p st ids = Some (st', rs)"
    "open_count st + n \<le> bl_max_open_forwards_total L" "side_pair_count st ?p + n \<le> bl_max_forwards_per_side_pair L"
    by (auto simp: reserve_open_batch_def Let_def split: if_splits)
  note props = reserve_loop_props [OF l(1) inv]
  have "side_pair_count st' p \<le> bl_max_forwards_per_side_pair L" for p
    using l(3) w props [of "\<lambda>q. q = p"] by (auto simp: side_pair_count_eq within_limits_def)
  then show ?thesis using w l(2) props by (simp add: within_limits_def open_count_def)
qed

lemma commit_within:
  assumes inv: "store_inv st" and w: "within_limits L st"
    and p: "tab_get (pf_pending st) (rv_id r) \<in> {None, Some (rv_side_pair r)}"
    and e: "rc_entry rec = new_open i ls le cs ce protocol limits" and c: "commit_open st r rec = (st', res)"
  shows "within_limits L st'"
proof (cases res)
  case (Inl err)
  with c show ?thesis
    using remove_pending_within [OF w] by (auto simp: commit_open_def Let_def split: if_splits)
next
  case (Inr u)
  let ?e = "rc_entry rec" and ?i = "rv_id r"
  from c Inr p have c': "fe_id ?e = ?i" "side_pair_matches_entry (rv_side_pair r) ?e"
    "tab_get (pf_pending st) ?i = Some (rv_side_pair r)"
    by (auto simp: commit_open_def Let_def split: if_splits)
  have fresh: "tab_get (pf_public st) ?i = None" using inv c'(3) by (simp add: store_inv_def)
  have nr: "\<not> is_reconnecting_entry ?e" "fe_active_tcp_streams ?e = 0"
    by (simp_all add: e new_open_def is_reconnecting_entry_def derive_phase_def)
  have st': "pf_public st' = tab_insert ?i ?e (pf_public st)" "pf_pending st' = tab_remove ?i (pf_pending st)"
    "pf_reconnecting_count st' = pf_reconnecting_count st"
    using c c' fresh nr by (auto simp: commit_open_def Let_def insert_forward_def)
  have toks: "tab_ok (pf_pending st)" "tab_ok (pf_public st)" using inv by (simp_all add: store_inv_def)
  have "open_count st' = open_count st"
    using tab.count_remove_present [OF toks(1) c'(3)] fresh toks(2) by (simp add: open_count_def st' tab.count_insert)
  moreover have "side_pair_count st' p = side_pair_count st p" for p
  proof -
    have "side_pair_matches_entry p ?e \<longleftrightarrow> rv_side_pair r = p"
      using c'(2) by (cases p; cases "rv_side_pair r") (auto simp: side_pair_matches_entry_def)
    then show ?thesis
      using tab_count_remove [OF toks(1) c'(3), of "\<lambda>q. q = p"]
        tab_count_insert_new [OF fresh, of "side_pair_matches_entry p" ?e]
      by (auto simp: side_pair_count_eq st')
  qed
  ultimately show ?thesis using w nr(2) by (simp add: within_limits_def st' tab_simps)
qed

lemma take_forward_within:
  assumes "store_inv st" "within_limits L st" "take_forward st i = (st', r)"
  shows "store_inv st' \<and> within_limits L st'"
proof (cases "tab_get (pf_public st) i")
  case None
  with take_forward_cases [OF assms(1), of i] assms show ?thesis by simp
next
  case (Some e)
  with take_forward_cases [OF assms(1), of i] assms(3)
  have t: "store_inv st'" "pf_pending st' = pf_pending st" "pf_public st' = tab_remove i (pf_public st)"
    "pf_reconnecting_count st' \<le> pf_reconnecting_count st"
    by auto
  then have "within_limits L st'"
    by (intro fewer_within [OF assms(2)]) (auto simp: tab_count_remove_le tab_simps split: if_splits)
  with t(1) show ?thesis ..
qed

lemma take_forwards_within:
  "store_inv st \<Longrightarrow> within_limits L st \<Longrightarrow> within_limits L (fst (take_forwards st ids))"
proof (induction ids arbitrary: st)
  case (Cons i ids)
  obtain s1 r1 where t: "take_forward st i = (s1, r1)" by (cases "take_forward st i")
  with take_forward_within [OF Cons.prems t] Cons.IH [of s1] show ?case
    by (auto split: prod.splits sum.splits)
qed simp

lemma take_present_within:
  "store_inv st \<Longrightarrow> within_limits L st \<Longrightarrow> within_limits L (fst (take_present st ids))"
proof (induction ids arbitrary: st)
  case (Cons i ids)
  obtain s1 r1 where t: "take_forward st i = (s1, r1)" by (cases "take_forward st i")
  with take_forward_within [OF Cons.prems t] Cons.IH [of s1] show ?case
    by (auto split: prod.splits sum.splits)
qed simp

lemma take_close_candidates_within:
  "store_inv st \<Longrightarrow> within_limits L st \<Longrightarrow> within_limits L (fst (take_close_candidates st ids))"
  by (cases "validated_unique_close_ids st ids") (simp_all add: take_close_candidates_def take_forwards_within)

lemma forward_step_within:
  "forward_step L c c' \<Longrightarrow> store_inv (fst c) \<Longrightarrow> within_limits L (fst c) \<Longrightarrow> within_limits L (fst c')"
proof (induction rule: forward_step.induct)
  case (Take st ids st' new C)
  then show ?case using take_close_candidates_within [of st L ids] by simp
next
  case (Take_failed st ids st' err C)
  then show ?case using take_close_candidates_within [of st L ids] by simp
next
  case (Take_target st target inst st' new C)
  then have "within_limits L (fst (take_target_instance_close_candidates st target inst))"
    unfolding take_target_instance_close_candidates_def by (intro take_present_within) simp_all
  with Take_target(1) show ?case by simp
next
  case (Drain st C)
  then show ?case by (simp add: drain_def drain_records_def) (erule fewer_within, simp_all)
next
  case (Reserve st listen connect n ids st' r C)
  then show ?case using reserve_within by simp
next
  case (Commit st r rec i ls le cs ce protocol limits st' res C)
  then show ?case using commit_within by simp
next
  case (Release st C r)
  then show ?case by (simp add: release_reservation_def remove_pending_within)
next
  case (Entry st C i a)
  then show ?case by (simp add: entry_op_within)
qed simp

text \<open>
  C18: the limits hold. As long as no close fails, the number of forwards open or being opened, the
  number per pair of sides, the number that are reconnecting and the active TCP streams of each
  forward never exceed the limits of the broker, whatever operations interleave.
\<close>

theorem forward_limits_hold:
  assumes "(forward_step L)\<^sup>*\<^sup>* (empty_forward_state, []) (st, C)"
  shows "open_count st \<le> bl_max_open_forwards_total L \<and>
    (\<forall>p. side_pair_count st p \<le> bl_max_forwards_per_side_pair L) \<and>
    pf_reconnecting_count st \<le> bl_max_reconnecting_forwards L \<and>
    (\<forall>i e. tab_get (pf_public st) i = Some e \<longrightarrow> fe_active_tcp_streams e \<le> bl_max_active_tcp_streams_per_forward L)"
proof -
  have "config_inv (empty_forward_state, []) \<and> within_limits L empty_forward_state"
    by (simp add: config_inv_def store_inv_def closing_ok_def empty_forward_state_def within_limits_def
        open_count_def side_pair_count_eq)
  with assms have "config_inv (st, C) \<and> within_limits L (fst (st, C))"
  proof (induction rule: rtranclp_induct)
    case (step c d)
    then show ?case
      using forward_step_inv [of L c d] forward_step_within [of L c d] by (simp add: config_inv_def)
  qed simp
  then show ?thesis by (simp add: within_limits_def)
qed

section \<open>What closing does\<close>

lemma unique_close_ids_spec:
  "case unique_close_ids st seen ids of
     Inl err \<Rightarrow> \<exists>i \<in> set ids. err = UnknownForward i \<and> tab_get (pf_public st) i = None
   | Inr us \<Rightarrow> distinct us \<and> set us = set ids - set seen \<and> (\<forall>i \<in> set ids. tab_get (pf_public st) i \<noteq> None)"
proof (induction ids arbitrary: seen)
  case (Cons i ids)
  show ?case
  proof (cases "tab_get (pf_public st) i = None \<or> i \<in> set seen")
    case True
    with Cons.IH [of seen] show ?thesis by (cases "unique_close_ids st seen ids") auto
  next
    case False
    with Cons.IH [of "i # seen"] show ?thesis by (cases "unique_close_ids st (i # seen) ids") auto
  qed
qed simp

lemma take_forwards_all:
  "store_inv st \<Longrightarrow> distinct us \<Longrightarrow> \<forall>i \<in> set us. tab_get (pf_public st) i \<noteq> None \<Longrightarrow>
     \<exists>st' cs. take_forwards st us = (st', Inr cs) \<and> map cc_id cs = us \<and>
       (\<forall>c \<in> set cs. tab_get (pf_public st) (cc_id c) = Some (cc_entry c) \<and>
         tab_get (pf_lifecycle st) (cc_id c) = Some (cc_lifecycle c)) \<and>
       tab_get (pf_public st') = (\<lambda>i. if i \<in> set us then None else tab_get (pf_public st) i)"
proof (induction us arbitrary: st)
  case (Cons i us)
  then obtain e where e: "tab_get (pf_public st) i = Some e" by auto
  with take_forward_cases [OF Cons.prems(1), of i] obtain s1 lc where t:
    "take_forward st i = (s1, Inr \<lparr>cc_id = i, cc_entry = e, cc_lifecycle = lc\<rparr>)"
    "tab_get (pf_lifecycle st) i = Some lc" "store_inv s1"
    "tab_get (pf_public s1) = (tab_get (pf_public st))(i := None)" "pf_lifecycle s1 = tab_remove i (pf_lifecycle st)"
    by auto
  have "\<forall>j \<in> set us. tab_get (pf_public s1) j \<noteq> None" using Cons.prems(2,3) t(4) by auto
  from Cons.IH [OF t(3) _ this] Cons.prems(2) obtain st' cs where r:
    "take_forwards s1 us = (st', Inr cs)" "map cc_id cs = us"
    "\<forall>c \<in> set cs. tab_get (pf_public s1) (cc_id c) = Some (cc_entry c) \<and>
       tab_get (pf_lifecycle s1) (cc_id c) = Some (cc_lifecycle c)"
    "tab_get (pf_public st') = (\<lambda>j. if j \<in> set us then None else tab_get (pf_public s1) j)"
    by auto
  with t e show ?case by (fastforce simp: tab.get_remove fun_eq_iff split: if_splits)
qed auto

lemma close_candidates_spec:
  "case close_candidates close st cs of
     (st', Inr closed) \<Rightarrow> st' = st \<and> closed = map (\<lambda>c. closed_entry (cc_entry c)) cs
   | (st', Inl err) \<Rightarrow> \<exists>pre c post msg. cs = pre @ c # post \<and> close (cc_lifecycle c) = Some msg \<and>
       err = CloseFailed (cc_id c) msg \<and>
       st' = restore_close_candidates st
         (c\<lparr>cc_entry := mark_entry_failed (close_error_text (cc_id c) msg) (cc_entry c)\<rparr> # post)"
proof (induction cs)
  case (Cons c cs)
  show ?case
  proof (cases "close (cc_lifecycle c)")
    case None
    obtain st' res where p: "close_candidates close st cs = (st', res)" by (cases "close_candidates close st cs")
    show ?thesis
    proof (cases res)
      case (Inl err)
      with Cons p obtain pre d post msg where "cs = pre @ d # post" "close (cc_lifecycle d) = Some msg"
        "err = CloseFailed (cc_id d) msg"
        "st' = restore_close_candidates st
           (d\<lparr>cc_entry := mark_entry_failed (close_error_text (cc_id d) msg) (cc_entry d)\<rparr> # post)" by auto
      then show ?thesis using None p Inl by (simp, intro exI [of _ "c # pre"]) auto
    qed (use Cons p None in auto)
  next
    case (Some msg)
    then show ?thesis by (simp, intro exI [of _ "[]"]) auto
  qed
qed simp

lemma restore_get:
  "distinct (map cc_id cs) \<Longrightarrow> \<forall>c \<in> set cs. fe_id (cc_entry c) = cc_id c \<Longrightarrow>
     tab_get (pf_public (restore_close_candidates st cs)) =
     tab_get (pf_public st) ++ map_of (map (\<lambda>c. (cc_id c, cc_entry c)) cs)"
proof (induction cs arbitrary: st)
  case (Cons c cs)
  let ?s = "insert_forward st (cc_entry c) (cc_lifecycle c)"
  have s: "tab_get (pf_public ?s) = (tab_get (pf_public st))(cc_id c \<mapsto> cc_entry c)"
    using Cons.prems(2) by (auto simp: insert_forward_def Let_def tab.get_insert)
  have c: "map_of (map (\<lambda>c. (cc_id c, cc_entry c)) cs) (cc_id c) = None"
    using Cons.prems(1) by (auto simp: map_of_eq_None_iff)
  have "restore_close_candidates st (c # cs) = restore_close_candidates ?s cs"
    by (simp add: restore_close_candidates_def)
  then have "tab_get (pf_public (restore_close_candidates st (c # cs))) =
      (tab_get (pf_public st))(cc_id c \<mapsto> cc_entry c) ++ map_of (map (\<lambda>c. (cc_id c, cc_entry c)) cs)"
    using Cons.IH [of ?s] Cons.prems unfolding s [symmetric] by simp
  also have "\<dots> = tab_get (pf_public st) ++ map_of (map (\<lambda>c. (cc_id c, cc_entry c)) (c # cs))"
    using c by (auto simp: map_add_def fun_eq_iff split: option.splits)
  finally show ?case .
qed (simp add: restore_close_candidates_def)

lemma map_of_candidates:
  "distinct (map cc_id cs) \<Longrightarrow> \<forall>c \<in> set cs. m (cc_id c) = Some (cc_entry c) \<Longrightarrow>
     map_of (map (\<lambda>c. (cc_id c, cc_entry c)) cs) j = (if j \<in> cc_id ` set cs then m j else None)"
  by (induction cs) auto

lemma failed_close_listing:
  assumes cs: "cs = pre @ c # post" and d: "distinct (map cc_id cs)" and m: "\<forall>c \<in> set cs. m (cc_id c) = Some (cc_entry c)"
    and ids: "\<forall>c \<in> set cs. fe_id (cc_entry c) = cc_id c"
    and gone: "tab_get (pf_public st) = (\<lambda>i. if i \<in> cc_id ` set cs then None else m i)"
  shows "tab_get (pf_public (restore_close_candidates st (c\<lparr>cc_entry := mark_entry_failed err (cc_entry c)\<rparr> # post))) =
    (\<lambda>j. if j \<in> cc_id ` set pre then None
         else if j = cc_id c then Some (mark_entry_failed err (cc_entry c)) else m j)"
proof -
  let ?c = "c\<lparr>cc_entry := mark_entry_failed err (cc_entry c)\<rparr>"
  have "tab_get (pf_public (restore_close_candidates st (?c # post))) =
      tab_get (pf_public st) ++ map_of (map (\<lambda>c. (cc_id c, cc_entry c)) (?c # post))"
    by (rule restore_get) (use d ids cs in \<open>auto simp: mark_entry_failed_def\<close>)
  moreover have "map_of (map (\<lambda>c. (cc_id c, cc_entry c)) post) j = (if j \<in> cc_id ` set post then m j else None)" for j
    by (rule map_of_candidates) (use d m cs in auto)
  ultimately show ?thesis
    using d cs m unfolding gone by (auto simp: fun_eq_iff map_add_def split: option.splits)
qed


section \<open>A concrete run\<close>

definition sample_record :: forward_record where
  "sample_record =
     \<lparr>rc_entry = new_open [102] [97] [49] [98] [50] Tcp (public_summary default_broker_limits),
      rc_lifecycle = \<lparr>lc_listen_session = 1, lc_listen_owner = BrokerHost, lc_connect_owner = OwnerTarget [98] [120]\<rparr>\<rparr>"

definition sample_forwards :: forward_state where
  "sample_forwards = \<lparr>pf_public = [([102], rc_entry sample_record)],
     pf_lifecycle = [([102], rc_lifecycle sample_record)], pf_pending = [], pf_reconnecting_count = 0\<rparr>"

lemma sample_run: "(forward_step default_broker_limits)\<^sup>*\<^sup>* (empty_forward_state, []) (sample_forwards, [])"
proof -
  let ?p = "\<lparr>sp_listen = [97], sp_connect = [98]\<rparr>"
  let ?r = "\<lparr>rv_id = [102], rv_side_pair = ?p, rv_pending = True\<rparr>"
  let ?st = "empty_forward_state\<lparr>pf_pending := [([102], ?p)]\<rparr>"
  have "reserve_open_batch empty_forward_state [97] [98] 1 default_broker_limits [[102]] = Some (?st, Inr [?r])"
    by code_simp
  then have 1: "forward_step default_broker_limits (empty_forward_state, []) (?st, [])"
    by (rule Reserve) simp
  have c: "commit_open ?st ?r sample_record = (sample_forwards, Inr ())" by code_simp
  have p: "tab_get (pf_pending ?st) (rv_id ?r) \<in> {None, Some (rv_side_pair ?r)}" by (simp add: tab_get_def)
  have e: "rc_entry sample_record = new_open [102] [97] [49] [98] [50] Tcp (public_summary default_broker_limits)"
    by (simp add: sample_record_def)
  have 2: "forward_step default_broker_limits (?st, []) (sample_forwards, [])" by (rule Commit [OF p e c])
  from 1 2 show ?thesis by (meson rtranclp.rtrancl_into_rtrancl rtranclp.rtrancl_refl)
qed

theorem forward_store_consistent_witness:
  "pf_reconnecting_count (apply_entry_op default_broker_limits sample_forwards [102] (OpReconnecting RoleConnect [] 5)) = 1"
proof -
  let ?st = "apply_entry_op default_broker_limits sample_forwards [102] (OpReconnecting RoleConnect [] 5)"
  have "(forward_step default_broker_limits)\<^sup>*\<^sup>* (empty_forward_state, []) (?st, [])"
    using sample_run Entry by (rule rtranclp.rtrancl_into_rtrancl)
  then have "(\<lambda>c c'. forward_step default_broker_limits c c' \<or> restore_step c c')\<^sup>*\<^sup>* (empty_forward_state, []) (?st, [])"
    by (rule rtranclp_mono [THEN predicate2D, rotated]) auto
  from forward_store_consistent [OF this]
  have "pf_reconnecting_count ?st = length (filter (\<lambda>x. is_reconnecting_entry (snd x)) (pf_public ?st))" by blast
  also have "\<dots> = 1" by code_simp
  finally show ?thesis .
qed

theorem forward_limits_hold_witness:
  "open_count sample_forwards \<le> 64 \<and> pf_public sample_forwards \<noteq> []"
  using forward_limits_hold [OF sample_run] by (simp add: default_broker_limits_def sample_forwards_def)

lemma sample_inv: "store_inv sample_forwards"
  by (auto simp: store_inv_def sample_forwards_def sample_record_def tab_ok_def tab_get_def tab_count_def
      new_open_ok is_reconnecting_entry_def derive_phase_def new_open_def entry_ok_def)


end
