(* ===== verification/Archive_Import.thy ===== *)
theory Archive_Import
  imports Host_State Rpc_Error
begin

text \<open>
  Importing a transferred archive: \<open>crates/remote-exec-host/src/transfer/archive/import.rs\<close> and
  \<open>entry.rs\<close>, with the request of \<open>crates/remote-exec-proto/src/transfer.rs\<close>. The file system is a
  parameter whose every call may fail. The archive is what the \<open>tar\<close> crate yields: a list of
  entries whose accessors may fail, and the bytes behind them. Errors are the kinds of
  \<open>TransferError\<close>; an \<open>anyhow\<close> error of another type is an internal one.
\<close>

section \<open>Parameters\<close>

record link_meta =
  lm_is_dir :: bool
  lm_is_symlink :: bool

record 'w transfer_fs =
  tf_canon :: "'w \<Rightarrow> pathbuf \<Rightarrow> canon_outcome"
  tf_is_dir :: "'w \<Rightarrow> pathbuf \<Rightarrow> bool"
  tf_symlink_metadata :: "'w \<Rightarrow> pathbuf \<Rightarrow> (io_error, link_meta) result"
  tf_read_dir :: "'w \<Rightarrow> pathbuf \<Rightarrow> (io_error, (io_error, pathbuf) result list) result"
  tf_create_dir_all :: "'w \<Rightarrow> pathbuf \<Rightarrow> 'w \<times> (io_error, unit) result"
  tf_remove_dir_all :: "'w \<Rightarrow> pathbuf \<Rightarrow> 'w \<times> (io_error, unit) result"
  tf_remove_file :: "'w \<Rightarrow> pathbuf \<Rightarrow> 'w \<times> (io_error, unit) result"
  tf_create :: "'w \<Rightarrow> pathbuf \<Rightarrow> 'w \<times> (io_error, unit) result"
  tf_copy :: "'w \<Rightarrow> pathbuf \<Rightarrow> bytes \<Rightarrow> 'w \<times> (io_error, nat) result"
  tf_set_executable :: "'w \<Rightarrow> pathbuf \<Rightarrow> 'w \<times> (io_error, unit) result"
  tf_symlink :: "'w \<Rightarrow> pathbuf \<Rightarrow> pathbuf \<Rightarrow> 'w \<times> (io_error, unit) result"

record transfer_warning =
  warning_code :: rstr
  warning_message :: rstr

definition skipped_symlink :: "pathbuf \<Rightarrow> transfer_warning" where
  "skipped_symlink path =
     \<lparr>warning_code = lit ''transfer_skipped_symlink'',
      warning_message = lit ''Skipped symlink transfer source entry `'' @ path_text path @ lit ''`.''\<rparr>"

datatype tar_type = TarFile | TarDir | TarSymlink | TarOther

record tar_entry =
  te_path :: "pathbuf option"
  te_type :: tar_type
  te_size :: "nat option"
  te_mode :: "32 word option"
  te_link_name :: "rstr option option"
  te_data :: bytes
  te_summary :: "transfer_warning list option"

record tar_archive =
  ta_entries :: "tar_entry option list"
  ta_rest :: "(io_error, u8) result list"

section \<open>Requests\<close>

datatype transfer_source_type = SourceFile | SourceDirectory | SourceMultiple
datatype transfer_overwrite = OverwriteFail | OverwriteMerge | OverwriteReplace
datatype transfer_symlink_mode = SymlinkPreserve | SymlinkFollow | SymlinkSkip
datatype transfer_compression = CompressionNone | CompressionZstd

record transfer_limits =
  tl_max_archive_bytes :: nat
  tl_max_entry_bytes :: nat

definition validate_transfer_limits :: "transfer_limits \<Rightarrow> (rstr, unit) result" where
  "validate_transfer_limits l =
     bindR (ensureR (tl_max_archive_bytes l > 0)
       (lit ''transfer_limits.max_archive_bytes must be greater than zero'')) (\<lambda>_.
     bindR (ensureR (tl_max_entry_bytes l > 0)
       (lit ''transfer_limits.max_entry_bytes must be greater than zero'')) (\<lambda>_.
     ensureR (tl_max_entry_bytes l \<le> tl_max_archive_bytes l)
       (lit ''transfer_limits.max_entry_bytes must be less than or equal to transfer_limits.max_archive_bytes'')))"

record import_request =
  ir_destination_path :: rstr
  ir_overwrite :: transfer_overwrite
  ir_create_parent :: bool
  ir_source_type :: transfer_source_type
  ir_compression :: transfer_compression
  ir_symlink_mode :: transfer_symlink_mode

record import_response =
  is_source_type :: transfer_source_type
  is_bytes_copied :: nat
  is_files_copied :: nat
  is_directories_copied :: nat
  is_replaced :: bool
  is_warnings :: "transfer_warning list"

definition new_import_summary :: "import_request \<Rightarrow> bool \<Rightarrow> import_response" where
  "new_import_summary req replaced =
     \<lparr>is_source_type = ir_source_type req, is_bytes_copied = 0, is_files_copied = 0,
      is_directories_copied = (if ir_source_type req = SourceFile then 0 else 1),
      is_replaced = replaced, is_warnings = []\<rparr>"

section \<open>Sandbox checks\<close>

definition transfer_error_from_sandbox_error :: "sandbox_error \<Rightarrow> transfer_error_kind" where
  "transfer_error_from_sandbox_error e = (case e of NotAbsolute _ \<Rightarrow> TkPathNotAbsolute | _ \<Rightarrow> TkSandboxDenied)"

definition authorize_write_path ::
  "'w transfer_fs \<Rightarrow> compiled_sandbox option \<Rightarrow> 'w \<Rightarrow> pathbuf \<Rightarrow> (transfer_error_kind, unit) result" where
  "authorize_write_path fs sb w p =
     map_err transfer_error_from_sandbox_error (authorize_path (tf_canon fs w) sb Write p)"

fun iterR :: "('a \<Rightarrow> ('e, unit) result) \<Rightarrow> 'a list \<Rightarrow> ('e, unit) result" where
  "iterR f [] = Inr ()"
| "iterR f (x # xs) = bindR (f x) (\<lambda>_. iterR f xs)"

lemma iterR_cong [fundef_cong]:
  "xs = ys \<Longrightarrow> (\<And>x. x \<in> set ys \<Longrightarrow> f x = g x) \<Longrightarrow> iterR f xs = iterR g ys"
  by (induction xs arbitrary: ys) (auto intro: bindR_cong)

definition MAX_REPLACE_AUTHORIZATION_DEPTH :: nat where "MAX_REPLACE_AUTHORIZATION_DEPTH = 256"

function authorize_existing_path_recursive ::
  "'w transfer_fs \<Rightarrow> compiled_sandbox option \<Rightarrow> 'w \<Rightarrow> pathbuf \<Rightarrow> nat \<Rightarrow> (transfer_error_kind, unit) result" where
  "authorize_existing_path_recursive fs sb w p depth =
     (if sb = None then Inr ()
      else case tf_symlink_metadata fs w p of
          Inl IoNotFound \<Rightarrow> Inr ()
        | Inl _ \<Rightarrow> Inl TkInternal
        | Inr meta \<Rightarrow>
            if depth > MAX_REPLACE_AUTHORIZATION_DEPTH then Inl TkInternal
            else bindR (authorize_write_path fs sb w p) (\<lambda>_.
              if lm_is_dir meta then (case tf_read_dir fs w p of
                  Inl _ \<Rightarrow> Inl TkInternal
                | Inr items \<Rightarrow> iterR (\<lambda>item. case item of
                      Inl _ \<Rightarrow> Inl TkInternal
                    | Inr q \<Rightarrow> authorize_existing_path_recursive fs sb w q (Suc depth)) items)
              else Inr ()))"
  by pat_completeness auto
termination
  by (relation "measure (\<lambda>(fs, sb, w, p, depth). 258 - depth)") (auto simp: MAX_REPLACE_AUTHORIZATION_DEPTH_def)

declare authorize_existing_path_recursive.simps [simp del]

fun each_prefix :: "(pathbuf \<Rightarrow> ('e, unit) result) \<Rightarrow> pathbuf \<Rightarrow> pathbuf \<Rightarrow> ('e, unit) result" where
  "each_prefix f current [] = Inr ()"
| "each_prefix f current (c # cs) =
     (let next = pathbuf_join current [c] in bindR (f next) (\<lambda>_. each_prefix f next cs))"

definition authorize_materialized_path ::
  "'w transfer_fs \<Rightarrow> compiled_sandbox option \<Rightarrow> 'w \<Rightarrow> pathbuf \<Rightarrow> pathbuf \<Rightarrow> (transfer_error_kind, unit) result" where
  "authorize_materialized_path fs sb w root path =
     (if sb = None then Inr ()
      else let relative = (case strip_prefix root path of Some r \<Rightarrow> r | None \<Rightarrow> path)
        in bindR (authorize_write_path fs sb w root) (\<lambda>_. each_prefix (authorize_write_path fs sb w) root relative))"

definition authorize_symlink_target ::
  "'w transfer_fs \<Rightarrow> compiled_sandbox option \<Rightarrow> 'w \<Rightarrow> pathbuf \<Rightarrow> pathbuf \<Rightarrow> (transfer_error_kind, unit) result" where
  "authorize_symlink_target fs sb w link target =
     authorize_write_path fs sb w (case path_parent link of Some d \<Rightarrow> pathbuf_join d target | None \<Rightarrow> target)"

definition ensure_not_existing_symlink ::
  "'w transfer_fs \<Rightarrow> 'w \<Rightarrow> pathbuf \<Rightarrow> (transfer_error_kind, unit) result" where
  "ensure_not_existing_symlink fs w p = (case tf_symlink_metadata fs w p of
      Inr meta \<Rightarrow> if lm_is_symlink meta then Inl TkDestinationUnsupported else Inr ()
    | Inl IoNotFound \<Rightarrow> Inr ()
    | Inl _ \<Rightarrow> Inl TkInternal)"

definition ensure_no_existing_symlink_in_path ::
  "'w transfer_fs \<Rightarrow> 'w \<Rightarrow> pathbuf \<Rightarrow> pathbuf \<Rightarrow> (transfer_error_kind, unit) result" where
  "ensure_no_existing_symlink_in_path fs w root path =
     bindR (ensure_not_existing_symlink fs w root) (\<lambda>_.
       case strip_prefix root path of
         None \<Rightarrow> ensure_not_existing_symlink fs w path
       | Some relative \<Rightarrow> each_prefix (ensure_not_existing_symlink fs w) root relative)"

section \<open>Entries\<close>

definition TRANSFER_SUMMARY_ENTRY :: pathbuf where
  "TRANSFER_SUMMARY_ENTRY = [Normal (lit ''.remote-exec-transfer-summary.json'')]"

fun normalize_archive_loop :: "pathbuf \<Rightarrow> pathbuf \<Rightarrow> (transfer_error_kind, pathbuf) result" where
  "normalize_archive_loop acc [] = Inr acc"
| "normalize_archive_loop acc (CurDir # cs) = normalize_archive_loop acc cs"
| "normalize_archive_loop acc (Normal n # cs) = normalize_archive_loop (pathbuf_join acc [Normal n]) cs"
| "normalize_archive_loop acc (ParentDir # cs) = Inl TkSourceUnsupported"
| "normalize_archive_loop acc (RootDir # cs) = Inl TkSourceUnsupported"

definition normalize_archive_entry_path :: "pathbuf \<Rightarrow> (transfer_error_kind, pathbuf) result" where
  "normalize_archive_entry_path raw = normalize_archive_loop [] raw"

definition ensure_supported_archive_entry_type :: "tar_type \<Rightarrow> (transfer_error_kind, unit) result" where
  "ensure_supported_archive_entry_type t = (if t \<in> {TarDir, TarFile, TarSymlink} then Inr () else Inl TkSourceUnsupported)"

definition is_transfer_summary_path :: "pathbuf \<Rightarrow> bool" where
  "is_transfer_summary_path p \<longleftrightarrow> p = TRANSFER_SUMMARY_ENTRY"

definition read_transfer_summary :: "tar_entry \<Rightarrow> (transfer_error_kind, transfer_warning list) result" where
  "read_transfer_summary e =
     (if te_type e \<noteq> TarFile then Inl TkSourceUnsupported
      else ok_or (te_summary e) TkInternal)"

definition validate_relative_symlink_target :: "rstr \<Rightarrow> (transfer_error_kind, pathbuf) result" where
  "validate_relative_symlink_target target =
     (let normalized = map (\<lambda>c. if c = c_backslash then c_slash else c) target
      in if normalized = [] \<or> starts_with [c_slash] normalized \<or>
            (length (utf8_encode normalized) > 1 \<and> utf8_encode normalized ! 1 = c_colon)
         then Inl TkSourceUnsupported
         else if list_ex (\<lambda>part. part = [] \<or> part = lit ''.'' \<or> part = lit ''..'') (split_on c_slash normalized)
         then Inl TkSourceUnsupported
         else Inr (components normalized))"

section \<open>Writing one entry\<close>

definition internal :: "'w \<times> (io_error, 'a) result \<Rightarrow> 'w \<times> (transfer_error_kind, 'a) result" where
  "internal m = mapErr (\<lambda>_. TkInternal) m"

definition create_parent_dir :: "'w transfer_fs \<Rightarrow> 'w \<Rightarrow> pathbuf \<Rightarrow> 'w \<times> (transfer_error_kind, unit) result" where
  "create_parent_dir fs w path = (case path_parent path of
      None \<Rightarrow> (w, Inr ())
    | Some parent \<Rightarrow> internal (tf_create_dir_all fs w parent))"

definition remove_existing_path ::
  "'w transfer_fs \<Rightarrow> 'w \<Rightarrow> pathbuf \<Rightarrow> link_meta \<Rightarrow> 'w \<times> (transfer_error_kind, unit) result" where
  "remove_existing_path fs w path meta =
     internal (if lm_is_dir meta then tf_remove_dir_all fs w path else tf_remove_file fs w path)"

definition ensure_entry_within_limits ::
  "nat \<Rightarrow> nat \<Rightarrow> transfer_limits \<Rightarrow> (transfer_error_kind, unit) result" where
  "ensure_entry_within_limits entry_size copied_so_far limits =
     (if entry_size > tl_max_entry_bytes limits then Inl TkFailed
      else if saturating_add copied_so_far entry_size > tl_max_archive_bytes limits then Inl TkFailed
      else Inr ())"

definition restore_executable_bits ::
  "'w transfer_fs \<Rightarrow> 'w \<Rightarrow> pathbuf \<Rightarrow> 32 word \<Rightarrow> 'w \<times> (transfer_error_kind, unit) result" where
  "restore_executable_bits fs w path mode =
     (if and mode 0x49 \<noteq> 0 then internal (tf_set_executable fs w path) else (w, Inr ()))"

definition write_archive_file ::
  "'w transfer_fs \<Rightarrow> 'w \<Rightarrow> tar_entry \<Rightarrow> pathbuf \<Rightarrow> transfer_limits \<Rightarrow> nat \<Rightarrow>
   'w \<times> (transfer_error_kind, nat) result" where
  "write_archive_file fs w e path limits copied_so_far =
     andThen (w, ensure_not_existing_symlink fs w path) (\<lambda>w _.
     andThen (create_parent_dir fs w path) (\<lambda>w _.
     andThen (w, ok_or (te_size e) TkInternal) (\<lambda>w entry_size.
     andThen (w, ok_or (te_mode e) TkInternal) (\<lambda>w mode.
     andThen (w, ensure_entry_within_limits entry_size copied_so_far limits) (\<lambda>w _.
     andThen (internal (tf_create fs w path)) (\<lambda>w _.
     andThen (internal (tf_copy fs w path (take entry_size (te_data e)))) (\<lambda>w copied.
     andThen (w, ensureR (copied = entry_size) TkInternal) (\<lambda>w _.
     andThen (restore_executable_bits fs w path mode) (\<lambda>w _. (w, Inr copied))))))))))"

datatype symlink_import_action = ActPreserve pathbuf | ActSkip | ActUnsupported

definition symlink_action ::
  "transfer_symlink_mode \<Rightarrow> tar_entry \<Rightarrow> (transfer_error_kind, symlink_import_action) result" where
  "symlink_action mode e = (case mode of
      SymlinkPreserve \<Rightarrow>
        bindR (ok_or (te_link_name e) TkInternal) (\<lambda>link.
        bindR (ok_or link TkSourceUnsupported) (\<lambda>target.
        bindR (validate_relative_symlink_target target) (\<lambda>t. Inr (ActPreserve t))))
    | SymlinkSkip \<Rightarrow> Inr ActSkip
    | SymlinkFollow \<Rightarrow> Inr ActUnsupported)"

definition remove_existing_file_before_symlink ::
  "'w transfer_fs \<Rightarrow> 'w \<Rightarrow> pathbuf \<Rightarrow> 'w \<times> (transfer_error_kind, unit) result" where
  "remove_existing_file_before_symlink fs w path = (case tf_symlink_metadata fs w path of
      Inr meta \<Rightarrow> if lm_is_dir meta then (w, Inl TkDestinationUnsupported)
                  else internal (tf_remove_file fs w path)
    | Inl IoNotFound \<Rightarrow> (w, Inr ())
    | Inl _ \<Rightarrow> (w, Inl TkInternal))"

definition write_archive_symlink ::
  "'w transfer_fs \<Rightarrow> compiled_sandbox option \<Rightarrow> 'w \<Rightarrow> tar_entry \<Rightarrow> pathbuf \<Rightarrow> transfer_symlink_mode \<Rightarrow>
   import_response \<Rightarrow> 'w \<times> (transfer_error_kind, import_response) result" where
  "write_archive_symlink fs sb w e path mode summary =
     andThen (w, symlink_action mode e) (\<lambda>w act. case act of
        ActPreserve target \<Rightarrow>
          andThen (w, authorize_symlink_target fs sb w path target) (\<lambda>w _.
          andThen (w, ensure_not_existing_symlink fs w path) (\<lambda>w _.
          andThen (create_parent_dir fs w path) (\<lambda>w _.
          andThen (remove_existing_file_before_symlink fs w path) (\<lambda>w _.
          andThen (internal (tf_symlink fs w target path)) (\<lambda>w _.
            (w, Inr (summary\<lparr>is_files_copied := is_files_copied summary + 1\<rparr>)))))))
      | ActSkip \<Rightarrow> (w, Inr (summary\<lparr>is_warnings := is_warnings summary @ [skipped_symlink path]\<rparr>))
      | ActUnsupported \<Rightarrow> (w, Inl TkSourceUnsupported))"

section \<open>Replacing the units of a bundle\<close>

record replace_units =
  ru_overwrite :: transfer_overwrite
  ru_source_type :: transfer_source_type
  ru_replaced :: "pathbuf list"

definition new_replace_units :: "import_request \<Rightarrow> replace_units" where
  "new_replace_units req =
     \<lparr>ru_overwrite = ir_overwrite req, ru_source_type = ir_source_type req, ru_replaced = []\<rparr>"

definition replace_existing_path ::
  "'w transfer_fs \<Rightarrow> compiled_sandbox option \<Rightarrow> 'w \<Rightarrow> pathbuf \<Rightarrow> 'w \<times> (transfer_error_kind, unit) result" where
  "replace_existing_path fs sb w path = (case tf_symlink_metadata fs w path of
      Inl IoNotFound \<Rightarrow> (w, Inr ())
    | Inl _ \<Rightarrow> (w, Inl TkInternal)
    | Inr meta \<Rightarrow>
        andThen (w, authorize_existing_path_recursive fs sb w path 0) (\<lambda>w _.
          remove_existing_path fs w path meta))"

definition prepare_entry ::
  "'w transfer_fs \<Rightarrow> compiled_sandbox option \<Rightarrow> 'w \<Rightarrow> replace_units \<Rightarrow> pathbuf \<Rightarrow> pathbuf \<Rightarrow>
   'w \<times> (transfer_error_kind, replace_units) result" where
  "prepare_entry fs sb w units root relative =
     (if ru_overwrite units \<noteq> OverwriteReplace \<or> ru_source_type units \<noteq> SourceMultiple then (w, Inr units)
      else case relative of
          [] \<Rightarrow> (w, Inr units)
        | top_level # _ \<Rightarrow>
            let unit_path = [top_level]
            in if unit_path \<in> set (ru_replaced units) then (w, Inr units)
               else andThen (replace_existing_path fs sb w (pathbuf_join root unit_path)) (\<lambda>w _.
                 (w, Inr (units\<lparr>ru_replaced := unit_path # ru_replaced units\<rparr>))))"

section \<open>Extracting\<close>

definition add_warnings :: "import_response \<Rightarrow> transfer_warning list \<Rightarrow> import_response" where
  "add_warnings summary ws = summary\<lparr>is_warnings := is_warnings summary @ ws\<rparr>"

text \<open>The part of \<open>extract_tree_archive_entry\<close> behind the checks: the entry's type decides what is written.\<close>

definition materialize_entry ::
  "'w transfer_fs \<Rightarrow> compiled_sandbox option \<Rightarrow> transfer_limits \<Rightarrow> transfer_symlink_mode \<Rightarrow>
   'w \<Rightarrow> tar_entry \<Rightarrow> pathbuf \<Rightarrow> import_response \<Rightarrow> 'w \<times> (transfer_error_kind, import_response) result" where
  "materialize_entry fs sb limits mode w e out summary =
     (if te_type e = TarDir
      then andThen (internal (tf_create_dir_all fs w out)) (\<lambda>w _.
        (w, Inr (summary\<lparr>is_directories_copied := is_directories_copied summary + 1\<rparr>)))
      else if te_type e = TarSymlink then write_archive_symlink fs sb w e out mode summary
      else andThen (write_archive_file fs w e out limits (is_bytes_copied summary)) (\<lambda>w copied.
        (w, Inr (summary\<lparr>is_bytes_copied := is_bytes_copied summary + copied,
                         is_files_copied := is_files_copied summary + 1\<rparr>))))"

definition place_entry ::
  "'w transfer_fs \<Rightarrow> compiled_sandbox option \<Rightarrow> transfer_limits \<Rightarrow> pathbuf \<Rightarrow> transfer_symlink_mode \<Rightarrow>
   'w \<Rightarrow> tar_entry \<Rightarrow> pathbuf \<Rightarrow> replace_units \<Rightarrow> import_response \<Rightarrow>
   'w \<times> (transfer_error_kind, replace_units \<times> import_response) result" where
  "place_entry fs sb limits destination mode w e rel units summary =
     (let out = pathbuf_join destination rel
      in andThen (w, ensure_supported_archive_entry_type (te_type e)) (\<lambda>w _.
         andThen (prepare_entry fs sb w units destination rel) (\<lambda>w units.
         andThen (w, authorize_materialized_path fs sb w destination out) (\<lambda>w _.
         andThen (w, ensure_no_existing_symlink_in_path fs w destination out) (\<lambda>w _.
         andThen (materialize_entry fs sb limits mode w e out summary) (\<lambda>w summary.
           (w, Inr (units, summary))))))))"

definition extract_tree_archive_entry ::
  "'w transfer_fs \<Rightarrow> compiled_sandbox option \<Rightarrow> transfer_limits \<Rightarrow> pathbuf \<Rightarrow> transfer_symlink_mode \<Rightarrow>
   'w \<Rightarrow> tar_entry \<Rightarrow> replace_units \<Rightarrow> import_response \<Rightarrow>
   'w \<times> (transfer_error_kind, replace_units \<times> import_response) result" where
  "extract_tree_archive_entry fs sb limits destination mode w e units summary =
     andThen (w, ok_or (te_path e) TkInternal) (\<lambda>w raw_rel.
     andThen (w, normalize_archive_entry_path raw_rel) (\<lambda>w rel.
       if is_transfer_summary_path rel
       then andThen (w, read_transfer_summary e) (\<lambda>w ws. (w, Inr (units, add_warnings summary ws)))
       else if rel = [] then (w, Inr (units, summary))
       else place_entry fs sb limits destination mode w e rel units summary))"

fun extract_tree_entries ::
  "'w transfer_fs \<Rightarrow> compiled_sandbox option \<Rightarrow> transfer_limits \<Rightarrow> pathbuf \<Rightarrow> transfer_symlink_mode \<Rightarrow>
   'w \<Rightarrow> tar_entry option list \<Rightarrow> replace_units \<Rightarrow> import_response \<Rightarrow>
   'w \<times> (transfer_error_kind, import_response) result" where
  "extract_tree_entries fs sb limits destination mode w [] units summary = (w, Inr summary)"
| "extract_tree_entries fs sb limits destination mode w (None # es) units summary = (w, Inl TkInternal)"
| "extract_tree_entries fs sb limits destination mode w (Some e # es) units summary =
     andThen (extract_tree_archive_entry fs sb limits destination mode w e units summary) (\<lambda>w (units, summary).
       extract_tree_entries fs sb limits destination mode w es units summary)"

definition extract_tree_archive ::
  "'w transfer_fs \<Rightarrow> compiled_sandbox option \<Rightarrow> transfer_limits \<Rightarrow> pathbuf \<Rightarrow> transfer_symlink_mode \<Rightarrow>
   'w \<Rightarrow> tar_entry option list \<Rightarrow> replace_units \<Rightarrow> import_response \<Rightarrow>
   'w \<times> (transfer_error_kind, import_response) result" where
  "extract_tree_archive fs sb limits destination mode w es units summary =
     andThen (internal (tf_create_dir_all fs w destination)) (\<lambda>w _.
       extract_tree_entries fs sb limits destination mode w es units summary)"

fun read_trailing_summaries ::
  "tar_entry option list \<Rightarrow> import_response \<Rightarrow> (transfer_error_kind, import_response) result" where
  "read_trailing_summaries [] summary = Inr summary"
| "read_trailing_summaries (None # es) summary = Inl TkInternal"
| "read_trailing_summaries (Some e # es) summary =
     bindR (ok_or (te_path e) TkInternal) (\<lambda>raw_rel.
     bindR (normalize_archive_entry_path raw_rel) (\<lambda>rel.
       if \<not> is_transfer_summary_path rel then Inl TkSourceUnsupported
       else bindR (read_transfer_summary e) (\<lambda>ws. read_trailing_summaries es (add_warnings summary ws))))"

definition extract_single_file_archive ::
  "'w transfer_fs \<Rightarrow> compiled_sandbox option \<Rightarrow> transfer_limits \<Rightarrow> pathbuf \<Rightarrow> transfer_symlink_mode \<Rightarrow>
   'w \<Rightarrow> tar_entry option list \<Rightarrow> import_response \<Rightarrow> 'w \<times> (transfer_error_kind, import_response) result" where
  "extract_single_file_archive fs sb limits destination mode w es summary = (case es of
      [] \<Rightarrow> (w, Inl TkInternal)
    | None # _ \<Rightarrow> (w, Inl TkInternal)
    | Some e # rest \<Rightarrow>
        if te_type e \<noteq> TarFile \<and> te_type e \<noteq> TarSymlink then (w, Inl TkSourceUnsupported)
        else andThen
          (if te_type e = TarSymlink then write_archive_symlink fs sb w e destination mode summary
           else andThen (write_archive_file fs w e destination limits 0) (\<lambda>w copied.
             (w, Inr (summary\<lparr>is_bytes_copied := copied, is_files_copied := 1\<rparr>))))
          (\<lambda>w summary. (w, read_trailing_summaries rest summary)))"

section \<open>The end of the archive\<close>

definition TAR_BLOCK_SIZE :: nat where "TAR_BLOCK_SIZE = 512"

text \<open>
  A block is filled byte by byte until it is full, the reader ends or a read fails. None stands for
  the end of the reader before the first byte of a block.
\<close>

fun read_tar_block ::
  "(io_error, u8) result list \<Rightarrow> bytes \<Rightarrow> (transfer_error_kind, (bytes \<times> (io_error, u8) result list) option) result" where
  "read_tar_block reader block =
     (if length block < TAR_BLOCK_SIZE then (case reader of
          [] \<Rightarrow> if block = [] then Inr None else Inl TkFailed
        | Inl _ # _ \<Rightarrow> Inl TkFailed
        | Inr b # rest \<Rightarrow> read_tar_block rest (block @ [b]))
      else Inr (Some (block, reader)))"

declare read_tar_block.simps [simp del]

definition all_zero :: "bytes \<Rightarrow> bool" where
  "all_zero block = list_all (\<lambda>b. b = 0) block"

lemma read_tar_block_shorter:
  "read_tar_block reader block = Inr (Some (full, rest)) \<Longrightarrow>
     length full = max TAR_BLOCK_SIZE (length block) \<and>
     map Inr full @ rest = map Inr block @ reader"
  by (induction reader block rule: read_tar_block.induct)
    (subst (asm) (2) read_tar_block.simps, auto split: if_splits list.splits sum.splits)

lemma read_tar_block_consumes:
  assumes "read_tar_block reader [] = Inr (Some (full, rest))"
  shows "length rest < length reader"
proof -
  have "length full = 512" and "map Inr full @ rest = reader"
    using read_tar_block_shorter [OF assms] by (simp_all add: TAR_BLOCK_SIZE_def)
  from this(2) have "length full + length rest = length reader"
    by (metis length_append length_map)
  with \<open>length full = 512\<close> show ?thesis by simp
qed

function skip_zero_blocks :: "(io_error, u8) result list \<Rightarrow> (transfer_error_kind, unit) result" where
  "skip_zero_blocks reader = (case read_tar_block reader [] of
      Inl e \<Rightarrow> Inl e
    | Inr None \<Rightarrow> Inr ()
    | Inr (Some (block, rest)) \<Rightarrow>
        if \<not> all_zero block then Inl TkSourceUnsupported else skip_zero_blocks rest)"
  by pat_completeness auto
termination
  by (relation "measure length") (auto dest: read_tar_block_consumes)

declare skip_zero_blocks.simps [simp del]

definition validate_archive_terminator :: "(io_error, u8) result list \<Rightarrow> (transfer_error_kind, unit) result" where
  "validate_archive_terminator reader = (case read_tar_block reader [] of
      Inl e \<Rightarrow> Inl e
    | Inr None \<Rightarrow> Inl TkFailed
    | Inr (Some (block, rest)) \<Rightarrow>
        if \<not> all_zero block then Inl TkSourceUnsupported else skip_zero_blocks rest)"

section \<open>The destination\<close>

definition ensure_merge_destination_is_compatible ::
  "link_meta \<Rightarrow> import_request \<Rightarrow> (transfer_error_kind, unit) result" where
  "ensure_merge_destination_is_compatible meta req =
     (if lm_is_symlink meta then Inl TkDestinationUnsupported
      else case ir_source_type req of
          SourceFile \<Rightarrow> if lm_is_dir meta then Inl TkDestinationUnsupported else Inr ()
        | _ \<Rightarrow> if \<not> lm_is_dir meta then Inl TkDestinationUnsupported else Inr ())"

definition prepare_parent ::
  "'w transfer_fs \<Rightarrow> compiled_sandbox option \<Rightarrow> 'w \<Rightarrow> pathbuf \<Rightarrow> import_request \<Rightarrow>
   'w \<times> (transfer_error_kind, unit) result" where
  "prepare_parent fs sb w destination req = (case path_parent destination of
      None \<Rightarrow> (w, Inr ())
    | Some parent \<Rightarrow>
        let parent_exists = tf_is_dir fs w parent
        in if ir_create_parent req
           then andThen (w, if \<not> parent_exists then authorize_write_path fs sb w parent else Inr ()) (\<lambda>w _.
             internal (tf_create_dir_all fs w parent))
           else if \<not> parent_exists then (w, Inl TkParentMissing) else (w, Inr ()))"

definition prepare_destination ::
  "'w transfer_fs \<Rightarrow> compiled_sandbox option \<Rightarrow> 'w \<Rightarrow> pathbuf \<Rightarrow> import_request \<Rightarrow>
   'w \<times> (transfer_error_kind, bool) result" where
  "prepare_destination fs sb w destination req =
     andThen (prepare_parent fs sb w destination req) (\<lambda>w _.
       case tf_symlink_metadata fs w destination of
         Inr meta \<Rightarrow> (case ir_overwrite req of
             OverwriteFail \<Rightarrow> (w, Inl TkDestinationExists)
           | OverwriteMerge \<Rightarrow>
               (w, bindR (ensure_merge_destination_is_compatible meta req) (\<lambda>_. Inr False))
           | OverwriteReplace \<Rightarrow>
               if ir_source_type req = SourceMultiple
               then (w, bindR (ensure_merge_destination_is_compatible meta req) (\<lambda>_. Inr True))
               else andThen (w, authorize_existing_path_recursive fs sb w destination 0) (\<lambda>w _.
                    andThen (remove_existing_path fs w destination meta) (\<lambda>w _. (w, Inr True))))
       | Inl IoNotFound \<Rightarrow> (w, Inr False)
       | Inl _ \<Rightarrow> (w, Inl TkInternal))"

definition extract_archive_from_reader ::
  "'w transfer_fs \<Rightarrow> compiled_sandbox option \<Rightarrow> transfer_limits \<Rightarrow> pathbuf \<Rightarrow> import_request \<Rightarrow>
   'w \<Rightarrow> tar_archive \<Rightarrow> bool \<Rightarrow> replace_units \<Rightarrow> 'w \<times> (transfer_error_kind, import_response) result" where
  "extract_archive_from_reader fs sb limits destination req w archive replaced units =
     (let summary = new_import_summary req replaced
      in andThen (case ir_source_type req of
            SourceFile \<Rightarrow> extract_single_file_archive fs sb limits destination (ir_symlink_mode req) w
              (ta_entries archive) summary
          | _ \<Rightarrow> extract_tree_archive fs sb limits destination (ir_symlink_mode req) w
              (ta_entries archive) units summary)
         (\<lambda>w summary. (w, bindR (validate_archive_terminator (ta_rest archive)) (\<lambda>_. Inr summary))))"

definition ensure_transfer_compression_supported ::
  "bool \<Rightarrow> transfer_compression \<Rightarrow> (transfer_error_kind, unit) result" where
  "ensure_transfer_compression_supported supported c =
     (if c = CompressionZstd \<and> \<not> supported then Inl TkCompressionUnsupported else Inr ())"

text \<open>
  The request as the daemon serves it. The archive is None when its reader cannot be opened; it is
  opened only after the destination is prepared.
\<close>

definition import_archive_local ::
  "'w transfer_fs \<Rightarrow> compiled_sandbox option \<Rightarrow> bool \<Rightarrow> transfer_limits \<Rightarrow> 'w \<Rightarrow> import_request \<Rightarrow>
   tar_archive option \<Rightarrow> 'w \<times> (transfer_error_kind, import_response) result" where
  "import_archive_local fs sb supported limits w req archive =
     andThen (w, ensure_transfer_compression_supported supported (ir_compression req)) (\<lambda>w _.
       let destination = rhp_path (resolve_path_text_for_operation (ir_destination_path req))
       in andThen (w, authorize_write_path fs sb w destination) (\<lambda>w _.
          andThen (prepare_destination fs sb w destination req) (\<lambda>w replaced.
          andThen (w, ok_or archive TkInternal) (\<lambda>w archive.
            extract_archive_from_reader fs sb limits destination req w archive replaced
              (new_replace_units req)))))"

record path_info =
  pi_exists :: bool
  pi_is_directory :: bool

definition path_info_for_path ::
  "'w transfer_fs \<Rightarrow> compiled_sandbox option \<Rightarrow> 'w \<Rightarrow> rstr \<Rightarrow> (transfer_error_kind, path_info) result" where
  "path_info_for_path fs sb w raw =
     (let path = rhp_path (resolve_path_text_for_operation raw)
      in bindR (authorize_write_path fs sb w path) (\<lambda>_. case tf_symlink_metadata fs w path of
           Inr meta \<Rightarrow> if lm_is_symlink meta then Inl TkDestinationUnsupported
                       else Inr \<lparr>pi_exists = True, pi_is_directory = lm_is_dir meta\<rparr>
         | Inl IoNotFound \<Rightarrow> Inr \<lparr>pi_exists = False, pi_is_directory = False\<rparr>
         | Inl _ \<Rightarrow> Inl TkInternal))"

section \<open>What an import may change\<close>

definition may_change :: "'w transfer_fs \<Rightarrow> compiled_sandbox option \<Rightarrow> 'w \<Rightarrow> pathbuf \<Rightarrow> bool" where
  "may_change fs sb w p \<longleftrightarrow> sb = None \<or> authorize_path (tf_canon fs w) sb Write p = Inr ()"

definition is_link :: "'w transfer_fs \<Rightarrow> 'w \<Rightarrow> pathbuf \<Rightarrow> bool" where
  "is_link fs w p \<longleftrightarrow> (\<exists>m. tf_symlink_metadata fs w p = Inr m \<and> lm_is_symlink m)"

text \<open>
  A path below the destination may be written when the destination and every directory on the way
  to the path, and the path itself, are authorised and are no symbolic links. The two checks read
  the worlds \<open>w0\<close> and \<open>w1\<close>.
\<close>

definition writable_below ::
  "'w transfer_fs \<Rightarrow> compiled_sandbox option \<Rightarrow> 'w \<Rightarrow> 'w \<Rightarrow> pathbuf \<Rightarrow> rstr list \<Rightarrow> bool" where
  "writable_below fs sb w0 w1 root ns \<longleftrightarrow>
     (\<forall>k \<le> length ns. may_change fs sb w0 (root @ map Normal (take k ns)) \<and>
                      \<not> is_link fs w1 (root @ map Normal (take k ns)))"

text \<open>What \<open>remove_dir_all\<close> reaches: the path and, through directories, the entries of each.\<close>

inductive tree_of :: "'w transfer_fs \<Rightarrow> 'w \<Rightarrow> pathbuf \<Rightarrow> pathbuf \<Rightarrow> bool" for fs :: "'w transfer_fs" and w :: 'w where
  tree_self: "tree_of fs w p p"
| tree_child: "tf_symlink_metadata fs w p = Inr m \<Longrightarrow> lm_is_dir m \<Longrightarrow> tf_read_dir fs w p = Inr items \<Longrightarrow>
    Inr c \<in> set items \<Longrightarrow> tree_of fs w c q \<Longrightarrow> tree_of fs w p q"

definition tree_authorized :: "'w transfer_fs \<Rightarrow> compiled_sandbox option \<Rightarrow> 'w \<Rightarrow> pathbuf \<Rightarrow> bool" where
  "tree_authorized fs sb w p \<longleftrightarrow>
     (\<forall>q m. tree_of fs w p q \<longrightarrow> tf_symlink_metadata fs w q = Inr m \<longrightarrow> may_change fs sb w q)"

text \<open>
  A property of worlds is closed under the changes an import into \<open>root\<close> may make: writing below
  the root where that is allowed, links whose target has no parent steps and is authorised, removing
  trees at the root or right below it that are authorised throughout, creating the root when it is
  authorised, and creating its parent when that exists or is authorised.
\<close>

definition closed_write :: "'w transfer_fs \<Rightarrow> compiled_sandbox option \<Rightarrow> pathbuf \<Rightarrow> ('w \<Rightarrow> bool) \<Rightarrow> bool" where
  "closed_write fs sb root P \<longleftrightarrow>
     (\<forall>w0 w1 w ns. P w0 \<longrightarrow> P w1 \<longrightarrow> P w \<longrightarrow> writable_below fs sb w0 w1 root ns \<longrightarrow>
        (let p = root @ map Normal ns in
           P (fst (tf_create_dir_all fs w p)) \<and> P (fst (tf_remove_file fs w p)) \<and>
           P (fst (tf_create fs w p)) \<and> (\<forall>c. P (fst (tf_copy fs w p c))) \<and>
           P (fst (tf_set_executable fs w p)) \<and>
           (\<forall>w2 ts. P w2 \<longrightarrow> authorize_symlink_target fs sb w2 p (map Normal ts) = Inr () \<longrightarrow>
              P (fst (tf_symlink fs w (map Normal ts) p)))))"

definition closed_remove :: "'w transfer_fs \<Rightarrow> compiled_sandbox option \<Rightarrow> pathbuf \<Rightarrow> ('w \<Rightarrow> bool) \<Rightarrow> bool" where
  "closed_remove fs sb root P \<longleftrightarrow>
     (\<forall>w ns. P w \<longrightarrow> length ns \<le> 1 \<longrightarrow> tree_authorized fs sb w (root @ map Normal ns) \<longrightarrow>
        P (fst (tf_remove_dir_all fs w (root @ map Normal ns))) \<and>
        P (fst (tf_remove_file fs w (root @ map Normal ns))))"

definition closed_create :: "'w transfer_fs \<Rightarrow> compiled_sandbox option \<Rightarrow> pathbuf \<Rightarrow> ('w \<Rightarrow> bool) \<Rightarrow> bool" where
  "closed_create fs sb root P \<longleftrightarrow>
     (\<forall>w0 w. P w0 \<longrightarrow> P w \<longrightarrow>
        (may_change fs sb w0 root \<longrightarrow> P (fst (tf_create_dir_all fs w root))) \<and>
        (\<forall>d. path_parent root = Some d \<longrightarrow> tf_is_dir fs w0 d \<or> may_change fs sb w0 d \<longrightarrow>
           P (fst (tf_create_dir_all fs w d))))"

definition closed_under_import :: "'w transfer_fs \<Rightarrow> compiled_sandbox option \<Rightarrow> pathbuf \<Rightarrow> ('w \<Rightarrow> bool) \<Rightarrow> bool" where
  "closed_under_import fs sb root P \<longleftrightarrow>
     closed_write fs sb root P \<and> closed_remove fs sb root P \<and> closed_create fs sb root P"

lemma iterR_ok: "iterR f xs = Inr () \<longleftrightarrow> (\<forall>x\<in>set xs. f x = Inr ())"
  by (induction xs) (auto simp: bindR_eq_Inr)

lemma authorize_write_path_ok:
  "authorize_write_path fs sb w p = Inr () \<longleftrightarrow> authorize_path (tf_canon fs w) sb Write p = Inr ()"
  by (cases "authorize_path (tf_canon fs w) sb Write p") (auto simp: authorize_write_path_def)

lemma authorize_write_path_may: "authorize_write_path fs sb w p = Inr u \<Longrightarrow> may_change fs sb w p"
  using authorize_write_path_ok [of fs sb w p] by (simp add: may_change_def)

lemma authorize_existing_tree:
  assumes "tree_of fs w p q" and "tf_symlink_metadata fs w q = Inr m" and "sb \<noteq> None"
    and "authorize_existing_path_recursive fs sb w p depth = Inr ()"
  shows "may_change fs sb w q"
  using assms
proof (induction arbitrary: depth rule: tree_of.induct)
  case (tree_self p)
  then show ?case
    by (subst (asm) authorize_existing_path_recursive.simps)
      (auto simp: bindR_eq_Inr split: if_splits dest: authorize_write_path_may)
next
  case (tree_child p m' items c q)
  from tree_child.prems(3) tree_child.hyps(1-3) \<open>sb \<noteq> None\<close>
  have "\<forall>x\<in>set items. (case x of Inl _ \<Rightarrow> Inl TkInternal
      | Inr q \<Rightarrow> authorize_existing_path_recursive fs sb w q (Suc depth)) = Inr ()"
    by (subst (asm) authorize_existing_path_recursive.simps)
      (auto simp: bindR_eq_Inr iterR_ok split: if_splits)
  with tree_child.hyps(4) have "authorize_existing_path_recursive fs sb w c (Suc depth) = Inr ()" by fastforce
  then show ?case using tree_child.IH tree_child.prems by blast
qed

lemma authorize_existing_ok:
  "authorize_existing_path_recursive fs sb w p depth = Inr u \<Longrightarrow> tree_authorized fs sb w p"
  unfolding tree_authorized_def
  by (metis (full_types) authorize_existing_tree may_change_def old.unit.exhaust)

lemma each_prefix_ok:
  "each_prefix f root (map Normal ns) = Inr () \<longleftrightarrow>
     (\<forall>k. 0 < k \<and> k \<le> length ns \<longrightarrow> f (root @ map Normal (take k ns)) = Inr ())"
proof (induction ns arbitrary: root)
  case (Cons n ns)
  show ?case (is "?l = (\<forall>k. ?Q k)")
  proof -
    have "(\<forall>k. ?Q k) \<longleftrightarrow> (\<forall>k. ?Q (Suc k))" by (metis gr0_conv_Suc less_numeral_extra(3))
    also have "\<dots> \<longleftrightarrow> f (root @ [Normal n]) = Inr () \<and>
        (\<forall>k. 0 < k \<and> k \<le> length ns \<longrightarrow> f ((root @ [Normal n]) @ map Normal (take k ns)) = Inr ())"
      by (auto simp: gr0_conv_Suc) (metis append_Nil2 list.simps(8) not0_implies_Suc take0)
    finally show ?thesis by (simp add: Let_def bindR_eq_Inr Cons.IH)
  qed
qed simp

lemma ensure_not_existing_symlink_ok: "ensure_not_existing_symlink fs w p = Inr u \<Longrightarrow> \<not> is_link fs w p"
  by (auto simp: ensure_not_existing_symlink_def is_link_def split: if_splits)

lemma materialized_writable:
  assumes "authorize_materialized_path fs sb w root (root @ map Normal ns) = Inr u"
    and "ensure_no_existing_symlink_in_path fs w root (root @ map Normal ns) = Inr v"
  shows "writable_below fs sb w w root ns"
  unfolding writable_below_def
proof (intro allI impI)
  fix k assume k: "k \<le> length ns"
  let ?p = "root @ map Normal (take k ns)"
  have links: "ensure_not_existing_symlink fs w root = Inr ()"
      "each_prefix (ensure_not_existing_symlink fs w) root (map Normal ns) = Inr ()"
    using assms(2) by (auto simp: ensure_no_existing_symlink_in_path_def bindR_eq_Inr)
  have "ensure_not_existing_symlink fs w ?p = Inr ()"
    using links k by (cases "k = 0") (auto simp: each_prefix_ok)
  moreover have "may_change fs sb w ?p"
  proof (cases "sb = None")
    case False
    then have "authorize_write_path fs sb w root = Inr ()"
        "each_prefix (authorize_write_path fs sb w) root (map Normal ns) = Inr ()"
      using assms(1) by (auto simp: authorize_materialized_path_def bindR_eq_Inr)
    then have "authorize_write_path fs sb w ?p = Inr ()"
      using k by (cases "k = 0") (auto simp: each_prefix_ok)
    then show ?thesis by (rule authorize_write_path_may)
  qed (simp add: may_change_def)
  ultimately show "may_change fs sb w ?p \<and> \<not> is_link fs w ?p"
    by (simp add: ensure_not_existing_symlink_ok)
qed

lemma normalize_loop_Normals:
  "normalize_archive_loop acc raw = Inr rel \<Longrightarrow> \<exists>ns. rel = acc @ map Normal ns"
proof (induction acc raw rule: normalize_archive_loop.induct)
  case (3 acc n cs)
  then obtain ns where "rel = (acc @ [Normal n]) @ map Normal ns" by auto
  then have "rel = acc @ map Normal (n # ns)" by simp
  then show ?case by blast
qed (auto intro: exI [of _ "[]"])

lemma normalize_entry_Normals: "normalize_archive_entry_path raw = Inr rel \<Longrightarrow> \<exists>ns. rel = map Normal ns"
  using normalize_loop_Normals by (fastforce simp: normalize_archive_entry_path_def)

lemma join_Normals [simp]: "pathbuf_join root (map Normal ns) = root @ map Normal ns"
  by (cases ns) (auto simp: pathbuf_join_def has_root_def filter_id_conv)

lemma component_of_Normal: "s \<noteq> lit ''..'' \<Longrightarrow> component_of s = Normal s"
  by (simp add: component_of_def)

lemma validate_target_Normals:
  assumes "validate_relative_symlink_target t = Inr q"
  shows "\<exists>ts. q = map Normal ts"
proof -
  define s where "s = map (\<lambda>c. if c = c_backslash then c_slash else c) t"
  define ss where "ss = split_on c_slash s"
  have q: "q = components s" and ns: "\<not> starts_with [c_slash] s"
    and parts: "\<forall>part\<in>set ss. part \<noteq> [] \<and> part \<noteq> lit ''.'' \<and> part \<noteq> lit ''..''"
    using assms unfolding validate_relative_symlink_target_def s_def ss_def
    by (auto simp: Let_def list_ex_iff split: if_splits)
  have "hd ss \<in> set ss" by (simp add: ss_def)
  then have "components s = segments ss" using ns parts by (auto simp: components_def ss_def Let_def)
  also have "\<dots> = map component_of ss" using parts by (simp add: segments_def filter_id_conv)
  also have "\<dots> = map Normal ss" using parts by (simp add: component_of_Normal)
  finally show ?thesis using q by blast
qed

lemma internal_world [simp]: "fst (internal m) = fst m"
  by (simp add: internal_def)

lemma closed_writeD:
  assumes "closed_under_import fs sb root P" and "P w0" and "P w1" and "writable_below fs sb w0 w1 root ns" and "P w"
  shows "P (fst (tf_create_dir_all fs w (root @ map Normal ns)))"
    and "P (fst (tf_remove_file fs w (root @ map Normal ns)))"
    and "P (fst (tf_create fs w (root @ map Normal ns)))"
    and "P (fst (tf_copy fs w (root @ map Normal ns) c))"
    and "P (fst (tf_set_executable fs w (root @ map Normal ns)))"
    and "P w2 \<Longrightarrow> authorize_symlink_target fs sb w2 (root @ map Normal ns) (map Normal ts) = Inr () \<Longrightarrow>
      P (fst (tf_symlink fs w (map Normal ts) (root @ map Normal ns)))"
  using assms unfolding closed_under_import_def closed_write_def Let_def by blast+

lemma writable_below_butlast: "writable_below fs sb w0 w1 root ns \<Longrightarrow> writable_below fs sb w0 w1 root (butlast ns)"
  by (auto simp: writable_below_def take_butlast butlast_conv_take min_def)

text \<open>The parent of the destination may be created again once it exists or was authorised.\<close>

definition parent_free :: "'w transfer_fs \<Rightarrow> pathbuf \<Rightarrow> ('w \<Rightarrow> bool) \<Rightarrow> bool" where
  "parent_free fs root P \<longleftrightarrow>
     (\<forall>d w. path_parent root = Some d \<longrightarrow> P w \<longrightarrow> P (fst (tf_create_dir_all fs w d)))"

lemma create_parent_confined:
  assumes "closed_under_import fs sb root P" and "P w0" and "P w1" and "writable_below fs sb w0 w1 root ns" and "P w"
    and "ns = [] \<Longrightarrow> parent_free fs root P"
  shows "P (fst (create_parent_dir fs w (root @ map Normal ns)))"
proof (cases "ns = []")
  case True
  then show ?thesis using assms(5,6) by (auto simp: create_parent_dir_def parent_free_def split: option.splits)
next
  case False
  then have "path_parent (root @ map Normal ns) = Some (root @ map Normal (butlast ns))"
    by (simp add: path_parent_def butlast_append map_butlast last_map)
  then show ?thesis
    using closed_writeD(1) [OF assms(1-3) writable_below_butlast [OF assms(4)] assms(5)]
    by (simp add: create_parent_dir_def)
qed

lemma write_archive_file_confined:
  assumes "closed_under_import fs sb root P" and "P w0" and "P w"
    and "\<not> is_link fs w (root @ map Normal ns) \<Longrightarrow> writable_below fs sb w0 w root ns"
    and "ns = [] \<Longrightarrow> parent_free fs root P"
  shows "P (fst (write_archive_file fs w e (root @ map Normal ns) limits k))"
  unfolding write_archive_file_def
proof (rule pure_step [where P = P, OF assms(3)])
  fix u assume "ensure_not_existing_symlink fs w (root @ map Normal ns) = Inr u"
  then have ok: "writable_below fs sb w0 w root ns" by (intro assms(4) ensure_not_existing_symlink_ok)
  note effect = closed_writeD [OF assms(1-3) ok]
  note parent = create_parent_confined [OF assms(1-3) ok _ assms(5)]
  show "P (fst (andThen (create_parent_dir fs w (root @ map Normal ns)) (\<lambda>w _.
     andThen (w, ok_or (te_size e) TkInternal) (\<lambda>w entry_size.
     andThen (w, ok_or (te_mode e) TkInternal) (\<lambda>w mode.
     andThen (w, ensure_entry_within_limits entry_size k limits) (\<lambda>w _.
     andThen (internal (tf_create fs w (root @ map Normal ns))) (\<lambda>w _.
     andThen (internal (tf_copy fs w (root @ map Normal ns) (take entry_size (te_data e)))) (\<lambda>w copied.
     andThen (w, ensureR (copied = entry_size) TkInternal) (\<lambda>w _.
     andThen (restore_executable_bits fs w (root @ map Normal ns) mode) (\<lambda>w _. (w, Inr copied)))))))))))"
    by (intro andThen_world [where P = P] pure_step [where P = P])
      (use assms(3) in \<open>auto simp: restore_executable_bits_def intro: effect parent\<close>)
qed

lemma remove_before_symlink_confined:
  assumes "closed_under_import fs sb root P" and "P w0" and "P w1" and "writable_below fs sb w0 w1 root ns" and "P w"
  shows "P (fst (remove_existing_file_before_symlink fs w (root @ map Normal ns)))"
  using closed_writeD(2) [OF assms] assms(5)
  by (auto simp: remove_existing_file_before_symlink_def split: sum.splits io_error.splits)

lemma symlink_action_Normals: "symlink_action mode e = Inr (ActPreserve t) \<Longrightarrow> \<exists>ts. t = map Normal ts"
  by (auto simp: symlink_action_def result_simps split: transfer_symlink_mode.splits dest: validate_target_Normals)

lemma write_archive_symlink_confined:
  assumes "closed_under_import fs sb root P" and "P w0" and "P w"
    and "\<not> is_link fs w (root @ map Normal ns) \<Longrightarrow> writable_below fs sb w0 w root ns"
    and "ns = [] \<Longrightarrow> parent_free fs root P"
  shows "P (fst (write_archive_symlink fs sb w e (root @ map Normal ns) mode summary))"
proof -
  let ?p = "root @ map Normal ns"
  have preserve: "P (fst (andThen (w, ensure_not_existing_symlink fs w ?p) (\<lambda>w _.
          andThen (create_parent_dir fs w ?p) (\<lambda>w _.
          andThen (remove_existing_file_before_symlink fs w ?p) (\<lambda>w _.
          andThen (internal (tf_symlink fs w (map Normal ts) ?p)) (\<lambda>w _. (w, Inr s)))))))"
    if target: "authorize_symlink_target fs sb w ?p (map Normal ts) = Inr ()" for ts and s :: import_response
  proof (rule pure_step [where P = P, OF assms(3)])
    fix u assume "ensure_not_existing_symlink fs w ?p = Inr u"
    then have ok: "writable_below fs sb w0 w root ns" by (intro assms(4) ensure_not_existing_symlink_ok)
    note steps = create_parent_confined [OF assms(1-3) ok _ assms(5)]
      remove_before_symlink_confined [OF assms(1-3) ok] closed_writeD(6) [OF assms(1-3) ok _ assms(3) target]
    show "P (fst (andThen (create_parent_dir fs w ?p) (\<lambda>w _.
          andThen (remove_existing_file_before_symlink fs w ?p) (\<lambda>w _.
          andThen (internal (tf_symlink fs w (map Normal ts) ?p)) (\<lambda>w _. (w, Inr s))))))"
      by (intro andThen_world [where P = P]) (use assms(3) in \<open>auto intro: steps\<close>)
  qed
  show ?thesis
    unfolding write_archive_symlink_def
    by (rule pure_step [where P = P, OF assms(3)])
      (use assms(3) in \<open>auto split: symlink_import_action.splits dest!: symlink_action_Normals
        intro!: pure_step [where P = P] preserve\<close>)
qed

lemma remove_tree_confined:
  assumes "closed_under_import fs sb root P" and "P w" and "length ns \<le> 1"
    and "authorize_existing_path_recursive fs sb w (root @ map Normal ns) 0 = Inr u"
  shows "P (fst (remove_existing_path fs w (root @ map Normal ns) meta))"
  using assms authorize_existing_ok [OF assms(4)]
  by (auto simp: remove_existing_path_def closed_under_import_def closed_remove_def)

lemma prepare_entry_confined:
  assumes "closed_under_import fs sb root P" and "P w"
  shows "P (fst (prepare_entry fs sb w units root (map Normal ns)))"
proof (cases ns)
  case (Cons n rest)
  have join: "pathbuf_join root [Normal n] = root @ map Normal [n]" by simp
  have "P (fst (replace_existing_path fs sb w (root @ map Normal [n])))"
    unfolding replace_existing_path_def
    by (auto split: sum.splits io_error.splits simp del: list.map
        intro!: pure_step [where P = P] remove_tree_confined [OF assms] assms(2))
  then show ?thesis
    using assms(2) unfolding prepare_entry_def Cons list.map list.case Let_def join
    by (auto simp del: list.map intro!: andThen_world [where P = P])
qed (use assms in \<open>simp add: prepare_entry_def\<close>)

lemma materialize_confined:
  assumes "closed_under_import fs sb root P" and "P w" and "writable_below fs sb w w root ns" and "ns \<noteq> []"
  shows "P (fst (materialize_entry fs sb limits mode w e (root @ map Normal ns) summary))"
  using assms(2,4) closed_writeD(1) [OF assms(1,2,2,3,2)]
    write_archive_symlink_confined [OF assms(1,2,2) assms(3)]
    write_archive_file_confined [OF assms(1,2,2) assms(3)]
  unfolding materialize_entry_def by (auto intro!: andThen_world [where P = P])

lemma place_entry_confined:
  assumes "closed_under_import fs sb root P" and "P w" and "ns \<noteq> []"
  shows "P (fst (place_entry fs sb limits root mode w e (map Normal ns) units summary))"
  unfolding place_entry_def Let_def join_Normals
proof (rule pure_step [where P = P, OF assms(2)], rule andThen_world [where P = P])
  show "P (fst (prepare_entry fs sb w units root (map Normal ns)))"
    by (rule prepare_entry_confined [OF assms(1,2)])
next
  fix w units assume w: "P w"
  show "P (fst (andThen (w, authorize_materialized_path fs sb w root (root @ map Normal ns)) (\<lambda>w _.
         andThen (w, ensure_no_existing_symlink_in_path fs w root (root @ map Normal ns)) (\<lambda>w _.
         andThen (materialize_entry fs sb limits mode w e (root @ map Normal ns) summary) (\<lambda>w summary.
           (w, Inr (units :: replace_units, summary)))))))"
    by (intro pure_step [where P = P, OF w] andThen_world [where P = P]
        materialize_confined [OF assms(1) w materialized_writable assms(3)]) (assumption | simp)+
qed

lemma tree_entry_confined:
  assumes "closed_under_import fs sb root P" and "P w"
  shows "P (fst (extract_tree_archive_entry fs sb limits root mode w e units summary))"
proof -
  have "P (fst (place_entry fs sb limits root mode w e rel units summary))"
    if "normalize_archive_entry_path raw = Inr rel" and "rel \<noteq> []" for raw rel
  proof -
    from that(1) obtain ns where "rel = map Normal ns" using normalize_entry_Normals by blast
    with that(2) show ?thesis using place_entry_confined [OF assms, of ns] by simp
  qed
  then show ?thesis
    unfolding extract_tree_archive_entry_def
    by (intro pure_step [where P = P, OF assms(2)]) (simp add: pure_step [where P = P] assms(2))
qed

lemma tree_entries_confined:
  assumes "closed_under_import fs sb root P" and "P w"
  shows "P (fst (extract_tree_entries fs sb limits root mode w es units summary))"
  using assms(2)
proof (induction es arbitrary: w units summary)
  case (Cons e es)
  then show ?case
    by (cases e) (auto intro!: andThen_world [where P = P] tree_entry_confined [OF assms(1)])
qed simp

lemma single_file_confined:
  assumes "closed_under_import fs sb root P" and "P w0" and "may_change fs sb w0 root" and "P w"
    and "parent_free fs root P"
  shows "P (fst (extract_single_file_archive fs sb limits root mode w es summary))"
proof -
  have ok: "\<not> is_link fs w (root @ map Normal []) \<Longrightarrow> writable_below fs sb w0 w root []"
    using assms(3) by (simp add: writable_below_def)
  note steps = write_archive_file_confined [OF assms(1,2,4) ok assms(5), simplified]
    write_archive_symlink_confined [OF assms(1,2,4) ok assms(5), simplified]
  show ?thesis
    unfolding extract_single_file_archive_def
    by (auto split: list.splits option.splits intro!: andThen_world [where P = P] steps assms(4))
qed

lemma prepare_parent_confined:
  assumes "closed_under_import fs sb root P" and "P w"
  shows "P (fst (prepare_parent fs sb w root req))"
    and "snd (prepare_parent fs sb w root req) = Inr u \<Longrightarrow> parent_free fs root P"
proof -
  have create: "P (fst (tf_create_dir_all fs v d))"
    if "path_parent root = Some d" and "tf_is_dir fs w d \<or> may_change fs sb w d" and "P v" for d v
    using assms that by (auto simp: closed_under_import_def closed_create_def)
  show "P (fst (prepare_parent fs sb w root req))"
    unfolding prepare_parent_def Let_def
    by (auto split: option.splits intro!: pure_step [where P = P] create assms(2)
        dest: authorize_write_path_may)
  show "parent_free fs root P" if "snd (prepare_parent fs sb w root req) = Inr u"
    unfolding parent_free_def
  proof (intro allI impI)
    fix d v assume d: "path_parent root = Some d" and v: "P v"
    have "tf_is_dir fs w d \<or> may_change fs sb w d"
      using that d by (cases "authorize_write_path fs sb w d")
        (auto simp: prepare_parent_def Let_def dest: authorize_write_path_may split: if_splits)
    then show "P (fst (tf_create_dir_all fs v d))" using create d v by blast
  qed
qed

lemma prepare_destination_confined:
  assumes "closed_under_import fs sb root P" and "P w"
  shows "P (fst (prepare_destination fs sb w root req))"
    and "snd (prepare_destination fs sb w root req) = Inr b \<Longrightarrow> parent_free fs root P"
proof -
  note parent = prepare_parent_confined [OF assms]
  note remove = remove_tree_confined [where ns = "[]", simplified, OF assms(1)]
  show "P (fst (prepare_destination fs sb w root req))"
    unfolding prepare_destination_def
    by (rule andThen_world [where P = P, OF parent(1)])
      (simp split: sum.split io_error.split transfer_overwrite.split,
        intro conjI impI allI pure_step [where P = P] andThen_world [where P = P] remove; simp)
  show "parent_free fs root P" if "snd (prepare_destination fs sb w root req) = Inr b"
    using andThen_ok [OF that [unfolded prepare_destination_def]] parent(2) [of req] by auto
qed

lemma extract_confined:
  assumes "closed_under_import fs sb root P" and "P w0" and "may_change fs sb w0 root" and "P w"
    and "parent_free fs root P"
  shows "P (fst (extract_archive_from_reader fs sb limits root req w archive replaced units))"
proof -
  have "P (fst (tf_create_dir_all fs w root))"
    using assms by (auto simp: closed_under_import_def closed_create_def)
  then have tree: "P (fst (extract_tree_archive fs sb limits root mode w es us summary))" for mode es us summary
    unfolding extract_tree_archive_def
    by (auto intro!: andThen_world [where P = P] tree_entries_confined [OF assms(1)])
  show ?thesis
    unfolding extract_archive_from_reader_def Let_def
    by (rule andThen_world [where P = P])
      (auto split: transfer_source_type.splits intro: tree single_file_confined [OF assms])
qed

section \<open>Properties\<close>


text \<open>
  A file system for examples: no path but the directory \<open>/w\<close> exists, and the world records the
  paths that were changed.
\<close>

definition log_tfs :: "pathbuf list transfer_fs" where
  "log_tfs = \<lparr>tf_canon = (\<lambda>w p. CanonOk p), tf_is_dir = (\<lambda>w p. p = [RootDir, Normal (lit ''w'')]),
     tf_symlink_metadata = (\<lambda>w p. Inl IoNotFound), tf_read_dir = (\<lambda>w p. Inl IoNotFound),
     tf_create_dir_all = (\<lambda>w p. (w @ [p], Inr ())), tf_remove_dir_all = (\<lambda>w p. (w @ [p], Inr ())),
     tf_remove_file = (\<lambda>w p. (w @ [p], Inr ())), tf_create = (\<lambda>w p. (w @ [p], Inr ())),
     tf_copy = (\<lambda>w p c. (w @ [p], Inr (length c))), tf_set_executable = (\<lambda>w p. (w @ [p], Inr ())),
     tf_symlink = (\<lambda>w t p. (w @ [p], Inr ()))\<rparr>"

definition sample_root :: pathbuf where
  "sample_root = [RootDir, Normal (lit ''w''), Normal (lit ''in'')]"

definition below_root :: "pathbuf list \<Rightarrow> bool" where
  "below_root log = list_all (\<lambda>p. p = butlast sample_root \<or> strip_prefix sample_root p \<noteq> None) log"

definition sample_request :: "transfer_source_type \<Rightarrow> import_request" where
  "sample_request t = \<lparr>ir_destination_path = lit ''/w/in'', ir_overwrite = OverwriteMerge, ir_create_parent = True,
     ir_source_type = t, ir_compression = CompressionNone, ir_symlink_mode = SymlinkPreserve\<rparr>"

definition sample_entry :: "tar_type \<Rightarrow> rstr \<Rightarrow> rstr \<Rightarrow> tar_entry" where
  "sample_entry t name data = \<lparr>te_path = Some (components name), te_type = t, te_size = Some (length data),
     te_mode = Some 0x1ED, te_link_name = Some (Some data), te_data = as_bytes data, te_summary = None\<rparr>"

definition sample_entries :: "tar_entry option list" where
  "sample_entries = [Some (sample_entry TarDir (lit ''d'') []),
     Some (sample_entry TarFile (lit ''d/./f'') (lit ''abc'')),
     Some (sample_entry TarSymlink (lit ''d/l'') (lit ''f''))]"

definition escaping_archive :: tar_archive where
  "escaping_archive = \<lparr>ta_entries = sample_entries @
     [Some (sample_entry TarFile (lit ''d/../../x'') (lit ''abc''))], ta_rest = []\<rparr>"

definition sample_limits :: transfer_limits where
  "sample_limits = \<lparr>tl_max_archive_bytes = 10, tl_max_entry_bytes = 10\<rparr>"

lemma sample_destination:
  "rhp_path (resolve_path_text_for_operation (ir_destination_path (sample_request t))) = sample_root"
  by (simp add: sample_request_def) code_simp

lemma log_tfs_closed: "closed_under_import log_tfs sb sample_root below_root"
  by (auto simp: closed_under_import_def closed_write_def closed_remove_def closed_create_def Let_def
      log_tfs_def below_root_def path_parent_def sample_root_def)


section \<open>The terminator\<close>

lemma read_tar_block_None: "read_tar_block reader block = Inr None \<longleftrightarrow> reader = [] \<and> block = []"
  by (induction reader block rule: read_tar_block.induct)
    (subst read_tar_block.simps, auto simp: TAR_BLOCK_SIZE_def split: list.splits sum.splits)

lemma read_tar_block_append:
  "length block + length bs = TAR_BLOCK_SIZE \<Longrightarrow>
     read_tar_block (map Inr bs @ rest) block = Inr (Some (block @ bs, rest))"
  by (induction bs arbitrary: block; subst read_tar_block.simps) auto

lemma all_zero_iff: "all_zero block \<longleftrightarrow> block = replicate (length block) 0"
  by (induction block) (auto simp: all_zero_def)

definition zero_blocks :: "nat \<Rightarrow> (io_error, u8) result list" where
  "zero_blocks n = replicate (512 * n) (Inr 0)"

lemma zero_blocks_Suc: "zero_blocks (Suc n) = map Inr (replicate 512 0) @ zero_blocks n"
  by (simp add: zero_blocks_def replicate_add flip: map_replicate_const)

lemma read_zero_block:
  "read_tar_block (zero_blocks (Suc n)) [] = Inr (Some (replicate 512 0, zero_blocks n))"
  using read_tar_block_append [of "[]" "replicate 512 0" "zero_blocks n"]
  by (simp add: zero_blocks_Suc TAR_BLOCK_SIZE_def)

lemma read_block_zero:
  assumes "read_tar_block reader [] = Inr (Some (block, rest))" and "all_zero block"
  shows "reader = map Inr (replicate 512 0) @ rest"
proof -
  have "length block = 512" and "map Inr block @ rest = reader"
    using read_tar_block_shorter [OF assms(1)] by (simp_all add: TAR_BLOCK_SIZE_def)
  with assms(2) show ?thesis by (metis all_zero_iff)
qed

lemma skip_zero_blocks_sound: "skip_zero_blocks reader = Inr () \<Longrightarrow> \<exists>n. reader = zero_blocks n"
proof (induction reader rule: skip_zero_blocks.induct)
  case (1 reader)
  show ?case
  proof (cases "read_tar_block reader [] = Inr None")
    case True
    then show ?thesis by (auto simp: read_tar_block_None zero_blocks_def intro: exI [of _ 0])
  next
    case False
    with "1.prems" obtain block rest where b: "read_tar_block reader [] = Inr (Some (block, rest))"
        "all_zero block" "skip_zero_blocks rest = Inr ()"
      by (subst (asm) skip_zero_blocks.simps) (auto split: sum.splits option.splits if_splits)
    then obtain n where "rest = zero_blocks n" using "1.IH" by blast
    then show ?thesis using read_block_zero [OF b(1,2)] zero_blocks_Suc by metis
  qed
qed

lemma skip_zero_blocks_complete: "skip_zero_blocks (zero_blocks n) = Inr ()"
proof (induction n)
  case 0
  show ?case by (subst skip_zero_blocks.simps) (simp add: zero_blocks_def read_tar_block.simps TAR_BLOCK_SIZE_def)
next
  case (Suc n)
  then show ?case
    by (subst skip_zero_blocks.simps) (simp add: read_zero_block all_zero_def list_all_iff)
qed

lemma terminator_complete: "validate_archive_terminator (zero_blocks (Suc n)) = Inr ()"
  by (simp add: validate_archive_terminator_def read_zero_block skip_zero_blocks_complete all_zero_def list_all_iff)


section \<open>What a successful import reports\<close>

text \<open>An entry counts unless it is the transfer summary or names the destination itself.\<close>

definition entry_counts :: "tar_entry \<Rightarrow> bool" where
  "entry_counts e \<longleftrightarrow> (\<exists>raw rel. te_path e = Some raw \<and> normalize_archive_entry_path raw = Inr rel \<and>
     rel \<noteq> [] \<and> \<not> is_transfer_summary_path rel)"

definition entries_of :: "tar_type \<Rightarrow> tar_entry option list \<Rightarrow> tar_entry list" where
  "entries_of t es = filter (\<lambda>e. te_type e = t \<and> entry_counts e) (map the es)"

definition entry_bytes :: "tar_entry \<Rightarrow> nat" where
  "entry_bytes e = (case te_size e of None \<Rightarrow> 0 | Some n \<Rightarrow> n)"

definition links_kept :: "transfer_symlink_mode \<Rightarrow> tar_entry option list \<Rightarrow> nat" where
  "links_kept mode es = (if mode = SymlinkPreserve then length (entries_of TarSymlink es) else 0)"

text \<open>The growth of a summary from \<open>s\<close> to \<open>s'\<close> over a list of entries.\<close>

definition reports ::
  "transfer_limits \<Rightarrow> transfer_symlink_mode \<Rightarrow> tar_entry option list \<Rightarrow> import_response \<Rightarrow> import_response \<Rightarrow> bool" where
  "reports limits mode es s s' \<longleftrightarrow>
     is_bytes_copied s' = is_bytes_copied s + sum_list (map entry_bytes (entries_of TarFile es)) \<and>
     is_files_copied s' = is_files_copied s + length (entries_of TarFile es) + links_kept mode es \<and>
     is_directories_copied s' = is_directories_copied s + length (entries_of TarDir es) \<and>
     (is_bytes_copied s \<le> tl_max_archive_bytes limits \<longrightarrow> is_bytes_copied s' \<le> tl_max_archive_bytes limits) \<and>
     list_all (\<lambda>e. entry_bytes e \<le> tl_max_entry_bytes limits) (entries_of TarFile es) \<and>
     entries_of TarOther es = []"

lemma entries_of_Cons [simp]:
  "entries_of t (Some e # es) = (if te_type e = t \<and> entry_counts e then e # entries_of t es else entries_of t es)"
  "entries_of t [] = []"
  by (simp_all add: entries_of_def)

lemma reports_Nil: "reports limits mode [] s s"
  by (simp add: reports_def links_kept_def)

lemma reports_Cons:
  "reports limits mode [Some e] s t \<Longrightarrow> reports limits mode es t u \<Longrightarrow> reports limits mode (Some e # es) s u"
  by (auto simp: reports_def links_kept_def split: if_splits)

lemma write_archive_file_reports:
  assumes "write_archive_file fs w e path limits k = (w', Inr n)" and "tl_max_archive_bytes limits < usize_max"
  shows "te_size e = Some n" and "n \<le> tl_max_entry_bytes limits" and "k + n \<le> tl_max_archive_bytes limits"
  using assms
  by (auto simp: write_archive_file_def andThen_eq result_simps ensure_entry_within_limits_def
      saturating_add_def split: if_splits)

lemma write_archive_symlink_reports:
  assumes "write_archive_symlink fs sb w e path mode s = (w', Inr s')"
  shows "is_bytes_copied s' = is_bytes_copied s" and "is_directories_copied s' = is_directories_copied s"
    and "is_files_copied s' = is_files_copied s + (if mode = SymlinkPreserve then 1 else 0)"
proof -
  obtain act where act: "symlink_action mode e = Inr act"
    using assms by (auto simp: write_archive_symlink_def andThen_eq)
  have "mode = SymlinkPreserve \<longleftrightarrow> (\<exists>t. act = ActPreserve t)"
    using act by (cases mode) (auto simp: symlink_action_def result_simps)
  moreover have "is_bytes_copied s' = is_bytes_copied s \<and> is_directories_copied s' = is_directories_copied s \<and>
      is_files_copied s' = is_files_copied s + (if \<exists>t. act = ActPreserve t then 1 else 0)"
    using assms act by (cases act) (auto simp: write_archive_symlink_def andThen_eq)
  ultimately show "is_bytes_copied s' = is_bytes_copied s" "is_directories_copied s' = is_directories_copied s"
      "is_files_copied s' = is_files_copied s + (if mode = SymlinkPreserve then 1 else 0)"
    by simp_all
qed

lemma materialize_reports:
  assumes "materialize_entry fs sb limits mode w e out s = (w', Inr s')" and "entry_counts e"
    and "te_type e \<noteq> TarOther" and "tl_max_archive_bytes limits < usize_max"
  shows "reports limits mode [Some e] s s'"
proof (cases "te_type e")
  case TarFile
  then obtain n w1 where "write_archive_file fs w e out limits (is_bytes_copied s) = (w1, Inr n)"
    and "s' = s\<lparr>is_bytes_copied := is_bytes_copied s + n, is_files_copied := is_files_copied s + 1\<rparr>"
    using assms(1) by (auto simp: materialize_entry_def andThen_eq)
  then show ?thesis
    using write_archive_file_reports [OF _ assms(4)] TarFile assms(2)
    by (fastforce simp: reports_def links_kept_def entry_bytes_def)
next
  case TarSymlink
  then have "write_archive_symlink fs sb w e out mode s = (w', Inr s')"
    using assms(1) by (simp add: materialize_entry_def)
  from write_archive_symlink_reports [OF this] show ?thesis
    using TarSymlink assms(2) by (simp add: reports_def links_kept_def)
qed (use assms in \<open>auto simp: materialize_entry_def andThen_eq reports_def links_kept_def\<close>)

lemma tree_entry_reports:
  assumes "extract_tree_archive_entry fs sb limits root mode w e units s = (w', Inr (units', s'))"
    and "tl_max_archive_bytes limits < usize_max"
  shows "reports limits mode [Some e] s s'"
proof -
  obtain raw rel where raw: "te_path e = Some raw" "normalize_archive_entry_path raw = Inr rel"
    using assms(1) by (auto simp: extract_tree_archive_entry_def andThen_eq result_simps)
  show ?thesis
  proof (cases "is_transfer_summary_path rel \<or> rel = []")
    case True
    then have "\<not> entry_counts e" using raw by (auto simp: entry_counts_def)
    then show ?thesis using True raw assms(1)
      by (auto simp: extract_tree_archive_entry_def andThen_eq reports_def links_kept_def add_warnings_def
          split: if_splits)
  next
    case False
    then have "entry_counts e" using raw by (auto simp: entry_counts_def)
    moreover have "place_entry fs sb limits root mode w e rel units s = (w', Inr (units', s'))"
      using False raw assms(1) by (simp add: extract_tree_archive_entry_def)
    then obtain v out v' where "materialize_entry fs sb limits mode v e out s = (v', Inr s')"
        and "te_type e \<noteq> TarOther"
      by (auto simp: place_entry_def Let_def andThen_eq ensure_supported_archive_entry_type_def split: if_splits)
    ultimately show ?thesis by (metis materialize_reports assms(2))
  qed
qed

lemma tree_entries_report:
  assumes "extract_tree_entries fs sb limits root mode w es units s = (w', Inr s')"
    and "tl_max_archive_bytes limits < usize_max"
  shows "None \<notin> set es \<and> reports limits mode es s s'"
  using assms(1)
proof (induction es arbitrary: w units s)
  case (Cons e es)
  then show ?case
    by (cases e) (auto simp: andThen_eq intro: reports_Cons tree_entry_reports [OF _ assms(2)])
qed (simp add: reports_Nil)

text \<open>
  A directory or bundle import that succeeds has read the whole archive and reports exactly what
  it held: the bytes are the sum of the sizes of its regular files, the files are its regular files
  and the links it kept, the directories are its directories and the destination. No regular file
  exceeded the entry limit, their sum did not exceed the archive limit, no entry was of another type,
  and the archive ended properly.
\<close>

theorem import_reports:
  assumes "import_archive_local fs sb supported limits w req (Some a) = (w', Inr r)"
    and "ir_source_type req \<noteq> SourceFile" and "tl_max_archive_bytes limits < usize_max"
  shows "None \<notin> set (ta_entries a) \<and>
    is_bytes_copied r = sum_list (map entry_bytes (entries_of TarFile (ta_entries a))) \<and>
    is_bytes_copied r \<le> tl_max_archive_bytes limits \<and>
    list_all (\<lambda>e. entry_bytes e \<le> tl_max_entry_bytes limits) (entries_of TarFile (ta_entries a)) \<and>
    is_files_copied r = length (entries_of TarFile (ta_entries a)) + links_kept (ir_symlink_mode req) (ta_entries a) \<and>
    is_directories_copied r = 1 + length (entries_of TarDir (ta_entries a)) \<and>
    entries_of TarOther (ta_entries a) = [] \<and>
    validate_archive_terminator (ta_rest a) = Inr ()"
proof -
  obtain v root replaced where "extract_archive_from_reader fs sb limits root req v a replaced
      (new_replace_units req) = (w', Inr r)"
    using assms(1) by (auto simp: import_archive_local_def Let_def andThen_eq)
  then obtain u where entries: "extract_tree_entries fs sb limits root (ir_symlink_mode req) u (ta_entries a)
        (new_replace_units req) (new_import_summary req replaced) = (w', Inr r)"
      and "validate_archive_terminator (ta_rest a) = Inr ()"
    using assms(2)
    by (cases "ir_source_type req")
      (auto simp: extract_archive_from_reader_def extract_tree_archive_def Let_def andThen_eq result_simps)
  moreover note tree_entries_report [OF entries assms(3)]
  ultimately show ?thesis using assms(2) by (auto simp: reports_def new_import_summary_def)
qed

definition sample_archive :: tar_archive where
  "sample_archive = \<lparr>ta_entries = sample_entries, ta_rest = zero_blocks 2\<rparr>"

definition sample_response :: import_response where
  "sample_response = \<lparr>is_source_type = SourceDirectory, is_bytes_copied = 3, is_files_copied = 2,
     is_directories_copied = 2, is_replaced = False, is_warnings = []\<rparr>"

lemma sample_import:
  "\<exists>w'. import_archive_local log_tfs (Some sample_sandbox) True sample_limits []
     (sample_request SourceDirectory) (Some sample_archive) = (w', Inr sample_response)"
proof -
  have "snd (extract_tree_archive log_tfs (Some sample_sandbox) sample_limits sample_root SymlinkPreserve
      [butlast sample_root] sample_entries (new_replace_units (sample_request SourceDirectory))
      (new_import_summary (sample_request SourceDirectory) False)) = Inr sample_response" by code_simp
  then obtain w' where tree: "extract_tree_archive log_tfs (Some sample_sandbox) sample_limits sample_root
      SymlinkPreserve [butlast sample_root] sample_entries (new_replace_units (sample_request SourceDirectory))
      (new_import_summary (sample_request SourceDirectory) False) = (w', Inr sample_response)"
    by (metis prod.collapse)
  have pre: "authorize_write_path log_tfs (Some sample_sandbox) [] sample_root = Inr ()"
    "prepare_destination log_tfs (Some sample_sandbox) [] sample_root (sample_request SourceDirectory) =
       ([butlast sample_root], Inr False)"
    by code_simp+
  have req: "ir_source_type (sample_request SourceDirectory) = SourceDirectory"
    "ir_symlink_mode (sample_request SourceDirectory) = SymlinkPreserve"
    "ir_compression (sample_request SourceDirectory) = CompressionNone"
    by (simp_all add: sample_request_def)
  have "validate_archive_terminator (zero_blocks 2) = Inr ()"
    by (simp only: numeral_2_eq_2 terminator_complete)
  then show ?thesis
    by (simp only: import_archive_local_def extract_archive_from_reader_def Let_def sample_destination pre req
        sample_archive_def tree andThen_simps ok_or_simps tar_archive.simps transfer_source_type.case
        ensure_transfer_compression_supported_def transfer_compression.distinct bindR_simps if_False simp_thms prod.inject)
qed

theorem import_reports_witness:
  "snd (import_archive_local log_tfs (Some sample_sandbox) True sample_limits []
     (sample_request SourceDirectory) (Some sample_archive)) = Inr sample_response \<and>
   is_bytes_copied sample_response = sum_list (map entry_bytes (entries_of TarFile (ta_entries sample_archive))) \<and>
   is_bytes_copied sample_response = 3 \<and> is_bytes_copied sample_response \<le> tl_max_archive_bytes sample_limits"
proof -
  obtain w' where run: "import_archive_local log_tfs (Some sample_sandbox) True sample_limits []
     (sample_request SourceDirectory) (Some sample_archive) = (w', Inr sample_response)"
    using sample_import by blast
  have "ir_source_type (sample_request SourceDirectory) \<noteq> SourceFile" by (simp add: sample_request_def)
  moreover have "tl_max_archive_bytes sample_limits < usize_max" by (simp add: sample_limits_def usize_max_def)
  ultimately show ?thesis
    using import_reports [OF run] run by (simp add: sample_response_def)
qed

end
