(* ===== verification/Port_Limiter.thy ===== *)
theory Port_Limiter
  imports Frame_Codec Rpc_Error "HOL-Library.Multiset"
begin

text \<open>
  The resource limits of the daemon's port tunnels: \<open>crates/remote-exec-host/src/port_forward/limiter.rs\<close>
  with the limits of \<open>config/mod.rs\<close>. The counters are atomic 64-bit words; taking a permit is a
  compare-and-exchange loop, dropping one subtracts with wrap-around. Every atomic access is one
  step, so any number of attempts and drops interleave freely.
\<close>

unbundle bit_operations_syntax

type_synonym usize = "64 word"

section \<open>Limits\<close>

record capacity_limits =
  cl_max_tunnel_connections :: usize
  cl_max_retained_sessions :: usize
  cl_max_retained_listeners :: usize
  cl_max_udp_binds :: usize
  cl_max_active_tcp_streams :: usize
  cl_max_tunnel_queued_bytes :: usize

record host_forward_limits =
  hl_max_tunnel_connections :: usize
  hl_max_retained_sessions :: usize
  hl_max_retained_listeners :: usize
  hl_max_udp_binds :: usize
  hl_max_active_tcp_streams :: usize
  hl_max_tunnel_queued_bytes :: usize
  hl_connect_timeout_ms :: usize

definition default_host_limits :: host_forward_limits where
  "default_host_limits = \<lparr>hl_max_tunnel_connections = 128, hl_max_retained_sessions = 64,
     hl_max_retained_listeners = 64, hl_max_udp_binds = 64, hl_max_active_tcp_streams = 1024,
     hl_max_tunnel_queued_bytes = 8 * 1024 * 1024, hl_connect_timeout_ms = 10000\<rparr>"

definition capacity :: "host_forward_limits \<Rightarrow> capacity_limits" where
  "capacity l = \<lparr>cl_max_tunnel_connections = hl_max_tunnel_connections l,
     cl_max_retained_sessions = hl_max_retained_sessions l,
     cl_max_retained_listeners = hl_max_retained_listeners l, cl_max_udp_binds = hl_max_udp_binds l,
     cl_max_active_tcp_streams = hl_max_active_tcp_streams l,
     cl_max_tunnel_queued_bytes = hl_max_tunnel_queued_bytes l\<rparr>"

definition positive_limit :: "rstr \<Rightarrow> usize \<Rightarrow> (rstr, unit) result" where
  "positive_limit name v =
     ensureR (v > 0) (lit ''port_forward_limits.'' @ name @ lit '' must be greater than zero'')"

definition validate_capacity :: "capacity_limits \<Rightarrow> (rstr, unit) result" where
  "validate_capacity l =
     bindR (positive_limit (lit ''max_tunnel_connections'') (cl_max_tunnel_connections l)) (\<lambda>_.
     bindR (positive_limit (lit ''max_retained_sessions'') (cl_max_retained_sessions l)) (\<lambda>_.
     bindR (positive_limit (lit ''max_retained_listeners'') (cl_max_retained_listeners l)) (\<lambda>_.
     bindR (positive_limit (lit ''max_udp_binds'') (cl_max_udp_binds l)) (\<lambda>_.
     bindR (positive_limit (lit ''max_active_tcp_streams'') (cl_max_active_tcp_streams l)) (\<lambda>_.
     positive_limit (lit ''max_tunnel_queued_bytes'') (cl_max_tunnel_queued_bytes l))))))"

definition validate_host_limits :: "host_forward_limits \<Rightarrow> (rstr, unit) result" where
  "validate_host_limits l =
     bindR (validate_capacity (capacity l)) (\<lambda>_.
       positive_limit (lit ''connect_timeout_ms'') (hl_connect_timeout_ms l))"

section \<open>The limiter\<close>

datatype permit_kind = PermTunnelConnection | PermRetainedListener | PermUdpBind | PermActiveTcpStream | PermQueuedBytes

record limiter =
  li_limits :: capacity_limits
  li_tunnel_connections :: usize
  li_retained_listeners :: usize
  li_udp_binds :: usize
  li_active_tcp_streams :: usize
  li_queued_bytes :: usize

record permit =
  pm_kind :: permit_kind
  pm_amount :: usize

definition new_limiter :: "host_forward_limits \<Rightarrow> limiter" where
  "new_limiter limits = \<lparr>li_limits = capacity limits, li_tunnel_connections = 0,
     li_retained_listeners = 0, li_udp_binds = 0, li_active_tcp_streams = 0, li_queued_bytes = 0\<rparr>"

primrec counter_of :: "permit_kind \<Rightarrow> limiter \<Rightarrow> usize" where
  "counter_of PermTunnelConnection l = li_tunnel_connections l"
| "counter_of PermRetainedListener l = li_retained_listeners l"
| "counter_of PermUdpBind l = li_udp_binds l"
| "counter_of PermActiveTcpStream l = li_active_tcp_streams l"
| "counter_of PermQueuedBytes l = li_queued_bytes l"

primrec set_counter :: "permit_kind \<Rightarrow> usize \<Rightarrow> limiter \<Rightarrow> limiter" where
  "set_counter PermTunnelConnection v l = l\<lparr>li_tunnel_connections := v\<rparr>"
| "set_counter PermRetainedListener v l = l\<lparr>li_retained_listeners := v\<rparr>"
| "set_counter PermUdpBind v l = l\<lparr>li_udp_binds := v\<rparr>"
| "set_counter PermActiveTcpStream v l = l\<lparr>li_active_tcp_streams := v\<rparr>"
| "set_counter PermQueuedBytes v l = l\<lparr>li_queued_bytes := v\<rparr>"

primrec limit_of :: "permit_kind \<Rightarrow> capacity_limits \<Rightarrow> usize" where
  "limit_of PermTunnelConnection c = cl_max_tunnel_connections c"
| "limit_of PermRetainedListener c = cl_max_retained_listeners c"
| "limit_of PermUdpBind c = cl_max_udp_binds c"
| "limit_of PermActiveTcpStream c = cl_max_active_tcp_streams c"
| "limit_of PermQueuedBytes c = cl_max_tunnel_queued_bytes c"

primrec limit_message :: "permit_kind \<Rightarrow> rstr" where
  "limit_message PermTunnelConnection = lit ''port tunnel connection limit reached''"
| "limit_message PermRetainedListener = lit ''retained port tunnel listener limit reached''"
| "limit_message PermUdpBind = lit ''port tunnel udp bind limit reached''"
| "limit_message PermActiveTcpStream = lit ''port tunnel active tcp stream limit reached''"
| "limit_message PermQueuedBytes = lit ''port tunnel queued byte limit reached''"

definition limit_error :: "permit_kind \<Rightarrow> host_rpc_error" where
  "limit_error k = \<lparr>he_status = 400, he_code = RcPortTunnelLimitExceeded, he_message = limit_message k\<rparr>"

definition checked_add_usize :: "usize \<Rightarrow> usize \<Rightarrow> usize option" where
  "checked_add_usize a b = (if unat a + unat b < 2 ^ 64 then Some (a + b) else None)"

text \<open>
  One round of the loop in \<open>try_acquire_counter\<close>, for the value \<open>current\<close> last seen: it refuses, it
  takes the permit, or it goes round again with the value the exchange observed. A weak exchange may
  fail although the counter is as expected.
\<close>

datatype acquire_outcome = Refused host_rpc_error | Acquired limiter permit | Again usize

definition acquire_round :: "limiter \<Rightarrow> permit_kind \<Rightarrow> usize \<Rightarrow> usize \<Rightarrow> bool \<Rightarrow> acquire_outcome" where
  "acquire_round l k amount current spurious = (case checked_add_usize current amount of
      None \<Rightarrow> Refused (limit_error k)
    | Some next \<Rightarrow>
        if next > limit_of k (li_limits l) then Refused (limit_error k)
        else if counter_of k l = current \<and> \<not> spurious
        then Acquired (set_counter k next l) \<lparr>pm_kind = k, pm_amount = amount\<rparr>
        else Again (counter_of k l))"

definition queued_frame_amount :: "frame \<Rightarrow> usize option" where
  "queued_frame_amount f = (let charge = data_plane_charge f
     in if charge = 0 then None else Some (word_of_nat charge))"

definition release_permit :: "limiter \<Rightarrow> permit \<Rightarrow> limiter" where
  "release_permit l p = set_counter (pm_kind p) (counter_of (pm_kind p) l - pm_amount p) l"

text \<open>
  Without other tasks and without spurious failures the loop is this function: it loads the counter
  and needs one round.
\<close>

definition try_acquire_counter ::
  "limiter \<Rightarrow> permit_kind \<Rightarrow> usize \<Rightarrow> limiter \<times> (host_rpc_error, permit) result" where
  "try_acquire_counter l k amount = (case acquire_round l k amount (counter_of k l) False of
      Acquired l' p \<Rightarrow> (l', Inr p) | Refused e \<Rightarrow> (l, Inl e) | Again _ \<Rightarrow> (l, Inl (limit_error k)))"

definition try_acquire_queued_frame ::
  "limiter \<Rightarrow> frame \<Rightarrow> limiter \<times> (host_rpc_error, permit option) result" where
  "try_acquire_queued_frame l f = (case queued_frame_amount f of
      None \<Rightarrow> (l, Inr None)
    | Some amount \<Rightarrow> (case try_acquire_counter l PermQueuedBytes amount of
          (l', Inr p) \<Rightarrow> (l', Inr (Some p)) | (l', Inl e) \<Rightarrow> (l', Inl e)))"

section \<open>Interleavings\<close>

record attempt =
  at_kind :: permit_kind
  at_amount :: usize
  at_current :: usize

type_synonym limiter_config = "limiter \<times> permit multiset \<times> attempt multiset"

inductive limiter_step :: "limiter_config \<Rightarrow> limiter_config \<Rightarrow> bool" where
  load: "limiter_step (l, ps, as)
    (l, ps, add_mset \<lparr>at_kind = k, at_amount = amount, at_current = counter_of k l\<rparr> as)"
| acquired: "acquire_round l (at_kind a) (at_amount a) (at_current a) spurious = Acquired l' p \<Longrightarrow>
    limiter_step (l, ps, add_mset a as) (l', add_mset p ps, as)"
| refused: "acquire_round l (at_kind a) (at_amount a) (at_current a) spurious = Refused e \<Longrightarrow>
    limiter_step (l, ps, add_mset a as) (l, ps, as)"
| again: "acquire_round l (at_kind a) (at_amount a) (at_current a) spurious = Again c \<Longrightarrow>
    limiter_step (l, ps, add_mset a as) (l, ps, add_mset (a\<lparr>at_current := c\<rparr>) as)"
| dropped: "limiter_step (l, add_mset p ps, as) (release_permit l p, ps, as)"

definition held :: "permit_kind \<Rightarrow> permit multiset \<Rightarrow> nat" where
  "held k ps = sum_mset (image_mset (\<lambda>p. unat (pm_amount p)) (filter_mset (\<lambda>p. pm_kind p = k) ps))"

definition limiter_inv :: "capacity_limits \<Rightarrow> limiter \<Rightarrow> permit multiset \<Rightarrow> bool" where
  "limiter_inv limits l ps \<longleftrightarrow> li_limits l = limits \<and>
     (\<forall>k. unat (counter_of k l) = held k ps \<and> held k ps \<le> unat (limit_of k limits))"

lemma counter_simps [simp]:
  "counter_of k (set_counter k' v l) = (if k = k' then v else counter_of k l)"
  "li_limits (set_counter k v l) = li_limits l"
  by (cases k; cases k'; simp) (cases k; simp)

lemma new_limiter_simps [simp]: "counter_of k (new_limiter limits) = 0" "li_limits (new_limiter limits) = capacity limits"
  by (cases k; simp add: new_limiter_def) (simp add: new_limiter_def)

lemma held_simps [simp]:
  "held k {#} = 0"
  "held k (add_mset p ps) = (if pm_kind p = k then unat (pm_amount p) else 0) + held k ps"
  by (simp_all add: held_def)

lemma checked_add_usize_Some:
  "checked_add_usize a b = Some c \<Longrightarrow> unat c = unat a + unat b"
  by (auto simp: checked_add_usize_def unat_word_ariths split: if_splits)

lemma acquired_inv:
  assumes "acquire_round l k amount current spurious = Acquired l' p" and "limiter_inv limits l ps"
  shows "limiter_inv limits l' (add_mset p ps)"
proof -
  obtain next' where "checked_add_usize (counter_of k l) amount = Some next'"
      and le: "\<not> next' > limit_of k (li_limits l)" and l': "l' = set_counter k next' l"
      and p: "p = \<lparr>pm_kind = k, pm_amount = amount\<rparr>"
    using assms(1) by (auto simp: acquire_round_def split: option.splits if_splits)
  then have "unat next' = unat (counter_of k l) + unat amount" using checked_add_usize_Some by blast
  moreover have "unat next' \<le> unat (limit_of k (li_limits l))" using le by (simp add: word_le_nat_alt not_less)
  ultimately show ?thesis using assms(2) by (auto simp: limiter_inv_def l' p)
qed

lemma released_inv:
  assumes "limiter_inv limits l (add_mset p ps)"
  shows "limiter_inv limits (release_permit l p) ps"
proof -
  have eq: "unat (counter_of (pm_kind p) l) = unat (pm_amount p) + held (pm_kind p) ps"
    using assms by (simp add: limiter_inv_def)
  then have sub: "unat (counter_of (pm_kind p) l - pm_amount p) = held (pm_kind p) ps"
    by (simp add: unat_sub word_le_nat_alt)
  have "unat (counter_of k (release_permit l p)) = held k ps \<and> held k ps \<le> unat (limit_of k limits)" for k
  proof -
    have "unat (counter_of k l) = held k (add_mset p ps)" and "held k (add_mset p ps) \<le> unat (limit_of k limits)"
      using assms by (simp_all add: limiter_inv_def)
    then show ?thesis using sub by (cases "k = pm_kind p") (simp_all add: release_permit_def)
  qed
  then show ?thesis using assms by (simp add: limiter_inv_def release_permit_def)
qed

lemma limiter_step_inv:
  assumes "limiter_step c c'" and "limiter_inv limits (fst c) (fst (snd c))"
  shows "limiter_inv limits (fst c') (fst (snd c'))"
  using assms by (induction rule: limiter_step.induct) (auto intro: acquired_inv released_inv)

lemma limiter_steps_inv:
  assumes "limiter_step\<^sup>*\<^sup>* c c'" and "limiter_inv limits (fst c) (fst (snd c))"
  shows "limiter_inv limits (fst c') (fst (snd c'))"
  using assms by (induction rule: rtranclp_induct) (auto intro: limiter_step_inv)

section \<open>Properties\<close>

text \<open>
  C21: the counters are exact and the limits hold. However the atomic steps of any number of attempts
  and drops interleave, each counter is the sum of the amounts of the permits held of its kind, so
  that it never wraps, and no sum exceeds its limit.
\<close>

theorem limiter_exact:
  assumes "limiter_step\<^sup>*\<^sup>* (new_limiter limits, {#}, {#}) (l, ps, as)"
  shows "unat (counter_of k l) = held k ps \<and> held k ps \<le> unat (limit_of k (capacity limits))"
proof -
  have "limiter_inv (capacity limits) (new_limiter limits) {#}"
    by (simp add: limiter_inv_def)
  then show ?thesis using limiter_steps_inv [OF assms] by (simp add: limiter_inv_def)
qed

lemma sample_acquire:
  "limiter_step\<^sup>*\<^sup>* (new_limiter default_host_limits, {#}, {#})
     (set_counter PermUdpBind 1 (new_limiter default_host_limits), {#\<lparr>pm_kind = PermUdpBind, pm_amount = 1\<rparr>#}, {#})"
proof -
  let ?l = "new_limiter default_host_limits"
  let ?a = "\<lparr>at_kind = PermUdpBind, at_amount = 1, at_current = counter_of PermUdpBind ?l\<rparr>"
  have "limiter_step (?l, {#}, {#}) (?l, {#}, {#?a#})" by (rule limiter_step.load)
  moreover have "acquire_round ?l (at_kind ?a) (at_amount ?a) (at_current ?a) False =
      Acquired (set_counter PermUdpBind 1 ?l) \<lparr>pm_kind = PermUdpBind, pm_amount = 1\<rparr>"
    by code_simp
  then have "limiter_step (?l, {#}, {#?a#})
      (set_counter PermUdpBind 1 ?l, {#\<lparr>pm_kind = PermUdpBind, pm_amount = 1\<rparr>#}, {#})"
    by (rule limiter_step.acquired)
  ultimately show ?thesis by (meson converse_rtranclp_into_rtranclp r_into_rtranclp)
qed

theorem limiter_exact_witness:
  "unat (counter_of PermUdpBind (set_counter PermUdpBind 1 (new_limiter default_host_limits))) =
     held PermUdpBind {#\<lparr>pm_kind = PermUdpBind, pm_amount = 1\<rparr>#}"
  using limiter_exact [OF sample_acquire, of PermUdpBind] by (rule conjunct1)

lemma fresh_round:
  "acquire_round l k amount (counter_of k l) False =
     (if unat (counter_of k l) + unat amount \<le> unat (limit_of k (li_limits l))
      then Acquired (set_counter k (counter_of k l + amount) l) \<lparr>pm_kind = k, pm_amount = amount\<rparr>
      else Refused (limit_error k))"
proof -
  let ?c = "counter_of k l"
  have "unat (limit_of k (li_limits l)) < 2 ^ 64" using unsigned_less [of "limit_of k (li_limits l)"] by simp
  moreover have "unat (?c + amount) = unat ?c + unat amount" if "unat ?c + unat amount < 2 ^ 64"
    using that checked_add_usize_Some [of ?c amount "?c + amount"] by (simp add: checked_add_usize_def)
  ultimately show ?thesis by (auto simp: acquire_round_def checked_add_usize_def word_less_nat_alt)
qed

text \<open>
  an attempt is decided. Left alone, from any state and any value it saw before, an attempt ends
  after at most two rounds: when the first has to be repeated, another task had changed the counter
  since, and the second grants the permit exactly when the amount fits under the limit. An attempt
  that nobody interferes with from its first load on is granted exactly when the amount fits.
\<close>

theorem acquire_decided:
  "(acquire_round l k amount current False = Again c \<longrightarrow>
      c \<noteq> current \<and> c = counter_of k l \<and>
      acquire_round l k amount c False =
        (if unat (counter_of k l) + unat amount \<le> unat (limit_of k (li_limits l))
         then Acquired (set_counter k (counter_of k l + amount) l) \<lparr>pm_kind = k, pm_amount = amount\<rparr>
         else Refused (limit_error k))) \<and>
   try_acquire_counter l k amount =
     (if unat (counter_of k l) + unat amount \<le> unat (limit_of k (li_limits l))
      then (set_counter k (counter_of k l + amount) l, Inr \<lparr>pm_kind = k, pm_amount = amount\<rparr>)
      else (l, Inl (limit_error k)))"
proof -
  have "c = counter_of k l \<and> c \<noteq> current" if "acquire_round l k amount current False = Again c"
    using that by (auto simp: acquire_round_def split: option.splits if_splits)
  then show ?thesis using fresh_round [of l k amount] by (auto simp: try_acquire_counter_def)
qed

theorem acquire_decided_witness:
  "acquire_round (new_limiter default_host_limits) PermUdpBind 1 7 False = Again 0 \<and>
   acquire_round (new_limiter default_host_limits) PermUdpBind 1 0 False =
     Acquired (set_counter PermUdpBind 1 (new_limiter default_host_limits)) \<lparr>pm_kind = PermUdpBind, pm_amount = 1\<rparr>"
proof -
  have again: "acquire_round (new_limiter default_host_limits) PermUdpBind 1 7 False = Again 0" by code_simp
  have "unat (limit_of PermUdpBind (capacity default_host_limits)) = 64"
    by (simp add: capacity_def default_host_limits_def)
  then show ?thesis
    using again acquire_decided [of "new_limiter default_host_limits" PermUdpBind 1 7 0] by simp
qed

end
