(* ===== verification/Tunnel_Events.thy ===== *)
theory Tunnel_Events
  imports Forward_Store Frame_Codec Rpc_Error Endpoints
begin

text \<open>
  What the broker's TCP and UDP bridges share, from \<open>crates/remote-exec-broker/src/port_forward\<close>:
  stream identifiers (\<open>generation.rs\<close>), the classification of tunnel failures (\<open>events.rs\<close>, \<open>tunnel.rs\<close>),
  drop reports (\<open>mod.rs\<close>), and the two tunnels with the forward store. The JSON metadata and the
  outcome of each send are parameters.
\<close>

section \<open>Stream identifiers\<close>

record stream_ids =
  si_next :: u32
  si_step :: u32
  si_exhausted :: bool

definition new_odd_from :: "u32 \<Rightarrow> stream_ids" where
  "new_odd_from start = \<lparr>si_next = start, si_step = 2, si_exhausted = False\<rparr>"

definition new_odd :: stream_ids where
  "new_odd = \<lparr>si_next = 1, si_step = 2, si_exhausted = False\<rparr>"

definition checked_add_u32 :: "u32 \<Rightarrow> u32 \<Rightarrow> u32 option" where
  "checked_add_u32 a b = (if unat a + unat b < 2 ^ 32 then Some (a + b) else None)"

definition next_stream_id :: "stream_ids \<Rightarrow> stream_ids \<times> u32 option" where
  "next_stream_id s =
     (if si_exhausted s then (s, None)
      else let s' = (case checked_add_u32 (si_next s) (si_step s) of
                Some n \<Rightarrow> if checked_add_u32 n (si_step s) \<noteq> None then s\<lparr>si_next := n\<rparr>
                          else s\<lparr>si_exhausted := True\<rparr>
              | None \<Rightarrow> s\<lparr>si_exhausted := True\<rparr>)
           in (s', Some (si_next s)))"

definition needs_generation_rotation :: "stream_ids \<Rightarrow> bool" where
  "needs_generation_rotation s = si_exhausted s"

definition issued :: "nat \<Rightarrow> stream_ids \<Rightarrow> u32 \<Rightarrow> bool" where
  "issued lo ids i \<longleftrightarrow> odd (unat i) \<and> lo \<le> unat i \<and>
     (unat i < unat (si_next ids) \<or> si_exhausted ids \<and> i = si_next ids)"

definition ids_ok :: "nat \<Rightarrow> stream_ids \<Rightarrow> bool" where
  "ids_ok lo ids \<longleftrightarrow> odd (unat (si_next ids)) \<and> lo \<le> unat (si_next ids) \<and> si_step ids = 2"

lemma next_stream_id_spec:
  assumes "ids_ok lo ids" and "next_stream_id ids = (ids', r)"
  shows "ids_ok lo ids'" and "issued lo ids i \<Longrightarrow> issued lo ids' i"
    and "r = Some k \<Longrightarrow> issued lo ids' k \<and> \<not> issued lo ids k"
proof -
  let ?n = "si_next ids"
  have two: "unat (2::u32) = 2" by simp
  have cases: "(ids' = ids \<and> si_exhausted ids \<and> r = None) \<or>
      (\<not> si_exhausted ids \<and> r = Some ?n \<and> (ids' = ids\<lparr>si_exhausted := True\<rparr> \<or>
        (unat ?n + 2 < 2 ^ 32 \<and> ids' = ids\<lparr>si_next := ?n + 2\<rparr>)))"
    using assms
    by (auto simp: next_stream_id_def Let_def checked_add_u32_def ids_ok_def two split: if_splits option.splits)
  have add: "unat (?n + 2) = unat ?n + 2" if "unat ?n + 2 < 2 ^ 32"
    using that by (simp add: unat_word_ariths two)
  show "ids_ok lo ids'" using cases assms(1) add by (auto simp: ids_ok_def)
  show "issued lo ids' i" if "issued lo ids i"
    using cases that add by (auto simp: issued_def)
  show "issued lo ids' k \<and> \<not> issued lo ids k" if "r = Some k"
    using cases that assms(1) add by (auto simp: issued_def ids_ok_def)
qed

section \<open>Failures\<close>

datatype io_kind =
    UnexpectedEof | BrokenPipe | ConnectionAborted | ConnectionReset | NotConnected | TimedOut | OtherIo

datatype failure_cause =
    DaemonTransport | DaemonRpc "rpc_error_code option" | DaemonDecode
  | IoFailure io_kind | Backpressure | Message rstr

text \<open>An \<open>anyhow\<close> error is its chain of causes, the context added last in front.\<close>

type_synonym failure = "failure_cause list"

primrec is_retryable_cause :: "failure_cause \<Rightarrow> bool" where
  "is_retryable_cause DaemonTransport = True"
| "is_retryable_cause (DaemonRpc code) =
     (code \<in> {Some RcInvalidPortTunnel, Some RcPortTunnelUnavailable})"
| "is_retryable_cause DaemonDecode = False"
| "is_retryable_cause (IoFailure k) = (k \<noteq> OtherIo)"
| "is_retryable_cause Backpressure = False"
| "is_retryable_cause (Message m) = False"

definition is_retryable_transport_error :: "failure \<Rightarrow> bool" where
  "is_retryable_transport_error err = list_ex is_retryable_cause err"

definition is_backpressure_error :: "failure \<Rightarrow> bool" where
  "is_backpressure_error err = list_ex (\<lambda>c. c = Backpressure) err"

datatype tunnel_role = RoleListenTunnel | RoleConnectTunnel
datatype loop_control = Cancelled | RecoverTunnel tunnel_role

definition classify_transport_failure :: "failure \<Rightarrow> rstr \<Rightarrow> tunnel_role \<Rightarrow> (failure, loop_control) result" where
  "classify_transport_failure err ctx role =
     (let err = Message ctx # err
      in if is_retryable_transport_error err then Inr (RecoverTunnel role) else Inl err)"

record proto_error_meta =
  em_code :: rstr
  em_message :: rstr
  em_fatal :: bool
  em_generation :: "nat option"

record tunnel_error_meta =
  te_meta :: "proto_error_meta option"
  te_stream_id :: u32

definition meta_code :: "tunnel_error_meta \<Rightarrow> rstr option" where
  "meta_code t = (case te_meta t of
      None \<Rightarrow> None | Some m \<Rightarrow> if em_code m = [] then None else Some (em_code m))"

definition meta_message :: "tunnel_error_meta \<Rightarrow> rstr" where
  "meta_message t = (case te_meta t of
      Some m \<Rightarrow> em_message m
    | None \<Rightarrow> lit ''port tunnel returned error on stream '' @ dec_str (unat (te_stream_id t)))"

definition meta_fatal :: "tunnel_error_meta \<Rightarrow> bool" where
  "meta_fatal t = (case te_meta t of Some m \<Rightarrow> em_fatal m | None \<Rightarrow> True)"

datatype drop_kind = DropTcpStream | DropUdpDatagram

record drop_meta =
  dm_kind :: drop_kind
  dm_count :: nat

record tunnel_json =
  tj_decode_accept :: "bytes \<Rightarrow> u32 option"
  tj_decode_peer :: "bytes \<Rightarrow> rstr option"
  tj_encode_peer :: "rstr \<Rightarrow> bytes option"
  tj_encode_endpoint :: "rstr \<Rightarrow> bytes option"
  tj_decode_error :: "bytes \<Rightarrow> proto_error_meta option"
  tj_decode_drop :: "bytes \<Rightarrow> drop_meta option"

definition json_failure :: failure where "json_failure = [Message (lit ''json'')]"

definition decode_tunnel_error_frame :: "tunnel_json \<Rightarrow> frame \<Rightarrow> tunnel_error_meta" where
  "decode_tunnel_error_frame json f =
     \<lparr>te_meta = tj_decode_error json (fr_meta f), te_stream_id = fr_stream_id f\<rparr>"

definition is_recoverable_pressure_tunnel_error :: "tunnel_error_meta \<Rightarrow> bool" where
  "is_recoverable_pressure_tunnel_error t \<longleftrightarrow>
     Option.bind (meta_code t) from_wire_value = Some RcPortTunnelLimitExceeded"

definition format_terminal_tunnel_error :: "tunnel_error_meta \<Rightarrow> failure" where
  "format_terminal_tunnel_error t = [Message (case meta_code t of
      Some code \<Rightarrow> code @ lit '': '' @ meta_message t | None \<Rightarrow> meta_message t)]"

datatype side_event = SideFrame frame | RetryableLoss | TerminalTransport failure | TerminalTunnel tunnel_error_meta

definition classify_recoverable_tunnel_event :: "tunnel_json \<Rightarrow> (failure, frame) result \<Rightarrow> side_event" where
  "classify_recoverable_tunnel_event json r = (case r of
      Inr f \<Rightarrow>
        if fr_type f = FError
        then let meta = decode_tunnel_error_frame json f
             in if meta_fatal meta then TerminalTunnel meta else SideFrame f
        else SideFrame f
    | Inl err \<Rightarrow> if is_retryable_transport_error err then RetryableLoss else TerminalTransport err)"

datatype frame_outcome = OutFrame frame | OutControl loop_control

definition recoverable_tunnel_frame ::
  "tunnel_json \<Rightarrow> (failure, frame) result \<Rightarrow> rstr \<Rightarrow> rstr \<Rightarrow> loop_control \<Rightarrow> (failure, frame_outcome) result" where
  "recoverable_tunnel_frame json r transport_ctx tunnel_ctx on_loss =
     (case classify_recoverable_tunnel_event json r of
        SideFrame f \<Rightarrow> Inr (OutFrame f)
      | RetryableLoss \<Rightarrow> Inr (OutControl on_loss)
      | TerminalTransport err \<Rightarrow> Inl (Message transport_ctx # err)
      | TerminalTunnel meta \<Rightarrow> Inl (Message tunnel_ctx # format_terminal_tunnel_error meta))"

definition apply_forward_drop_report ::
  "tunnel_json \<Rightarrow> forward_state \<Rightarrow> rstr \<Rightarrow> frame \<Rightarrow> forward_state \<times> (failure, unit) result" where
  "apply_forward_drop_report json store forward_id f = (case tj_decode_drop json (fr_meta f) of
      None \<Rightarrow> (store, Inl json_failure)
    | Some meta \<Rightarrow>
        let amount = max (dm_count meta) 1
        in (case dm_kind meta of
              DropTcpStream \<Rightarrow> record_dropped_tcp_streams store forward_id amount
            | DropUdpDatagram \<Rightarrow> record_dropped_udp_datagrams store forward_id amount, Inr ()))"

section \<open>Runtime and tunnels\<close>

record tunnel_runtime =
  rt_forward_id :: rstr
  rt_connect_endpoint :: rstr
  rt_listener_stream_id :: u32
  rt_json :: tunnel_json

text \<open>
  The environment of one event: the clock, and whether a tunnel accepts a frame, which may depend on
  the frames it accepted before. The accepted frames are recorded in the order they were sent.
\<close>

record tunnel_env =
  ev_now :: nat
  ev_send_connect :: "frame list \<Rightarrow> frame \<Rightarrow> (failure, unit) result"
  ev_send_listen :: "frame list \<Rightarrow> frame \<Rightarrow> (failure, unit) result"

record tunnel_world =
  tw_store :: forward_state
  tw_to_connect :: "frame list"
  tw_to_listen :: "frame list"

definition send_connect ::
  "tunnel_env \<Rightarrow> 'a tunnel_world_scheme \<Rightarrow> frame \<Rightarrow> 'a tunnel_world_scheme \<times> (failure, unit) result" where
  "send_connect env s f = (case ev_send_connect env (tw_to_connect s) f of
      Inl e \<Rightarrow> (s, Inl e) | Inr _ \<Rightarrow> (s\<lparr>tw_to_connect := tw_to_connect s @ [f]\<rparr>, Inr ()))"

definition send_listen ::
  "tunnel_env \<Rightarrow> 'a tunnel_world_scheme \<Rightarrow> frame \<Rightarrow> 'a tunnel_world_scheme \<times> (failure, unit) result" where
  "send_listen env s f = (case ev_send_listen env (tw_to_listen s) f of
      Inl e \<Rightarrow> (s, Inl e) | Inr _ \<Rightarrow> (s\<lparr>tw_to_listen := tw_to_listen s @ [f]\<rparr>, Inr ()))"

definition close_frame :: "u32 \<Rightarrow> frame" where
  "close_frame stream_id =
     \<lparr>fr_type = FClose, fr_flags = 0, fr_stream_id = stream_id, fr_meta = [], fr_data = []\<rparr>"

definition close_connect_stream ::
  "tunnel_env \<Rightarrow> 'a tunnel_world_scheme \<Rightarrow> u32 \<Rightarrow> 'a tunnel_world_scheme \<times> (failure, unit) result" where
  "close_connect_stream env s stream_id = send_connect env s (close_frame stream_id)"

definition close_listen_stream ::
  "tunnel_env \<Rightarrow> 'a tunnel_world_scheme \<Rightarrow> u32 \<Rightarrow> 'a tunnel_world_scheme \<times> (failure, unit) result" where
  "close_listen_stream env s stream_id = send_listen env s (close_frame stream_id)"

end
