(* ===== verification/Broker_Tunnel.thy ===== *)
theory Broker_Tunnel
  imports Tunnel_Events "HOL-Library.Multiset"
begin

text \<open>
  The tasks of a broker tunnel, \<open>crates/remote-exec-broker/src/port_forward/tunnel.rs\<close>: senders that
  reserve a byte budget with a compare-and-exchange loop and queue their frame, the writer that takes
  frames off the queue, the reader that answers heartbeats and hands on the rest, and the heartbeat.
\<close>

section \<open>Sending\<close>

datatype reserve_outcome = Reserved nat | ReserveRetry nat | ReserveRefused failure

definition backpressure_error :: failure where "backpressure_error = [Backpressure]"

text \<open>
  One round of \<open>reserve_queued_bytes\<close>: \<open>current\<close> is what was last read, \<open>spurious\<close> whether the weak
  exchange fails although the counter still has that value.
\<close>

definition reserve_round :: "nat \<Rightarrow> nat \<Rightarrow> nat \<Rightarrow> nat \<Rightarrow> bool \<Rightarrow> reserve_outcome" where
  "reserve_round queued_bytes charge max_queued current spurious = (case checked_add current charge of
      None \<Rightarrow> ReserveRefused backpressure_error
    | Some next \<Rightarrow>
        if next > max_queued then ReserveRefused backpressure_error
        else if queued_bytes = current \<and> \<not> spurious then Reserved next
        else ReserveRetry queued_bytes)"

definition release_queued_bytes :: "nat \<Rightarrow> nat \<Rightarrow> nat" where
  "release_queued_bytes queued_bytes charge = (if charge > 0 then queued_bytes - charge else queued_bytes)"

text \<open>
  A sender has read the counter, or holds its reservation and waits for room in the queue. The writer
  holds the charge of the frame it is writing.
\<close>

datatype sender = Reading frame nat | Holding frame

record tunnel_queue =
  tq_max :: nat
  tq_bytes :: nat
  tq_senders :: "sender multiset"
  tq_queue :: "frame list"
  tq_writing :: "frame option"
  tq_written :: "frame list"
  tq_open :: bool

definition CHANNEL_CAPACITY :: nat where "CHANNEL_CAPACITY = 128"

definition new_tunnel_queue :: "nat \<Rightarrow> tunnel_queue" where
  "new_tunnel_queue max_queued = \<lparr>tq_max = max_queued, tq_bytes = 0, tq_senders = {#}, tq_queue = [], tq_writing = None,
     tq_written = [], tq_open = True\<rparr>"

text \<open>What \<open>send\<close> does before it reads the counter: refuse, skip the reservation or start it.\<close>

definition send_start :: "tunnel_queue \<Rightarrow> frame \<Rightarrow> (failure, tunnel_queue) result" where
  "send_start q f =
     (if data_plane_charge f > tq_max q then Inl backpressure_error
      else Inr (q\<lparr>tq_senders := tq_senders q +
        {#if data_plane_charge f > 0 then Reading f (tq_bytes q) else Holding f#}\<rparr>))"

text \<open>
  The steps of senders and writer in any order. Heartbeats and their acknowledgements are queued
  without a charge. When the writer stops, what is queued stays charged and every later send fails.
\<close>

inductive queue_step :: "tunnel_queue \<Rightarrow> tunnel_queue \<Rightarrow> bool" where
  Start: "send_start q f = Inr q' \<Longrightarrow> queue_step q q'"
| Reserve: "Reading f current \<in># tq_senders q \<Longrightarrow>
    reserve_round (tq_bytes q) (data_plane_charge f) (tq_max q) current spurious = Reserved next \<Longrightarrow>
    queue_step q (q\<lparr>tq_bytes := next, tq_senders := tq_senders q - {#Reading f current#} + {#Holding f#}\<rparr>)"
| Retry: "Reading f current \<in># tq_senders q \<Longrightarrow>
    reserve_round (tq_bytes q) (data_plane_charge f) (tq_max q) current spurious = ReserveRetry observed \<Longrightarrow>
    queue_step q (q\<lparr>tq_senders := tq_senders q - {#Reading f current#} + {#Reading f observed#}\<rparr>)"
| Refuse: "Reading f current \<in># tq_senders q \<Longrightarrow>
    reserve_round (tq_bytes q) (data_plane_charge f) (tq_max q) current spurious = ReserveRefused err \<Longrightarrow>
    queue_step q (q\<lparr>tq_senders := tq_senders q - {#Reading f current#}\<rparr>)"
| Enqueue: "Holding f \<in># tq_senders q \<Longrightarrow> tq_open q \<Longrightarrow> length (tq_queue q) < CHANNEL_CAPACITY \<Longrightarrow>
    queue_step q (q\<lparr>tq_senders := tq_senders q - {#Holding f#}, tq_queue := tq_queue q @ [f]\<rparr>)"
| Closed: "Holding f \<in># tq_senders q \<Longrightarrow> \<not> tq_open q \<Longrightarrow>
    queue_step q (q\<lparr>tq_senders := tq_senders q - {#Holding f#},
      tq_bytes := release_queued_bytes (tq_bytes q) (data_plane_charge f)\<rparr>)"
| Take: "tq_open q \<Longrightarrow> tq_writing q = None \<Longrightarrow> tq_queue q = f # fs \<Longrightarrow>
    queue_step q (q\<lparr>tq_queue := fs, tq_writing := Some f\<rparr>)"
| Written: "tq_writing q = Some f \<Longrightarrow>
    queue_step q (q\<lparr>tq_writing := None, tq_written := tq_written q @ [f],
      tq_bytes := release_queued_bytes (tq_bytes q) (data_plane_charge f)\<rparr>)"
| WriteFailed: "tq_writing q = Some f \<Longrightarrow>
    queue_step q (q\<lparr>tq_writing := None, tq_open := False,
      tq_bytes := release_queued_bytes (tq_bytes q) (data_plane_charge f)\<rparr>)"
| Stop: "tq_writing q = None \<Longrightarrow> queue_step q (q\<lparr>tq_open := False\<rparr>)"

section \<open>Reading\<close>

record reader_state =
  rd_delivered :: "(failure, frame) result list"
  rd_acks :: "frame list"
  rd_nonce :: nat
  rd_cancelled :: bool

datatype reader_event = ReadFrame frame | ReadFailed io_kind

datatype ack_queue = AckQueued | AckFull | AckClosed

text \<open>
  \<open>nonce_of\<close> decodes a heartbeat. Each event comes with what becomes of an acknowledgement and whether
  the receiver of frames is still there. The result is whether the loop goes on.
\<close>

definition reader_step ::
  "(bytes \<Rightarrow> nat option) \<Rightarrow> reader_state \<Rightarrow> reader_event \<times> ack_queue \<times> bool \<Rightarrow> reader_state \<times> bool" where
  "reader_step nonce_of s x = (case x of
      (ReadFrame f, ack, receiving) \<Rightarrow>
        if fr_type f = TunnelHeartbeatAck
        then (case nonce_of (fr_meta f) of None \<Rightarrow> s | Some n \<Rightarrow> s\<lparr>rd_nonce := n\<rparr>, True)
        else if fr_type f = TunnelHeartbeat
        then (case ack of
            AckQueued \<Rightarrow> (s\<lparr>rd_acks := rd_acks s @ [\<lparr>fr_type = TunnelHeartbeatAck, fr_flags = 0, fr_stream_id = 0,
              fr_meta = fr_meta f, fr_data = []\<rparr>]\<rparr>, True)
          | AckFull \<Rightarrow> (s, True)
          | AckClosed \<Rightarrow> (s, False))
        else if receiving then (s\<lparr>rd_delivered := rd_delivered s @ [Inr f]\<rparr>, True) else (s, False)
    | (ReadFailed k, _, receiving) \<Rightarrow>
        (s\<lparr>rd_delivered := rd_delivered s @ (if receiving then [Inl [IoFailure k]] else []), rd_cancelled := True\<rparr>, False))"

fun run_reader_loop ::
  "(bytes \<Rightarrow> nat option) \<Rightarrow> (reader_event \<times> ack_queue \<times> bool) list \<Rightarrow> reader_state \<Rightarrow> reader_state" where
  "run_reader_loop nonce_of [] s = s"
| "run_reader_loop nonce_of (x # xs) s = (case reader_step nonce_of s x of
      (s, True) \<Rightarrow> run_reader_loop nonce_of xs s | (s, False) \<Rightarrow> s)"

section \<open>Heartbeats\<close>

text \<open>
  One round: whether it is cancelled while it sleeps, whether the heartbeat could be queued in time and
  the nonces seen on the acknowledgement channel before the timeout.
\<close>

record heartbeat_round =
  hr_cancelled :: bool
  hr_queued :: bool
  hr_observed :: "nat list"

datatype heartbeat_end = HbRunning | HbCancelled | HbFailed failure

definition heartbeat_frame :: "bytes \<Rightarrow> frame" where
  "heartbeat_frame meta = \<lparr>fr_type = TunnelHeartbeat, fr_flags = 0, fr_stream_id = 0, fr_meta = meta, fr_data = []\<rparr>"

fun run_heartbeat_loop :: "(nat \<Rightarrow> bytes option) \<Rightarrow> nat \<Rightarrow> heartbeat_round list \<Rightarrow> frame list \<times> heartbeat_end" where
  "run_heartbeat_loop encode nonce [] = ([], HbRunning)"
| "run_heartbeat_loop encode nonce (r # rs) =
     (if hr_cancelled r then ([], HbCancelled)
      else case encode nonce of
        None \<Rightarrow> ([], HbFailed json_failure)
      | Some meta \<Rightarrow>
          if \<not> hr_queued r then ([], HbFailed [IoFailure BrokenPipe])
          else if nonce \<notin> set (hr_observed r) then ([heartbeat_frame meta], HbFailed [IoFailure TimedOut])
          else (case run_heartbeat_loop encode (saturating_add nonce 1) rs of
              (fs, e) \<Rightarrow> (heartbeat_frame meta # fs, e)))"

section \<open>The byte budget\<close>

primrec held_by :: "sender \<Rightarrow> nat" where
  "held_by (Reading f current) = 0"
| "held_by (Holding f) = data_plane_charge f"

definition held_bytes :: "tunnel_queue \<Rightarrow> nat" where
  "held_bytes q = sum_mset (image_mset held_by (tq_senders q)) + sum_list (map data_plane_charge (tq_queue q)) +
     (case tq_writing q of None \<Rightarrow> 0 | Some f \<Rightarrow> data_plane_charge f)"

definition budget_inv :: "nat \<Rightarrow> tunnel_queue \<Rightarrow> bool" where
  "budget_inv m q \<longleftrightarrow> tq_max q = m \<and> tq_bytes q = held_bytes q \<and> tq_bytes q \<le> m"

lemma held_remove:
  "x \<in># M \<Longrightarrow> sum_mset (image_mset held_by (M - {#x#})) + held_by x = sum_mset (image_mset held_by M)"
  by (metis add.commute image_mset_add_mset insert_DiffM sum_mset.insert)

lemma release_exact: "c \<le> b \<Longrightarrow> release_queued_bytes b c + c = b"
  by (simp add: release_queued_bytes_def)

lemma step_budget: "queue_step q q' \<Longrightarrow> budget_inv m q \<Longrightarrow> budget_inv m q'"
proof (induction rule: queue_step.induct)
  case (Start q f q')
  then show ?case by (auto simp: send_start_def budget_inv_def held_bytes_def split: if_splits)
next
  case (Reserve f current q spurious n)
  then have "n = tq_bytes q + data_plane_charge f" "n \<le> tq_max q"
    by (auto simp: reserve_round_def checked_add_def split: if_splits option.splits)
  with Reserve held_remove [OF Reserve(1)] show ?case by (simp add: budget_inv_def held_bytes_def)
next
  case (Retry f current q spurious observed)
  with held_remove [OF Retry(1)] show ?case by (simp add: budget_inv_def held_bytes_def)
next
  case (Refuse f current q spurious err)
  with held_remove [OF Refuse(1)] show ?case by (simp add: budget_inv_def held_bytes_def)
next
  case (Enqueue f q)
  with held_remove [OF Enqueue(1)] show ?case by (simp add: budget_inv_def held_bytes_def)
next
  case (Closed f q)
  with held_remove [OF Closed(1)] have "data_plane_charge f \<le> tq_bytes q" by (simp add: budget_inv_def held_bytes_def)
  with Closed held_remove [OF Closed(1)] release_exact [OF this] show ?case by (simp add: budget_inv_def held_bytes_def)
next
  case (Take q f fs)
  then show ?case by (simp add: budget_inv_def held_bytes_def)
next
  case (Written q f)
  then have "data_plane_charge f \<le> tq_bytes q" by (simp add: budget_inv_def held_bytes_def)
  with Written release_exact [OF this] show ?case by (simp add: budget_inv_def held_bytes_def)
next
  case (WriteFailed q f)
  then have "data_plane_charge f \<le> tq_bytes q" by (simp add: budget_inv_def held_bytes_def)
  with WriteFailed release_exact [OF this] show ?case by (simp add: budget_inv_def held_bytes_def)
next
  case (Stop q)
  then show ?case by (simp add: budget_inv_def held_bytes_def)
qed

text \<open>
  C28: The byte budget of a tunnel is exact under every interleaving of senders and writer: the counter
  is the sum of the charges of the frames that are reserved, queued or being written, it never exceeds
  the limit, and no release takes it below zero.
\<close>

theorem tunnel_budget_exact:
  assumes "queue_step\<^sup>*\<^sup>* (new_tunnel_queue m) q"
  shows "tq_bytes q = held_bytes q \<and> tq_bytes q \<le> m"
proof -
  have "budget_inv m q"
    using assms
  proof (induction rule: rtranclp_induct)
    case base
    show ?case by (simp add: budget_inv_def held_bytes_def new_tunnel_queue_def)
  next
    case (step q q')
    from step(2,3) show ?case by (rule step_budget)
  qed
  then show ?thesis by (simp add: budget_inv_def)
qed

definition arrivals :: "(frame \<times> ack_queue) list \<Rightarrow> (reader_event \<times> ack_queue \<times> bool) list" where
  "arrivals xs = map (\<lambda>(f, ack). (ReadFrame f, ack, True)) xs"


section \<open>Samples\<close>

definition plain_frame :: "frame_type \<Rightarrow> bytes \<Rightarrow> frame" where
  "plain_frame ty meta = \<lparr>fr_type = ty, fr_flags = 0, fr_stream_id = 0, fr_meta = meta, fr_data = []\<rparr>"


definition data_frame :: frame where
  "data_frame = \<lparr>fr_type = TcpData, fr_flags = 0, fr_stream_id = 1, fr_meta = [], fr_data = [1]\<rparr>"

lemma sample_queue:
  "queue_step\<^sup>*\<^sup>* (new_tunnel_queue 100) ((new_tunnel_queue 100)\<lparr>tq_bytes := data_plane_charge data_frame, tq_senders := {#Holding data_frame#}\<rparr>)"
proof -
  let ?q = "new_tunnel_queue 100"
  have c: "0 < data_plane_charge data_frame" "data_plane_charge data_frame \<le> 100" by code_simp+
  then have "send_start ?q data_frame = Inr (?q\<lparr>tq_senders := {#Reading data_frame 0#}\<rparr>)"
    by (simp add: send_start_def new_tunnel_queue_def)
  then have 1: "queue_step ?q (?q\<lparr>tq_senders := {#Reading data_frame 0#}\<rparr>)" by (rule Start)
  have "reserve_round 0 (data_plane_charge data_frame) 100 0 False = Reserved (data_plane_charge data_frame)"
    using c by (simp add: reserve_round_def checked_add_def usize_max_def)
  then have "queue_step (?q\<lparr>tq_senders := {#Reading data_frame 0#}\<rparr>)
      (?q\<lparr>tq_bytes := data_plane_charge data_frame, tq_senders := {#Holding data_frame#}\<rparr>)"
    using queue_step.Reserve [of data_frame 0 "?q\<lparr>tq_senders := {#Reading data_frame 0#}\<rparr>" False "data_plane_charge data_frame"]
    by (simp add: new_tunnel_queue_def)
  with 1 show ?thesis by (meson rtranclp.rtrancl_into_rtrancl rtranclp.rtrancl_refl)
qed

theorem tunnel_budget_exact_witness: "0 < data_plane_charge data_frame \<and> data_plane_charge data_frame \<le> 100"
proof -
  have "0 < data_plane_charge data_frame" by code_simp
  with tunnel_budget_exact [OF sample_queue] show ?thesis by simp
qed

end
