(* ===== verification/Tcp_Bridge.thy ===== *)
theory Tcp_Bridge
  imports Tunnel_Events "HOL-Library.Multiset"
begin

text \<open>
  The broker's TCP bridge, \<open>crates/remote-exec-broker/src/port_forward/tcp_bridge.rs\<close>: one epoch of a
  forward as a machine over the frames of its two tunnels, with the accounting of active streams in
  the forward store and the bounded queues of streams that are not connected yet. The bridge is one
  task, so an event is handled before the next is taken.
\<close>

section \<open>State\<close>

record tcp_stream =
  ts_listen_id :: u32
  ts_ready :: bool
  ts_listen_eof :: bool
  ts_connect_eof :: bool
  ts_pending :: "frame list"
  ts_pending_bytes :: nat

record tcp_runtime = tunnel_runtime +
  rt_max_active_tcp_streams :: nat
  rt_max_pending_per_stream :: nat
  rt_max_pending_per_forward :: nat
  rt_stream_order :: "tcp_stream list \<Rightarrow> tcp_stream list"

text \<open>
  \<open>rt_stream_order\<close> is the order in which an iteration over the hash map of streams yields them, which
  the standard library leaves open.
\<close>

definition order_ok :: "tcp_runtime \<Rightarrow> bool" where
  "order_ok rt \<longleftrightarrow> (\<forall>ts. mset (rt_stream_order rt ts) = mset ts)"

record tcp_state = tunnel_world +
  tb_listen_to_connect :: "(u32, u32) table"
  tb_streams :: "(u32, tcp_stream) table"
  tb_pending_total :: nat
  tb_ids :: stream_ids

definition tcp_epoch_start :: "forward_state \<Rightarrow> tcp_state" where
  "tcp_epoch_start store = \<lparr>tw_store = store, tw_to_connect = [], tw_to_listen = [],
     tb_listen_to_connect = [], tb_streams = [], tb_pending_total = 0, tb_ids = new_odd\<rparr>"

section \<open>Accounting\<close>

datatype settlement = Release | Dropped

definition settle_active_tcp_stream :: "tcp_runtime \<Rightarrow> settlement \<Rightarrow> tcp_state \<Rightarrow> tcp_state" where
  "settle_active_tcp_stream rt how s = s\<lparr>tw_store := (case how of
      Release \<Rightarrow> release_active_tcp_stream (tw_store s) (rt_forward_id rt)
    | Dropped \<Rightarrow> record_dropped_tcp_streams_and_release_active (tw_store s) (rt_forward_id rt) 1)\<rparr>"

definition record_dropped_stream :: "tcp_runtime \<Rightarrow> tcp_state \<Rightarrow> tcp_state" where
  "record_dropped_stream rt s =
     s\<lparr>tw_store := record_dropped_tcp_streams (tw_store s) (rt_forward_id rt) 1\<rparr>"

definition remove_stream_entry :: "tcp_state \<Rightarrow> u32 \<Rightarrow> (tcp_state \<times> tcp_stream) option" where
  "remove_stream_entry s c = (case tab_get (tb_streams s) c of
      None \<Rightarrow> None
    | Some t \<Rightarrow> Some (s\<lparr>tb_streams := tab_remove c (tb_streams s),
        tb_pending_total := tb_pending_total s - ts_pending_bytes t,
        tb_listen_to_connect := tab_remove (ts_listen_id t) (tb_listen_to_connect s)\<rparr>,
        t\<lparr>ts_pending_bytes := 0\<rparr>))"

definition remove_tcp_stream_entry_and_settle_active ::
  "tcp_runtime \<Rightarrow> tcp_state \<Rightarrow> u32 \<Rightarrow> settlement \<Rightarrow> tcp_state \<times> tcp_stream option" where
  "remove_tcp_stream_entry_and_settle_active rt s c how = (case remove_stream_entry s c of
      None \<Rightarrow> (s, None)
    | Some (s', t) \<Rightarrow> (settle_active_tcp_stream rt how s', Some t))"

text \<open>
  Closing every listen stream: the table is emptied first, then each stream is closed in turn; the
  first failure is returned after the accounting, a retryable one counts as none.
\<close>

fun close_listen_streams :: "tunnel_env \<Rightarrow> tcp_state \<Rightarrow> tcp_stream list \<Rightarrow> tcp_state \<times> failure list" where
  "close_listen_streams env s [] = (s, [])"
| "close_listen_streams env s (t # ts) =
     (case close_listen_stream env (s\<lparr>tb_pending_total := tb_pending_total s - ts_pending_bytes t\<rparr>) (ts_listen_id t) of
        (s', Inr _) \<Rightarrow> close_listen_streams env s' ts
      | (s', Inl err) \<Rightarrow> (case close_listen_streams env s' ts of (s'', errs) \<Rightarrow> (s'', err # errs)))"

definition close_active_tcp_listen_streams ::
  "tcp_runtime \<Rightarrow> tunnel_env \<Rightarrow> tcp_state \<Rightarrow> tcp_state \<times> (failure, unit) result" where
  "close_active_tcp_listen_streams rt env s =
     (case close_listen_streams env (s\<lparr>tb_streams := [], tb_listen_to_connect := []\<rparr>) 
         (rt_stream_order rt (map snd (tb_streams s))) of
        (s', errs) \<Rightarrow>
          (s'\<lparr>tw_store := record_dropped_tcp_streams_and_release_active (tw_store s') (rt_forward_id rt)
              (length (tb_streams s))\<rparr>,
           case errs of [] \<Rightarrow> Inr ()
           | err # _ \<Rightarrow> bindR (classify_transport_failure err
               (lit ''closing tcp listen stream after connect tunnel loss'') RoleListenTunnel) (\<lambda>_. Inr ())))"

section \<open>Opening\<close>

definition record_tcp_stream_pair :: "tcp_state \<Rightarrow> u32 \<Rightarrow> u32 \<Rightarrow> tcp_state" where
  "record_tcp_stream_pair s l c =
     s\<lparr>tb_listen_to_connect := tab_insert l c (tb_listen_to_connect s),
       tb_streams := tab_insert c \<lparr>ts_listen_id = l, ts_ready = False, ts_listen_eof = False,
         ts_connect_eof = False, ts_pending = [], ts_pending_bytes = 0\<rparr> (tb_streams s)\<rparr>"

definition allocate_connect_stream_id ::
  "tcp_runtime \<Rightarrow> tunnel_env \<Rightarrow> tcp_state \<Rightarrow> u32 \<Rightarrow> tcp_state \<times> (failure, u32 option) result" where
  "allocate_connect_stream_id rt env s l = (case next_stream_id (tb_ids s) of
      (ids, Some c) \<Rightarrow> (s\<lparr>tb_ids := ids\<rparr>, Inr (Some c))
    | (ids, None) \<Rightarrow>
        andThen (close_active_tcp_listen_streams rt env
          (settle_active_tcp_stream rt Dropped (fst (close_listen_stream env (s\<lparr>tb_ids := ids\<rparr>) l))))
          (\<lambda>s _. (s, Inr None)))"

definition close_unpaired_listen_stream_after_connect_loss ::
  "tcp_runtime \<Rightarrow> tunnel_env \<Rightarrow> tcp_state \<Rightarrow> u32 \<Rightarrow> tcp_state \<times> (failure, loop_control) result" where
  "close_unpaired_listen_stream_after_connect_loss rt env s l = (case close_listen_stream env s l of
      (s, r) \<Rightarrow> (settle_active_tcp_stream rt Dropped s, case r of
          Inl err \<Rightarrow> classify_transport_failure err
            (lit ''closing tcp listen stream after connect tunnel loss'') RoleListenTunnel
        | Inr _ \<Rightarrow> Inr (RecoverTunnel RoleConnectTunnel)))"

definition send_tcp_connect_open ::
  "tcp_runtime \<Rightarrow> tunnel_env \<Rightarrow> tcp_state \<Rightarrow> u32 \<Rightarrow> u32 \<Rightarrow> tcp_state \<times> (failure, loop_control option) result" where
  "send_tcp_connect_open rt env s l c = (case tj_encode_endpoint (rt_json rt) (rt_connect_endpoint rt) of
      None \<Rightarrow> (s, Inl json_failure)
    | Some meta \<Rightarrow> (case send_connect env s
          \<lparr>fr_type = TcpConnect, fr_flags = 0, fr_stream_id = c, fr_meta = meta, fr_data = []\<rparr> of
        (s, Inr _) \<Rightarrow> (s, Inr None)
      | (s, Inl err) \<Rightarrow>
          if is_retryable_transport_error err
          then andThen (close_unpaired_listen_stream_after_connect_loss rt env s l) (\<lambda>s k. (s, Inr (Some k)))
          else (settle_active_tcp_stream rt Dropped s,
                Inl (Message (lit ''connecting tcp forward destination'') # err))))"

definition handle_listen_tcp_accept ::
  "tcp_runtime \<Rightarrow> tunnel_env \<Rightarrow> tcp_state \<Rightarrow> frame \<Rightarrow> tcp_state \<times> (failure, loop_control option) result" where
  "handle_listen_tcp_accept rt env s f = (case tj_decode_accept (rt_json rt) (fr_meta f) of
      None \<Rightarrow> (s, Inl json_failure)
    | Some _ \<Rightarrow> (case try_reserve_active_tcp_stream (tw_store s) (rt_forward_id rt) (rt_max_active_tcp_streams rt) of
        (store, False) \<Rightarrow>
          (record_dropped_stream rt (fst (close_listen_stream env (s\<lparr>tw_store := store\<rparr>) (fr_stream_id f))), Inr None)
      | (store, True) \<Rightarrow>
          andThen (allocate_connect_stream_id rt env (s\<lparr>tw_store := store\<rparr>) (fr_stream_id f)) (\<lambda>s cid. case cid of
            None \<Rightarrow> (s, Inr (Some (RecoverTunnel RoleConnectTunnel)))
          | Some c \<Rightarrow> andThen (send_tcp_connect_open rt env s (fr_stream_id f) c) (\<lambda>s control. case control of
              Some k \<Rightarrow> (s, Inr (Some k))
            | None \<Rightarrow> (record_tcp_stream_pair s (fr_stream_id f) c, Inr None)))))"

section \<open>Relaying to the connect side\<close>

datatype connect_send = Sent | SendBackpressure | SendRetryable

definition send_or_classify_connect_tunnel_frame ::
  "tunnel_env \<Rightarrow> tcp_state \<Rightarrow> frame \<Rightarrow> tcp_state \<times> (failure, connect_send) result" where
  "send_or_classify_connect_tunnel_frame env s f = (case send_connect env s f of
      (s, Inr _) \<Rightarrow> (s, Inr Sent)
    | (s, Inl e) \<Rightarrow> let err = Message (lit ''relaying tcp data to connect tunnel'') # e
        in (s, if is_backpressure_error err then Inr SendBackpressure
               else if is_retryable_transport_error err then Inr SendRetryable else Inl err))"

datatype close_reason = ConnectError | ConnectPressure

definition close_tcp_pair ::
  "tcp_runtime \<Rightarrow> tunnel_env \<Rightarrow> tcp_state \<Rightarrow> u32 \<Rightarrow> close_reason \<Rightarrow> tcp_state \<times> (failure, unit) result" where
  "close_tcp_pair rt env s c reason =
     (case remove_tcp_stream_entry_and_settle_active rt s c
         (case reason of ConnectError \<Rightarrow> Release | ConnectPressure \<Rightarrow> Dropped) of
        (s, None) \<Rightarrow> (s, Inr ())
      | (s, Some t) \<Rightarrow> (case reason of
          ConnectError \<Rightarrow> (case close_listen_stream env s (ts_listen_id t) of
              (s, Inr _) \<Rightarrow> (s, Inr ())
            | (s, Inl err) \<Rightarrow> (s, bindR (classify_transport_failure err
                (lit ''closing tcp listen stream after connect error'') RoleListenTunnel) (\<lambda>_. Inr ())))
        | ConnectPressure \<Rightarrow>
            (fst (close_listen_stream env (fst (close_connect_stream env s c)) (ts_listen_id t)), Inr ())))"

definition frame_data_bytes :: "frame \<Rightarrow> nat" where
  "frame_data_bytes f = saturating_add (length (fr_meta f)) (length (fr_data f))"

datatype queue_result = Queued | QueueLimitExceeded u32

definition try_queue_pending_tcp_connect_frame ::
  "tcp_runtime \<Rightarrow> tcp_state \<Rightarrow> u32 \<Rightarrow> frame \<Rightarrow> tcp_state \<times> queue_result option" where
  "try_queue_pending_tcp_connect_frame rt s c f = (case tab_get (tb_streams s) c of
      None \<Rightarrow> (s, None)
    | Some t \<Rightarrow>
        let next_stream = saturating_add (ts_pending_bytes t) (frame_data_bytes f);
            next_forward = saturating_add (tb_pending_total s) (frame_data_bytes f)
        in if next_stream > rt_max_pending_per_stream rt \<or> next_forward > rt_max_pending_per_forward rt
           then (s, Some (QueueLimitExceeded (ts_listen_id t)))
           else (s\<lparr>tb_streams := tab_insert c (t\<lparr>ts_pending_bytes := next_stream, ts_pending := ts_pending t @ [f]\<rparr>)
                   (tb_streams s), tb_pending_total := next_forward\<rparr>, Some Queued))"

definition drop_overflowed_pending_tcp_stream ::
  "tcp_runtime \<Rightarrow> tunnel_env \<Rightarrow> tcp_state \<Rightarrow> u32 \<Rightarrow> u32 \<Rightarrow> tcp_state" where
  "drop_overflowed_pending_tcp_stream rt env s c l =
     fst (close_listen_stream env (fst (close_connect_stream env
       (fst (remove_tcp_stream_entry_and_settle_active rt s c Dropped)) c)) l)"

definition queue_or_send_tcp_connect_frame ::
  "tcp_runtime \<Rightarrow> tunnel_env \<Rightarrow> tcp_state \<Rightarrow> u32 \<Rightarrow> frame \<Rightarrow> tcp_state \<times> (failure, loop_control option) result" where
  "queue_or_send_tcp_connect_frame rt env s c f = (case tab_get (tb_streams s) c of
      None \<Rightarrow> (s, Inr None)
    | Some t \<Rightarrow>
        if ts_ready t
        then andThen (send_or_classify_connect_tunnel_frame env s f) (\<lambda>s sent. case sent of
            Sent \<Rightarrow> (s, Inr None)
          | SendBackpressure \<Rightarrow> andThen (close_tcp_pair rt env s c ConnectPressure) (\<lambda>s _. (s, Inr None))
          | SendRetryable \<Rightarrow> andThen (close_active_tcp_listen_streams rt env s) (\<lambda>s _.
              (s, Inr (Some (RecoverTunnel RoleConnectTunnel)))))
        else (case try_queue_pending_tcp_connect_frame rt s c f of
            (s, Some (QueueLimitExceeded l)) \<Rightarrow> (drop_overflowed_pending_tcp_stream rt env s c l, Inr None)
          | (s, _) \<Rightarrow> (s, Inr None)))"

definition handle_listen_tcp_data ::
  "tcp_runtime \<Rightarrow> tunnel_env \<Rightarrow> tcp_state \<Rightarrow> frame \<Rightarrow> tcp_state \<times> (failure, loop_control option) result" where
  "handle_listen_tcp_data rt env s f = (case tab_get (tb_listen_to_connect s) (fr_stream_id f) of
      None \<Rightarrow> (s, Inr None)
    | Some c \<Rightarrow> queue_or_send_tcp_connect_frame rt env s c (f\<lparr>fr_stream_id := c\<rparr>))"

definition close_tcp_pair_if_fully_eof ::
  "tcp_runtime \<Rightarrow> tunnel_env \<Rightarrow> tcp_state \<Rightarrow> u32 \<Rightarrow> tcp_state \<times> (failure, loop_control option) result" where
  "close_tcp_pair_if_fully_eof rt env s c = (case tab_get (tb_streams s) c of
      None \<Rightarrow> (s, Inr None)
    | Some t \<Rightarrow>
        if \<not> (ts_listen_eof t \<and> ts_connect_eof t) then (s, Inr None)
        else (case remove_tcp_stream_entry_and_settle_active rt s c Release of (s, _) \<Rightarrow>
          (case close_connect_stream env s c of
            (s, Inl err) \<Rightarrow>
              if is_retryable_transport_error err
              then (case close_listen_stream env s (ts_listen_id t) of
                  (s, Inl listen_err) \<Rightarrow> (s, bindR (classify_transport_failure listen_err
                    (lit ''closing fully drained tcp listen stream after connect tunnel loss'') RoleListenTunnel)
                    (\<lambda>k. Inr (Some k)))
                | (s, Inr _) \<Rightarrow> (s, Inr (Some (RecoverTunnel RoleConnectTunnel))))
              else (s, Inl (Message (lit ''closing fully drained tcp connect stream'') # err))
          | (s, Inr _) \<Rightarrow> (case close_listen_stream env s (ts_listen_id t) of
              (s, Inl err) \<Rightarrow> (s, bindR (classify_transport_failure err
                (lit ''closing fully drained tcp listen stream'') RoleListenTunnel) (\<lambda>k. Inr (Some k)))
            | (s, Inr _) \<Rightarrow> (s, Inr None)))))"

definition update_stream :: "tcp_state \<Rightarrow> u32 \<Rightarrow> (tcp_stream \<Rightarrow> tcp_stream) \<Rightarrow> tcp_state" where
  "update_stream s c f = (case tab_get (tb_streams s) c of
      None \<Rightarrow> s | Some t \<Rightarrow> s\<lparr>tb_streams := tab_insert c (f t) (tb_streams s)\<rparr>)"

definition eof_frame :: "frame_type \<Rightarrow> u32 \<Rightarrow> frame" where
  "eof_frame ty i = \<lparr>fr_type = ty, fr_flags = 0, fr_stream_id = i, fr_meta = [], fr_data = []\<rparr>"

definition handle_listen_tcp_eof ::
  "tcp_runtime \<Rightarrow> tunnel_env \<Rightarrow> tcp_state \<Rightarrow> frame \<Rightarrow> tcp_state \<times> (failure, loop_control option) result" where
  "handle_listen_tcp_eof rt env s f = (case tab_get (tb_listen_to_connect s) (fr_stream_id f) of
      None \<Rightarrow> (s, Inr None)
    | Some c \<Rightarrow>
        andThen (queue_or_send_tcp_connect_frame rt env (update_stream s c (\<lambda>t. t\<lparr>ts_listen_eof := True\<rparr>)) c
          (eof_frame (fr_type f) c)) (\<lambda>s control. case control of
            Some k \<Rightarrow> (s, Inr (Some k))
          | None \<Rightarrow> close_tcp_pair_if_fully_eof rt env s c))"

definition handle_listen_close :: "tcp_runtime \<Rightarrow> tunnel_env \<Rightarrow> tcp_state \<Rightarrow> frame \<Rightarrow> tcp_state" where
  "handle_listen_close rt env s f = (case tab_get (tb_listen_to_connect s) (fr_stream_id f) of
      None \<Rightarrow> s
    | Some c \<Rightarrow> (case remove_tcp_stream_entry_and_settle_active rt
          (s\<lparr>tb_listen_to_connect := tab_remove (fr_stream_id f) (tb_listen_to_connect s)\<rparr>) c Release of
        (s, None) \<Rightarrow> s
      | (s, Some _) \<Rightarrow> fst (close_connect_stream env s c)))"

definition handle_listen_error ::
  "tcp_runtime \<Rightarrow> tunnel_env \<Rightarrow> tcp_state \<Rightarrow> frame \<Rightarrow> tcp_state \<times> (failure, loop_control option) result" where
  "handle_listen_error rt env s f =
     (if fr_stream_id f = rt_listener_stream_id rt
      then let meta = decode_tunnel_error_frame (rt_json rt) f
           in if is_recoverable_pressure_tunnel_error meta then (record_dropped_stream rt s, Inr None)
              else (s, Inl (Message (lit ''listen-side tcp tunnel error'') # format_terminal_tunnel_error meta))
      else (case tab_get (tb_listen_to_connect s) (fr_stream_id f) of
          None \<Rightarrow> (s, Inr None)
        | Some c \<Rightarrow> (case close_connect_stream env (fst (remove_tcp_stream_entry_and_settle_active rt
              (s\<lparr>tb_listen_to_connect := tab_remove (fr_stream_id f) (tb_listen_to_connect s)\<rparr>) c Release)) c of
            (s, Inr _) \<Rightarrow> (s, Inr None)
          | (s, Inl err) \<Rightarrow> (s, bindR (classify_transport_failure err
              (lit ''closing tcp connect stream after listen error'') RoleConnectTunnel) (\<lambda>k. Inr (Some k))))))"

section \<open>Relaying to the listen side\<close>

datatype flush_result = FlushSent bool | FlushRecover loop_control

text \<open>The loop of \<open>flush_pending_tcp_connect_frames\<close>; the flag is \<open>should_remove\<close>.\<close>

fun flush_frames ::
  "tcp_runtime \<Rightarrow> tunnel_env \<Rightarrow> tcp_state \<Rightarrow> u32 \<Rightarrow> bool \<Rightarrow> frame list \<Rightarrow> tcp_state \<times> (failure, flush_result) result" where
  "flush_frames rt env s c should_remove [] = (s, Inr (FlushSent should_remove))"
| "flush_frames rt env s c should_remove (f # fs) =
     (case send_or_classify_connect_tunnel_frame env s f of
        (s, Inl err) \<Rightarrow> (s, Inl err)
      | (s, Inr SendBackpressure) \<Rightarrow>
          andThen (close_tcp_pair rt env s c ConnectPressure) (\<lambda>s _. (s, Inr (FlushSent True)))
      | (s, Inr SendRetryable) \<Rightarrow>
          andThen (close_active_tcp_listen_streams rt env s) (\<lambda>s _. (s, Inr (FlushRecover (RecoverTunnel RoleConnectTunnel))))
      | (s, Inr Sent) \<Rightarrow>
          if fr_type f = FClose
          then flush_frames rt env (settle_active_tcp_stream rt Release (case tab_get (tb_streams s) c of
              None \<Rightarrow> s
            | Some t \<Rightarrow> s\<lparr>tb_listen_to_connect := tab_remove (ts_listen_id t) (tb_listen_to_connect s)\<rparr>)) c True fs
          else flush_frames rt env s c should_remove fs)"

definition release_stream_budget :: "tcp_state \<Rightarrow> u32 \<Rightarrow> tcp_state" where
  "release_stream_budget s c = (case tab_get (tb_streams s) c of
      None \<Rightarrow> s
    | Some t \<Rightarrow> s\<lparr>tb_pending_total := tb_pending_total s - ts_pending_bytes t,
        tb_streams := tab_insert c (t\<lparr>ts_pending_bytes := 0\<rparr>) (tb_streams s)\<rparr>)"

definition flush_pending_tcp_connect_frames ::
  "tcp_runtime \<Rightarrow> tunnel_env \<Rightarrow> tcp_state \<Rightarrow> u32 \<Rightarrow> frame list \<Rightarrow> tcp_state \<times> (failure, flush_result) result" where
  "flush_pending_tcp_connect_frames rt env s c fs = flush_frames rt env (release_stream_budget s c) c False fs"

definition handle_connect_tcp_connect_ok ::
  "tcp_runtime \<Rightarrow> tunnel_env \<Rightarrow> tcp_state \<Rightarrow> frame \<Rightarrow> tcp_state \<times> (failure, loop_control option) result" where
  "handle_connect_tcp_connect_ok rt env s f = (case tab_get (tb_streams s) (fr_stream_id f) of
      None \<Rightarrow> (s, Inr None)
    | Some t \<Rightarrow>
        andThen (flush_pending_tcp_connect_frames rt env
          (update_stream s (fr_stream_id f) (\<lambda>t. t\<lparr>ts_ready := True, ts_pending := []\<rparr>)) (fr_stream_id f) (ts_pending t))
          (\<lambda>s out. case out of
            FlushRecover k \<Rightarrow> (s, Inr (Some k))
          | FlushSent should_remove \<Rightarrow>
              (if should_remove then s\<lparr>tb_streams := tab_remove (fr_stream_id f) (tb_streams s)\<rparr> else s, Inr None)))"

definition handle_connect_error ::
  "tcp_runtime \<Rightarrow> tunnel_env \<Rightarrow> tcp_state \<Rightarrow> frame \<Rightarrow> tcp_state \<times> (failure, unit) result" where
  "handle_connect_error rt env s f = close_tcp_pair rt env s (fr_stream_id f) ConnectError"

definition handle_connect_tcp_data ::
  "tunnel_env \<Rightarrow> tcp_state \<Rightarrow> frame \<Rightarrow> tcp_state \<times> (failure, loop_control option) result" where
  "handle_connect_tcp_data env s f = (case tab_get (tb_streams s) (fr_stream_id f) of
      None \<Rightarrow> (s, Inr None)
    | Some t \<Rightarrow> (case send_listen env s (f\<lparr>fr_stream_id := ts_listen_id t\<rparr>) of
        (s, Inr _) \<Rightarrow> (s, Inr None)
      | (s, Inl err) \<Rightarrow> (s, bindR (classify_transport_failure err
          (lit ''relaying tcp data to listen tunnel'') RoleListenTunnel) (\<lambda>k. Inr (Some k)))))"

definition handle_connect_tcp_eof ::
  "tcp_runtime \<Rightarrow> tunnel_env \<Rightarrow> tcp_state \<Rightarrow> frame \<Rightarrow> tcp_state \<times> (failure, loop_control option) result" where
  "handle_connect_tcp_eof rt env s f = (case tab_get (tb_streams s) (fr_stream_id f) of
      None \<Rightarrow> (s, Inr None)
    | Some t \<Rightarrow> (case send_listen env (update_stream s (fr_stream_id f) (\<lambda>t. t\<lparr>ts_connect_eof := True\<rparr>))
          (eof_frame (fr_type f) (ts_listen_id t)) of
        (s, Inr _) \<Rightarrow> close_tcp_pair_if_fully_eof rt env s (fr_stream_id f)
      | (s, Inl err) \<Rightarrow> (s, bindR (classify_transport_failure err
          (lit ''relaying tcp eof to listen tunnel'') RoleListenTunnel) (\<lambda>k. Inr (Some k)))))"

definition handle_connect_close ::
  "tcp_runtime \<Rightarrow> tunnel_env \<Rightarrow> tcp_state \<Rightarrow> frame \<Rightarrow> tcp_state \<times> (failure, loop_control option) result" where
  "handle_connect_close rt env s f =
     (case remove_tcp_stream_entry_and_settle_active rt s (fr_stream_id f) Release of
        (s, None) \<Rightarrow> (s, Inr None)
      | (s, Some t) \<Rightarrow> (case close_listen_stream env s (ts_listen_id t) of
          (s, Inr _) \<Rightarrow> (s, Inr None)
        | (s, Inl err) \<Rightarrow> (s, bindR (classify_transport_failure err
            (lit ''closing tcp listen stream'') RoleListenTunnel) (\<lambda>k. Inr (Some k)))))"

section \<open>The epoch\<close>

definition handle_tcp_listen_frame ::
  "tcp_runtime \<Rightarrow> tunnel_env \<Rightarrow> tcp_state \<Rightarrow> frame \<Rightarrow> tcp_state \<times> (failure, loop_control option) result" where
  "handle_tcp_listen_frame rt env s f =
     (if fr_type f = TcpAccept then handle_listen_tcp_accept rt env s f
      else if fr_type f = TcpData then handle_listen_tcp_data rt env s f
      else if fr_type f = TcpEof then handle_listen_tcp_eof rt env s f
      else if fr_type f = FClose then (handle_listen_close rt env s f, Inr None)
      else if fr_type f = FError then handle_listen_error rt env s f
      else if fr_type f = ForwardDrop
        then (case apply_forward_drop_report (rt_json rt) (tw_store s) (rt_forward_id rt) f of
            (store, Inl err) \<Rightarrow> (s\<lparr>tw_store := store\<rparr>, Inl err)
          | (store, Inr _) \<Rightarrow> (s\<lparr>tw_store := store\<rparr>, Inr None))
      else (s, Inr None))"

definition handle_tcp_connect_frame ::
  "tcp_runtime \<Rightarrow> tunnel_env \<Rightarrow> tcp_state \<Rightarrow> frame \<Rightarrow> tcp_state \<times> (failure, loop_control option) result" where
  "handle_tcp_connect_frame rt env s f =
     (if fr_type f = TcpConnectOk then handle_connect_tcp_connect_ok rt env s f
      else if fr_type f = FError then andThen (handle_connect_error rt env s f) (\<lambda>s _. (s, Inr None))
      else if fr_type f = TcpData then handle_connect_tcp_data env s f
      else if fr_type f = TcpEof then handle_connect_tcp_eof rt env s f
      else if fr_type f = FClose then handle_connect_close rt env s f
      else (s, Inr None))"

definition handle_listen_tunnel_event ::
  "tcp_runtime \<Rightarrow> tunnel_env \<Rightarrow> tcp_state \<Rightarrow> (failure, frame) result \<Rightarrow>
   tcp_state \<times> (failure, loop_control option) result" where
  "handle_listen_tunnel_event rt env s r =
     andThen (s, recoverable_tunnel_frame (rt_json rt) r (lit ''reading tcp listen tunnel'')
       (lit ''listen-side tcp tunnel error'') (RecoverTunnel RoleListenTunnel)) (\<lambda>s out. case out of
         OutControl k \<Rightarrow> (s, Inr (Some k))
       | OutFrame f \<Rightarrow> handle_tcp_listen_frame rt env s f)"

text \<open>The loss of the connect tunnel first closes the listen streams, whose failure ends the forward.\<close>

definition handle_connect_tunnel_event ::
  "tcp_runtime \<Rightarrow> tunnel_env \<Rightarrow> tcp_state \<Rightarrow> (failure, frame) result \<Rightarrow>
   tcp_state \<times> (failure, loop_control option) result" where
  "handle_connect_tunnel_event rt env s r =
     andThen (s, recoverable_tunnel_frame (rt_json rt) r (lit ''reading tcp connect tunnel'')
       (lit ''connecting tcp forward destination'') (RecoverTunnel RoleConnectTunnel)) (\<lambda>s out. case out of
         OutControl k \<Rightarrow> andThen (close_active_tcp_listen_streams rt env s) (\<lambda>s _. (s, Inr (Some k)))
       | OutFrame f \<Rightarrow> handle_tcp_connect_frame rt env s f)"

datatype tcp_event =
    TcpCancel | FromListen "(failure, frame) result" | FromConnect "(failure, frame) result"

definition tcp_epoch_step ::
  "tcp_runtime \<Rightarrow> tunnel_env \<Rightarrow> tcp_event \<Rightarrow> tcp_state \<Rightarrow> tcp_state \<times> (failure, loop_control option) result" where
  "tcp_epoch_step rt env ev s = (case ev of
      TcpCancel \<Rightarrow> (s, Inr (Some Cancelled))
    | FromListen r \<Rightarrow> handle_listen_tunnel_event rt env s r
    | FromConnect r \<Rightarrow> handle_connect_tunnel_event rt env s r)"

text \<open>The select loop fed with a list of events; None when it still waits after the last one.\<close>

fun run_tcp_forward_epoch ::
  "tcp_runtime \<Rightarrow> (tunnel_env \<times> tcp_event) list \<Rightarrow> tcp_state \<Rightarrow> tcp_state \<times> (failure, loop_control option) result" where
  "run_tcp_forward_epoch rt [] s = (s, Inr None)"
| "run_tcp_forward_epoch rt ((env, ev) # evs) s = (case tcp_epoch_step rt env ev s of
      (s, Inr None) \<Rightarrow> run_tcp_forward_epoch rt evs s
    | (s, r) \<Rightarrow> (s, r))"

section \<open>The invariant of an epoch\<close>

text \<open>
  \<open>base\<close> counts the slots of the forward that belong to no stream of the epoch: those taken before it
  began, and the one an accept holds until its pair is recorded.
\<close>

definition active_of :: "tcp_runtime \<Rightarrow> tcp_state \<Rightarrow> nat option" where
  "active_of rt s = map_option fe_active_tcp_streams (tab_get (pf_public (tw_store s)) (rt_forward_id rt))"

definition limits_ok :: "tcp_runtime \<Rightarrow> bool" where
  "limits_ok rt \<longleftrightarrow> rt_max_pending_per_stream rt < usize_max \<and> rt_max_pending_per_forward rt < usize_max"

definition pending_sum :: "(u32, tcp_stream) table \<Rightarrow> nat" where
  "pending_sum t = sum_list (map (\<lambda>x. ts_pending_bytes (snd x)) t)"

definition stream_ok :: "tcp_runtime \<Rightarrow> stream_ids \<Rightarrow> u32 \<Rightarrow> tcp_stream \<Rightarrow> bool" where
  "stream_ok rt ids c t \<longleftrightarrow> issued 1 ids c \<and> ts_pending_bytes t = sum_list (map frame_data_bytes (ts_pending t)) \<and>
     ts_pending_bytes t \<le> rt_max_pending_per_stream rt \<and> (ts_ready t \<longrightarrow> ts_pending t = []) \<and>
     (\<forall>f \<in> set (ts_pending t). fr_stream_id f = c \<and> fr_type f \<in> {TcpData, TcpEof})"

definition tables_ok :: "tcp_runtime \<Rightarrow> tcp_state \<Rightarrow> bool" where
  "tables_ok rt s \<longleftrightarrow> tab_ok (tb_listen_to_connect s) \<and> tab_ok (tb_streams s) \<and> ids_ok 1 (tb_ids s) \<and>
     (\<forall>l c. tab_get (tb_listen_to_connect s) l = Some c \<longrightarrow>
        (\<exists>t. tab_get (tb_streams s) c = Some t \<and> ts_listen_id t = l)) \<and>
     (\<forall>c t. tab_get (tb_streams s) c = Some t \<longrightarrow> stream_ok rt (tb_ids s) c t) \<and>
     tb_pending_total s = pending_sum (tb_streams s) \<and> tb_pending_total s \<le> rt_max_pending_per_forward rt"

definition counted :: "tcp_runtime \<Rightarrow> nat \<Rightarrow> tcp_state \<Rightarrow> bool" where
  "counted rt base s \<longleftrightarrow> active_of rt s = Some (base + length (tb_streams s))"

definition tcp_inv :: "tcp_runtime \<Rightarrow> nat \<Rightarrow> tcp_state \<Rightarrow> bool" where
  "tcp_inv rt base s \<longleftrightarrow> tables_ok rt s \<and> counted rt base s"

text \<open>What the invariant reads; sends leave it as it is.\<close>

definition core :: "tcp_runtime \<Rightarrow> tcp_state \<Rightarrow> _" where
  "core rt s = (active_of rt s, tb_listen_to_connect s, tb_streams s, tb_pending_total s, tb_ids s)"

lemma core_inv: "core rt s' = core rt s \<Longrightarrow> tcp_inv rt base s' = tcp_inv rt base s"
  by (simp add: core_def tcp_inv_def tables_ok_def counted_def)

lemma core_sends [simp]:
  "core rt (fst (send_connect env s f)) = core rt s" "core rt (fst (send_listen env s f)) = core rt s"
  "core rt (fst (close_connect_stream env s i)) = core rt s" "core rt (fst (close_listen_stream env s i)) = core rt s"
  by (simp_all add: send_connect_def send_listen_def close_connect_stream_def close_listen_stream_def core_def
      active_of_def split: sum.splits)

lemma inv_sends [simp]:
  "tcp_inv rt base (fst (send_connect env s f)) = tcp_inv rt base s"
  "tcp_inv rt base (fst (send_listen env s f)) = tcp_inv rt base s"
  "tcp_inv rt base (fst (close_connect_stream env s i)) = tcp_inv rt base s"
  "tcp_inv rt base (fst (close_listen_stream env s i)) = tcp_inv rt base s"
  by (rule core_inv, simp)+

section \<open>Sums over a table\<close>

lemma pending_sum_insert_new: "tab_get t k = None \<Longrightarrow> pending_sum (tab_insert k v t) = pending_sum t + ts_pending_bytes v"
  by (induction t) (auto simp: pending_sum_def tab_get_def tab_insert_def split: if_splits)

lemma pending_sum_insert_old:
  "tab_get t k = Some w \<Longrightarrow> pending_sum (tab_insert k v t) + ts_pending_bytes w = pending_sum t + ts_pending_bytes v"
  by (induction t) (auto simp: pending_sum_def tab_get_def tab_insert_def split: if_splits)

lemma pending_sum_remove:
  "tab_ok t \<Longrightarrow> tab_get t k = Some w \<Longrightarrow> pending_sum (tab_remove k t) + ts_pending_bytes w = pending_sum t"
proof (induction t)
  case (Cons x t)
  show ?case
  proof (cases "fst x = k")
    case True
    then have "AList.delete k t = t"
      using Cons.prems(1) by (intro delete_id) (auto simp: tab_ok_def)
    with True Cons.prems show ?thesis
      by (auto simp: pending_sum_def tab_get_def tab_remove_def)
  next
    case False
    with Cons show ?thesis by (auto simp: pending_sum_def tab_get_def tab_remove_def tab_ok_def)
  qed
qed simp

section \<open>The active count\<close>

lemma active_mutate:
  "map_option fe_active_tcp_streams (tab_get (pf_public (mutate_entry st i f)) j) =
     (if i = j then map_option (\<lambda>e. fe_active_tcp_streams (f e)) (tab_get (pf_public st) j)
      else map_option fe_active_tcp_streams (tab_get (pf_public st) j))"
  by (auto simp: mutate_entry_def tab.get_insert split: option.splits)

lemma active_settle [simp]:
  "active_of rt (settle_active_tcp_stream rt how s) = map_option (\<lambda>n. n - 1) (active_of rt s)"
  by (cases how) (simp_all add: settle_active_tcp_stream_def active_of_def release_active_tcp_stream_def
      record_dropped_tcp_streams_and_release_active_def active_mutate release_active_tcp_streams_def option.map_comp o_def)

lemma settle_fields [simp]:
  "tb_streams (settle_active_tcp_stream rt how s) = tb_streams s"
  "tb_listen_to_connect (settle_active_tcp_stream rt how s) = tb_listen_to_connect s"
  "tb_pending_total (settle_active_tcp_stream rt how s) = tb_pending_total s"
  "tb_ids (settle_active_tcp_stream rt how s) = tb_ids s"
  by (simp_all add: settle_active_tcp_stream_def)

lemma settle_inv: "tcp_inv rt (Suc base) s \<Longrightarrow> tcp_inv rt base (settle_active_tcp_stream rt how s)"
  by (auto simp: tcp_inv_def tables_ok_def counted_def)

lemma dropped_core [simp]: "core rt (record_dropped_stream rt s) = core rt s"
  by (simp add: core_def record_dropped_stream_def active_of_def record_dropped_tcp_streams_def active_mutate)

lemma reserve_slot_inv:
  assumes "tcp_inv rt base s"
    and "try_reserve_active_tcp_stream (tw_store s) (rt_forward_id rt) m = (store, ok)"
  shows "tcp_inv rt (if ok then Suc base else base) (s\<lparr>tw_store := store\<rparr>)"
  using assms
  by (auto simp: tcp_inv_def tables_ok_def counted_def active_of_def try_reserve_active_tcp_stream_def
      mutate_entry_def tab.get_insert split: option.splits)

lemma report_core:
  assumes "apply_forward_drop_report json (tw_store s) (rt_forward_id rt) f = (store, r)"
  shows "core rt (s\<lparr>tw_store := store\<rparr>) = core rt s"
  using assms
  by (auto simp: core_def active_of_def apply_forward_drop_report_def record_dropped_tcp_streams_def
      record_dropped_udp_datagrams_def active_mutate Let_def split: option.splits drop_kind.splits if_splits)

section \<open>Operations on the tables\<close>

lemma length_remove: "tab_ok t \<Longrightarrow> tab_get t k = Some v \<Longrightarrow> length t = Suc (length (tab_remove k t))"
  using tab.count_remove_present [of t k v] by simp

lemma remove_entry_inv:
  assumes inv: "tcp_inv rt base s" and r: "remove_stream_entry s c = Some (s', t)"
  shows "tcp_inv rt (Suc base) s'"
proof -
  obtain u where u: "tab_get (tb_streams s) c = Some u"
    and s': "s' = s\<lparr>tb_streams := tab_remove c (tb_streams s),
        tb_pending_total := tb_pending_total s - ts_pending_bytes u,
        tb_listen_to_connect := tab_remove (ts_listen_id u) (tb_listen_to_connect s)\<rparr>"
    using r by (auto simp: remove_stream_entry_def split: option.splits)
  have ok: "tab_ok (tb_streams s)" using inv by (simp add: tcp_inv_def tables_ok_def)
  have pair: "\<exists>t. (if c' = c then None else tab_get (tb_streams s) c') = Some t \<and> ts_listen_id t = l"
    if "tab_get (tb_listen_to_connect s) l = Some c'" "l \<noteq> ts_listen_id u" for l c'
    using inv that u by (fastforce simp: tcp_inv_def tables_ok_def)
  show ?thesis
    using inv u pending_sum_remove [OF ok u] length_remove [OF ok u] pair
    by (auto simp: s' tcp_inv_def tables_ok_def counted_def active_of_def tab.get_remove tab.ok_remove split: if_splits)
qed

lemma remove_settle_inv:
  "tcp_inv rt base s \<Longrightarrow> tcp_inv rt base (fst (remove_tcp_stream_entry_and_settle_active rt s c how))"
  by (auto simp: remove_tcp_stream_entry_and_settle_active_def intro: settle_inv remove_entry_inv split: option.splits)

lemma remove_settle_eq:
  "remove_tcp_stream_entry_and_settle_active rt s c how = (s', r) \<Longrightarrow> tcp_inv rt base s \<Longrightarrow> tcp_inv rt base s'"
  using remove_settle_inv [of rt base s c how] by simp

lemma unlink_inv:
  "tcp_inv rt base s \<Longrightarrow> tcp_inv rt base (s\<lparr>tb_listen_to_connect := tab_remove l (tb_listen_to_connect s)\<rparr>)"
  by (auto simp: tcp_inv_def tables_ok_def counted_def active_of_def tab.get_remove tab.ok_remove split: if_splits)

lemma stream_ok_ids: "stream_ok rt ids c t \<Longrightarrow> (\<And>i. issued 1 ids i \<Longrightarrow> issued 1 ids' i) \<Longrightarrow> stream_ok rt ids' c t"
  by (simp add: stream_ok_def)

lemma alloc_inv:
  assumes inv: "tcp_inv rt base s" and n: "next_stream_id (tb_ids s) = (ids, r)"
  shows "tcp_inv rt base (s\<lparr>tb_ids := ids\<rparr>)"
    and "r = Some c \<Longrightarrow> issued 1 ids c \<and> tab_get (tb_streams s) c = None"
proof -
  have i: "ids_ok 1 (tb_ids s)" using inv by (simp add: tcp_inv_def tables_ok_def)
  note spec = next_stream_id_spec [OF i n]
  have st: "stream_ok rt ids c t" if "tab_get (tb_streams s) c = Some t" for c t
    using inv that unfolding tcp_inv_def tables_ok_def by (blast intro: stream_ok_ids spec(2))
  show "tcp_inv rt base (s\<lparr>tb_ids := ids\<rparr>)"
    using inv spec(1) st by (auto simp: tcp_inv_def tables_ok_def counted_def active_of_def)
  show "issued 1 ids c \<and> tab_get (tb_streams s) c = None" if "r = Some c"
  proof -
    have "\<not> issued 1 (tb_ids s) c" "issued 1 ids c" using spec(3) [OF that] by auto
    moreover have "issued 1 (tb_ids s) c" if "tab_get (tb_streams s) c = Some t" for t
      using inv that by (auto simp: tcp_inv_def tables_ok_def stream_ok_def)
    ultimately show ?thesis by (cases "tab_get (tb_streams s) c") auto
  qed
qed

lemma pair_inv:
  assumes inv: "tcp_inv rt (Suc base) s" and c: "issued 1 (tb_ids s) c" "tab_get (tb_streams s) c = None"
  shows "tcp_inv rt base (record_tcp_stream_pair s l c)"
proof -
  have ok: "tab_ok (tb_streams s)" using inv by (simp add: tcp_inv_def tables_ok_def)
  have link: "\<exists>t. tab_get (tb_streams s) c' = Some t \<and> ts_listen_id t = l' \<and> c' \<noteq> c"
    if "tab_get (tb_listen_to_connect s) l' = Some c'" for l' c'
    using inv that c(2) by (fastforce simp: tcp_inv_def tables_ok_def)
  let ?t = "\<lparr>ts_listen_id = l, ts_ready = False, ts_listen_eof = False, ts_connect_eof = False,
      ts_pending = [], ts_pending_bytes = 0\<rparr>"
  have "stream_ok rt (tb_ids s) c ?t" using c(1) by (simp add: stream_ok_def)
  with inv c(2) link pending_sum_insert_new [OF c(2)] tab.count_insert [OF ok, of c] show ?thesis
    by (auto simp: tcp_inv_def tables_ok_def counted_def active_of_def record_tcp_stream_pair_def tab.get_insert
        tab.ok_insert split: if_splits)
qed

lemma put_stream_inv:
  assumes inv: "tcp_inv rt base s" and t: "tab_get (tb_streams s) c = Some t"
    and t': "ts_listen_id t' = ts_listen_id t" "stream_ok rt (tb_ids s) c t'"
    and n: "n + ts_pending_bytes t = tb_pending_total s + ts_pending_bytes t'" "n \<le> rt_max_pending_per_forward rt"
  shows "tcp_inv rt base (s\<lparr>tb_streams := tab_insert c t' (tb_streams s), tb_pending_total := n\<rparr>)"
proof -
  have ok: "tab_ok (tb_streams s)" using inv by (simp add: tcp_inv_def tables_ok_def)
  have link: "\<exists>u. (if c' = c then Some t' else tab_get (tb_streams s) c') = Some u \<and> ts_listen_id u = l'"
    if "tab_get (tb_listen_to_connect s) l' = Some c'" for l' c'
    using inv that t t'(1) by (fastforce simp: tcp_inv_def tables_ok_def)
  have "length (tab_insert c t' (tb_streams s)) = length (tb_streams s)" using tab.count_insert [OF ok] t by simp
  then show ?thesis
    using inv t t' n link pending_sum_insert_old [OF t, of t']
    by (auto simp: tcp_inv_def tables_ok_def counted_def active_of_def tab.get_insert tab.ok_insert split: if_splits)
qed

lemma stream_of_inv:
  "tcp_inv rt base s \<Longrightarrow> tab_get (tb_streams s) c = Some t \<Longrightarrow> stream_ok rt (tb_ids s) c t"
  by (auto simp: tcp_inv_def tables_ok_def)

lemma total_of_inv: "tcp_inv rt base s \<Longrightarrow> tb_pending_total s \<le> rt_max_pending_per_forward rt"
  by (simp add: tcp_inv_def tables_ok_def)

lemma flag_inv:
  assumes inv: "tcp_inv rt base s"
    and f: "\<And>t. ts_listen_id (f t) = ts_listen_id t \<and> ts_pending_bytes (f t) = ts_pending_bytes t \<and>
      ts_pending (f t) = ts_pending t \<and> ts_ready (f t) = ts_ready t"
  shows "tcp_inv rt base (update_stream s c f)"
proof (cases "tab_get (tb_streams s) c")
  case (Some t)
  then have "stream_ok rt (tb_ids s) c (f t)"
    using f [of t] stream_of_inv [OF inv Some] by (simp add: stream_ok_def)
  then have "tcp_inv rt base (s\<lparr>tb_streams := tab_insert c (f t) (tb_streams s), tb_pending_total := tb_pending_total s\<rparr>)"
    using inv Some f [of t] total_of_inv [OF inv] by (intro put_stream_inv) simp_all
  with Some show ?thesis by (simp add: update_stream_def)
qed (simp add: update_stream_def inv)

lemma saturating_exact: "saturating_add a b \<le> m \<Longrightarrow> m < usize_max \<Longrightarrow> saturating_add a b = a + b"
  by (simp add: saturating_add_def min_def split: if_splits)

lemma queue_inv:
  assumes inv: "tcp_inv rt base s" and lim: "limits_ok rt"
    and f: "fr_stream_id f = c" "fr_type f \<in> {TcpData, TcpEof}"
    and nr: "\<And>t. tab_get (tb_streams s) c = Some t \<Longrightarrow> \<not> ts_ready t"
  shows "tcp_inv rt base (fst (try_queue_pending_tcp_connect_frame rt s c f))"
proof (cases "tab_get (tb_streams s) c")
  case (Some t)
  let ?a = "saturating_add (ts_pending_bytes t) (frame_data_bytes f)"
  let ?b = "saturating_add (tb_pending_total s) (frame_data_bytes f)"
  let ?t = "t\<lparr>ts_pending_bytes := ?a, ts_pending := ts_pending t @ [f]\<rparr>"
  show ?thesis
  proof (cases "?a > rt_max_pending_per_stream rt \<or> ?b > rt_max_pending_per_forward rt")
    case False
    with lim have a: "?a = ts_pending_bytes t + frame_data_bytes f" and b: "?b = tb_pending_total s + frame_data_bytes f"
      by (auto simp: limits_ok_def not_less intro: saturating_exact)
    have "stream_ok rt (tb_ids s) c ?t"
      using stream_of_inv [OF inv Some] nr [OF Some] f False a by (auto simp: stream_ok_def not_less)
    with False a b have "tcp_inv rt base (s\<lparr>tb_streams := tab_insert c ?t (tb_streams s), tb_pending_total := ?b\<rparr>)"
      by (intro put_stream_inv [OF inv Some]) simp_all
    with Some False show ?thesis by (simp add: try_queue_pending_tcp_connect_frame_def Let_def)
  qed (simp add: try_queue_pending_tcp_connect_frame_def Some Let_def inv)
qed (simp add: try_queue_pending_tcp_connect_frame_def inv)

lemma tab_insert_twice [simp]: "tab_insert k v (tab_insert k w t) = tab_insert k v t"
  by (induction t) (auto simp: tab_insert_def)

lemma connected_inv:
  assumes inv: "tcp_inv rt base s"
  shows "tcp_inv rt base (release_stream_budget (update_stream s c (\<lambda>t. t\<lparr>ts_ready := True, ts_pending := []\<rparr>)) c)"
proof (cases "tab_get (tb_streams s) c")
  case (Some t)
  let ?t = "t\<lparr>ts_ready := True, ts_pending := [], ts_pending_bytes := 0\<rparr>"
  have ok: "tab_ok (tb_streams s)" and tot: "tb_pending_total s = pending_sum (tb_streams s)"
    using inv by (simp_all add: tcp_inv_def tables_ok_def)
  have le: "ts_pending_bytes t \<le> tb_pending_total s" using pending_sum_remove [OF ok Some] tot by simp
  have "stream_ok rt (tb_ids s) c ?t" using stream_of_inv [OF inv Some] by (simp add: stream_ok_def)
  with le have "tcp_inv rt base (s\<lparr>tb_streams := tab_insert c ?t (tb_streams s),
      tb_pending_total := tb_pending_total s - ts_pending_bytes t\<rparr>)"
    using total_of_inv [OF inv] by (intro put_stream_inv [OF inv Some]) simp_all
  then show ?thesis
    by (rule iffD1 [OF core_inv, rotated])
      (simp add: Some update_stream_def release_stream_budget_def tab.get_insert core_def active_of_def)
qed (simp add: update_stream_def release_stream_budget_def inv)

section \<open>Closing all listen streams\<close>

lemma close_listen_stream_fields [simp]:
  "tb_streams (fst (close_listen_stream env s i)) = tb_streams s"
  "tb_listen_to_connect (fst (close_listen_stream env s i)) = tb_listen_to_connect s"
  "tb_ids (fst (close_listen_stream env s i)) = tb_ids s"
  "tw_store (fst (close_listen_stream env s i)) = tw_store s"
  "tb_pending_total (fst (close_listen_stream env s i)) = tb_pending_total s"
  by (simp_all add: close_listen_stream_def send_listen_def split: sum.split)

lemma close_listen_streams_step:
  "fst (close_listen_streams env s (t # ts)) = fst (close_listen_streams env
     (fst (close_listen_stream env (s\<lparr>tb_pending_total := tb_pending_total s - ts_pending_bytes t\<rparr>) (ts_listen_id t))) ts)"
  by (simp add: case_prod_beta split: sum.split)

lemma close_listen_streams_fst:
  "tb_streams (fst (close_listen_streams env s ts)) = tb_streams s \<and>
   tb_listen_to_connect (fst (close_listen_streams env s ts)) = tb_listen_to_connect s \<and>
   tb_ids (fst (close_listen_streams env s ts)) = tb_ids s \<and>
   tw_store (fst (close_listen_streams env s ts)) = tw_store s \<and>
   tb_pending_total (fst (close_listen_streams env s ts)) = tb_pending_total s - sum_list (map ts_pending_bytes ts)"
proof (induction ts arbitrary: s)
  case (Cons t ts)
  show ?case unfolding close_listen_streams_step using Cons.IH by simp
qed simp

lemma close_listen_streams_fields:
  "close_listen_streams env s ts = (s', errs) \<Longrightarrow>
     tb_streams s' = tb_streams s \<and> tb_listen_to_connect s' = tb_listen_to_connect s \<and> tb_ids s' = tb_ids s \<and>
     tw_store s' = tw_store s \<and> tb_pending_total s' = tb_pending_total s - sum_list (map ts_pending_bytes ts)"
  using close_listen_streams_fst [of env s ts] by simp

lemma close_all:
  assumes inv: "tcp_inv rt base s" and ord: "order_ok rt"
    and c: "close_active_tcp_listen_streams rt env s = (s', r)"
  shows "tcp_inv rt base s'" and "tb_streams s' = []"
proof -
  let ?ts = "rt_stream_order rt (map snd (tb_streams s))"
  obtain u errs where u: "close_listen_streams env (s\<lparr>tb_streams := [], tb_listen_to_connect := []\<rparr>) ?ts = (u, errs)"
    by fastforce
  note fields = close_listen_streams_fields [OF u]
  have "mset ?ts = mset (map snd (tb_streams s))" using ord by (simp add: order_ok_def)
  then have "mset (map ts_pending_bytes ?ts) = mset (map ts_pending_bytes (map snd (tb_streams s)))"
    unfolding mset_map by (rule arg_cong)
  then have "sum_list (map ts_pending_bytes ?ts) = sum_list (map ts_pending_bytes (map snd (tb_streams s)))"
    by (metis sum_mset_sum_list)
  then have "sum_list (map ts_pending_bytes ?ts) = pending_sum (tb_streams s)"
    by (simp add: pending_sum_def o_def)
  with fields inv have tot: "tb_pending_total u = 0" by (simp add: tcp_inv_def tables_ok_def)
  have s': "s' = u\<lparr>tw_store := record_dropped_tcp_streams_and_release_active (tw_store u) (rt_forward_id rt)
      (length (tb_streams s))\<rparr>"
    using c u by (simp add: close_active_tcp_listen_streams_def)
  have act: "active_of rt s' = map_option (\<lambda>n. n - length (tb_streams s)) (active_of rt s)"
    using fields by (simp add: s' active_of_def record_dropped_tcp_streams_and_release_active_def active_mutate
        release_active_tcp_streams_def option.map_comp o_def)
  show "tb_streams s' = []" using fields by (simp add: s')
  moreover have "tables_ok rt s'"
    using inv fields tot by (simp add: tcp_inv_def tables_ok_def s' pending_sum_def)
  moreover have "counted rt base s'"
    using inv \<open>tb_streams s' = []\<close> act by (auto simp: tcp_inv_def counted_def)
  ultimately show "tcp_inv rt base s'" by (simp add: tcp_inv_def)
qed

lemma close_all_inv:
  "order_ok rt \<Longrightarrow> tcp_inv rt base s \<Longrightarrow> tcp_inv rt base (fst (close_active_tcp_listen_streams rt env s))"
  by (rule close_all(1) [of _ _ _ env _ "snd (close_active_tcp_listen_streams rt env s)"]) simp_all

section \<open>Handlers\<close>

lemma andThen_fst [simp]: "fst (andThen m (\<lambda>s a. (s, g s a))) = fst m"
  by (cases m; cases "snd m") auto

lemma dropped_inv [simp]: "tcp_inv rt base (record_dropped_stream rt s) = tcp_inv rt base s"
  by (rule core_inv) simp

lemma close_tcp_pair_inv: "tcp_inv rt base s \<Longrightarrow> tcp_inv rt base (fst (close_tcp_pair rt env s c reason))"
  by (cases reason)
    (simp_all add: close_tcp_pair_def case_prod_beta remove_settle_inv split: option.split sum.split)

lemma send_classify_fst [simp]:
  "tcp_inv rt base (fst (send_or_classify_connect_tunnel_frame env s f)) = tcp_inv rt base s"
  by (simp add: send_or_classify_connect_tunnel_frame_def Let_def case_prod_beta split: sum.split)

lemma send_classify_inv:
  "send_or_classify_connect_tunnel_frame env s f = (s', r) \<Longrightarrow> tcp_inv rt base s' = tcp_inv rt base s"
  using send_classify_fst [of rt base env s f] by simp

lemma fully_eof_inv: "tcp_inv rt base s \<Longrightarrow> tcp_inv rt base (fst (close_tcp_pair_if_fully_eof rt env s c))"
  by (simp add: close_tcp_pair_if_fully_eof_def case_prod_beta remove_settle_inv split: option.split sum.split)

lemma queue_or_send_inv:
  assumes inv: "tcp_inv rt base s" and ok: "limits_ok rt" "order_ok rt"
    and f: "fr_stream_id f = c" "fr_type f \<in> {TcpData, TcpEof}"
  shows "tcp_inv rt base (fst (queue_or_send_tcp_connect_frame rt env s c f))"
proof (cases "tab_get (tb_streams s) c")
  case (Some t)
  show ?thesis
  proof (cases "ts_ready t")
    case True
    obtain u r where u: "send_or_classify_connect_tunnel_frame env s f = (u, r)" by fastforce
    then have i: "tcp_inv rt base u" using inv send_classify_inv by blast
    show ?thesis
    proof (cases r)
      case (Inr k)
      with Some True u i show ?thesis
        by (cases k)
          (simp_all add: queue_or_send_tcp_connect_frame_def close_tcp_pair_inv close_all_inv [OF ok(2)])
    qed (simp add: queue_or_send_tcp_connect_frame_def Some True u i)
  next
    case False
    have q: "tcp_inv rt base (fst (try_queue_pending_tcp_connect_frame rt s c f))"
      using False Some by (intro queue_inv [OF inv ok(1) f]) simp
    obtain u r where u: "try_queue_pending_tcp_connect_frame rt s c f = (u, r)" by fastforce
    with q have "tcp_inv rt base u" by simp
    with Some False u show ?thesis
      by (simp add: queue_or_send_tcp_connect_frame_def drop_overflowed_pending_tcp_stream_def remove_settle_inv
          split: option.split queue_result.split)
  qed
qed (simp add: queue_or_send_tcp_connect_frame_def inv)

lemma flush_frames_inv:
  "tcp_inv rt base s \<Longrightarrow> order_ok rt \<Longrightarrow> \<forall>f \<in> set fs. fr_type f \<noteq> FClose \<Longrightarrow>
     tcp_inv rt base (fst (flush_frames rt env s c rm fs))"
proof (induction fs arbitrary: s)
  case (Cons f fs)
  obtain u r where u: "send_or_classify_connect_tunnel_frame env s f = (u, r)" by fastforce
  then have i: "tcp_inv rt base u" using Cons.prems(1) send_classify_inv by blast
  show ?case
  proof (cases r)
    case (Inr k)
    show ?thesis
    proof (cases k)
      case Sent
      have "tcp_inv rt base (fst (flush_frames rt env u c rm fs))" using Cons i by simp
      with Sent Inr u Cons.prems show ?thesis by simp
    qed (simp_all add: u Inr i close_tcp_pair_inv close_all_inv [OF Cons.prems(2)])
  qed (simp add: u i)
qed simp

lemma remove_settle_gone: "tab_get (tb_streams (fst (remove_tcp_stream_entry_and_settle_active rt s c how))) c = None"
  by (simp add: remove_tcp_stream_entry_and_settle_active_def remove_stream_entry_def tab.get_remove split: option.split)

lemma close_connect_stream_fields [simp]:
  "tb_streams (fst (close_connect_stream env s i)) = tb_streams s"
  "tb_listen_to_connect (fst (close_connect_stream env s i)) = tb_listen_to_connect s"
  by (simp_all add: close_connect_stream_def send_connect_def split: sum.split)

lemma pressure_gone: "tab_get (tb_streams (fst (close_tcp_pair rt env s c ConnectPressure))) c = None"
  using remove_settle_gone [of rt s c Dropped]
  by (simp add: close_tcp_pair_def case_prod_beta split: option.split)

text \<open>A flush asks for removal only when it has removed the stream, since no close frame is ever queued.\<close>

lemma flush_gone:
  "flush_frames rt env s c False fs = (s', Inr (FlushSent True)) \<Longrightarrow> \<forall>f \<in> set fs. fr_type f \<noteq> FClose \<Longrightarrow>
     tab_get (tb_streams s') c = None"
proof (induction fs arbitrary: s)
  case (Cons f fs)
  obtain u r where u: "send_or_classify_connect_tunnel_frame env s f = (u, r)" by fastforce
  show ?case
  proof (cases r)
    case (Inr k)
    show ?thesis
    proof (cases k)
      case Sent
      with Cons u Inr show ?thesis by simp
    next
      case SendBackpressure
      with Cons.prems u Inr have "s' = fst (close_tcp_pair rt env u c ConnectPressure)" by (auto simp: andThen_eq)
      then show ?thesis by (simp add: pressure_gone)
    next
      case SendRetryable
      with Cons.prems u Inr show ?thesis by (simp add: andThen_eq)
    qed
  qed (use u Cons.prems in simp)
qed simp

lemma connect_ok_inv:
  assumes inv: "tcp_inv rt base s" and ord: "order_ok rt"
  shows "tcp_inv rt base (fst (handle_connect_tcp_connect_ok rt env s f))"
proof (cases "tab_get (tb_streams s) (fr_stream_id f)")
  case (Some t)
  let ?c = "fr_stream_id f"
  let ?s = "release_stream_budget (update_stream s ?c (\<lambda>t. t\<lparr>ts_ready := True, ts_pending := []\<rparr>)) ?c"
  have nc: "\<forall>g \<in> set (ts_pending t). fr_type g \<noteq> FClose"
    using stream_of_inv [OF inv Some] by (auto simp: stream_ok_def)
  obtain u r where u: "flush_frames rt env ?s ?c False (ts_pending t) = (u, r)" by fastforce
  have i: "tcp_inv rt base u" using flush_frames_inv [OF connected_inv [OF inv, of ?c] ord nc, where env = env and c = ?c and rm = False] u by simp
  have "tab_remove ?c (tb_streams u) = tb_streams u" if "r = Inr (FlushSent True)"
    using that u by (intro tab_remove_absent flush_gone [OF _ nc]) simp
  with i u Some show ?thesis
    by (cases r)
      (auto simp: handle_connect_tcp_connect_ok_def flush_pending_tcp_connect_frames_def split: flush_result.split)
qed (simp add: handle_connect_tcp_connect_ok_def inv)

section \<open>Accepting\<close>

lemma allocate_inv:
  assumes inv: "tcp_inv rt (Suc base) s" and ord: "order_ok rt"
    and a: "allocate_connect_stream_id rt env s l = (s', Inr r)"
  shows "r = None \<Longrightarrow> tcp_inv rt base s'"
    and "r = Some c \<Longrightarrow> tcp_inv rt (Suc base) s' \<and> issued 1 (tb_ids s') c \<and> tab_get (tb_streams s') c = None"
proof -
  obtain ids k where n: "next_stream_id (tb_ids s) = (ids, k)" by fastforce
  note alloc = alloc_inv [OF inv n]
  show "tcp_inv rt base s'" if "r = None"
  proof -
    let ?u = "settle_active_tcp_stream rt Dropped (fst (close_listen_stream env (s\<lparr>tb_ids := ids\<rparr>) l))"
    have "s' = fst (close_active_tcp_listen_streams rt env ?u)"
      using a that n by (auto simp: allocate_connect_stream_id_def andThen_eq split: option.splits)
    moreover have "tcp_inv rt base ?u" using alloc(1) by (intro settle_inv) simp
    ultimately show ?thesis using close_all_inv [OF ord] by blast
  qed
  show "tcp_inv rt (Suc base) s' \<and> issued 1 (tb_ids s') c \<and> tab_get (tb_streams s') c = None" if "r = Some c"
  proof -
    have "k = Some c" "s' = s\<lparr>tb_ids := ids\<rparr>"
      using a that n by (auto simp: allocate_connect_stream_id_def andThen_eq split: option.splits)
    with alloc show ?thesis by simp
  qed
qed

lemma open_inv:
  assumes inv: "tcp_inv rt (Suc base) s" and o: "send_tcp_connect_open rt env s l c = (s', Inr r)"
  shows "r = None \<Longrightarrow> core rt s' = core rt s" and "r = Some k \<Longrightarrow> tcp_inv rt base s'"
proof -
  obtain m where m: "tj_encode_endpoint (rt_json rt) (rt_connect_endpoint rt) = Some m"
    using o by (cases "tj_encode_endpoint (rt_json rt) (rt_connect_endpoint rt)") (auto simp: send_tcp_connect_open_def)
  let ?f = "\<lparr>fr_type = TcpConnect, fr_flags = 0, fr_stream_id = c, fr_meta = m, fr_data = []\<rparr>"
  obtain u q where u: "send_connect env s ?f = (u, q)" by fastforce
  have cu: "core rt u = core rt s" using core_sends(1) [of rt env s ?f] u by simp
  show "core rt s' = core rt s" if "r = None"
    using o m u that cu by (cases q) (auto simp: send_tcp_connect_open_def andThen_eq split: if_splits)
  have iu: "tcp_inv rt (Suc base) u" using core_inv [OF cu] inv by simp
  have "tcp_inv rt base (fst (close_unpaired_listen_stream_after_connect_loss rt env u l))"
    using iu by (simp add: close_unpaired_listen_stream_after_connect_loss_def case_prod_beta settle_inv)
  then show "tcp_inv rt base s'" if "r = Some k"
    using o m u that by (cases q) (auto simp: send_tcp_connect_open_def andThen_eq split: if_splits)
qed

lemma accept_inv:
  assumes inv: "tcp_inv rt base s" and ord: "order_ok rt"
    and h: "handle_listen_tcp_accept rt env s f = (s', Inr k)"
  shows "tcp_inv rt base s'"
proof -
  let ?l = "fr_stream_id f"
  obtain store ok where rs: "try_reserve_active_tcp_stream (tw_store s) (rt_forward_id rt) (rt_max_active_tcp_streams rt) = (store, ok)"
    by fastforce
  note res = reserve_slot_inv [OF inv rs]
  obtain a where a: "tj_decode_accept (rt_json rt) (fr_meta f) = Some a"
    using h by (cases "tj_decode_accept (rt_json rt) (fr_meta f)") (auto simp: handle_listen_tcp_accept_def)
  show ?thesis
  proof (cases ok)
    case False
    with h a rs have "s' = record_dropped_stream rt (fst (close_listen_stream env (s\<lparr>tw_store := store\<rparr>) ?l))"
      by (auto simp: handle_listen_tcp_accept_def)
    with res False show ?thesis by simp
  next
    case True
    then have i: "tcp_inv rt (Suc base) (s\<lparr>tw_store := store\<rparr>)" using res by simp
    obtain u cid where u: "allocate_connect_stream_id rt env (s\<lparr>tw_store := store\<rparr>) ?l = (u, Inr cid)"
      and rest: "(case cid of None \<Rightarrow> (u, Inr (Some (RecoverTunnel RoleConnectTunnel)))
          | Some c \<Rightarrow> andThen (send_tcp_connect_open rt env u ?l c) (\<lambda>s control. case control of
              Some k \<Rightarrow> (s, Inr (Some k)) | None \<Rightarrow> (record_tcp_stream_pair s ?l c, Inr None))) = (s', Inr k)"
      using h a rs True by (auto simp: handle_listen_tcp_accept_def andThen_eq)
    show ?thesis
    proof (cases cid)
      case None
      with allocate_inv(1) [OF i ord u] rest show ?thesis by simp
    next
      case (Some c)
      note al = allocate_inv(2) [OF i ord u Some]
      obtain v control where v: "send_tcp_connect_open rt env u ?l c = (v, Inr control)"
        and last: "(case control of Some k \<Rightarrow> (v, Inr (Some k)) | None \<Rightarrow> (record_tcp_stream_pair v ?l c, Inr None)) =
          (s', Inr k :: (failure, loop_control option) result)"
        using rest unfolding Some option.case andThen_eq by blast
      show ?thesis
      proof (cases control)
        case None
        have cv: "core rt v = core rt u" using open_inv(1) [of rt base u] al v None by blast
        then have "tcp_inv rt (Suc base) v" using core_inv al by blast
        with al cv last None show ?thesis by (auto simp: core_def intro: pair_inv)
      next
        case (Some k')
        with open_inv(2) [of rt base u] al v last show ?thesis by auto
      qed
    qed
  qed
qed

section \<open>Events\<close>

lemma listen_close_inv: "tcp_inv rt base s \<Longrightarrow> tcp_inv rt base (handle_listen_close rt env s f)"
  using remove_settle_inv [OF unlink_inv]
  by (simp add: handle_listen_close_def case_prod_beta split: option.split)

lemma listen_error_inv: "tcp_inv rt base s \<Longrightarrow> tcp_inv rt base (fst (handle_listen_error rt env s f))"
  using remove_settle_inv [OF unlink_inv]
  by (simp add: handle_listen_error_def case_prod_beta Let_def split: option.split sum.split)

lemma listen_data_inv:
  "tcp_inv rt base s \<Longrightarrow> limits_ok rt \<Longrightarrow> order_ok rt \<Longrightarrow> fr_type f = TcpData \<Longrightarrow>
     tcp_inv rt base (fst (handle_listen_tcp_data rt env s f))"
  by (simp add: handle_listen_tcp_data_def queue_or_send_inv split: option.split)

lemma listen_eof_inv:
  assumes "tcp_inv rt base s" "limits_ok rt" "order_ok rt" "fr_type f = TcpEof"
  shows "tcp_inv rt base (fst (handle_listen_tcp_eof rt env s f))"
proof (cases "tab_get (tb_listen_to_connect s) (fr_stream_id f)")
  case (Some c)
  have "tcp_inv rt base (update_stream s c (\<lambda>t. t\<lparr>ts_listen_eof := True\<rparr>))" using assms(1) by (rule flag_inv) simp
  then have "tcp_inv rt base (fst (queue_or_send_tcp_connect_frame rt env
      (update_stream s c (\<lambda>t. t\<lparr>ts_listen_eof := True\<rparr>)) c (eof_frame (fr_type f) c)))"
    using assms by (intro queue_or_send_inv) (simp_all add: eof_frame_def)
  then show ?thesis
    unfolding handle_listen_tcp_eof_def Some option.case
    by (rule andThen_world [where P = "tcp_inv rt base"]) (simp add: fully_eof_inv split: option.split)
qed (simp add: handle_listen_tcp_eof_def assms)

lemma connect_eof_inv:
  assumes "tcp_inv rt base s"
  shows "tcp_inv rt base (fst (handle_connect_tcp_eof rt env s f))"
proof -
  have "tcp_inv rt base (update_stream s (fr_stream_id f) (\<lambda>t. t\<lparr>ts_connect_eof := True\<rparr>))"
    using assms by (rule flag_inv) simp
  with assms show ?thesis
    by (simp add: handle_connect_tcp_eof_def case_prod_beta fully_eof_inv split: option.split sum.split)
qed

lemma connect_frame_inv:
  "tcp_inv rt base s \<Longrightarrow> order_ok rt \<Longrightarrow> tcp_inv rt base (fst (handle_tcp_connect_frame rt env s f))"
  by (simp add: handle_tcp_connect_frame_def connect_ok_inv handle_connect_error_def close_tcp_pair_inv connect_eof_inv
      handle_connect_tcp_data_def handle_connect_close_def remove_settle_inv case_prod_beta
      split: option.split sum.split)

lemma listen_frame_inv:
  assumes "tcp_inv rt base s" "limits_ok rt" "order_ok rt" "handle_tcp_listen_frame rt env s f = (s', Inr k)"
  shows "tcp_inv rt base s'"
proof -
  have "tcp_inv rt base (s\<lparr>tw_store := store\<rparr>)"
    if "apply_forward_drop_report (rt_json rt) (tw_store s) (rt_forward_id rt) f = (store, r)" for store r
    using core_inv [OF report_core [OF that]] assms(1) by simp
  then have other: "fr_type f \<noteq> TcpAccept \<Longrightarrow> tcp_inv rt base (fst (handle_tcp_listen_frame rt env s f))"
    using assms(1-3) by (simp add: handle_tcp_listen_frame_def listen_data_inv listen_eof_inv listen_close_inv
        listen_error_inv split: prod.split sum.split)
  show ?thesis
  proof (cases "fr_type f = TcpAccept")
    case True
    with assms accept_inv show ?thesis by (simp add: handle_tcp_listen_frame_def)
  qed (use other assms(4) in simp)
qed

lemma epoch_step_inv:
  assumes inv: "tcp_inv rt base s" and ok: "limits_ok rt" "order_ok rt" and st: "tcp_epoch_step rt env ev s = (s', Inr k)"
  shows "tcp_inv rt base s'"
proof (cases ev)
  case TcpCancel
  with inv st show ?thesis by (simp add: tcp_epoch_step_def)
next
  case (FromListen r)
  with st obtain out where "recoverable_tunnel_frame (rt_json rt) r (lit ''reading tcp listen tunnel'')
       (lit ''listen-side tcp tunnel error'') (RecoverTunnel RoleListenTunnel) = Inr out"
    and "(case out of OutControl k \<Rightarrow> (s, Inr (Some k)) | OutFrame f \<Rightarrow> handle_tcp_listen_frame rt env s f) = (s', Inr k)"
    by (auto simp: tcp_epoch_step_def handle_listen_tunnel_event_def andThen_eq)
  then show ?thesis using listen_frame_inv [OF inv ok] inv by (cases out) auto
next
  case (FromConnect r)
  have "tcp_inv rt base (fst (handle_connect_tunnel_event rt env s r))"
    unfolding handle_connect_tunnel_event_def
    by (rule pure_step [where P = "tcp_inv rt base"])
      (simp_all add: inv close_all_inv ok connect_frame_inv split: frame_outcome.split)
  with FromConnect st show ?thesis by (simp add: tcp_epoch_step_def)
qed

lemma run_inv:
  "tcp_inv rt base s \<Longrightarrow> limits_ok rt \<Longrightarrow> order_ok rt \<Longrightarrow> run_tcp_forward_epoch rt evs s = (s', Inr k) \<Longrightarrow> tcp_inv rt base s'"
proof (induction evs arbitrary: s)
  case (Cons x evs)
  obtain env ev where x: "x = (env, ev)" by fastforce
  obtain u r where u: "tcp_epoch_step rt env ev s = (u, r)" by fastforce
  show ?case
  proof (cases r)
    case (Inr c)
    then have i: "tcp_inv rt base u" using epoch_step_inv Cons.prems u by blast
    show ?thesis
    proof (cases c)
      case None
      have "run_tcp_forward_epoch rt evs u = (s', Inr k)" using Cons.prems(4) x u Inr None by simp
      then show ?thesis by (rule Cons.IH [OF i Cons.prems(2,3)])
    next
      case (Some c')
      with Cons.prems x u Inr i show ?thesis by simp
    qed
  qed (use Cons.prems x u in simp)
qed simp

lemma tcp_start_inv: "active_of rt (tcp_epoch_start store) = Some b \<Longrightarrow> tcp_inv rt b (tcp_epoch_start store)"
  by (simp add: tcp_inv_def tables_ok_def counted_def tcp_epoch_start_def pending_sum_def ids_ok_def new_odd_def)

text \<open>
  C23: As long as an epoch of a TCP forward has not failed, whatever frames and losses its tunnels
  yield and whichever sends fail, the forward's active stream count in the store is what it was when
  the epoch began plus the number of streams the epoch holds; the bytes queued for streams that are
  not connected yet are exactly accounted for and within both limits; and a listen stream maps to a
  held stream that maps back to it.
\<close>

theorem tcp_epoch_consistent:
  assumes "active_of rt (tcp_epoch_start store) = Some b" and "limits_ok rt" and "order_ok rt"
    and "run_tcp_forward_epoch rt evs (tcp_epoch_start store) = (s, Inr k)"
  shows "active_of rt s = Some (b + length (tb_streams s)) \<and>
     tb_pending_total s = pending_sum (tb_streams s) \<and> tb_pending_total s \<le> rt_max_pending_per_forward rt \<and>
     (\<forall>c t. tab_get (tb_streams s) c = Some t \<longrightarrow>
        ts_pending_bytes t = sum_list (map frame_data_bytes (ts_pending t)) \<and>
        ts_pending_bytes t \<le> rt_max_pending_per_stream rt) \<and>
     (\<forall>l c. tab_get (tb_listen_to_connect s) l = Some c \<longrightarrow>
        (\<exists>t. tab_get (tb_streams s) c = Some t \<and> ts_listen_id t = l))"
proof -
  have inv: "tcp_inv rt b s" by (rule run_inv [OF tcp_start_inv [OF assms(1)] assms(2-4)])
  then have "stream_ok rt (tb_ids s) c t" if "tab_get (tb_streams s) c = Some t" for c t
    using that by (rule stream_of_inv)
  with inv show ?thesis unfolding tcp_inv_def tables_ok_def counted_def stream_ok_def by blast
qed

section \<open>Slots that are never returned\<close>

lemma run_append:
  "run_tcp_forward_epoch rt evs s = (u, Inr None) \<Longrightarrow>
     run_tcp_forward_epoch rt (evs @ evs') s = run_tcp_forward_epoch rt evs' u"
proof (induction evs arbitrary: s)
  case (Cons x evs)
  obtain env ev where x: "x = (env, ev)" by fastforce
  obtain v r where v: "tcp_epoch_step rt env ev s = (v, r)" by fastforce
  with Cons.prems x obtain "r = Inr None" "run_tcp_forward_epoch rt evs v = (u, Inr None)"
    by (auto split: sum.splits option.splits)
  with Cons.IH x v show ?case by simp
qed simp

definition idle :: "tcp_runtime \<Rightarrow> nat \<Rightarrow> tcp_state \<Rightarrow> bool" where
  "idle rt n s \<longleftrightarrow> tb_streams s = [] \<and> (\<forall>l. tab_get (tb_listen_to_connect s) l = None) \<and>
     active_of rt s = Some n \<and> tb_pending_total s = 0"

lemma idle_core: "core rt s' = core rt s \<Longrightarrow> idle rt n s' = idle rt n s"
  by (simp add: core_def idle_def)

lemma idle_simps [simp]:
  "idle rt n (fst (close_listen_stream env s i)) = idle rt n s"
  "idle rt n (record_dropped_stream rt s) = idle rt n s"
  by (rule idle_core, simp)+

lemma full_reserve:
  assumes "idle rt n s" and "rt_max_active_tcp_streams rt \<le> n"
    and "try_reserve_active_tcp_stream (tw_store s) (rt_forward_id rt) (rt_max_active_tcp_streams rt) = (store, ok)"
  shows "\<not> ok \<and> idle rt n (s\<lparr>tw_store := store\<rparr>)"
  using assms by (auto simp: idle_def active_of_def try_reserve_active_tcp_stream_def mutate_entry_def tab.get_insert)

lemma idle_close_all: "order_ok rt \<Longrightarrow> idle rt n s \<Longrightarrow> idle rt n (fst (close_active_tcp_listen_streams rt env s))"
proof -
  assume ord: "order_ok rt" and s: "idle rt n s"
  have "rt_stream_order rt [] = []" using ord by (metis order_ok_def mset_zero_iff)
  with s show ?thesis
    by (simp add: idle_def close_active_tcp_listen_streams_def active_of_def record_dropped_tcp_streams_and_release_active_def)
qed

lemma idle_step:
  assumes s: "idle rt n s" and full: "rt_max_active_tcp_streams rt \<le> n" and ord: "order_ok rt"
  shows "idle rt n (fst (tcp_epoch_step rt env ev s))"
proof -
  have none: "tab_get (tb_streams s) c = None" "tab_get (tb_listen_to_connect s) l = None" for c l
    using s by (simp_all add: idle_def)
  obtain store ok where r: "try_reserve_active_tcp_stream (tw_store s) (rt_forward_id rt) (rt_max_active_tcp_streams rt) = (store, ok)"
    by fastforce
  have acc: "idle rt n (fst (handle_listen_tcp_accept rt env s f))" for f
    using full_reserve [OF s full r] s by (simp add: handle_listen_tcp_accept_def r split: option.split)
  have report: "idle rt n (s\<lparr>tw_store := store\<rparr>)"
    if "apply_forward_drop_report (rt_json rt) (tw_store s) (rt_forward_id rt) f = (store, q)" for store q f
    using idle_core [OF report_core [OF that]] s by simp
  have listen: "idle rt n (fst (handle_tcp_listen_frame rt env s f))" for f
    using s acc report
    by (simp add: handle_tcp_listen_frame_def handle_listen_tcp_data_def handle_listen_tcp_eof_def handle_listen_close_def
        handle_listen_error_def none Let_def split: prod.split sum.split)
  have connect: "idle rt n (fst (handle_tcp_connect_frame rt env s f))" for f
    using s
    by (simp add: handle_tcp_connect_frame_def handle_connect_tcp_connect_ok_def handle_connect_error_def close_tcp_pair_def
        handle_connect_tcp_data_def handle_connect_tcp_eof_def handle_connect_close_def none
        remove_tcp_stream_entry_and_settle_active_def remove_stream_entry_def)
  show ?thesis
  proof (cases ev)
    case (FromListen q)
    then show ?thesis unfolding tcp_epoch_step_def handle_listen_tunnel_event_def
      by (simp, intro pure_step [where P = "idle rt n"]) (simp_all add: s listen split: frame_outcome.split)
  next
    case (FromConnect q)
    then show ?thesis unfolding tcp_epoch_step_def handle_connect_tunnel_event_def
      by (simp, intro pure_step [where P = "idle rt n"])
        (simp_all add: s connect idle_close_all ord split: frame_outcome.split)
  qed (simp add: tcp_epoch_step_def s)
qed

lemma idle_run:
  "idle rt n s \<Longrightarrow> rt_max_active_tcp_streams rt \<le> n \<Longrightarrow> order_ok rt \<Longrightarrow> idle rt n (fst (run_tcp_forward_epoch rt evs s))"
proof (induction evs arbitrary: s)
  case (Cons x evs)
  obtain env ev where x: "x = (env, ev)" by fastforce
  obtain u r where u: "tcp_epoch_step rt env ev s = (u, r)" by fastforce
  then have "idle rt n u" using idle_step [OF Cons.prems, of env ev] by simp
  with Cons x u show ?case by (simp split: sum.split option.split)
qed simp


section \<open>A sample epoch\<close>

definition tcp_json :: tunnel_json where
  "tcp_json = \<lparr>tj_decode_accept = (\<lambda>_. Some 1), tj_decode_peer = (\<lambda>_. None), tj_encode_peer = (\<lambda>_. None),
     tj_encode_endpoint = (\<lambda>_. Some [7]), tj_decode_error = (\<lambda>_. None), tj_decode_drop = (\<lambda>_. None)\<rparr>"

definition tcp_sample_runtime :: tcp_runtime where
  "tcp_sample_runtime = \<lparr>rt_forward_id = [102], rt_connect_endpoint = [99], rt_listener_stream_id = 1, rt_json = tcp_json,
     rt_max_active_tcp_streams = 1, rt_max_pending_per_stream = 8, rt_max_pending_per_forward = 9,
     rt_stream_order = (\<lambda>ts. ts)\<rparr>"

definition tcp_frame :: "frame_type \<Rightarrow> u32 \<Rightarrow> bytes \<Rightarrow> frame" where
  "tcp_frame ty i d = \<lparr>fr_type = ty, fr_flags = 0, fr_stream_id = i, fr_meta = [], fr_data = d\<rparr>"

definition accepting :: tunnel_env where
  "accepting = \<lparr>ev_now = 0, ev_send_connect = (\<lambda>_ _. Inr ()), ev_send_listen = (\<lambda>_ _. Inr ())\<rparr>"

definition tcp_sample_store :: forward_state where
  "tcp_sample_store = empty_forward_state\<lparr>pf_public := [([102],
     new_open [102] [] [] [] [] Tcp (public_summary default_broker_limits))]\<rparr>"

definition tcp_sample_events :: "(tunnel_env \<times> tcp_event) list" where
  "tcp_sample_events = [(accepting, FromListen (Inr (tcp_frame TcpAccept 2 []))),
     (accepting, FromListen (Inr (tcp_frame TcpData 2 [5, 6])))]"

definition tcp_sample_state :: tcp_state where
  "tcp_sample_state = fst (run_tcp_forward_epoch tcp_sample_runtime tcp_sample_events (tcp_epoch_start tcp_sample_store))"

lemma tcp_sample_ok:
  "limits_ok tcp_sample_runtime" "order_ok tcp_sample_runtime"
  "active_of tcp_sample_runtime (tcp_epoch_start tcp_sample_store) = Some 0"
  by (simp add: limits_ok_def tcp_sample_runtime_def usize_max_def, simp add: order_ok_def tcp_sample_runtime_def, code_simp)

lemma tcp_sample_run:
  "run_tcp_forward_epoch tcp_sample_runtime tcp_sample_events (tcp_epoch_start tcp_sample_store) = (tcp_sample_state, Inr None)"
  "length (tb_streams tcp_sample_state) = 1"
  unfolding tcp_sample_state_def by code_simp+

theorem tcp_epoch_consistent_witness:
  "active_of tcp_sample_runtime tcp_sample_state = Some 1 \<and> tb_pending_total tcp_sample_state \<le> 9"
  using tcp_epoch_consistent [OF tcp_sample_ok(3,1,2) tcp_sample_run(1)] tcp_sample_run(2)
  by (simp add: tcp_sample_runtime_def)


section \<open>Data reaches the destination complete and in order\<close>

definition data_on :: "u32 \<Rightarrow> frame list \<Rightarrow> bytes" where
  "data_on c fs = concat (map fr_data (filter (\<lambda>f. fr_type f = TcpData \<and> fr_stream_id f = c) fs))"

definition queued_for :: "tcp_state \<Rightarrow> u32 \<Rightarrow> frame list" where
  "queued_for s c = (case tab_get (tb_streams s) c of None \<Rightarrow> [] | Some t \<Rightarrow> ts_pending t)"

text \<open>What was sent on a connect stream, followed by what waits for its connection.\<close>

definition relayed :: "tcp_state \<Rightarrow> u32 \<Rightarrow> bytes" where
  "relayed s c = data_on c (tw_to_connect s @ queued_for s c)"

definition linked :: "u32 \<Rightarrow> u32 \<Rightarrow> tcp_state \<Rightarrow> bool" where
  "linked l c s \<longleftrightarrow> tab_get (tb_listen_to_connect s) l = Some c"

definition received_on :: "u32 \<Rightarrow> tcp_event \<Rightarrow> bytes" where
  "received_on l ev = (case ev of FromListen (Inr f) \<Rightarrow> data_on l [f] | _ \<Rightarrow> [])"

text \<open>
  From s to s' the stream keeps its identifier, and if it is linked in the end it was so before and has
  relayed exactly d in between.
\<close>

definition relays :: "u32 \<Rightarrow> u32 \<Rightarrow> bytes \<Rightarrow> tcp_state \<Rightarrow> tcp_state \<Rightarrow> bool" where
  "relays l c d s s' \<longleftrightarrow> (issued 1 (tb_ids s) c \<longrightarrow> issued 1 (tb_ids s') c) \<and>
     (linked l c s' \<longrightarrow> linked l c s \<and> relayed s' c = relayed s c @ d)"

abbreviation keeps :: "u32 \<Rightarrow> u32 \<Rightarrow> tcp_state \<Rightarrow> tcp_state \<Rightarrow> bool" where
  "keeps l c \<equiv> relays l c []"

lemma keeps_refl [simp]: "keeps l c s s"
  by (simp add: relays_def)

lemma relays_trans: "relays l c d s t \<Longrightarrow> relays l c e t u \<Longrightarrow> relays l c (d @ e) s u"
  by (auto simp: relays_def)

lemma keeps_trans: "keeps l c s t \<Longrightarrow> keeps l c t u \<Longrightarrow> keeps l c s u"
  using relays_trans [of l c "[]" s t "[]" u] by simp

lemma data_on_append [simp]: "data_on c (xs @ ys) = data_on c xs @ data_on c ys"
  by (simp add: data_on_def)

lemma data_on_nil [simp]: "data_on c [] = []"
  by (simp add: data_on_def)

lemma data_on_skip: "data_on c [f] = [] \<Longrightarrow> data_on c (f # fs) = data_on c fs"
  using data_on_append [of c "[f]" fs] by simp

lemma keeps_send_listen [simp]: "keeps l c s (fst (send_listen env s f))"
  by (simp add: relays_def linked_def relayed_def queued_for_def send_listen_def split: sum.split)

lemma keeps_send_connect: "data_on c [f] = [] \<Longrightarrow> keeps l c s (fst (send_connect env s f))"
  by (simp add: relays_def linked_def relayed_def queued_for_def send_connect_def split: sum.split option.split)

lemma keeps_close [simp]: "keeps l c s (fst (close_listen_stream env s i))" "keeps l c s (fst (close_connect_stream env s i))"
  by (simp_all add: close_listen_stream_def close_connect_stream_def keeps_send_connect close_frame_def data_on_def)

lemma keeps_store [simp]: "keeps l c s (s\<lparr>tw_store := st\<rparr>)"
  "keeps l c s (settle_active_tcp_stream rt how s)" "keeps l c s (record_dropped_stream rt s)"
  by (simp_all add: relays_def linked_def relayed_def queued_for_def settle_active_tcp_stream_def record_dropped_stream_def)

lemma keeps_unlink [simp]: "keeps l c s (s\<lparr>tb_listen_to_connect := tab_remove k (tb_listen_to_connect s)\<rparr>)"
  by (simp add: relays_def linked_def relayed_def queued_for_def tab.get_remove)

lemma keeps_remove:
  assumes "tcp_inv rt base s"
  shows "keeps l c s (fst (remove_tcp_stream_entry_and_settle_active rt s k how))"
proof (cases "tab_get (tb_streams s) k")
  case (Some t)
  have "linked l k s \<Longrightarrow> ts_listen_id t = l"
    using assms Some by (fastforce simp: linked_def tcp_inv_def tables_ok_def)
  with Some show ?thesis
    by (auto simp: remove_tcp_stream_entry_and_settle_active_def remove_stream_entry_def relays_def linked_def relayed_def
        queued_for_def tab.get_remove settle_active_tcp_stream_def split: if_splits)
qed (simp add: remove_tcp_stream_entry_and_settle_active_def remove_stream_entry_def)

lemma keeps_close_all: "order_ok rt \<Longrightarrow> keeps l c s (fst (close_active_tcp_listen_streams rt env s))"
proof -
  let ?u = "fst (close_listen_streams env (s\<lparr>tb_streams := [], tb_listen_to_connect := []\<rparr>) (rt_stream_order rt (map snd (tb_streams s))))"
  have "tb_listen_to_connect ?u = []" "tb_ids ?u = tb_ids s" using close_listen_streams_fst by simp_all
  then show ?thesis by (simp add: close_active_tcp_listen_streams_def relays_def linked_def case_prod_beta)
qed

lemma keeps_pair: "k \<noteq> c \<Longrightarrow> keeps l c s (record_tcp_stream_pair s j k)"
  by (simp add: relays_def linked_def relayed_def queued_for_def record_tcp_stream_pair_def tab.get_insert)

lemma keeps_flag: "(\<And>t. ts_pending (f t) = ts_pending t) \<Longrightarrow> keeps l c s (update_stream s k f)"
  by (simp add: relays_def linked_def relayed_def queued_for_def update_stream_def tab.get_insert split: option.split)

lemma keeps_pair_close:
  assumes "tcp_inv rt base s"
  shows "keeps l c s (fst (close_tcp_pair rt env s k reason))"
proof -
  have r: "keeps l c s (fst (remove_tcp_stream_entry_and_settle_active rt s k how))" for how
    by (rule keeps_remove [OF assms])
  show ?thesis
    by (cases reason) (auto simp: close_tcp_pair_def case_prod_beta r
        intro: keeps_trans [OF r keeps_close(1)] keeps_trans [OF keeps_trans [OF r keeps_close(2)] keeps_close(1)]
        split: option.split sum.split)
qed

lemma keeps_fully_eof:
  assumes "tcp_inv rt base s"
  shows "keeps l c s (fst (close_tcp_pair_if_fully_eof rt env s k))"
proof -
  have r: "keeps l c s (fst (remove_tcp_stream_entry_and_settle_active rt s k how))" for how
    by (rule keeps_remove [OF assms])
  show ?thesis
    by (auto simp: close_tcp_pair_if_fully_eof_def case_prod_beta
        intro: keeps_trans [OF r keeps_close(2)] keeps_trans [OF keeps_trans [OF r keeps_close(2)] keeps_close(1)]
        split: option.split sum.split)
qed

section \<open>Relaying events\<close>

lemma not_linked: "tcp_inv rt base s \<Longrightarrow> tab_get (tb_streams s) c = None \<Longrightarrow> \<not> linked l c s"
  by (force simp: tcp_inv_def tables_ok_def linked_def)

lemma linked_once: "tcp_inv rt base s \<Longrightarrow> linked l c s \<Longrightarrow> linked l' c s \<Longrightarrow> l' = l"
  unfolding tcp_inv_def tables_ok_def linked_def by (metis option.inject)

lemma link_stream:
  assumes "tcp_inv rt base s" and "tab_get (tb_listen_to_connect s) j = Some k"
  obtains t where "tab_get (tb_streams s) k = Some t"
  using assms not_linked [OF assms(1), of k j] by (auto simp: linked_def)

text \<open>A change that keeps the other streams and removes the stream k relays any data on k.\<close>

lemma relays_gone:
  assumes "keeps l c s s'" and "tcp_inv rt base s'" and "tab_get (tb_streams s') k = None" and "k \<noteq> c \<Longrightarrow> d = []"
  shows "relays l c d s s'"
  using assms not_linked [OF assms(2,3)] by (cases "k = c") (auto simp: relays_def)

lemma ready_sent:
  assumes inv: "tcp_inv rt base s" and t: "tab_get (tb_streams s) k = Some t" "ts_ready t"
    and f: "fr_stream_id f = k" and u: "send_or_classify_connect_tunnel_frame env s f = (u, Inr Sent)"
  shows "relays l c (data_on c [f]) s u"
proof -
  have "u = s\<lparr>tw_to_connect := tw_to_connect s @ [f]\<rparr>"
    using u by (auto simp: send_or_classify_connect_tunnel_frame_def send_connect_def Let_def split: sum.splits if_splits)
  moreover have "k = c \<Longrightarrow> queued_for s c = []"
    using t stream_of_inv [OF inv t(1)] by (simp add: queued_for_def stream_ok_def)
  moreover have "k \<noteq> c \<Longrightarrow> data_on c [f] = []" using f by (simp add: data_on_def)
  ultimately show ?thesis by (cases "k = c") (simp_all add: relays_def linked_def relayed_def queued_for_def data_on_skip)
qed

lemma not_sent_same:
  "send_or_classify_connect_tunnel_frame env s f = (u, Inr r) \<Longrightarrow> r \<noteq> Sent \<Longrightarrow> u = s"
  by (auto simp: send_or_classify_connect_tunnel_frame_def send_connect_def Let_def split: sum.splits if_splits)

lemma queued_relays:
  assumes "try_queue_pending_tcp_connect_frame rt s k f = (u, Some Queued)" and "fr_stream_id f = k"
  shows "relays l c (data_on c [f]) s u"
  using assms
  by (auto simp: try_queue_pending_tcp_connect_frame_def Let_def relays_def linked_def relayed_def queued_for_def
      tab.get_insert data_on_def split: option.splits if_splits)

lemma queue_or_send_relays:
  assumes inv: "tcp_inv rt base s" and ok: "limits_ok rt" "order_ok rt"
    and f: "fr_stream_id f = k" "fr_type f \<in> {TcpData, TcpEof}" and p: "tab_get (tb_streams s) k = Some t"
    and q: "queue_or_send_tcp_connect_frame rt env s k f = (s', Inr None)"
  shows "relays l c (data_on c [f]) s s'"
proof -
  have inv': "tcp_inv rt base s'" using queue_or_send_inv [OF inv ok f, of env] q by simp
  have other: "k \<noteq> c \<Longrightarrow> data_on c [f] = []" using f by (simp add: data_on_def)
  show ?thesis
  proof (cases "ts_ready t")
    case True
    then obtain u r where u: "send_or_classify_connect_tunnel_frame env s f = (u, Inr r)"
      using q p by (cases "send_or_classify_connect_tunnel_frame env s f"; cases "snd (send_or_classify_connect_tunnel_frame env s f)")
        (auto simp: queue_or_send_tcp_connect_frame_def)
    show ?thesis
    proof (cases r)
      case Sent
      with q p True u have "s' = u" by (simp add: queue_or_send_tcp_connect_frame_def)
      with ready_sent [OF inv p True f(1)] u Sent show ?thesis by simp
    next
      case SendBackpressure
      then have "u = s" using not_sent_same [OF u] by simp
      then have s': "s' = fst (close_tcp_pair rt env s k ConnectPressure)"
        using q p True u SendBackpressure by (auto simp: queue_or_send_tcp_connect_frame_def andThen_eq)
      show ?thesis
        by (rule relays_gone [OF _ inv' _ other]) (simp_all add: s' keeps_pair_close [OF inv] pressure_gone)
    next
      case SendRetryable
      with q p True u show ?thesis by (simp add: queue_or_send_tcp_connect_frame_def andThen_eq)
    qed
  next
    case False
    have "\<exists>r. snd (try_queue_pending_tcp_connect_frame rt s k f) = Some r"
      using p by (simp add: try_queue_pending_tcp_connect_frame_def Let_def)
    then obtain u r where u: "try_queue_pending_tcp_connect_frame rt s k f = (u, Some r)"
      by (metis prod.collapse)
    show ?thesis
    proof (cases r)
      case Queued
      with q p False u have "s' = u" by (simp add: queue_or_send_tcp_connect_frame_def)
      with queued_relays f(1) u Queued show ?thesis by blast
    next
      case (QueueLimitExceeded j)
      then have "u = s" using u p by (auto simp: try_queue_pending_tcp_connect_frame_def Let_def split: if_splits)
      with q p False u QueueLimitExceeded have s': "s' = drop_overflowed_pending_tcp_stream rt env s k j"
        by (simp add: queue_or_send_tcp_connect_frame_def)
      have "keeps l c s s'" unfolding s' drop_overflowed_pending_tcp_stream_def
        by (rule keeps_trans [OF keeps_trans [OF keeps_remove [OF inv] keeps_close(2)] keeps_close(1)])
      then show ?thesis
        by (rule relays_gone [OF _ inv' _ other])
          (simp_all add: s' drop_overflowed_pending_tcp_stream_def remove_settle_gone)
    qed
  qed
qed

lemma flush_all:
  "flush_frames rt env s k False fs = (s', Inr (FlushSent False)) \<Longrightarrow> \<forall>f \<in> set fs. fr_type f \<noteq> FClose \<Longrightarrow>
     s' = s\<lparr>tw_to_connect := tw_to_connect s @ fs\<rparr>"
proof (induction fs arbitrary: s)
  case (Cons f fs)
  obtain u r where u: "send_or_classify_connect_tunnel_frame env s f = (u, r)" by fastforce
  have "r = Inr Sent"
    using Cons.prems u by (cases r) (auto simp: andThen_eq split: connect_send.splits)
  moreover from this have "u = s\<lparr>tw_to_connect := tw_to_connect s @ [f]\<rparr>"
    using u by (auto simp: send_or_classify_connect_tunnel_frame_def send_connect_def Let_def split: sum.splits if_splits)
  ultimately show ?case using Cons.IH [of u] Cons.prems u by simp
qed simp

lemma ids_kept:
  "tb_ids (fst (send_or_classify_connect_tunnel_frame env s f)) = tb_ids s"
  "tb_ids (fst (remove_tcp_stream_entry_and_settle_active rt s k how)) = tb_ids s"
  "tb_ids (fst (close_connect_stream env s k)) = tb_ids s"
  "tb_ids (fst (close_active_tcp_listen_streams rt env s)) = tb_ids s"
  using close_listen_streams_fst
  by (simp_all add: send_or_classify_connect_tunnel_frame_def send_connect_def close_connect_stream_def Let_def case_prod_beta
      remove_tcp_stream_entry_and_settle_active_def remove_stream_entry_def close_active_tcp_listen_streams_def
      split: sum.split option.split)

lemma pair_close_ids: "tb_ids (fst (close_tcp_pair rt env s k reason)) = tb_ids s"
  by (cases reason) (simp_all add: close_tcp_pair_def case_prod_beta ids_kept split: sum.split option.split)

lemma flush_ids: "tb_ids (fst (flush_frames rt env s k rm fs)) = tb_ids s"
proof (induction fs arbitrary: s rm)
  case (Cons f fs)
  obtain u r where u: "send_or_classify_connect_tunnel_frame env s f = (u, r)" by fastforce
  then have "tb_ids u = tb_ids s" using ids_kept(1) [of env s f] by simp
  with Cons u show ?case by (simp add: ids_kept pair_close_ids split: sum.split connect_send.split option.split)
qed simp

lemma keeps_send_classify:
  "data_on c [f] = [] \<Longrightarrow> keeps l c s (fst (send_or_classify_connect_tunnel_frame env s f))"
  using keeps_send_connect [of c f l s env]
  by (simp add: send_or_classify_connect_tunnel_frame_def Let_def case_prod_beta split: sum.split)

lemma keeps_flush:
  "tcp_inv rt base s \<Longrightarrow> order_ok rt \<Longrightarrow> k \<noteq> c \<Longrightarrow> \<forall>f \<in> set fs. fr_type f \<noteq> FClose \<and> fr_stream_id f = k \<Longrightarrow>
     keeps l c s (fst (flush_frames rt env s k rm fs))"
proof (induction fs arbitrary: s)
  case (Cons f fs)
  obtain u r where u: "send_or_classify_connect_tunnel_frame env s f = (u, r)" by fastforce
  then have i: "tcp_inv rt base u" using Cons.prems(1) send_classify_inv by blast
  have "data_on c [f] = []" using Cons.prems by (simp add: data_on_def)
  from keeps_send_classify [OF this, of l s env] have k: "keeps l c s u" by (simp add: u)
  show ?case
  proof (cases r)
    case (Inr q)
    show ?thesis
    proof (cases q)
      case Sent
      have "keeps l c u (fst (flush_frames rt env u k rm fs))" using Cons i by simp
      with k have "keeps l c s (fst (flush_frames rt env u k rm fs))" by (rule keeps_trans)
      with Sent Inr u Cons.prems show ?thesis by simp
    next
      case SendBackpressure
      with u Inr keeps_trans [OF k keeps_pair_close [OF i]] show ?thesis by simp
    next
      case SendRetryable
      with u Inr keeps_trans [OF k keeps_close_all [OF Cons.prems(2)]] show ?thesis by simp
    qed
  qed (simp add: u k)
qed simp

lemma connect_ok_keeps:
  assumes inv: "tcp_inv rt base s" and ord: "order_ok rt"
    and h: "handle_connect_tcp_connect_ok rt env s f = (s', Inr None)"
  shows "keeps l c s s'"
proof (cases "tab_get (tb_streams s) (fr_stream_id f)")
  case None
  with h show ?thesis by (simp add: handle_connect_tcp_connect_ok_def)
next
  case (Some t)
  let ?k = "fr_stream_id f"
  let ?s = "release_stream_budget (update_stream s ?k (\<lambda>t. t\<lparr>ts_ready := True, ts_pending := []\<rparr>)) ?k"
  have inv': "tcp_inv rt base s'" using connect_ok_inv [OF inv ord, of env f] h by simp
  have fs: "\<forall>g \<in> set (ts_pending t). fr_type g \<noteq> FClose \<and> fr_stream_id g = ?k"
    using stream_of_inv [OF inv Some] by (auto simp: stream_ok_def)
  have fields: "tb_listen_to_connect ?s = tb_listen_to_connect s" "tb_ids ?s = tb_ids s"
    "tw_to_connect ?s = tw_to_connect s" "queued_for ?s c = (if c = ?k then [] else queued_for s c)"
    using Some by (simp_all add: update_stream_def release_stream_budget_def tab.get_insert queued_for_def)
  obtain u q where u: "flush_frames rt env ?s ?k False (ts_pending t) = (u, Inr q)"
    and rest: "(case q of FlushRecover k \<Rightarrow> (u, Inr (Some k)) | FlushSent b \<Rightarrow>
      (if b then u\<lparr>tb_streams := tab_remove ?k (tb_streams u)\<rparr> else u, Inr None)) =
      (s', Inr None :: (failure, loop_control option) result)"
    using h unfolding handle_connect_tcp_connect_ok_def Some option.case flush_pending_tcp_connect_frames_def andThen_eq
    by blast
  obtain b where q: "q = FlushSent b" and s': "s' = (if b then u\<lparr>tb_streams := tab_remove ?k (tb_streams u)\<rparr> else u)"
    using rest by (cases q) auto
  note u = u [unfolded q]
  have gone: "tab_get (tb_streams u) ?k = None" if b
    by (rule flush_gone [of rt env ?s ?k "ts_pending t"]) (use u that fs in auto)
  then have su: "s' = u" by (cases b) (simp_all add: s' tab_remove_absent)
  show ?thesis
  proof (cases "?k = c")
    case False
    have "keeps l c s ?s" using fields False by (simp add: relays_def linked_def relayed_def)
    moreover have "keeps l c ?s u"
      using keeps_flush [OF connected_inv [OF inv] ord False fs, of l ?k env False] u by simp
    ultimately show ?thesis unfolding su by (rule keeps_trans)
  next
    case True
    show ?thesis
    proof (cases b)
      case rm: True
      have "\<not> linked l c s'" using not_linked [OF inv', of c l] gone [OF rm] su True by simp
      moreover have "issued 1 (tb_ids s) c \<longrightarrow> issued 1 (tb_ids s') c"
        using flush_ids [of rt env ?s ?k False "ts_pending t"] u fields(2) by (simp add: su)
      ultimately show ?thesis by (simp add: relays_def)
    next
      case False
      then have "u = ?s\<lparr>tw_to_connect := tw_to_connect ?s @ ts_pending t\<rparr>"
        by (intro flush_all [of rt env _ ?k]) (use u fs in auto)
      with fields Some True show ?thesis by (simp add: su relays_def linked_def relayed_def queued_for_def)
    qed
  qed
qed

lemma accept_keeps:
  assumes inv: "tcp_inv rt base s" and ord: "order_ok rt" and c: "issued 1 (tb_ids s) c"
    and h: "handle_listen_tcp_accept rt env s f = (s', Inr None)"
  shows "keeps l c s s'"
proof -
  let ?j = "fr_stream_id f"
  obtain store ok where rs: "try_reserve_active_tcp_stream (tw_store s) (rt_forward_id rt) (rt_max_active_tcp_streams rt) = (store, ok)"
    by fastforce
  obtain a where a: "tj_decode_accept (rt_json rt) (fr_meta f) = Some a"
    using h by (cases "tj_decode_accept (rt_json rt) (fr_meta f)") (auto simp: handle_listen_tcp_accept_def)
  show ?thesis
  proof (cases ok)
    case False
    with h a rs have "s' = record_dropped_stream rt (fst (close_listen_stream env (s\<lparr>tw_store := store\<rparr>) ?j))"
      by (auto simp: handle_listen_tcp_accept_def)
    then show ?thesis
      using keeps_trans [OF keeps_trans [OF keeps_store(1) keeps_close(1)] keeps_store(3)] by simp
  next
    case True
    obtain u cid where u: "allocate_connect_stream_id rt env (s\<lparr>tw_store := store\<rparr>) ?j = (u, Inr cid)"
      and rest: "(case cid of None \<Rightarrow> (u, Inr (Some (RecoverTunnel RoleConnectTunnel)))
          | Some k \<Rightarrow> andThen (send_tcp_connect_open rt env u ?j k) (\<lambda>s control. case control of
              Some q \<Rightarrow> (s, Inr (Some q)) | None \<Rightarrow> (record_tcp_stream_pair s ?j k, Inr None))) = (s', Inr None)"
      using h a rs True by (auto simp: handle_listen_tcp_accept_def andThen_eq)
    obtain k where k: "cid = Some k" using rest by (cases cid) auto
    obtain ids where n: "next_stream_id (tb_ids s) = (ids, Some k)" and us: "u = s\<lparr>tw_store := store, tb_ids := ids\<rparr>"
      using u k by (cases "next_stream_id (tb_ids s)")
        (auto simp: allocate_connect_stream_id_def andThen_eq split: option.splits)
    have "ids_ok 1 (tb_ids s)" using inv by (simp add: tcp_inv_def tables_ok_def)
    note spec = next_stream_id_spec [OF this n]
    have kc: "k \<noteq> c" using spec(3) [OF refl] c by auto
    have su: "keeps l c s u" using spec(2) [of c] by (simp add: us relays_def linked_def relayed_def queued_for_def)
    obtain v control where v: "send_tcp_connect_open rt env u ?j k = (v, Inr control)"
      and last: "(case control of Some q \<Rightarrow> (v, Inr (Some q)) | None \<Rightarrow> (record_tcp_stream_pair v ?j k, Inr None)) =
        (s', Inr None :: (failure, loop_control option) result)"
      using rest unfolding k option.case andThen_eq by blast
    have nc: "control = None" and s': "s' = record_tcp_stream_pair v ?j k" using last by (cases control; auto)+
    obtain m where "send_connect env u \<lparr>fr_type = TcpConnect, fr_flags = 0, fr_stream_id = k, fr_meta = m, fr_data = []\<rparr> = (v, Inr ())"
      using v nc by (auto simp: send_tcp_connect_open_def andThen_eq split: option.splits prod.splits sum.splits if_splits)
    then have "v = fst (send_connect env u \<lparr>fr_type = TcpConnect, fr_flags = 0, fr_stream_id = k, fr_meta = m, fr_data = []\<rparr>)"
      by simp
    then have "keeps l c u v" by (simp add: keeps_send_connect data_on_def)
    from keeps_trans [OF keeps_trans [OF su this] keeps_pair [OF kc]] show ?thesis by (simp add: s')
  qed
qed

lemma data_relays:
  assumes inv: "tcp_inv rt base s" and ok: "limits_ok rt" "order_ok rt" and f: "fr_type f = TcpData"
    and h: "handle_listen_tcp_data rt env s f = (s', Inr None)"
  shows "relays l c (data_on l [f]) s s'"
proof (cases "tab_get (tb_listen_to_connect s) (fr_stream_id f)")
  case None
  then have "s' = s" "linked l c s \<Longrightarrow> data_on l [f] = []"
    using h by (auto simp: handle_listen_tcp_data_def linked_def data_on_def)
  then show ?thesis by (auto simp: relays_def)
next
  case (Some k)
  let ?g = "f\<lparr>fr_stream_id := k\<rparr>"
  obtain t where t: "tab_get (tb_streams s) k = Some t" by (rule link_stream [OF inv Some])
  have "queue_or_send_tcp_connect_frame rt env s k ?g = (s', Inr None)"
    using h Some by (simp add: handle_listen_tcp_data_def)
  then have "relays l c (data_on c [?g]) s s'"
    by (intro queue_or_send_relays [OF inv ok _ _ t]) (simp_all add: f)
  moreover have "data_on c [?g] = data_on l [f]" if "linked l c s"
  proof (cases "k = c")
    case True
    then have "linked (fr_stream_id f) c s" using Some by (simp add: linked_def)
    with linked_once [OF inv that] have "fr_stream_id f = l" by simp
    with True show ?thesis by (simp add: data_on_def)
  next
    case False
    then have "fr_stream_id f \<noteq> l" using that Some by (auto simp: linked_def)
    with False show ?thesis by (simp add: data_on_def)
  qed
  ultimately show ?thesis by (auto simp: relays_def)
qed

lemma eof_keeps:
  assumes inv: "tcp_inv rt base s" and ok: "limits_ok rt" "order_ok rt" and f: "fr_type f = TcpEof"
    and h: "handle_listen_tcp_eof rt env s f = (s', Inr None)"
  shows "keeps l c s s'"
proof (cases "tab_get (tb_listen_to_connect s) (fr_stream_id f)")
  case None
  with h show ?thesis by (simp add: handle_listen_tcp_eof_def)
next
  case (Some k)
  let ?s = "update_stream s k (\<lambda>t. t\<lparr>ts_listen_eof := True\<rparr>)" and ?g = "eof_frame (fr_type f) k"
  have i: "tcp_inv rt base ?s" using inv by (rule flag_inv) simp
  have "tab_get (tb_listen_to_connect ?s) (fr_stream_id f) = Some k"
    using Some by (simp add: update_stream_def split: option.split)
  then obtain t where t: "tab_get (tb_streams ?s) k = Some t" by (rule link_stream [OF i])
  obtain u q where u: "queue_or_send_tcp_connect_frame rt env ?s k ?g = (u, Inr q)"
    and rest: "(case q of Some x \<Rightarrow> (u, Inr (Some x)) | None \<Rightarrow> close_tcp_pair_if_fully_eof rt env u k) = (s', Inr None)"
    using h unfolding handle_listen_tcp_eof_def Some option.case andThen_eq by blast
  have q: "q = None" and s': "s' = fst (close_tcp_pair_if_fully_eof rt env u k)" using rest by (cases q; auto)+
  have g: "fr_stream_id ?g = k" "fr_type ?g \<in> {TcpData, TcpEof}" "data_on c [?g] = []"
    by (simp_all add: eof_frame_def f data_on_def)
  have "keeps l c ?s u" using queue_or_send_relays [OF i ok g(1,2) t, of env u l c] u q g(3) by simp
  moreover have "tcp_inv rt base u" using queue_or_send_inv [OF i ok g(1,2), of env] u by simp
  ultimately have "keeps l c ?s s'" unfolding s' using keeps_fully_eof keeps_trans by blast
  then show ?thesis by (rule keeps_trans [OF keeps_flag, rotated]) simp
qed

lemma listen_frame_relays:
  assumes inv: "tcp_inv rt base s" and ok: "limits_ok rt" "order_ok rt" and c: "issued 1 (tb_ids s) c"
    and h: "handle_tcp_listen_frame rt env s f = (s', Inr None)"
  shows "relays l c (data_on l [f]) s s'"
proof -
  have rem: "keeps l c s (fst (remove_tcp_stream_entry_and_settle_active rt
      (s\<lparr>tb_listen_to_connect := tab_remove j (tb_listen_to_connect s)\<rparr>) k how))" for j k how
    by (rule keeps_trans [OF keeps_unlink keeps_remove [OF unlink_inv [OF inv]]])
  have cl: "keeps l c s (handle_listen_close rt env s f)"
    using rem keeps_trans [OF rem keeps_close(2)]
    by (simp add: handle_listen_close_def case_prod_beta split: option.split)
  have er: "keeps l c s (fst (handle_listen_error rt env s f))"
    using keeps_trans [OF rem keeps_close(2)]
    by (simp add: handle_listen_error_def case_prod_beta Let_def split: option.split sum.split)
  have nil: "fr_type f \<noteq> TcpData \<Longrightarrow> data_on l [f] = []" by (simp add: data_on_def)
  show ?thesis
  proof (cases "fr_type f \<in> {TcpAccept, TcpData, TcpEof}")
    case True
    then show ?thesis
      using h nil accept_keeps [OF inv ok(2) c, of env f s' l] data_relays [OF inv ok, of f env s' l c]
        eof_keeps [OF inv ok, of f env s' l c]
      by (auto simp: handle_tcp_listen_frame_def)
  next
    case False
    then have "keeps l c s (fst (handle_tcp_listen_frame rt env s f))"
      using cl er by (simp add: handle_tcp_listen_frame_def split: prod.split sum.split)
    with h False nil show ?thesis by simp
  qed
qed

lemma connect_frame_keeps:
  assumes inv: "tcp_inv rt base s" and ord: "order_ok rt" and h: "handle_tcp_connect_frame rt env s f = (s', Inr None)"
  shows "keeps l c s s'"
proof -
  let ?s = "update_stream s (fr_stream_id f) (\<lambda>t. t\<lparr>ts_connect_eof := True\<rparr>)"
  have i: "tcp_inv rt base ?s" using inv by (rule flag_inv) simp
  have fl: "keeps l c s ?s" by (rule keeps_flag) simp
  have "keeps l c s (fst (send_listen env ?s g))" for g by (rule keeps_trans [OF fl keeps_send_listen])
  moreover have "keeps l c s (fst (close_tcp_pair_if_fully_eof rt env (fst (send_listen env ?s g)) k))" for g k
    by (rule keeps_trans [OF keeps_trans [OF fl keeps_send_listen] keeps_fully_eof [of rt base]]) (simp add: i)
  ultimately have eof: "keeps l c s (fst (handle_connect_tcp_eof rt env s f))"
    by (simp add: handle_connect_tcp_eof_def case_prod_beta split: option.split sum.split)
  have cl: "keeps l c s (fst (handle_connect_close rt env s f))"
    using keeps_remove [OF inv, of l c "fr_stream_id f" Release] keeps_trans [OF keeps_remove [OF inv] keeps_close(1)]
    by (simp add: handle_connect_close_def case_prod_beta split: option.split sum.split)
  have da: "keeps l c s (fst (handle_connect_tcp_data env s f))"
    by (simp add: handle_connect_tcp_data_def case_prod_beta split: option.split sum.split)
  show ?thesis
  proof (cases "fr_type f = TcpConnectOk")
    case True
    with h connect_ok_keeps [OF inv ord] show ?thesis by (simp add: handle_tcp_connect_frame_def)
  next
    case False
    then have "keeps l c s (fst (handle_tcp_connect_frame rt env s f))"
      using eof cl da keeps_pair_close [OF inv] by (simp add: handle_tcp_connect_frame_def handle_connect_error_def)
    with h show ?thesis by simp
  qed
qed

lemma step_relays:
  assumes inv: "tcp_inv rt base s" and ok: "limits_ok rt" "order_ok rt" and c: "issued 1 (tb_ids s) c"
    and st: "tcp_epoch_step rt env ev s = (s', Inr None)"
  shows "relays l c (received_on l ev) s s'"
proof (cases ev)
  case TcpCancel
  with st show ?thesis by (simp add: tcp_epoch_step_def)
next
  case (FromListen r)
  with st obtain f where r: "r = Inr f" "handle_tcp_listen_frame rt env s f = (s', Inr None)"
    by (cases r) (auto simp: tcp_epoch_step_def handle_listen_tunnel_event_def recoverable_tunnel_frame_def
        classify_recoverable_tunnel_event_def Let_def split: if_splits)
  with listen_frame_relays [OF inv ok c] FromListen show ?thesis by (simp add: received_on_def)
next
  case (FromConnect r)
  with st obtain f where "handle_tcp_connect_frame rt env s f = (s', Inr None)"
    by (cases r) (auto simp: tcp_epoch_step_def handle_connect_tunnel_event_def recoverable_tunnel_frame_def
        classify_recoverable_tunnel_event_def Let_def andThen_eq split: if_splits)
  with connect_frame_keeps [OF inv ok(2)] FromConnect show ?thesis by (simp add: received_on_def)
qed

lemma run_relays:
  "tcp_inv rt base s \<Longrightarrow> limits_ok rt \<Longrightarrow> order_ok rt \<Longrightarrow> issued 1 (tb_ids s) c \<Longrightarrow>
     run_tcp_forward_epoch rt evs s = (s', Inr None) \<Longrightarrow>
     relays l c (concat (map (\<lambda>x. received_on l (snd x)) evs)) s s'"
proof (induction evs arbitrary: s)
  case (Cons x evs)
  obtain env ev where x: "x = (env, ev)" by fastforce
  obtain u where u: "tcp_epoch_step rt env ev s = (u, Inr None)" and run: "run_tcp_forward_epoch rt evs u = (s', Inr None)"
    using Cons.prems(5) x by (auto split: prod.splits sum.splits option.splits)
  have one: "relays l c (received_on l ev) s u" by (rule step_relays [OF Cons.prems(1-4) u])
  then have "issued 1 (tb_ids u) c" using Cons.prems(4) by (simp add: relays_def)
  with Cons.IH epoch_step_inv [OF Cons.prems(1-3) u] Cons.prems(2,3) run
  have "relays l c (concat (map (\<lambda>x. received_on l (snd x)) evs)) u s'" by blast
  from relays_trans [OF one this] show ?case by (simp add: x)
qed simp

text \<open>
  C22: While a listen stream stays paired with a connect stream, what the bridge has sent on the connect
  stream followed by what it still queues for it grows by exactly the data received on the listen
  stream, in order: nothing is lost, duplicated or reordered, before or after the destination is
  connected, and nothing of another stream is mixed in.
\<close>

theorem tcp_relay_in_order:
  assumes "active_of rt (tcp_epoch_start store) = Some b" and "limits_ok rt" and "order_ok rt"
    and "run_tcp_forward_epoch rt evs (tcp_epoch_start store) = (s, Inr None)" and "linked l c s"
    and "run_tcp_forward_epoch rt evs' s = (s', Inr None)" and "linked l c s'"
  shows "data_on c (tw_to_connect s' @ queued_for s' c) =
     data_on c (tw_to_connect s @ queued_for s c) @ concat (map (\<lambda>x. received_on l (snd x)) evs')"
proof -
  have inv: "tcp_inv rt b s" by (rule run_inv [OF tcp_start_inv [OF assms(1)] assms(2-4)])
  obtain t where "tab_get (tb_streams s) c = Some t"
    using link_stream [OF inv] assms(5) unfolding linked_def by blast
  then have "issued 1 (tb_ids s) c" using stream_of_inv [OF inv] by (simp add: stream_ok_def)
  from run_relays [OF inv assms(2,3) this assms(6)] assms(7) show ?thesis
    unfolding relays_def relayed_def by blast
qed

definition tcp_sample_rest :: "(tunnel_env \<times> tcp_event) list" where
  "tcp_sample_rest = [(accepting, FromListen (Inr (tcp_frame TcpData 2 [7]))),
     (accepting, FromConnect (Inr (tcp_frame TcpConnectOk 1 []))),
     (accepting, FromListen (Inr (tcp_frame TcpData 2 [8])))]"

theorem tcp_relay_in_order_witness:
  "let s' = fst (run_tcp_forward_epoch tcp_sample_runtime tcp_sample_rest tcp_sample_state)
   in data_on 1 (tw_to_connect s' @ queued_for s' 1) = [5, 6, 7, 8]"
proof -
  define s' where "s' = fst (run_tcp_forward_epoch tcp_sample_runtime tcp_sample_rest tcp_sample_state)"
  have run: "run_tcp_forward_epoch tcp_sample_runtime tcp_sample_rest tcp_sample_state = (s', Inr None)"
    unfolding s'_def by code_simp
  have "linked 2 1 tcp_sample_state" by code_simp
  moreover have "linked 2 1 s'" unfolding s'_def by code_simp
  moreover have "data_on 1 (tw_to_connect tcp_sample_state @ queued_for tcp_sample_state 1) = [5, 6]" by code_simp
  moreover have "concat (map (\<lambda>x. received_on 2 (snd x)) tcp_sample_rest) = [7, 8]" by code_simp
  ultimately show ?thesis
    unfolding Let_def s'_def [symmetric]
    using tcp_relay_in_order [OF tcp_sample_ok(3,1,2) tcp_sample_run(1) _ run] by simp
qed

end
