(* ===== verification/Udp_Bridge.thy ===== *)
theory Udp_Bridge
  imports Tunnel_Events
begin

text \<open>
  The broker's UDP bridge: the connector map (\<open>udp_connectors.rs\<close>) and the handlers of one epoch
  (\<open>udp_bridge.rs\<close>) in \<open>crates/remote-exec-broker/src/port_forward\<close>. The bridge is one task, so an
  event is handled before the next is taken.
\<close>

section \<open>Connectors\<close>

record udp_peer_connector =
  uc_stream_id :: u32
  uc_last_used :: nat

record connector_map =
  cm_by_peer :: "(rstr, udp_peer_connector) table"
  cm_by_connector :: "(u32, rstr) table"

definition empty_connectors :: connector_map where
  "empty_connectors = \<lparr>cm_by_peer = [], cm_by_connector = []\<rparr>"

definition get_mut_by_peer ::
  "connector_map \<Rightarrow> rstr \<Rightarrow> (udp_peer_connector \<Rightarrow> udp_peer_connector \<times> 'a) \<Rightarrow> connector_map \<times> 'a option" where
  "get_mut_by_peer m peer op = (case tab_get (cm_by_peer m) peer of
      None \<Rightarrow> (m, None)
    | Some c \<Rightarrow> (m\<lparr>cm_by_peer := tab_insert peer (fst (op c)) (cm_by_peer m)\<rparr>, Some (snd (op c))))"

definition insert_connector :: "connector_map \<Rightarrow> rstr \<Rightarrow> u32 \<Rightarrow> udp_peer_connector \<Rightarrow> connector_map" where
  "insert_connector m peer stream_id c =
     m\<lparr>cm_by_connector := tab_insert stream_id peer (cm_by_connector m),
       cm_by_peer := tab_insert peer c (cm_by_peer m)\<rparr>"

definition peer_for_stream_id :: "connector_map \<Rightarrow> u32 \<Rightarrow> rstr option" where
  "peer_for_stream_id m stream_id = tab_get (cm_by_connector m) stream_id"

definition remove_by_stream_id :: "connector_map \<Rightarrow> u32 \<Rightarrow> connector_map \<times> udp_peer_connector option" where
  "remove_by_stream_id m stream_id = (case tab_get (cm_by_connector m) stream_id of
      None \<Rightarrow> (m, None)
    | Some peer \<Rightarrow>
        (m\<lparr>cm_by_connector := tab_remove stream_id (cm_by_connector m),
           cm_by_peer := tab_remove peer (cm_by_peer m)\<rparr>,
         tab_get (cm_by_peer m) peer))"

text \<open>Instants are milliseconds; \<open>Instant::duration_since\<close> is zero for a later instant.\<close>

definition idle_since :: "nat \<Rightarrow> nat \<Rightarrow> udp_peer_connector \<Rightarrow> bool" where
  "idle_since now timeout c \<longleftrightarrow> now - uc_last_used c \<ge> timeout"

definition expired_connectors :: "connector_map \<Rightarrow> nat \<Rightarrow> nat \<Rightarrow> (rstr \<times> u32) list" where
  "expired_connectors m now timeout =
     map (\<lambda>(peer, c). (peer, uc_stream_id c)) (filter (\<lambda>(peer, c). idle_since now timeout c) (cm_by_peer m))"

fun remove_expired ::
  "nat \<Rightarrow> nat \<Rightarrow> connector_map \<Rightarrow> (rstr \<times> u32) list \<Rightarrow> connector_map \<times> (u32 \<times> udp_peer_connector) list" where
  "remove_expired now timeout m [] = (m, [])"
| "remove_expired now timeout m ((peer, stream_id) # rest) = (case tab_get (cm_by_peer m) peer of
      Some c \<Rightarrow>
        if uc_stream_id c = stream_id \<and> idle_since now timeout c
        then (case remove_expired now timeout
                (m\<lparr>cm_by_peer := tab_remove peer (cm_by_peer m),
                   cm_by_connector := tab_remove stream_id (cm_by_connector m)\<rparr>) rest of
              (m', removed) \<Rightarrow> (m', (stream_id, c) # removed))
        else remove_expired now timeout m rest
    | None \<Rightarrow> remove_expired now timeout m rest)"

definition sweep_idle :: "connector_map \<Rightarrow> nat \<Rightarrow> nat \<Rightarrow> connector_map \<times> (u32 \<times> udp_peer_connector) list" where
  "sweep_idle m now timeout = remove_expired now timeout m (expired_connectors m now timeout)"

definition connectors_len :: "connector_map \<Rightarrow> nat" where
  "connectors_len m = length (cm_by_peer m)"

section \<open>The handlers of an epoch\<close>

record udp_runtime = tunnel_runtime +
  rt_max_udp_peers :: nat
  rt_bind_endpoint :: rstr

record udp_state = tunnel_world +
  us_connectors :: connector_map
  us_ids :: stream_ids

definition udp_epoch_start :: "forward_state \<Rightarrow> udp_state" where
  "udp_epoch_start store = \<lparr>tw_store = store, tw_to_connect = [], tw_to_listen = [],
     us_connectors = empty_connectors, us_ids = new_odd_from 3\<rparr>"

definition record_dropped_datagram :: "udp_runtime \<Rightarrow> udp_state \<Rightarrow> udp_state" where
  "record_dropped_datagram rt s =
     s\<lparr>tw_store := record_dropped_udp_datagrams (tw_store s) (rt_forward_id rt) 1\<rparr>"

datatype connector_error = LimitExceeded | Transport failure

definition touch :: "nat \<Rightarrow> udp_peer_connector \<Rightarrow> udp_peer_connector \<times> u32" where
  "touch now c = (c\<lparr>uc_last_used := now\<rparr>, uc_stream_id c)"

definition udp_connector_stream_id ::
  "udp_runtime \<Rightarrow> tunnel_env \<Rightarrow> udp_state \<Rightarrow> rstr \<Rightarrow> udp_state \<times> (connector_error, u32) result" where
  "udp_connector_stream_id rt env s peer = (case get_mut_by_peer (us_connectors s) peer (touch (ev_now env)) of
      (m, Some stream_id) \<Rightarrow> (s\<lparr>us_connectors := m\<rparr>, Inr stream_id)
    | (m, None) \<Rightarrow>
        if connectors_len m \<ge> rt_max_udp_peers rt then (s, Inl LimitExceeded)
        else (case next_stream_id (us_ids s) of
            (ids, None) \<Rightarrow> (s\<lparr>us_ids := ids\<rparr>,
              Inl (Transport [Message (lit ''port tunnel stream id generation exhausted'')]))
          | (ids, Some stream_id) \<Rightarrow> (case tj_encode_endpoint (rt_json rt) (rt_bind_endpoint rt) of
              None \<Rightarrow> (s\<lparr>us_ids := ids\<rparr>, Inl (Transport json_failure))
            | Some meta \<Rightarrow>
                andThen (mapErr Transport (send_connect env (s\<lparr>us_ids := ids\<rparr>)
                  \<lparr>fr_type = UdpBind, fr_flags = 0, fr_stream_id = stream_id, fr_meta = meta, fr_data = []\<rparr>))
                (\<lambda>s _. (s\<lparr>us_connectors := insert_connector (us_connectors s) peer stream_id
                    \<lparr>uc_stream_id = stream_id, uc_last_used = ev_now env\<rparr>\<rparr>, Inr stream_id)))))"

definition handle_listen_udp_datagram ::
  "udp_runtime \<Rightarrow> tunnel_env \<Rightarrow> udp_state \<Rightarrow> frame \<Rightarrow> udp_state \<times> (failure, loop_control option) result" where
  "handle_listen_udp_datagram rt env s f = (case tj_decode_peer (rt_json rt) (fr_meta f) of
      None \<Rightarrow> (s, Inl json_failure)
    | Some peer \<Rightarrow> (case udp_connector_stream_id rt env s peer of
        (s, Inl LimitExceeded) \<Rightarrow> (record_dropped_datagram rt s, Inr None)
      | (s, Inl (Transport err)) \<Rightarrow> (record_dropped_datagram rt s,
          bindR (classify_transport_failure err (lit ''opening udp connector stream'') RoleConnectTunnel)
            (\<lambda>c. Inr (Some c)))
      | (s, Inr stream_id) \<Rightarrow> (case tj_encode_peer (rt_json rt) (rt_connect_endpoint rt) of
          None \<Rightarrow> (s, Inl json_failure)
        | Some meta \<Rightarrow> (case send_connect env s
              \<lparr>fr_type = UdpDatagram, fr_flags = 0, fr_stream_id = stream_id, fr_meta = meta, fr_data = fr_data f\<rparr> of
            (s, Inr _) \<Rightarrow> (s, Inr None)
          | (s, Inl err) \<Rightarrow> (record_dropped_datagram rt s,
              if is_backpressure_error err then Inr None
              else bindR (classify_transport_failure err (lit ''relaying udp datagram to connect tunnel'')
                     RoleConnectTunnel) (\<lambda>c. Inr (Some c)))))))"

definition handle_listen_frame ::
  "udp_runtime \<Rightarrow> tunnel_env \<Rightarrow> udp_state \<Rightarrow> frame \<Rightarrow> udp_state \<times> (failure, loop_control option) result" where
  "handle_listen_frame rt env s f =
     (if fr_type f = UdpDatagram then handle_listen_udp_datagram rt env s f
      else if fr_type f = FClose then (s, Inr (Some Cancelled))
      else if fr_type f = FError \<and> fr_stream_id f = rt_listener_stream_id rt
      then let meta = decode_tunnel_error_frame (rt_json rt) f
           in if is_recoverable_pressure_tunnel_error meta then (record_dropped_datagram rt s, Inr None)
              else (s, Inl (Message (lit ''listen-side udp tunnel error'') # format_terminal_tunnel_error meta))
      else if fr_type f = ForwardDrop
      then (case apply_forward_drop_report (rt_json rt) (tw_store s) (rt_forward_id rt) f of
              (store, r) \<Rightarrow> (s\<lparr>tw_store := store\<rparr>, bindR r (\<lambda>_. Inr None)))
      else (s, Inr None))"

definition handle_listen_udp_tunnel_event ::
  "udp_runtime \<Rightarrow> tunnel_env \<Rightarrow> udp_state \<Rightarrow> (failure, frame) result \<Rightarrow>
   udp_state \<times> (failure, loop_control option) result" where
  "handle_listen_udp_tunnel_event rt env s r =
     andThen (s, recoverable_tunnel_frame (rt_json rt) r (lit ''reading udp listen tunnel'')
       (lit ''listen-side udp tunnel error'') (RecoverTunnel RoleListenTunnel)) (\<lambda>s out. case out of
         OutControl c \<Rightarrow> (s, Inr (Some c))
       | OutFrame f \<Rightarrow> handle_listen_frame rt env s f)"

definition handle_connect_udp_datagram ::
  "udp_runtime \<Rightarrow> tunnel_env \<Rightarrow> udp_state \<Rightarrow> frame \<Rightarrow> udp_state \<times> (failure, loop_control option) result" where
  "handle_connect_udp_datagram rt env s f = (case peer_for_stream_id (us_connectors s) (fr_stream_id f) of
      None \<Rightarrow> (s, Inr None)
    | Some peer \<Rightarrow>
        let s = s\<lparr>us_connectors := fst (get_mut_by_peer (us_connectors s) peer (touch (ev_now env)))\<rparr>
        in (case tj_encode_peer (rt_json rt) peer of
            None \<Rightarrow> (s, Inl json_failure)
          | Some meta \<Rightarrow> (case send_listen env s
                \<lparr>fr_type = UdpDatagram, fr_flags = 0, fr_stream_id = 1, fr_meta = meta, fr_data = fr_data f\<rparr> of
              (s, Inr _) \<Rightarrow> (s, Inr None)
            | (s, Inl err) \<Rightarrow> (s, bindR (classify_transport_failure err
                (lit ''relaying udp datagram to listen tunnel'') RoleListenTunnel) (\<lambda>c. Inr (Some c))))))"

definition drop_connector :: "udp_state \<Rightarrow> u32 \<Rightarrow> udp_state" where
  "drop_connector s stream_id = s\<lparr>us_connectors := fst (remove_by_stream_id (us_connectors s) stream_id)\<rparr>"

definition handle_connect_frame ::
  "udp_runtime \<Rightarrow> tunnel_env \<Rightarrow> udp_state \<Rightarrow> frame \<Rightarrow> udp_state \<times> (failure, loop_control option) result" where
  "handle_connect_frame rt env s f =
     (if fr_type f = UdpBindOk then (s, Inr None)
      else if fr_type f = FError then (drop_connector (record_dropped_datagram rt s) (fr_stream_id f), Inr None)
      else if fr_type f = UdpDatagram then handle_connect_udp_datagram rt env s f
      else if fr_type f = FClose then (drop_connector s (fr_stream_id f), Inr None)
      else (s, Inr None))"

definition handle_connect_udp_tunnel_event ::
  "udp_runtime \<Rightarrow> tunnel_env \<Rightarrow> udp_state \<Rightarrow> (failure, frame) result \<Rightarrow>
   udp_state \<times> (failure, loop_control option) result" where
  "handle_connect_udp_tunnel_event rt env s r =
     andThen (s, recoverable_tunnel_frame (rt_json rt) r (lit ''reading udp connect tunnel'')
       (lit ''connect-side udp tunnel error'') (RecoverTunnel RoleConnectTunnel)) (\<lambda>s out. case out of
         OutControl c \<Rightarrow> (s, Inr (Some c))
       | OutFrame f \<Rightarrow> handle_connect_frame rt env s f)"

definition UDP_CONNECTOR_IDLE_TIMEOUT :: nat where "UDP_CONNECTOR_IDLE_TIMEOUT = 60000"

definition sweep_idle_udp_connectors :: "tunnel_env \<Rightarrow> udp_state \<Rightarrow> udp_state" where
  "sweep_idle_udp_connectors env s =
     (case sweep_idle (us_connectors s) (ev_now env) UDP_CONNECTOR_IDLE_TIMEOUT of
        (m, removed) \<Rightarrow> foldl (\<lambda>s (stream_id, c). fst (close_connect_stream env s stream_id))
          (s\<lparr>us_connectors := m\<rparr>) removed)"

text \<open>The select loop of an epoch, fed with what each branch yields; None means it goes on.\<close>

datatype udp_event =
    EvCancel | EvSweep | EvListen "(failure, frame) result" | EvConnect "(failure, frame) result"

definition udp_epoch_step ::
  "udp_runtime \<Rightarrow> tunnel_env \<Rightarrow> udp_event \<Rightarrow> udp_state \<Rightarrow> udp_state \<times> (failure, loop_control option) result" where
  "udp_epoch_step rt env ev s = (case ev of
      EvCancel \<Rightarrow> (s, Inr (Some Cancelled))
    | EvSweep \<Rightarrow> (sweep_idle_udp_connectors env s, Inr None)
    | EvListen r \<Rightarrow> handle_listen_udp_tunnel_event rt env s r
    | EvConnect r \<Rightarrow> handle_connect_udp_tunnel_event rt env s r)"

fun run_udp_forward_epoch ::
  "udp_runtime \<Rightarrow> (tunnel_env \<times> udp_event) list \<Rightarrow> udp_state \<Rightarrow> udp_state \<times> (failure, loop_control option) result" where
  "run_udp_forward_epoch rt [] s = (s, Inr None)"
| "run_udp_forward_epoch rt ((env, ev) # evs) s = andThen (udp_epoch_step rt env ev s) (\<lambda>s control.
     case control of Some c \<Rightarrow> (s, Inr (Some c)) | None \<Rightarrow> run_udp_forward_epoch rt evs s)"

section \<open>How an epoch changes its connectors\<close>

inductive conn_step ::
  "nat \<Rightarrow> connector_map \<times> stream_ids \<Rightarrow> connector_map \<times> stream_ids \<Rightarrow> bool" for limit where
  conn_same: "conn_step limit (m, ids) (m, ids)"
| conn_touch: "conn_step limit (m, ids) (fst (get_mut_by_peer m peer (touch now)), ids)"
| conn_alloc: "conn_step limit (m, ids) (m, fst (next_stream_id ids))"
| conn_bind: "next_stream_id ids = (ids', Some i) \<Longrightarrow> tab_get (cm_by_peer m) peer = None \<Longrightarrow>
    connectors_len m < limit \<Longrightarrow>
    conn_step limit (m, ids) (insert_connector m peer i \<lparr>uc_stream_id = i, uc_last_used = now\<rparr>, ids')"
| conn_remove: "conn_step limit (m, ids) (fst (remove_by_stream_id m i), ids)"
| conn_sweep: "conn_step limit (m, ids) (fst (remove_expired now timeout m expired), ids)"

definition conns :: "udp_state \<Rightarrow> connector_map \<times> stream_ids" where
  "conns s = (us_connectors s, us_ids s)"

lemma conn_refl: "conn_step limit (conns s) (conns s)"
  by (simp add: conns_def conn_same)

lemma send_simps [simp]:
  "conns (fst (send_connect env s f)) = conns s" "conns (fst (send_listen env s f)) = conns s"
  "conns (record_dropped_datagram rt s) = conns s" "conns (fst (close_connect_stream env s i)) = conns s"
  by (simp_all add: send_connect_def send_listen_def record_dropped_datagram_def close_connect_stream_def conns_def
      split: sum.splits)

lemma send_conns:
  "send_connect env s f = (s', r) \<Longrightarrow> conns s' = conns s" "send_listen env s f = (s', r) \<Longrightarrow> conns s' = conns s"
  using send_simps(1) [of env s f] send_simps(2) [of env s f] by simp_all

lemma next_eq: "next_stream_id ids = (ids', r) \<Longrightarrow> ids' = fst (next_stream_id ids)"
  by simp

lemma connector_stream_id_conns:
  assumes "udp_connector_stream_id rt env s peer = (s', r)"
  shows "conn_step (rt_max_udp_peers rt) (conns s) (conns s')"
proof (cases "tab_get (cm_by_peer (us_connectors s)) peer")
  case (Some c)
  then have "conns s' = (fst (get_mut_by_peer (us_connectors s) peer (touch (ev_now env))), us_ids s)"
    using assms by (auto simp: udp_connector_stream_id_def get_mut_by_peer_def conns_def)
  then show ?thesis using conn_touch by (simp add: conns_def)
next
  case None
  obtain ids i where next_id: "next_stream_id (us_ids s) = (ids, i)" by fastforce
  consider "conns s' = conns s" | "conns s' = (us_connectors s, ids)"
    | k where "i = Some k" "connectors_len (us_connectors s) < rt_max_udp_peers rt"
        "conns s' = (insert_connector (us_connectors s) peer k \<lparr>uc_stream_id = k, uc_last_used = ev_now env\<rparr>, ids)"
    using assms None next_id
    by (auto simp: udp_connector_stream_id_def get_mut_by_peer_def conns_def andThen_def mapErr_def send_connect_def
        split: option.splits if_splits sum.splits)
  then show ?thesis
  proof cases
    case 2
    then show ?thesis using conn_alloc next_id by (metis conns_def fst_conv)
  next
    case 3
    then show ?thesis using conn_bind [OF _ None] next_id by (simp add: conns_def)
  qed (simp add: conns_def conn_same)
qed

lemma listen_datagram_conns:
  "conn_step (rt_max_udp_peers rt) (conns s) (conns (fst (handle_listen_udp_datagram rt env s f)))"
proof (cases "tj_decode_peer (rt_json rt) (fr_meta f)")
  case None
  then show ?thesis by (simp add: handle_listen_udp_datagram_def conns_def conn_same)
next
  case (Some peer)
  obtain s' r where r: "udp_connector_stream_id rt env s peer = (s', r)" by fastforce
  have "conns (fst (handle_listen_udp_datagram rt env s f)) = conns s'"
    by (auto simp: handle_listen_udp_datagram_def Some r split: sum.split connector_error.split option.split prod.split
        dest!: send_conns)
  then show ?thesis using connector_stream_id_conns [OF r] by simp
qed

lemma listen_event_conns:
  "conn_step (rt_max_udp_peers rt) (conns s) (conns (fst (handle_listen_udp_tunnel_event rt env s r)))"
proof -
  have "conn_step (rt_max_udp_peers rt) (conns s) (conns (fst (handle_listen_frame rt env s f)))" for f
    using listen_datagram_conns [of rt s env f] conn_same [of "rt_max_udp_peers rt" "us_connectors s" "us_ids s"]
    by (auto simp: handle_listen_frame_def Let_def conns_def record_dropped_datagram_def split: prod.split)
  then show ?thesis
    using conn_same [of "rt_max_udp_peers rt" "us_connectors s" "us_ids s"]
    unfolding handle_listen_udp_tunnel_event_def
    by (cases "recoverable_tunnel_frame (rt_json rt) r (lit ''reading udp listen tunnel'')
       (lit ''listen-side udp tunnel error'') (RecoverTunnel RoleListenTunnel)")
      (auto simp: conns_def split: frame_outcome.split)
qed

lemma connect_datagram_conns:
  "conn_step (rt_max_udp_peers rt) (conns s) (conns (fst (handle_connect_udp_datagram rt env s f)))"
  by (auto simp: handle_connect_udp_datagram_def Let_def conn_same conns_def send_listen_def
      intro: conn_touch conn_same split: option.split sum.split)

lemma connect_event_conns:
  "conn_step (rt_max_udp_peers rt) (conns s) (conns (fst (handle_connect_udp_tunnel_event rt env s r)))"
proof -
  have "conn_step (rt_max_udp_peers rt) (conns s) (conns (fst (handle_connect_frame rt env s f)))" for f
    using connect_datagram_conns [of rt s env f]
    by (auto simp: handle_connect_frame_def drop_connector_def conns_def record_dropped_datagram_def
        intro: conn_same conn_remove)
  then show ?thesis
    using conn_same [of "rt_max_udp_peers rt" "us_connectors s" "us_ids s"]
    unfolding handle_connect_udp_tunnel_event_def
    by (cases "recoverable_tunnel_frame (rt_json rt) r (lit ''reading udp connect tunnel'')
       (lit ''connect-side udp tunnel error'') (RecoverTunnel RoleConnectTunnel)")
      (auto simp: conns_def split: frame_outcome.split)
qed

lemma close_streams_conns: "conns (foldl (\<lambda>s (i, c). fst (close_connect_stream env s i)) s removed) = conns s"
  by (induction removed arbitrary: s) auto

lemma sweep_conns: "conn_step limit (conns s) (conns (sweep_idle_udp_connectors env s))"
proof -
  obtain m removed where "sweep_idle (us_connectors s) (ev_now env) UDP_CONNECTOR_IDLE_TIMEOUT = (m, removed)"
    by fastforce
  moreover from this have "m = fst (remove_expired (ev_now env) UDP_CONNECTOR_IDLE_TIMEOUT (us_connectors s)
      (expired_connectors (us_connectors s) (ev_now env) UDP_CONNECTOR_IDLE_TIMEOUT))"
    by (simp add: sweep_idle_def)
  ultimately show ?thesis
    using conn_sweep [of limit "us_connectors s" "us_ids s"]
    by (simp add: sweep_idle_udp_connectors_def close_streams_conns) (simp add: conns_def)
qed

lemma epoch_step_conns: "conn_step (rt_max_udp_peers rt) (conns s) (conns (fst (udp_epoch_step rt env ev s)))"
  by (cases ev) (simp_all add: udp_epoch_step_def listen_event_conns connect_event_conns sweep_conns conn_refl)

lemma epoch_conns:
  "(conn_step (rt_max_udp_peers rt))\<^sup>*\<^sup>* (conns s) (conns (fst (run_udp_forward_epoch rt evs s)))"
proof (induction evs arbitrary: s)
  case (Cons e evs)
  obtain env ev where e: "e = (env, ev)" by fastforce
  obtain s' r where step: "udp_epoch_step rt env ev s = (s', r)" by fastforce
  have one: "conn_step (rt_max_udp_peers rt) (conns s) (conns s')"
    using epoch_step_conns [of rt s env ev] by (simp add: step)
  then show ?case
    using Cons.IH [of s'] by (cases r) (auto simp: e step split: option.split intro: converse_rtranclp_into_rtranclp)
qed simp

section \<open>Consistency\<close>

definition conn_inv :: "nat \<Rightarrow> connector_map \<times> stream_ids \<Rightarrow> bool" where
  "conn_inv limit c \<longleftrightarrow> tab_ok (cm_by_peer (fst c)) \<and> ids_ok 3 (snd c) \<and> connectors_len (fst c) \<le> limit \<and>
     (\<forall>i p. tab_get (cm_by_connector (fst c)) i = Some p \<longleftrightarrow>
        (\<exists>k. tab_get (cm_by_peer (fst c)) p = Some k \<and> uc_stream_id k = i)) \<and>
     (\<forall>i p. tab_get (cm_by_connector (fst c)) i = Some p \<longrightarrow> issued 3 (snd c) i)"

text \<open>The two tables are inverse to each other; the forms the steps need.\<close>

lemma conn_invD:
  assumes "conn_inv limit (m, ids)"
  shows "tab_get (cm_by_connector m) i = Some p \<longleftrightarrow> (\<exists>k. tab_get (cm_by_peer m) p = Some k \<and> uc_stream_id k = i)"
    and "tab_get (cm_by_connector m) i = Some p \<Longrightarrow> issued 3 ids i"
    and "tab_ok (cm_by_peer m)" and "ids_ok 3 ids" and "connectors_len m \<le> limit"
  using assms by (auto simp: conn_inv_def)

lemma conn_invI:
  assumes "tab_ok (cm_by_peer m)" and "ids_ok 3 ids" and "connectors_len m \<le> limit"
    and "\<And>i p. tab_get (cm_by_connector m) i = Some p \<longleftrightarrow> (\<exists>k. tab_get (cm_by_peer m) p = Some k \<and> uc_stream_id k = i)"
    and "\<And>i p. tab_get (cm_by_connector m) i = Some p \<Longrightarrow> issued 3 ids i"
  shows "conn_inv limit (m, ids)"
  using assms by (auto simp: conn_inv_def)

lemma touch_inv:
  assumes "conn_inv limit (m, ids)"
  shows "conn_inv limit (fst (get_mut_by_peer m peer (touch now)), ids)"
proof (cases "tab_get (cm_by_peer m) peer")
  case None
  then show ?thesis using assms by (simp add: get_mut_by_peer_def)
next
  case (Some c)
  note D = conn_invD [OF assms]
  show ?thesis
    using Some D(2,4,5) tab.count_insert [OF D(3)]
    by (auto intro!: conn_invI simp: get_mut_by_peer_def touch_def tab.get_insert tab.ok_insert [OF D(3)] D(1)
        connectors_len_def split: if_splits)
qed

lemma bind_inv:
  assumes "conn_inv limit (m, ids)" and "next_stream_id ids = (ids', Some i)"
    and "tab_get (cm_by_peer m) peer = None" and "connectors_len m < limit"
  shows "conn_inv limit (insert_connector m peer i \<lparr>uc_stream_id = i, uc_last_used = now\<rparr>, ids')"
proof -
  note D = conn_invD [OF assms(1)]
  note N = next_stream_id_spec [OF D(4) assms(2)]
  have fresh: "tab_get (cm_by_connector m) i = None" using N(3) D(2) by (cases "tab_get (cm_by_connector m) i") auto
  show ?thesis
  proof (rule conn_invI)
    show "tab_ok (cm_by_peer (insert_connector m peer i \<lparr>uc_stream_id = i, uc_last_used = now\<rparr>))"
      by (simp add: insert_connector_def tab.ok_insert [OF D(3)])
    show "ids_ok 3 ids'" by (rule N(1))
    show "connectors_len (insert_connector m peer i \<lparr>uc_stream_id = i, uc_last_used = now\<rparr>) \<le> limit"
      using assms(4) le_trans [OF tab.count_insert_le [OF D(3)]] by (simp add: insert_connector_def connectors_len_def)
  next
    fix j p
    show "tab_get (cm_by_connector (insert_connector m peer i \<lparr>uc_stream_id = i, uc_last_used = now\<rparr>)) j = Some p \<longleftrightarrow>
        (\<exists>k. tab_get (cm_by_peer (insert_connector m peer i \<lparr>uc_stream_id = i, uc_last_used = now\<rparr>)) p = Some k \<and>
          uc_stream_id k = j)"
      using assms(3) fresh D(1) [of j p] D(1) [of j peer] D(1) [of i p]
      by (auto simp: insert_connector_def tab.get_insert)
    show "issued 3 ids' j" if "tab_get (cm_by_connector (insert_connector m peer i
        \<lparr>uc_stream_id = i, uc_last_used = now\<rparr>)) j = Some p"
      using that N(2,3) D(2) by (auto simp: insert_connector_def tab.get_insert split: if_splits)
  qed
qed

lemma drop_pair_inv:
  assumes "conn_inv limit (m, ids)" and "tab_get (cm_by_peer m) p = Some c" and "uc_stream_id c = i"
  shows "conn_inv limit (m\<lparr>cm_by_connector := tab_remove i (cm_by_connector m),
    cm_by_peer := tab_remove p (cm_by_peer m)\<rparr>, ids)"
proof -
  note D = conn_invD [OF assms(1)]
  have only: "tab_get (cm_by_connector m) i = Some p" using D(1) assms(2,3) by blast
  show ?thesis
  proof (rule conn_invI)
    fix j q
    show "tab_get (cm_by_connector (m\<lparr>cm_by_connector := tab_remove i (cm_by_connector m),
        cm_by_peer := tab_remove p (cm_by_peer m)\<rparr>)) j = Some q \<longleftrightarrow>
      (\<exists>k. tab_get (cm_by_peer (m\<lparr>cm_by_connector := tab_remove i (cm_by_connector m),
        cm_by_peer := tab_remove p (cm_by_peer m)\<rparr>)) q = Some k \<and> uc_stream_id k = j)"
      using D(1) [of j q] D(1) [of i q] only assms(2,3) by (auto simp: tab.get_remove)
  qed (use D le_trans [OF tab.count_remove_le [OF D(3)]] in
      \<open>auto simp: tab.ok_remove connectors_len_def tab.get_remove split: if_splits\<close>)
qed

lemma remove_inv:
  assumes "conn_inv limit (m, ids)"
  shows "conn_inv limit (fst (remove_by_stream_id m i), ids)"
proof (cases "tab_get (cm_by_connector m) i")
  case None
  then show ?thesis using assms by (simp add: remove_by_stream_id_def)
next
  case (Some p)
  then obtain c where "tab_get (cm_by_peer m) p = Some c" "uc_stream_id c = i"
    using conn_invD(1) [OF assms] by blast
  from drop_pair_inv [OF assms this] show ?thesis by (simp add: remove_by_stream_id_def Some)
qed

lemma sweep_inv:
  "conn_inv limit (m, ids) \<Longrightarrow> conn_inv limit (fst (remove_expired now timeout m expired), ids)"
proof (induction now timeout m expired rule: remove_expired.induct)
  case (2 now timeout m peer stream_id rest)
  have swap: "m\<lparr>cm_by_peer := a, cm_by_connector := b\<rparr> = m\<lparr>cm_by_connector := b, cm_by_peer := a\<rparr>" for a b
    by simp
  show ?case
    using "2.IH" "2.prems" drop_pair_inv [OF "2.prems", of peer _ stream_id]
    by (auto simp: swap split: option.split prod.split)
qed simp

lemma conn_step_inv: "conn_step limit c c' \<Longrightarrow> conn_inv limit c \<Longrightarrow> conn_inv limit c'"
proof (induction rule: conn_step.induct)
  case (conn_alloc m ids)
  obtain ids' r where "next_stream_id ids = (ids', r)" by fastforce
  with conn_alloc show ?case
    using next_stream_id_spec [OF conn_invD(4) [OF conn_alloc]] by (auto simp: conn_inv_def)
qed (auto intro: touch_inv bind_inv remove_inv sweep_inv)

lemma conn_steps_inv: "(conn_step limit)\<^sup>*\<^sup>* c c' \<Longrightarrow> conn_inv limit c \<Longrightarrow> conn_inv limit c'"
  by (induction rule: rtranclp_induct) (auto intro: conn_step_inv)

section \<open>Properties\<close>

text \<open>An identifier that was given to a peer is given to no other peer in the same epoch.\<close>

definition reserved_for :: "u32 \<Rightarrow> rstr \<Rightarrow> connector_map \<times> stream_ids \<Rightarrow> bool" where
  "reserved_for i p c \<longleftrightarrow> issued 3 (snd c) i \<and> tab_get (cm_by_connector (fst c)) i \<in> {None, Some p}"

lemma get_remove_expired:
  "tab_get (cm_by_connector (fst (remove_expired now timeout m expired))) i \<in> {None, tab_get (cm_by_connector m) i}"
proof (induction now timeout m expired rule: remove_expired.induct)
  case (2 now timeout m peer stream_id rest)
  then show ?case by (auto simp: tab.get_remove split: option.split prod.split if_splits)
qed simp

lemma conn_step_reserved:
  "conn_step limit c c' \<Longrightarrow> conn_inv limit c \<Longrightarrow> reserved_for i p c \<Longrightarrow> reserved_for i p c'"
proof (induction rule: conn_step.induct)
  case (conn_alloc m ids)
  obtain ids' r where "next_stream_id ids = (ids', r)" by fastforce
  with conn_alloc show ?case
    using next_stream_id_spec(2) [OF conn_invD(4) [OF conn_alloc(1)]] by (auto simp: reserved_for_def)
next
  case (conn_bind ids ids' j m peer now)
  note N = next_stream_id_spec [OF conn_invD(4) [OF conn_bind(4)] conn_bind(1)]
  have "i \<noteq> j" using N(3) conn_bind(5) by (auto simp: reserved_for_def)
  then show ?case using N(2) conn_bind(5) by (auto simp: reserved_for_def insert_connector_def tab.get_insert)
next
  case (conn_sweep m ids now timeout expired)
  then show ?case using get_remove_expired [of now timeout m expired i] by (auto simp: reserved_for_def)
qed (auto simp: reserved_for_def get_mut_by_peer_def remove_by_stream_id_def tab.get_remove split: option.splits)

lemma conn_steps_reserved:
  "(conn_step limit)\<^sup>*\<^sup>* c c' \<Longrightarrow> conn_inv limit c \<Longrightarrow> reserved_for i p c \<Longrightarrow> reserved_for i p c'"
  by (induction rule: rtranclp_induct) (auto intro: conn_step_reserved conn_steps_inv)

lemma start_inv: "conn_inv limit (conns (udp_epoch_start store))"
  by (simp add: conn_inv_def conns_def udp_epoch_start_def empty_connectors_def ids_ok_def new_odd_from_def
      connectors_len_def)

lemma epoch_inv: "conn_inv (rt_max_udp_peers rt) (conns (fst (run_udp_forward_epoch rt evs (udp_epoch_start store))))"
  using conn_steps_inv [OF epoch_conns start_inv] .

text \<open>
  C31: the connectors of a UDP epoch stay consistent. After any events, with any outcome of the sends,
  the two tables are inverse to each other, there are never more connectors than peers allowed, and
  every stream identifier in use is odd and at least 3, so it cannot be taken for the listener.
\<close>

theorem udp_connectors_consistent:
  "let s = fst (run_udp_forward_epoch rt evs (udp_epoch_start store)); m = us_connectors s
   in (peer_for_stream_id m i = Some p \<longleftrightarrow> (\<exists>c. tab_get (cm_by_peer m) p = Some c \<and> uc_stream_id c = i)) \<and>
      connectors_len m \<le> rt_max_udp_peers rt \<and>
      (peer_for_stream_id m i = Some p \<longrightarrow> odd (unat i) \<and> 3 \<le> unat i)"
proof -
  let ?s = "fst (run_udp_forward_epoch rt evs (udp_epoch_start store))"
  have "conn_inv (rt_max_udp_peers rt) (us_connectors ?s, us_ids ?s)"
    using epoch_inv [of rt evs store] by (simp add: conns_def)
  note D = conn_invD [OF this]
  show ?thesis using D(1) [of i p] D(2) [of i p] D(5) by (auto simp: peer_for_stream_id_def issued_def)
qed

lemma connector_stream_id_result:
  assumes "udp_connector_stream_id rt env s p = (s', Inr i)" and "conn_inv limit (conns s)"
  shows "peer_for_stream_id (us_connectors s') i = Some p"
    and "tw_to_connect s' = tw_to_connect s \<or> (\<exists>b. tw_to_connect s' = tw_to_connect s @ [b] \<and> fr_type b = UdpBind)"
proof -
  have inv: "tab_get (cm_by_connector (us_connectors s)) j = Some q \<longleftrightarrow>
      (\<exists>k. tab_get (cm_by_peer (us_connectors s)) q = Some k \<and> uc_stream_id k = j)" for j q
    using assms(2) unfolding conns_def by (rule conn_invD(1))
  show "peer_for_stream_id (us_connectors s') i = Some p"
    using assms(1) inv
    by (auto simp: udp_connector_stream_id_def get_mut_by_peer_def touch_def peer_for_stream_id_def
        insert_connector_def tab.get_insert andThen_eq mapErr_def send_connect_def result_simps
        split: option.splits if_splits prod.splits sum.splits)
  show "tw_to_connect s' = tw_to_connect s \<or> (\<exists>b. tw_to_connect s' = tw_to_connect s @ [b] \<and> fr_type b = UdpBind)"
    using assms(1)
    by (auto simp: udp_connector_stream_id_def get_mut_by_peer_def andThen_eq mapErr_def send_connect_def result_simps
        split: option.splits if_splits prod.splits sum.splits)
qed

lemma connector_stream_id_refused:
  assumes "udp_connector_stream_id rt env s p = (s', Inl e)"
  shows "tw_to_connect s' = tw_to_connect s"
  using assms
  by (auto simp: udp_connector_stream_id_def get_mut_by_peer_def andThen_def mapErr_def send_connect_def result_simps
      split: option.splits if_splits prod.splits sum.splits)

lemma listen_datagram_sent:
  assumes "tj_decode_peer (rt_json rt) (fr_meta f) = Some p"
    and "handle_listen_udp_datagram rt env s f = (s', r)" and "conn_inv limit (conns s)"
    and "tw_to_connect s' = out @ [d]" and "fr_type d = UdpDatagram" and "tw_to_connect s' \<noteq> tw_to_connect s"
  shows "peer_for_stream_id (us_connectors s') (fr_stream_id d) = Some p" and "fr_data d = fr_data f"
proof -
  obtain t q where q: "udp_connector_stream_id rt env s p = (t, q)" by fastforce
  have store: "tw_to_connect (record_dropped_datagram rt u) = tw_to_connect u"
    "us_connectors (record_dropped_datagram rt u) = us_connectors u" for u
    by (simp_all add: record_dropped_datagram_def)
  have "\<exists>i. q = Inr i"
    using assms(1,2,6) q connector_stream_id_refused [of rt env s p t]
    by (cases q) (auto simp: handle_listen_udp_datagram_def store split: connector_error.splits)
  then obtain i where i: "q = Inr i" by blast
  note R = connector_stream_id_result [OF q [unfolded i] assms(3)]
  have "us_connectors s' = us_connectors t \<and> (tw_to_connect s' = tw_to_connect t \<or>
      (\<exists>m. tw_to_connect s' = tw_to_connect t @
        [\<lparr>fr_type = UdpDatagram, fr_flags = 0, fr_stream_id = i, fr_meta = m, fr_data = fr_data f\<rparr>]))"
    using assms(1,2) q i
    by (auto simp: handle_listen_udp_datagram_def store send_connect_def split: option.splits sum.splits if_splits)
  moreover have "tw_to_connect s' \<noteq> tw_to_connect t" using R(2) assms(4-6) by auto
  ultimately show "peer_for_stream_id (us_connectors s') (fr_stream_id d) = Some p" and "fr_data d = fr_data f"
    using R(1) assms(4) by auto
qed

lemma connect_datagram_relay:
  assumes "handle_connect_udp_datagram rt env s g = (s', r)"
    and "peer_for_stream_id (us_connectors s) (fr_stream_id g) \<in> {None, Some p}"
  shows "tw_to_listen s' = tw_to_listen s \<or>
    (\<exists>m. tj_encode_peer (rt_json rt) p = Some m \<and> tw_to_listen s' = tw_to_listen s @
      [\<lparr>fr_type = UdpDatagram, fr_flags = 0, fr_stream_id = 1, fr_meta = m, fr_data = fr_data g\<rparr>])"
  using assms
  by (auto simp: handle_connect_udp_datagram_def Let_def send_listen_def split: option.splits sum.splits)

text \<open>
  C30: a reply reaches the peer that asked. When a datagram of a peer was sent on a stream of the
  connect tunnel, it was sent unchanged, and whatever happens in the epoch before a datagram comes
  back on that stream (sweeps, closes, errors, other peers, refused sends), the reply is handed to
  the listen tunnel for that same peer, or is not relayed at all.
\<close>

theorem udp_reply_reaches_peer:
  assumes "s1 = fst (run_udp_forward_epoch rt evs1 (udp_epoch_start store))"
    and "tj_decode_peer (rt_json rt) (fr_meta f) = Some p"
    and "handle_listen_udp_datagram rt env s1 f = (s2, r)"
    and "tw_to_connect s2 = out @ [d]" and "fr_type d = UdpDatagram" and "tw_to_connect s2 \<noteq> tw_to_connect s1"
    and "s3 = fst (run_udp_forward_epoch rt evs2 s2)"
    and "fr_stream_id g = fr_stream_id d" and "handle_connect_udp_datagram rt env' s3 g = (s4, r')"
  shows "fr_data d = fr_data f \<and> (tw_to_listen s4 = tw_to_listen s3 \<or>
    (\<exists>m. tj_encode_peer (rt_json rt) p = Some m \<and> tw_to_listen s4 = tw_to_listen s3 @
      [\<lparr>fr_type = UdpDatagram, fr_flags = 0, fr_stream_id = 1, fr_meta = m, fr_data = fr_data g\<rparr>]))"
proof -
  let ?L = "rt_max_udp_peers rt" and ?i = "fr_stream_id d"
  have inv1: "conn_inv ?L (conns s1)" unfolding assms(1) by (rule epoch_inv)
  note sent = listen_datagram_sent [OF assms(2,3) inv1 assms(4-6)]
  have inv2: "conn_inv ?L (conns s2)"
    using conn_step_inv [OF listen_datagram_conns inv1, of env f] assms(3) by simp
  then have "reserved_for ?i p (conns s2)"
    using sent(1) conn_invD(2) [of ?L "us_connectors s2" "us_ids s2" ?i p]
    by (simp add: reserved_for_def conns_def peer_for_stream_id_def)
  then have "reserved_for ?i p (conns s3)"
    unfolding assms(7) by (rule conn_steps_reserved [OF epoch_conns inv2])
  then have "peer_for_stream_id (us_connectors s3) (fr_stream_id g) \<in> {None, Some p}"
    by (simp add: reserved_for_def conns_def peer_for_stream_id_def assms(8))
  from connect_datagram_relay [OF assms(9) this] sent(2) show ?thesis by blast
qed

section \<open>Examples\<close>

text \<open>Peers are their own metadata, and sends succeed.\<close>

definition plain_json :: tunnel_json where
  "plain_json = \<lparr>tj_decode_accept = (\<lambda>_. Some 1), tj_decode_peer = (\<lambda>b. Some (map unat b)), tj_encode_peer = (\<lambda>p. Some (map word_of_nat p)),
     tj_encode_endpoint = (\<lambda>p. Some (map word_of_nat p)), tj_decode_error = (\<lambda>_. None), tj_decode_drop = (\<lambda>_. None)\<rparr>"

definition sample_runtime :: udp_runtime where
  "sample_runtime = \<lparr>rt_forward_id = lit ''f'', rt_connect_endpoint = lit ''c'', rt_listener_stream_id = 1,
     rt_json = plain_json, rt_max_udp_peers = 2, rt_bind_endpoint = lit ''b''\<rparr>"

definition sample_env :: "nat \<Rightarrow> tunnel_env" where
  "sample_env now = \<lparr>ev_now = now, ev_send_connect = (\<lambda>_ _. Inr ()), ev_send_listen = (\<lambda>_ _. Inr ())\<rparr>"

definition datagram :: "u32 \<Rightarrow> rstr \<Rightarrow> bytes \<Rightarrow> frame" where
  "datagram i peer data = \<lparr>fr_type = UdpDatagram, fr_flags = 0, fr_stream_id = i,
     fr_meta = map word_of_nat peer, fr_data = data\<rparr>"

definition sample_events :: "(tunnel_env \<times> udp_event) list" where
  "sample_events = [(sample_env 5, EvListen (Inr (datagram 1 (lit ''q'') [9]))), (sample_env 6, EvSweep)]"

theorem udp_connectors_consistent_witness:
  "peer_for_stream_id (us_connectors (fst (run_udp_forward_epoch sample_runtime sample_events
      (udp_epoch_start empty_forward_state)))) 3 = Some (lit ''q'') \<and> odd (unat (3 :: u32))"
proof -
  have "peer_for_stream_id (us_connectors (fst (run_udp_forward_epoch sample_runtime sample_events
      (udp_epoch_start empty_forward_state)))) 3 = Some (lit ''q'')" by code_simp
  then show ?thesis
    using udp_connectors_consistent [of sample_runtime sample_events empty_forward_state 3 "lit ''q''"]
    by (simp add: Let_def)
qed

theorem udp_reply_reaches_peer_witness:
  "let s1 = fst (run_udp_forward_epoch sample_runtime sample_events (udp_epoch_start empty_forward_state));
       s2 = fst (handle_listen_udp_datagram sample_runtime (sample_env 7) s1 (datagram 1 (lit ''p'') [1, 2]));
       s3 = fst (run_udp_forward_epoch sample_runtime [(sample_env 60006, EvSweep)] s2);
       s4 = fst (handle_connect_udp_datagram sample_runtime (sample_env 60007) s3 (datagram 5 [] [3]))
   in tw_to_listen s4 = tw_to_listen s3 @ [datagram 1 (lit ''p'') [3]] \<and>
      fr_data (last (tw_to_connect s2)) = [1, 2]"
proof -
  define s1 where "s1 = fst (run_udp_forward_epoch sample_runtime sample_events (udp_epoch_start empty_forward_state))"
  define s2 where "s2 = fst (handle_listen_udp_datagram sample_runtime (sample_env 7) s1 (datagram 1 (lit ''p'') [1, 2]))"
  define s3 where "s3 = fst (run_udp_forward_epoch sample_runtime [(sample_env 60006, EvSweep)] s2)"
  define s4 where "s4 = fst (handle_connect_udp_datagram sample_runtime (sample_env 60007) s3 (datagram 5 [] [3]))"
  define d where "d = datagram 5 (lit ''c'') [1, 2]"
  have dec: "tj_decode_peer (rt_json sample_runtime) (fr_meta (datagram 1 (lit ''p'') [1, 2])) = Some (lit ''p'')"
    by code_simp
  have listen: "handle_listen_udp_datagram sample_runtime (sample_env 7) s1 (datagram 1 (lit ''p'') [1, 2]) = (s2, Inr None)"
    unfolding s2_def s1_def by code_simp
  have out: "tw_to_connect s2 = butlast (tw_to_connect s2) @ [d]" unfolding s2_def s1_def d_def by code_simp
  have ty: "fr_type d = UdpDatagram" "fr_stream_id (datagram 5 [] [3]) = fr_stream_id d"
    by (simp_all add: d_def datagram_def)
  have ne: "tw_to_connect s2 \<noteq> tw_to_connect s1" unfolding s2_def s1_def by code_simp
  have reply: "handle_connect_udp_datagram sample_runtime (sample_env 60007) s3 (datagram 5 [] [3]) = (s4, Inr None)"
    unfolding s4_def s3_def s2_def s1_def by code_simp
  have sent: "tw_to_listen s4 \<noteq> tw_to_listen s3" unfolding s4_def s3_def s2_def s1_def by code_simp
  have enc: "tj_encode_peer (rt_json sample_runtime) (lit ''p'') = Some (map word_of_nat (lit ''p''))"
    by (simp add: sample_runtime_def plain_json_def)
  have "last (tw_to_connect s2) = d" using out by (metis last_snoc)
  then show ?thesis
    unfolding Let_def s1_def [symmetric] s2_def [symmetric] s3_def [symmetric] s4_def [symmetric]
    using udp_reply_reaches_peer [OF s1_def dec listen out ty(1) ne s3_def ty(2) reply] sent enc
    by (auto simp: datagram_def)
qed

end
