(* ===== verification/Supervisor.thy ===== *)
theory Supervisor
  imports Tcp_Bridge Udp_Bridge
begin

text \<open>
  What runs a forward around its epochs, \<open>crates/remote-exec-broker/src/port_forward/supervisor\<close> and
  \<open>session.rs\<close>: the retry loop of a reconnect, opening and closing tunnels, the recovery of either side
  and the loop of \<open>run_tcp_forward\<close>. Durations are natural numbers of nanoseconds. What a peer answers,
  how long an attempt takes and when the forward is cancelled are parameters.
\<close>

section \<open>Retrying\<close>

definition millis :: "nat \<Rightarrow> nat" where "millis n = n * 1000000"

definition LISTEN_RECONNECT_INITIAL_BACKOFF :: nat where "LISTEN_RECONNECT_INITIAL_BACKOFF = millis 50"
definition LISTEN_RECONNECT_MAX_BACKOFF :: nat where "LISTEN_RECONNECT_MAX_BACKOFF = millis 500"
definition LISTEN_RECONNECT_SAFETY_MARGIN :: nat where "LISTEN_RECONNECT_SAFETY_MARGIN = millis 250"
definition PORT_FORWARD_RECONNECT_ATTEMPT_TIMEOUT :: nat where "PORT_FORWARD_RECONNECT_ATTEMPT_TIMEOUT = millis 2000"
definition CONNECT_RECONNECT_TOTAL_TIMEOUT :: nat where "CONNECT_RECONNECT_TOTAL_TIMEOUT = millis 10000"

record reconnect_policy =
  rp_initial_backoff :: nat
  rp_max_backoff :: nat
  rp_attempt_timeout :: nat
  rp_total_timeout :: nat
  rp_max_attempts :: "nat option"

definition effective_resume_timeout :: "nat \<Rightarrow> nat" where
  "effective_resume_timeout resume_timeout =
     (let adjusted = resume_timeout - LISTEN_RECONNECT_SAFETY_MARGIN
      in if adjusted = 0 then resume_timeout else adjusted)"

definition listen_policy :: "nat \<Rightarrow> reconnect_policy" where
  "listen_policy resume_timeout =
     \<lparr>rp_initial_backoff = LISTEN_RECONNECT_INITIAL_BACKOFF, rp_max_backoff = LISTEN_RECONNECT_MAX_BACKOFF,
      rp_attempt_timeout = PORT_FORWARD_RECONNECT_ATTEMPT_TIMEOUT,
      rp_total_timeout = effective_resume_timeout resume_timeout, rp_max_attempts = None\<rparr>"

definition connect_policy :: reconnect_policy where
  "connect_policy =
     \<lparr>rp_initial_backoff = LISTEN_RECONNECT_INITIAL_BACKOFF, rp_max_backoff = LISTEN_RECONNECT_MAX_BACKOFF,
      rp_attempt_timeout = PORT_FORWARD_RECONNECT_ATTEMPT_TIMEOUT,
      rp_total_timeout = CONNECT_RECONNECT_TOTAL_TIMEOUT, rp_max_attempts = None\<rparr>"

text \<open>
  One round of the loop: whether the token is cancelled when it starts, which branch the select around
  the attempt takes and the time it took beyond what it had to, and the same for the sleep.
\<close>

datatype attempt_branch = AttemptCancelled | AttemptElapsed | AttemptDone

record retry_round =
  rr_cancelled :: bool
  rr_branch :: attempt_branch
  rr_attempt_time :: nat
  rr_sleep_cancelled :: bool
  rr_oversleep :: nat

text \<open>
  A round returns or goes on at a later time with another backoff. A return carries the number of
  attempts started, the time and the value; \<open>attempts\<close> is also the index of the round.
\<close>

datatype 't retry_next = Return nat nat "(failure, 't option) result" | Again nat nat

definition settled :: "(failure, 't) result \<Rightarrow> bool" where
  "settled r = (case r of Inr _ \<Rightarrow> True | Inl err \<Rightarrow> \<not> is_retryable_transport_error err)"

definition after_attempt :: "reconnect_policy \<Rightarrow> retry_round \<Rightarrow> nat \<Rightarrow> nat \<Rightarrow> nat" where
  "after_attempt p r deadline now = now + rr_attempt_time r +
     (if rr_branch r = AttemptElapsed then min (rp_attempt_timeout p) (deadline - now) else 0)"

definition retry_next ::
  "reconnect_policy \<Rightarrow> retry_round \<Rightarrow> (failure, 't) result \<Rightarrow> nat \<Rightarrow> nat \<Rightarrow> nat \<Rightarrow> nat \<Rightarrow> 't retry_next" where
  "retry_next p r outcome deadline attempts now backoff =
     (if rr_cancelled r then Return attempts now (Inr None)
      else if (case rp_max_attempts p of Some m \<Rightarrow> m \<le> attempts | None \<Rightarrow> False)
      then Return attempts now (Inl [Message (lit ''port forward reconnect attempts exhausted'')])
      else if deadline - now = 0
      then Return attempts now (Inl [Message (lit ''port tunnel reconnect timed out'')])
      else
        let after = after_attempt p r deadline now; sleep_for = min backoff (deadline - after)
        in if rr_branch r = AttemptCancelled then Return (attempts + 1) after (Inr None)
           else if rr_branch r = AttemptDone \<and> settled outcome
           then Return (attempts + 1) after (bindR outcome (\<lambda>v. Inr (Some v)))
           else if sleep_for = 0 then Again after backoff
           else if rr_sleep_cancelled r then Return (attempts + 1) (after + rr_oversleep r) (Inr None)
           else Again (after + sleep_for + rr_oversleep r) (min (backoff + backoff) (rp_max_backoff p)))"

partial_function (option) retry_loop ::
  "reconnect_policy \<Rightarrow> (nat \<Rightarrow> retry_round) \<Rightarrow> (nat \<Rightarrow> (failure, 't) result) \<Rightarrow> nat \<Rightarrow> nat \<Rightarrow> nat \<Rightarrow> nat \<Rightarrow>
   (nat \<times> nat \<times> (failure, 't option) result) option" where
  "retry_loop p rounds attempt_fn deadline attempts now backoff =
     (case retry_next p (rounds attempts) (attempt_fn attempts) deadline attempts now backoff of
        Return n t r \<Rightarrow> Some (n, t, r)
      | Again now' backoff' \<Rightarrow> retry_loop p rounds attempt_fn deadline (attempts + 1) now' backoff')"

declare retry_loop.simps [code]

definition retry_reconnect ::
  "reconnect_policy \<Rightarrow> (nat \<Rightarrow> retry_round) \<Rightarrow> (nat \<Rightarrow> (failure, 't) result) \<Rightarrow> nat \<Rightarrow>
   (nat \<times> nat \<times> (failure, 't option) result) option" where
  "retry_reconnect p rounds attempt_fn now =
     retry_loop p rounds attempt_fn (now + rp_total_timeout p) 0 now (rp_initial_backoff p)"

section \<open>A reconnect always comes to an end\<close>

text \<open>What a return of the loop says: a value comes from an attempt that was started.\<close>

definition retry_result :: "(nat \<Rightarrow> (failure, 't) result) \<Rightarrow> nat \<Rightarrow> nat \<Rightarrow> (failure, 't option) result \<Rightarrow> bool" where
  "retry_result attempt_fn from n r \<longleftrightarrow>
     (\<forall>v. r = Inr (Some v) \<longrightarrow> (\<exists>i \<ge> from. i < n \<and> attempt_fn i = Inr v))"

lemma retry_result_mono: "retry_result f (i + 1) n r \<Longrightarrow> retry_result f i n r"
  unfolding retry_result_def by (metis add_leD1)

lemma rounds_left:
  assumes "0 < (b::nat)" and "b \<le> d"
  shows "Suc ((d - b) div b) = d div b"
  using assms by (simp add: le_div_geq)

lemma after_attempt_ge: "now \<le> after_attempt p r deadline now"
  by (simp add: after_attempt_def)

lemma retry_again:
  assumes "retry_next p r out deadline i now backoff = Again now' backoff'" and "b \<le> backoff" and "b \<le> rp_max_backoff p"
    and "0 < b"
  shows "now < deadline" and "b \<le> backoff'" and "deadline \<le> now' \<or> now + b \<le> now'"
  using assms after_attempt_ge [of now p r deadline]
  by (auto simp: retry_next_def Let_def min_def split: if_splits)

lemma retry_return:
  assumes "retry_next p (rounds i) (f i) deadline i now backoff = Return n t r"
  shows "i \<le> n" and "n \<le> i + (if now < deadline then 1 else 0)" and "retry_result f i n r"
  using assms
  by (auto simp: retry_next_def retry_result_def Let_def settled_def split: if_splits sum.splits)

lemma retry_loop_returns:
  assumes b: "0 < b" "b \<le> rp_max_backoff p"
  shows "b \<le> backoff \<Longrightarrow> \<exists>n t r. retry_loop p rounds f deadline i now backoff = Some (n, t, r) \<and>
     n \<le> i + (if now < deadline then (deadline - now) div b + 1 else 0) \<and> retry_result f i n r"
proof (induction "deadline - now" arbitrary: i now backoff rule: less_induct)
  case less
  show ?case
  proof (cases "retry_next p (rounds i) (f i) deadline i now backoff")
    case (Return n t r)
    then have "retry_loop p rounds f deadline i now backoff = Some (n, t, r)" by (subst retry_loop.simps) simp
    with retry_return(2,3) [where rounds = rounds and f = f, OF Return] show ?thesis
      by (intro exI conjI) (auto split: if_splits)
  next
    case (Again now' backoff')
    note again = retry_again [OF Again less.prems b(2,1)]
    have "deadline - now' < deadline - now" using again(1,3) b(1) by linarith
    from less.hyps [OF this again(2), of "i + 1"] obtain n t r where
      n: "retry_loop p rounds f deadline (i + 1) now' backoff' = Some (n, t, r)"
        "n \<le> i + 1 + (if now' < deadline then (deadline - now') div b + 1 else 0)" "retry_result f (i + 1) n r"
      by blast
    have "(if now' < deadline then (deadline - now') div b + 1 else 0) \<le> (deadline - now) div b"
    proof (cases "now' < deadline")
      case True
      with again(3) have "deadline - now' \<le> (deadline - now) - b" "b \<le> deadline - now" by linarith+
      then have "Suc ((deadline - now') div b) \<le> (deadline - now) div b"
        using div_le_mono [of "deadline - now'" "deadline - now - b" b] rounds_left [OF b(1), of "deadline - now"]
        by linarith
      with True show ?thesis by simp
    qed simp
    with n(2) again(1) have "n \<le> i + (if now < deadline then (deadline - now) div b + 1 else 0)" by simp
    moreover have "retry_loop p rounds f deadline i now backoff = Some (n, t, r)"
      using n(1) Again by (subst retry_loop.simps) simp
    ultimately show ?thesis using retry_result_mono [OF n(3)] by blast
  qed
qed

text \<open>
  C26: A reconnect comes to an end whatever its attempts do and however long they and the sleeps take:
  under both policies the loop returns, after at most one attempt more than initial backoffs fit into
  the total timeout, and the tunnel it returns is one that an attempt it started has opened.
\<close>

theorem retry_reconnect_returns:
  assumes "p = connect_policy \<or> p = listen_policy resume_timeout"
  shows "\<exists>attempts now' r. retry_reconnect p rounds attempt_fn now = Some (attempts, now', r) \<and>
     attempts \<le> rp_total_timeout p div millis 50 + 1 \<and>
     (\<forall>v. r = Inr (Some v) \<longrightarrow> (\<exists>i < attempts. attempt_fn i = Inr v))"
proof -
  have b: "rp_initial_backoff p = millis 50" "millis 50 \<le> rp_max_backoff p" "0 < millis 50"
    using assms by (auto simp: connect_policy_def listen_policy_def LISTEN_RECONNECT_INITIAL_BACKOFF_def
        LISTEN_RECONNECT_MAX_BACKOFF_def millis_def)
  have "millis 50 \<le> rp_initial_backoff p" using b(1) by simp
  from retry_loop_returns [OF b(3,2) this, of rounds attempt_fn "now + rp_total_timeout p" 0 now]
  obtain n t r where n: "retry_reconnect p rounds attempt_fn now = Some (n, t, r)"
    "n \<le> (if 0 < rp_total_timeout p then rp_total_timeout p div millis 50 + 1 else 0)" "retry_result attempt_fn 0 n r"
    unfolding retry_reconnect_def add_diff_cancel_left' by auto
  moreover have "\<exists>i < n. attempt_fn i = Inr v" if "r = Inr (Some v)" for v
    using n(3) that by (auto simp: retry_result_def)
  ultimately show ?thesis by (auto split: if_splits)
qed

theorem retry_reconnect_returns_witness:
  "\<exists>attempts now' r. retry_reconnect connect_policy
     (\<lambda>_. \<lparr>rr_cancelled = False, rr_branch = AttemptElapsed, rr_attempt_time = 0, rr_sleep_cancelled = False, rr_oversleep = 0\<rparr>)
     (\<lambda>_. Inl []) 0 = Some (attempts, now', r :: (failure, nat option) result) \<and> attempts \<le> 201"
  using retry_reconnect_returns [of connect_policy 0
      "\<lambda>_. \<lparr>rr_cancelled = False, rr_branch = AttemptElapsed, rr_attempt_time = 0, rr_sleep_cancelled = False, rr_oversleep = 0\<rparr>"
      "\<lambda>_. Inl [] :: (failure, nat) result" 0]
  by (auto simp: connect_policy_def CONNECT_RECONNECT_TOTAL_TIMEOUT_def millis_def)

section \<open>Tunnels in a dialogue\<close>

text \<open>
  A tunnel the broker talks on step by step: whether it takes a frame, the frames it took, what it
  yields until the timeout of the wait that reads it expires, and whether it was aborted.
\<close>

record tunnel =
  tn_id :: nat
  tn_accepts :: "frame list \<Rightarrow> frame \<Rightarrow> (failure, unit) result"
  tn_sent :: "frame list"
  tn_script :: "(failure, frame) result list"
  tn_aborted :: bool

definition tunnel_send :: "tunnel \<Rightarrow> frame \<Rightarrow> tunnel \<times> (failure, unit) result" where
  "tunnel_send t f = (case tn_accepts t (tn_sent t) f of
      Inl e \<Rightarrow> (t, Inl e) | Inr _ \<Rightarrow> (t\<lparr>tn_sent := tn_sent t @ [f]\<rparr>, Inr ()))"

definition tunnel_close_stream :: "tunnel \<Rightarrow> u32 \<Rightarrow> tunnel \<times> (failure, unit) result" where
  "tunnel_close_stream t i = tunnel_send t (close_frame i)"

text \<open>None when nothing comes before the timeout.\<close>

definition tunnel_recv :: "tunnel \<Rightarrow> tunnel \<times> (failure, frame) result option" where
  "tunnel_recv t = (case tn_script t of [] \<Rightarrow> (t, None) | r # rs \<Rightarrow> (t\<lparr>tn_script := rs\<rparr>, Some r))"

definition tunnel_abort :: "tunnel \<Rightarrow> tunnel" where
  "tunnel_abort t = t\<lparr>tn_aborted := True\<rparr>"

record open_meta =
  om_forward_id :: rstr
  om_role :: tunnel_role
  om_side :: rstr
  om_generation :: nat
  om_protocol :: forward_protocol
  om_resume_session_id :: "rstr option"

record ready_meta =
  rm_generation :: nat
  rm_session_id :: "rstr option"
  rm_resume_timeout_ms :: "nat option"
  rm_limits :: tunnel_limits

record close_meta =
  cm_forward_id :: rstr
  cm_generation :: nat
  cm_reason :: rstr

record session_json =
  sj_tunnel :: tunnel_json
  sj_encode_open :: "open_meta \<Rightarrow> bytes option"
  sj_decode_ready :: "bytes \<Rightarrow> ready_meta option"
  sj_encode_close :: "close_meta \<Rightarrow> bytes option"
  sj_decode_close :: "bytes \<Rightarrow> close_meta option"
  sj_decode_endpoint :: "bytes \<Rightarrow> rstr option"

definition tunnel_error :: "session_json \<Rightarrow> frame \<Rightarrow> failure" where
  "tunnel_error json f = format_terminal_tunnel_error (decode_tunnel_error_frame (sj_tunnel json) f)"

definition quoted :: "rstr \<Rightarrow> rstr" where "quoted s = lit ''`'' @ s @ lit ''`''"

section \<open>Opening a tunnel\<close>

text \<open>
  A side with its name and what an attempt to open a tunnel to it gives; \<open>sh_show\<close> is the \<open>Debug\<close> text
  of a frame type.
\<close>

record side_handle =
  sh_name :: rstr
  sh_port_tunnel :: "(failure, tunnel) result"
  sh_show :: "frame_type \<Rightarrow> rstr"

record open_texts =
  ot_opening :: rstr
  ot_waiting :: rstr
  ot_timeout :: rstr
  ot_unexpected :: rstr

definition open_connect_tunnel :: "side_handle \<Rightarrow> (failure, tunnel) result" where
  "open_connect_tunnel side =
     map_err (\<lambda>e. Message (lit ''opening port tunnel to '' @ quoted (sh_name side)) # e) (sh_port_tunnel side)"

definition open_tunnel_with_role ::
  "session_json \<Rightarrow> side_handle \<Rightarrow> rstr \<Rightarrow> forward_protocol \<Rightarrow> tunnel_role \<Rightarrow> nat \<Rightarrow> rstr option \<Rightarrow> open_texts \<Rightarrow>
   (failure, tunnel \<times> ready_meta) result" where
  "open_tunnel_with_role json side forward_id protocol role generation resume_session_id texts =
     bindR (open_connect_tunnel side) (\<lambda>t.
     bindR (ok_or (sj_encode_open json \<lparr>om_forward_id = forward_id, om_role = role, om_side = sh_name side,
       om_generation = generation, om_protocol = protocol, om_resume_session_id = resume_session_id\<rparr>) json_failure) (\<lambda>meta.
     case tunnel_send t \<lparr>fr_type = TunnelOpen, fr_flags = 0, fr_stream_id = 0, fr_meta = meta, fr_data = []\<rparr> of
       (t, Inl e) \<Rightarrow> Inl (Message (lit ''opening '' @ ot_opening texts @ lit '' on '' @ quoted (sh_name side)) # e)
     | (t, Inr _) \<Rightarrow> (case tunnel_recv t of
         (t, None) \<Rightarrow> Inl [Message (lit ''timed out waiting for '' @ ot_timeout texts)]
       | (t, Some (Inl e)) \<Rightarrow> Inl (Message (lit ''waiting for '' @ ot_waiting texts @ lit '' on '' @ quoted (sh_name side)) # e)
       | (t, Some (Inr f)) \<Rightarrow>
           if fr_type f = TunnelReady \<and> fr_stream_id f = 0
           then bindR (ok_or (sj_decode_ready json (fr_meta f)) json_failure) (\<lambda>ready. Inr (t, ready))
           else if fr_type f = FError \<and> fr_stream_id f = 0
           then Inl (Message (lit ''opening '' @ ot_opening texts @ lit '' on '' @ quoted (sh_name side)) # tunnel_error json f)
           else Inl [Message (lit ''unexpected '' @ ot_unexpected texts @ lit '' response '' @
             quoted (sh_show side (fr_type f)) @ lit '' on '' @ quoted (sh_name side))])))"

record listen_opened =
  lo_tunnel :: tunnel
  lo_session_id :: rstr
  lo_resume_timeout :: nat
  lo_limits :: tunnel_limits

definition open_listen_session ::
  "session_json \<Rightarrow> side_handle \<Rightarrow> rstr \<Rightarrow> forward_protocol \<Rightarrow> nat \<Rightarrow> rstr option \<Rightarrow> (failure, listen_opened) result" where
  "open_listen_session json side forward_id protocol generation resume_session_id =
     bindR (open_tunnel_with_role json side forward_id protocol RoleListenTunnel generation resume_session_id
       \<lparr>ot_opening = lit ''port tunnel session'', ot_waiting = lit ''port tunnel session'',
        ot_timeout = lit ''port tunnel ready'', ot_unexpected = lit ''port tunnel session''\<rparr>) (\<lambda>(t, ready).
     bindR (ok_or (rm_session_id ready) [Message (lit ''listen tunnel ready did not include session_id'')]) (\<lambda>session_id.
     bindR (ok_or (rm_resume_timeout_ms ready) [Message (lit ''listen tunnel ready did not include resume_timeout_ms'')]) (\<lambda>ms.
     Inr \<lparr>lo_tunnel = t, lo_session_id = session_id, lo_resume_timeout = millis ms, lo_limits = rm_limits ready\<rparr>)))"

definition open_data_tunnel ::
  "session_json \<Rightarrow> side_handle \<Rightarrow> rstr \<Rightarrow> forward_protocol \<Rightarrow> nat \<Rightarrow> (failure, tunnel \<times> tunnel_limits) result" where
  "open_data_tunnel json side forward_id protocol generation =
     bindR (open_tunnel_with_role json side forward_id protocol RoleConnectTunnel generation None
       \<lparr>ot_opening = lit ''data port tunnel'', ot_waiting = lit ''data port tunnel'',
        ot_timeout = lit ''data port tunnel ready'', ot_unexpected = lit ''data port tunnel''\<rparr>) (\<lambda>(t, ready).
     bindR (ensureR (rm_generation ready = generation) [Message (lit ''data port tunnel on '' @ quoted (sh_name side) @
         lit '' returned generation '' @ quoted (dec_str (rm_generation ready)) @ lit '' instead of '' @
         quoted (dec_str generation))]) (\<lambda>_.
     Inr (t, rm_limits ready)))"

section \<open>The listen session\<close>

record listen_session =
  ls_forward_id :: rstr
  ls_session_id :: rstr
  ls_protocol :: forward_protocol
  ls_listener_stream_id :: u32
  ls_resume_timeout :: nat
  ls_generation :: nat
  ls_current_tunnel :: "tunnel option"

definition LISTEN_SESSION_STREAM_ID :: u32 where "LISTEN_SESSION_STREAM_ID = 1"

definition advance_generation :: "listen_session \<Rightarrow> listen_session \<times> nat" where
  "advance_generation c = (c\<lparr>ls_generation := ls_generation c + 1\<rparr>, ls_generation c + 1)"

definition replace_current_tunnel :: "listen_session \<Rightarrow> nat \<Rightarrow> tunnel \<Rightarrow> listen_session" where
  "replace_current_tunnel c generation t = c\<lparr>ls_generation := generation, ls_current_tunnel := Some t\<rparr>"

definition resume_listen_session_inner ::
  "session_json \<Rightarrow> side_handle \<Rightarrow> listen_session \<Rightarrow> nat \<Rightarrow> (failure, tunnel) result" where
  "resume_listen_session_inner json side c generation =
     bindR (map_err (\<lambda>e. Message (lit ''resuming port tunnel session on '' @ quoted (sh_name side)) # e)
       (open_listen_session json side (ls_forward_id c) (ls_protocol c) generation (Some (ls_session_id c))))
       (\<lambda>opened. Inr (lo_tunnel opened))"

section \<open>Waiting for an answer\<close>

text \<open>Frames are read until one answers; the script ends where the timeout expires.\<close>

fun await_frame ::
  "(frame \<Rightarrow> (failure, 'a) result option) \<Rightarrow> (failure \<Rightarrow> failure) \<Rightarrow> failure \<Rightarrow> (failure, frame) result list \<Rightarrow>
   (failure, frame) result list \<times> (failure, 'a) result" where
  "await_frame answer ctx timeout [] = ([], Inl timeout)"
| "await_frame answer ctx timeout (Inl e # rs) = (rs, Inl (ctx e))"
| "await_frame answer ctx timeout (Inr f # rs) = (case answer f of
      Some r \<Rightarrow> (rs, r) | None \<Rightarrow> await_frame answer ctx timeout rs)"

definition tunnel_await ::
  "(frame \<Rightarrow> (failure, 'a) result option) \<Rightarrow> (failure \<Rightarrow> failure) \<Rightarrow> failure \<Rightarrow> tunnel \<Rightarrow> tunnel \<times> (failure, 'a) result" where
  "tunnel_await answer ctx timeout t = (case await_frame answer ctx timeout (tn_script t) of
      (rs, r) \<Rightarrow> (t\<lparr>tn_script := rs\<rparr>, r))"

definition wait_for_tunnel_closed :: "session_json \<Rightarrow> nat \<Rightarrow> tunnel \<Rightarrow> tunnel \<times> (failure, unit) result" where
  "wait_for_tunnel_closed json generation = tunnel_await (\<lambda>f.
      if fr_type f = TunnelClosed \<and> fr_stream_id f = 0
      then (case sj_decode_close json (fr_meta f) of
          None \<Rightarrow> Some (Inl json_failure)
        | Some closed \<Rightarrow> if cm_generation closed = generation then Some (Inr ()) else None)
      else if fr_type f = FError \<and> fr_stream_id f = 0 then Some (Inl (tunnel_error json f)) else None)
     (\<lambda>e. e) [Message (lit ''timed out waiting for port tunnel close acknowledgement'')]"

definition wait_for_close_ack :: "session_json \<Rightarrow> u32 \<Rightarrow> tunnel \<Rightarrow> tunnel \<times> (failure, unit) result" where
  "wait_for_close_ack json stream_id = tunnel_await (\<lambda>f.
      if fr_type f = FClose \<and> fr_stream_id f = stream_id then Some (Inr ())
      else if fr_type f = FError \<and> fr_stream_id f = stream_id then Some (Inl (tunnel_error json f)) else None)
     (\<lambda>e. e) [Message (lit ''timed out waiting for port forward close acknowledgement'')]"

section \<open>Closing the listen session\<close>

definition close_listener_on_tunnel :: "session_json \<Rightarrow> tunnel \<Rightarrow> u32 \<Rightarrow> tunnel \<times> (failure, unit) result" where
  "close_listener_on_tunnel json t stream_id =
     andThen (tunnel_close_stream t stream_id) (\<lambda>t _. wait_for_close_ack json stream_id t)"

definition close_tunnel_generation ::
  "session_json \<Rightarrow> tunnel \<Rightarrow> rstr \<Rightarrow> nat \<Rightarrow> rstr \<Rightarrow> tunnel \<times> (failure, unit) result" where
  "close_tunnel_generation json t forward_id generation reason =
     (case sj_encode_close json \<lparr>cm_forward_id = forward_id, cm_generation = generation, cm_reason = reason\<rparr> of
        None \<Rightarrow> (t, Inl json_failure)
      | Some meta \<Rightarrow> andThen (tunnel_send t
          \<lparr>fr_type = TunnelClose, fr_flags = 0, fr_stream_id = 0, fr_meta = meta, fr_data = []\<rparr>)
          (\<lambda>t _. wait_for_tunnel_closed json generation t))"

definition close_tunnel_after_listener_ack ::
  "session_json \<Rightarrow> tunnel \<Rightarrow> rstr \<Rightarrow> nat \<Rightarrow> rstr \<Rightarrow> tunnel \<times> (failure, unit) result" where
  "close_tunnel_after_listener_ack json t forward_id generation reason =
     (case close_tunnel_generation json t forward_id generation reason of
        (t, Inr _) \<Rightarrow> (t, Inr ())
      | (t, Inl err) \<Rightarrow> (t, if is_retryable_transport_error err then Inr () else Inl err))"

definition operator_close :: rstr where "operator_close = lit ''operator_close''"

text \<open>\<open>side\<close> is what the one resume attempt of the close meets.\<close>

definition close_listen_session ::
  "session_json \<Rightarrow> side_handle \<Rightarrow> listen_session \<Rightarrow> listen_session \<times> (failure, unit) result" where
  "close_listen_session json side c = (case ls_current_tunnel c of
      None \<Rightarrow> (c, Inr ())
    | Some t \<Rightarrow> (case close_listener_on_tunnel json t (ls_listener_stream_id c) of
        (t, Inr _) \<Rightarrow> (case close_tunnel_after_listener_ack json t (ls_forward_id c) (ls_generation c) operator_close of
            (t, r) \<Rightarrow> (c\<lparr>ls_current_tunnel := Some t\<rparr>, r))
      | (t, Inl err) \<Rightarrow>
          if \<not> is_retryable_transport_error err then (c\<lparr>ls_current_tunnel := Some t\<rparr>, Inl err)
          else (case resume_listen_session_inner json side c (ls_generation c) of
              Inl e \<Rightarrow> (c\<lparr>ls_current_tunnel := Some t\<rparr>, Inl e)
            | Inr t' \<Rightarrow>
                let c = replace_current_tunnel c (ls_generation c) t'
                in (case close_listener_on_tunnel json t' (ls_listener_stream_id c) of
                    (t', Inl e) \<Rightarrow> (c\<lparr>ls_current_tunnel := Some t'\<rparr>, Inl e)
                  | (t', Inr _) \<Rightarrow> (case close_tunnel_after_listener_ack json t' (ls_forward_id c)
                      (ls_generation c) operator_close of
                        (t', r) \<Rightarrow> (c\<lparr>ls_current_tunnel := Some t'\<rparr>, r))))))"

section \<open>Recovering an epoch\<close>

record epoch =
  ep_generation :: nat
  ep_listen_tunnel :: tunnel
  ep_connect_tunnel :: tunnel

record supervisor =
  sv_forward_id :: rstr
  sv_protocol :: forward_protocol
  sv_max_reconnecting :: nat
  sv_json :: session_json

text \<open>
  What a recovery meets: the time, and for each side the rounds of its retry loop with the answers to
  the attempts.
\<close>

record recovery_env =
  re_now :: nat
  re_listen_rounds :: "nat \<Rightarrow> retry_round"
  re_listen_sides :: "nat \<Rightarrow> side_handle"
  re_connect_now :: nat
  re_connect_rounds :: "nat \<Rightarrow> retry_round"
  re_connect_sides :: "nat \<Rightarrow> side_handle"

record supervised =
  sp_store :: forward_state
  sp_session :: listen_session

definition store_failure :: "forward_error \<Rightarrow> failure" where
  "store_failure _ = [Message reconnect_limit_text]"

text \<open>
  None when a retry loop never returns. A successful attempt replaces the session's tunnel before it
  is returned.
\<close>

definition reconnect_listen_tunnel ::
  "supervisor \<Rightarrow> recovery_env \<Rightarrow> supervised \<Rightarrow> nat \<Rightarrow> (supervised \<times> (failure, tunnel option) result) option" where
  "reconnect_listen_tunnel sv env w generation =
     map_option (\<lambda>(_, _, r). (case r of
         Inr (Some t) \<Rightarrow> w\<lparr>sp_session := replace_current_tunnel (sp_session w) generation t\<rparr> | _ \<Rightarrow> w, r))
       (retry_reconnect (listen_policy (ls_resume_timeout (sp_session w))) (re_listen_rounds env)
         (\<lambda>i. resume_listen_session_inner (sv_json sv) (re_listen_sides env i) (sp_session w) generation) (re_now env))"

definition retry_open_connect_tunnel ::
  "supervisor \<Rightarrow> recovery_env \<Rightarrow> nat \<Rightarrow> (failure, tunnel option) result option" where
  "retry_open_connect_tunnel sv env generation =
     map_option (\<lambda>(_, _, r). r)
       (retry_reconnect connect_policy (re_connect_rounds env)
         (\<lambda>i. bindR (open_data_tunnel (sv_json sv) (re_connect_sides env i) (sv_forward_id sv) (sv_protocol sv) generation)
           (\<lambda>(t, _). Inr t)) (re_connect_now env))"

definition mark_active :: "supervisor \<Rightarrow> supervised \<Rightarrow> side_role \<Rightarrow> supervised" where
  "mark_active sv w role = w\<lparr>sp_store := mark_ready (sp_store w) (sv_forward_id sv) role\<rparr>"

text \<open>Both recoveries begin alike: the side is marked and the generation advanced in session and store.\<close>

definition begin_recovery ::
  "supervisor \<Rightarrow> recovery_env \<Rightarrow> supervised \<Rightarrow> side_role \<Rightarrow> rstr \<Rightarrow> supervised \<times> (failure, nat) result" where
  "begin_recovery sv env w role reason =
     (case mark_reconnecting (sp_store w) (sv_forward_id sv) role reason (sv_max_reconnecting sv) (re_now env) of
        (store, Inl e) \<Rightarrow> (w\<lparr>sp_store := store\<rparr>, Inl (store_failure e))
      | (store, Inr _) \<Rightarrow> (case advance_generation (sp_session w) of
          (c, generation) \<Rightarrow>
            (w\<lparr>sp_store := set_forward_generation store (sv_forward_id sv) generation, sp_session := c\<rparr>, Inr generation)))"

definition finish_connect ::
  "supervisor \<Rightarrow> recovery_env \<Rightarrow> supervised \<Rightarrow> nat \<Rightarrow> tunnel \<Rightarrow> (supervised \<times> (failure, epoch option) result) option" where
  "finish_connect sv env w generation listen =
     map_option (\<lambda>r. case r of
         Inl e \<Rightarrow> (w, Inl e)
       | Inr None \<Rightarrow> (w, Inr None)
       | Inr (Some connect) \<Rightarrow> (mark_active sv w RoleConnect,
           Inr (Some \<lparr>ep_generation = generation, ep_listen_tunnel = listen, ep_connect_tunnel = connect\<rparr>)))
       (retry_open_connect_tunnel sv env generation)"

definition reconnect_connect_epoch ::
  "supervisor \<Rightarrow> recovery_env \<Rightarrow> supervised \<Rightarrow> (supervised \<times> (failure, epoch option) result) option" where
  "reconnect_connect_epoch sv env w =
     (case begin_recovery sv env w RoleConnect (lit ''connect-side transport loss'') of
        (w, Inl e) \<Rightarrow> Some (w, Inl e)
      | (w, Inr generation) \<Rightarrow> Option.bind (reconnect_listen_tunnel sv env w generation) (\<lambda>(w, r). case r of
          Inl e \<Rightarrow> Some (w, Inl e)
        | Inr None \<Rightarrow> Some (w, Inr None)
        | Inr (Some listen) \<Rightarrow> finish_connect sv env w generation listen))"

definition recover_connect_side_tunnel_after_listen_recovery ::
  "supervisor \<Rightarrow> recovery_env \<Rightarrow> supervised \<Rightarrow> rstr \<Rightarrow> nat \<Rightarrow> tunnel \<Rightarrow>
   (supervised \<times> (failure, epoch option) result) option" where
  "recover_connect_side_tunnel_after_listen_recovery sv env w reason generation listen =
     (case mark_connect_reopening_after_listen_recovery (sp_store w) (sv_forward_id sv) reason
         (sv_max_reconnecting sv) (re_connect_now env) of
        (store, Inl e) \<Rightarrow> Some (w\<lparr>sp_store := store\<rparr>, Inl (store_failure e))
      | (store, Inr _) \<Rightarrow> finish_connect sv env (w\<lparr>sp_store := store\<rparr>) generation listen)"

definition recover_listen_side_tunnels ::
  "supervisor \<Rightarrow> recovery_env \<Rightarrow> supervised \<Rightarrow> (supervised \<times> (failure, epoch option) result) option" where
  "recover_listen_side_tunnels sv env w =
     (case begin_recovery sv env w RoleListen (lit ''listen-side tunnel lost'') of
        (w, Inl e) \<Rightarrow> Some (w, Inl e)
      | (w, Inr generation) \<Rightarrow> Option.bind (reconnect_listen_tunnel sv env w generation) (\<lambda>(w, r). case r of
          Inl e \<Rightarrow> Some (w, Inl e)
        | Inr None \<Rightarrow> Some (w, Inr None)
        | Inr (Some listen) \<Rightarrow> recover_connect_side_tunnel_after_listen_recovery sv env w
            (lit ''connect-side tunnel reopening after listen-side recovery'') generation listen))"

text \<open>
  The new epoch to go on with, or None when the forward stops; \<open>hook\<close> is what the bridge does to the
  store before the connect side is recovered.
\<close>

definition handle_forward_loop_control ::
  "supervisor \<Rightarrow> recovery_env \<Rightarrow> (forward_state \<Rightarrow> forward_state) \<Rightarrow> loop_control \<Rightarrow> supervised \<Rightarrow>
   (supervised \<times> (failure, epoch option) result) option" where
  "handle_forward_loop_control sv env hook control w = (case control of
      Cancelled \<Rightarrow> Some (w, Inr None)
    | RecoverTunnel RoleListenTunnel \<Rightarrow> recover_listen_side_tunnels sv env w
    | RecoverTunnel RoleConnectTunnel \<Rightarrow> reconnect_connect_epoch sv env (w\<lparr>sp_store := hook (sp_store w)\<rparr>))"

definition udp_hook :: "supervisor \<Rightarrow> forward_state \<Rightarrow> forward_state" where
  "udp_hook sv st = record_dropped_udp_datagrams st (sv_forward_id sv) 1"

text \<open>
  \<open>run_tcp_forward\<close> over the events of each epoch and what the recovery after it meets. The outer None
  is a recovery that never returns; \<open>Inr True\<close> means that the forward still runs after the last input,
  \<open>Inr False\<close> that it has stopped.
\<close>

fun run_tcp_forward ::
  "tcp_runtime \<Rightarrow> supervisor \<Rightarrow> ((tunnel_env \<times> tcp_event) list \<times> recovery_env) list \<Rightarrow> supervised \<Rightarrow>
   (supervised \<times> (failure, bool) result) option" where
  "run_tcp_forward rt sv [] w = Some (w, Inr True)"
| "run_tcp_forward rt sv ((evs, env) # rest) w =
     (case run_tcp_forward_epoch rt evs (tcp_epoch_start (sp_store w)) of
        (s, Inl e) \<Rightarrow> Some (w\<lparr>sp_store := tw_store s\<rparr>, Inl e)
      | (s, Inr None) \<Rightarrow> Some (w\<lparr>sp_store := tw_store s\<rparr>, Inr True)
      | (s, Inr (Some control)) \<Rightarrow>
          Option.bind (handle_forward_loop_control sv env (\<lambda>st. st) control (w\<lparr>sp_store := tw_store s\<rparr>)) (\<lambda>(w, r). case r of
            Inl e \<Rightarrow> Some (w, Inl e)
          | Inr None \<Rightarrow> Some (w, Inr False)
          | Inr (Some _) \<Rightarrow> run_tcp_forward rt sv rest w))"

fun run_udp_forward ::
  "udp_runtime \<Rightarrow> supervisor \<Rightarrow> ((tunnel_env \<times> udp_event) list \<times> recovery_env) list \<Rightarrow> supervised \<Rightarrow>
   (supervised \<times> (failure, bool) result) option" where
  "run_udp_forward rt sv [] w = Some (w, Inr True)"
| "run_udp_forward rt sv ((evs, env) # rest) w =
     (case run_udp_forward_epoch rt evs (udp_epoch_start (sp_store w)) of
        (s, Inl e) \<Rightarrow> Some (w\<lparr>sp_store := tw_store s\<rparr>, Inl e)
      | (s, Inr None) \<Rightarrow> Some (w\<lparr>sp_store := tw_store s\<rparr>, Inr True)
      | (s, Inr (Some control)) \<Rightarrow>
          Option.bind (handle_forward_loop_control sv env (udp_hook sv) control (w\<lparr>sp_store := tw_store s\<rparr>)) (\<lambda>(w, r). case r of
            Inl e \<Rightarrow> Some (w, Inl e)
          | Inr None \<Rightarrow> Some (w, Inr False)
          | Inr (Some _) \<Rightarrow> run_udp_forward rt sv rest w))"

section \<open>Recovery\<close>

lemma retry_ends:
  assumes "p = connect_policy \<or> p = listen_policy resume_timeout"
  shows "\<exists>n t r. retry_reconnect p rounds f now = Some (n, t, r)"
proof -
  have "0 < millis 50" "millis 50 \<le> rp_max_backoff p" "millis 50 \<le> rp_initial_backoff p"
    using assms by (auto simp: connect_policy_def listen_policy_def LISTEN_RECONNECT_INITIAL_BACKOFF_def
        LISTEN_RECONNECT_MAX_BACKOFF_def millis_def)
  from retry_loop_returns [OF this] show ?thesis unfolding retry_reconnect_def by blast
qed

definition entry_of :: "supervisor \<Rightarrow> supervised \<Rightarrow> forward_entry option" where
  "entry_of sv w = tab_get (pf_public (sp_store w)) (sv_forward_id sv)"

definition both_ready :: "forward_entry \<Rightarrow> bool" where
  "both_ready e \<longleftrightarrow> fe_status e = StOpen \<and> sd_health (fe_listen_state e) = ShReady \<and> sd_health (fe_connect_state e) = ShReady"

definition at_generation :: "nat \<Rightarrow> forward_entry \<Rightarrow> bool" where
  "at_generation g e \<longleftrightarrow> sd_generation (fe_listen_state e) = g \<and> sd_generation (fe_connect_state e) = g"

lemma get_mutate: "tab_get (pf_public (mutate_entry st i f)) i = map_option f (tab_get (pf_public st) i)"
  by (simp add: mutate_entry_def tab.get_insert split: option.split)

lemma get_phase:
  "tab_get (pf_public (with_phase_adjustment st i f)) i =
     map_option (\<lambda>e. if fe_status e \<noteq> StOpen then e else f e) (tab_get (pf_public st) i)"
  by (simp add: with_phase_adjustment_def tab.get_insert split: option.split)

lemma capacity_ok: "ensure_reconnect_capacity st i m = (st', Inr u) \<Longrightarrow> st' = st"
  by (auto simp: ensure_reconnect_capacity_def split: option.splits if_splits)

lemmas mark_defs = side_state_update.simps mark_side_reconnecting_def mark_side_ready_def update_phase_def
  prepare_reconnect_entry_def

lemma begin_ok:
  assumes b: "begin_recovery sv env w role reason = (w', Inr g)" and e: "entry_of sv w = Some e" "both_ready e"
  shows "g = ls_generation (sp_session w) + 1" "sp_session w' = (sp_session w)\<lparr>ls_generation := g\<rparr>"
    "\<exists>e'. entry_of sv w' = Some e' \<and> fe_status e' = StOpen \<and> at_generation g e' \<and>
       fe_active_tcp_streams e' = fe_active_tcp_streams e \<and>
       (role = RoleConnect \<longrightarrow> sd_health (fe_listen_state e') = ShReady)"
proof -
  obtain st u where m: "mark_reconnecting (sp_store w) (sv_forward_id sv) role reason (sv_max_reconnecting sv) (re_now env) = (st, Inr u)"
    using b by (auto simp: begin_recovery_def split: prod.splits sum.splits)
  have g: "g = ls_generation (sp_session w) + 1"
    and w': "w' = w\<lparr>sp_store := set_forward_generation st (sv_forward_id sv) g, sp_session := (sp_session w)\<lparr>ls_generation := g\<rparr>\<rparr>"
    using b m by (auto simp: begin_recovery_def advance_generation_def)
  show "g = ls_generation (sp_session w) + 1" by (rule g)
  show "sp_session w' = (sp_session w)\<lparr>ls_generation := g\<rparr>" by (simp add: w')
  let ?f = "\<lambda>e. update_phase (side_state_update role (mark_side_reconnecting reason) (prepare_reconnect_entry (re_now env) e))"
  have "st = with_phase_adjustment (sp_store w) (sv_forward_id sv) ?f"
    using m by (auto simp: mark_reconnecting_def dest: capacity_ok split: prod.splits sum.splits)
  then have "tab_get (pf_public st) (sv_forward_id sv) = Some (?f e)"
    using e by (simp add: get_phase entry_of_def both_ready_def)
  then show "\<exists>e'. entry_of sv w' = Some e' \<and> fe_status e' = StOpen \<and> at_generation g e' \<and>
       fe_active_tcp_streams e' = fe_active_tcp_streams e \<and>
       (role = RoleConnect \<longrightarrow> sd_health (fe_listen_state e') = ShReady)"
    using e(2) by (cases role)
      (simp_all add: w' entry_of_def set_forward_generation_def get_mutate mark_defs both_ready_def at_generation_def)
qed

lemma reconnect_listen_cases:
  obtains r where "reconnect_listen_tunnel sv env w g = Some (case r of
      Inr (Some t) \<Rightarrow> w\<lparr>sp_session := replace_current_tunnel (sp_session w) g t\<rparr> | _ \<Rightarrow> w, r)"
proof -
  obtain n t r where "retry_reconnect (listen_policy (ls_resume_timeout (sp_session w))) (re_listen_rounds env)
      (\<lambda>i. resume_listen_session_inner (sv_json sv) (re_listen_sides env i) (sp_session w) g) (re_now env) = Some (n, t, r)"
    using retry_ends by blast
  then show ?thesis using that by (simp add: reconnect_listen_tunnel_def)
qed

lemma finish_cases:
  obtains r where "finish_connect sv env w g listen = Some (case r of
      Inl e \<Rightarrow> (w, Inl e) | Inr None \<Rightarrow> (w, Inr None)
    | Inr (Some connect) \<Rightarrow> (mark_active sv w RoleConnect,
        Inr (Some \<lparr>ep_generation = g, ep_listen_tunnel = listen, ep_connect_tunnel = connect\<rparr>)))"
proof -
  obtain n t r where "retry_reconnect connect_policy (re_connect_rounds env)
      (\<lambda>i. bindR (open_data_tunnel (sv_json sv) (re_connect_sides env i) (sv_forward_id sv) (sv_protocol sv) g)
         (\<lambda>(t, _). Inr t)) (re_connect_now env) = Some (n, t, r)"
    using retry_ends by blast
  then show ?thesis using that by (simp add: finish_connect_def retry_open_connect_tunnel_def)
qed

text \<open>What a recovery that yields an epoch leaves behind.\<close>

definition recovered :: "supervisor \<Rightarrow> forward_entry \<Rightarrow> nat \<Rightarrow> supervised \<Rightarrow> epoch \<Rightarrow> bool" where
  "recovered sv e g w ep \<longleftrightarrow> ep_generation ep = g \<and> ls_generation (sp_session w) = g \<and>
     ls_current_tunnel (sp_session w) = Some (ep_listen_tunnel ep) \<and>
     (case entry_of sv w of None \<Rightarrow> False | Some e' \<Rightarrow> both_ready e' \<and> fe_phase e' = PhReady \<and> at_generation g e' \<and>
       fe_active_tcp_streams e' = fe_active_tcp_streams e)"

lemma active_recovered:
  assumes "entry_of sv w = Some e'" "fe_status e' = StOpen" "at_generation g e'"
    "fe_active_tcp_streams e' = fe_active_tcp_streams e" "sd_health (fe_listen_state e') = ShReady"
    "sp_session w = replace_current_tunnel c g listen"
  shows "recovered sv e g (mark_active sv w RoleConnect)
      \<lparr>ep_generation = g, ep_listen_tunnel = listen, ep_connect_tunnel = connect\<rparr>"
  using assms
  by (simp add: recovered_def mark_active_def entry_of_def mark_ready_def get_mutate mark_defs both_ready_def
      at_generation_def derive_phase_def Let_def replace_current_tunnel_def)

lemma connect_recovers:
  assumes e: "entry_of sv w = Some e" "both_ready e"
  shows "\<exists>w' r. reconnect_connect_epoch sv env w = Some (w', r) \<and>
     (\<forall>ep. r = Inr (Some ep) \<longrightarrow> recovered sv e (ls_generation (sp_session w) + 1) w' ep)"
proof (cases "begin_recovery sv env w RoleConnect (lit ''connect-side transport loss'')")
  case (Pair w1 q)
  show ?thesis
  proof (cases q)
    case (Inl f)
    with Pair show ?thesis by (simp add: reconnect_connect_epoch_def)
  next
    case (Inr g)
    note b = begin_ok [OF Pair [unfolded Inr] e]
    obtain r where r: "reconnect_listen_tunnel sv env w1 g = Some (case r of
        Inr (Some t) \<Rightarrow> w1\<lparr>sp_session := replace_current_tunnel (sp_session w1) g t\<rparr> | _ \<Rightarrow> w1, r)"
      by (rule reconnect_listen_cases)
    show ?thesis
    proof (cases "\<exists>t. r = Inr (Some t)")
      case False
      with r Pair Inr show ?thesis by (cases r) (auto simp: reconnect_connect_epoch_def split: option.splits)
    next
      case True
      then obtain t where t: "r = Inr (Some t)" ..
      let ?w = "w1\<lparr>sp_session := replace_current_tunnel (sp_session w1) g t\<rparr>"
      obtain q' where fin: "finish_connect sv env ?w g t = Some (case q' of
          Inl e \<Rightarrow> (?w, Inl e) | Inr None \<Rightarrow> (?w, Inr None)
        | Inr (Some connect) \<Rightarrow> (mark_active sv ?w RoleConnect,
            Inr (Some \<lparr>ep_generation = g, ep_listen_tunnel = t, ep_connect_tunnel = connect\<rparr>)))"
        by (rule finish_cases)
      have eq: "reconnect_connect_epoch sv env w = finish_connect sv env ?w g t"
        using Pair Inr r t by (simp add: reconnect_connect_epoch_def)
      obtain e' where e': "entry_of sv w1 = Some e'" "fe_status e' = StOpen" "at_generation g e'"
        "fe_active_tcp_streams e' = fe_active_tcp_streams e" "sd_health (fe_listen_state e') = ShReady"
        using b(3) by auto
      have "recovered sv e g (mark_active sv ?w RoleConnect)
          \<lparr>ep_generation = g, ep_listen_tunnel = t, ep_connect_tunnel = connect\<rparr>" for connect
        by (rule active_recovered [of sv ?w e' g e "sp_session w1"]) (use e' in \<open>simp_all add: entry_of_def\<close>)
      then show ?thesis unfolding eq fin b(1) [symmetric] by (cases q') (auto split: option.splits)
    qed
  qed
qed

lemma listen_recovers:
  assumes e: "entry_of sv w = Some e" "both_ready e"
  shows "\<exists>w' r. recover_listen_side_tunnels sv env w = Some (w', r) \<and>
     (\<forall>ep. r = Inr (Some ep) \<longrightarrow> recovered sv e (ls_generation (sp_session w) + 1) w' ep)"
proof (cases "begin_recovery sv env w RoleListen (lit ''listen-side tunnel lost'')")
  case (Pair w1 q)
  show ?thesis
  proof (cases q)
    case (Inl f)
    with Pair show ?thesis by (simp add: recover_listen_side_tunnels_def)
  next
    case (Inr g)
    note b = begin_ok [OF Pair [unfolded Inr] e]
    obtain r where r: "reconnect_listen_tunnel sv env w1 g = Some (case r of
        Inr (Some t) \<Rightarrow> w1\<lparr>sp_session := replace_current_tunnel (sp_session w1) g t\<rparr> | _ \<Rightarrow> w1, r)"
      by (rule reconnect_listen_cases)
    show ?thesis
    proof (cases "\<exists>t. r = Inr (Some t)")
      case False
      with r Pair Inr show ?thesis by (cases r) (auto simp: recover_listen_side_tunnels_def split: option.splits)
    next
      case True
      then obtain t where t: "r = Inr (Some t)" ..
      let ?w = "w1\<lparr>sp_session := replace_current_tunnel (sp_session w1) g t\<rparr>"
      let ?why = "lit ''connect-side tunnel reopening after listen-side recovery''"
      have eq: "recover_listen_side_tunnels sv env w =
          recover_connect_side_tunnel_after_listen_recovery sv env ?w ?why g t"
        using Pair Inr r t by (simp add: recover_listen_side_tunnels_def)
      obtain st m where m: "mark_connect_reopening_after_listen_recovery (sp_store ?w) (sv_forward_id sv) ?why
          (sv_max_reconnecting sv) (re_connect_now env) = (st, m)" by fastforce
      show ?thesis
      proof (cases m)
        case (Inl f)
        with eq m show ?thesis by (simp add: recover_connect_side_tunnel_after_listen_recovery_def)
      next
        case (Inr u)
        let ?f = "\<lambda>e. update_phase (side_state_update RoleConnect (mark_side_reconnecting ?why)
            (side_state_update RoleListen mark_side_ready (prepare_reconnect_entry (re_connect_now env) e)))"
        have st: "st = with_phase_adjustment (sp_store w1) (sv_forward_id sv) ?f"
          using m Inr by (auto simp: mark_connect_reopening_after_listen_recovery_def dest: capacity_ok split: prod.splits sum.splits)
        let ?v = "?w\<lparr>sp_store := st\<rparr>"
        obtain e1 where e1: "entry_of sv w1 = Some e1" "fe_status e1 = StOpen" "at_generation g e1"
          "fe_active_tcp_streams e1 = fe_active_tcp_streams e"
          using b(3) by auto
        have "entry_of sv ?v = Some (?f e1)" using e1(1,2) by (simp add: entry_of_def st get_phase)
        then have "recovered sv e g (mark_active sv ?v RoleConnect)
            \<lparr>ep_generation = g, ep_listen_tunnel = t, ep_connect_tunnel = connect\<rparr>" for connect
          by (rule active_recovered [of sv ?v "?f e1" g e "sp_session w1"])
            (use e1 in \<open>simp_all add: mark_defs at_generation_def\<close>)
        moreover obtain q' where "finish_connect sv env ?v g t = Some (case q' of
            Inl e \<Rightarrow> (?v, Inl e) | Inr None \<Rightarrow> (?v, Inr None)
          | Inr (Some connect) \<Rightarrow> (mark_active sv ?v RoleConnect,
              Inr (Some \<lparr>ep_generation = g, ep_listen_tunnel = t, ep_connect_tunnel = connect\<rparr>)))"
          by (rule finish_cases)
        moreover have "recover_listen_side_tunnels sv env w = finish_connect sv env ?v g t"
          using eq m Inr by (simp add: recover_connect_side_tunnel_after_listen_recovery_def)
        ultimately show ?thesis unfolding b(1) [symmetric] by (cases q') (auto split: option.splits)
      qed
    qed
  qed
qed

text \<open>
  C25: Recovering a forward always comes to an end, whichever tunnel was lost and whatever the daemons
  answer. When it yields an epoch, the forward is ready again on both sides, the epoch, the session and
  both sides carry the generation after the previous one, the session holds the epoch's listen tunnel,
  and the forward's active stream count is the one it had when the tunnel was lost.
\<close>

theorem forward_recovery_complete:
  assumes "entry_of sv w = Some e" and "both_ready e" and "hook = (\<lambda>st. st) \<or> hook = udp_hook sv"
  shows "\<exists>w' r. handle_forward_loop_control sv env hook control w = Some (w', r) \<and>
     (\<forall>ep. r = Inr (Some ep) \<longrightarrow> recovered sv e (ls_generation (sp_session w) + 1) w' ep)"
proof -
  let ?w = "w\<lparr>sp_store := hook (sp_store w)\<rparr>"
  obtain e' where "entry_of sv ?w = Some e'" "both_ready e'" "fe_active_tcp_streams e' = fe_active_tcp_streams e"
    using assms by (auto simp: entry_of_def udp_hook_def record_dropped_udp_datagrams_def get_mutate both_ready_def)
  note e' = this
  have "recovered sv e' = recovered sv e" unfolding recovered_def e'(3) by (rule refl)
  then have "\<exists>w' r. reconnect_connect_epoch sv env ?w = Some (w', r) \<and>
     (\<forall>ep. r = Inr (Some ep) \<longrightarrow> recovered sv e (ls_generation (sp_session w) + 1) w' ep)"
    using connect_recovers [OF e'(1,2), of env] by simp
  with listen_recovers [OF assms(1,2), of env] show ?thesis
    by (auto simp: handle_forward_loop_control_def split: loop_control.split tunnel_role.split)
qed

section \<open>A sample recovery\<close>

definition sample_limits :: tunnel_limits where
  "sample_limits = \<lparr>tl_max_active_tcp_streams = 1, tl_max_udp_peers = 1, tl_max_queued_bytes = 1\<rparr>"

definition sample_session_json :: session_json where
  "sample_session_json = \<lparr>sj_tunnel = tcp_json, sj_encode_open = (\<lambda>m. Some [word_of_nat (om_generation m)]),
     sj_decode_ready = (\<lambda>b. Some \<lparr>rm_generation = sum_list (map unat b), rm_session_id = Some [115],
       rm_resume_timeout_ms = Some 1000, rm_limits = sample_limits\<rparr>),
     sj_encode_close = (\<lambda>_. Some []), sj_decode_close = (\<lambda>_. None), sj_decode_endpoint = (\<lambda>_. None)\<rparr>"

definition sample_side :: "nat \<Rightarrow> side_handle" where
  "sample_side i = \<lparr>sh_name = [100], sh_port_tunnel = Inr \<lparr>tn_id = i, tn_accepts = (\<lambda>_ _. Inr ()), tn_sent = [],
     tn_script = [Inr \<lparr>fr_type = TunnelReady, fr_flags = 0, fr_stream_id = 0, fr_meta = [2], fr_data = []\<rparr>],
     tn_aborted = False\<rparr>, sh_show = (\<lambda>_. [])\<rparr>"

text \<open>The first attempt elapses, the second is answered.\<close>

definition sample_round :: "nat \<Rightarrow> retry_round" where
  "sample_round i = \<lparr>rr_cancelled = False, rr_branch = (if i = 0 then AttemptElapsed else AttemptDone), rr_attempt_time = 0,
     rr_sleep_cancelled = False, rr_oversleep = 0\<rparr>"

definition sample_recovery :: recovery_env where
  "sample_recovery = \<lparr>re_now = 0, re_listen_rounds = (\<lambda>i. sample_round (i + 1)), re_listen_sides = sample_side,
     re_connect_now = 7, re_connect_rounds = sample_round, re_connect_sides = sample_side\<rparr>"

definition sample_supervisor :: supervisor where
  "sample_supervisor = \<lparr>sv_forward_id = [102], sv_protocol = Tcp, sv_max_reconnecting = 1, sv_json = sample_session_json\<rparr>"

definition sample_supervised :: supervised where
  "sample_supervised = \<lparr>sp_store = tw_store tcp_sample_state, sp_session = \<lparr>ls_forward_id = [102], ls_session_id = [115],
     ls_protocol = Tcp, ls_listener_stream_id = 1, ls_resume_timeout = millis 1000, ls_generation = 1,
     ls_current_tunnel = None\<rparr>\<rparr>"

lemma sample_recovers:
  "case handle_forward_loop_control sample_supervisor sample_recovery (\<lambda>st. st) (RecoverTunnel RoleListenTunnel) sample_supervised of
     Some (w, Inr (Some ep)) \<Rightarrow> tn_id (ep_connect_tunnel ep) = 1 | _ \<Rightarrow> False"
  by code_simp

theorem forward_recovery_complete_witness:
  "\<exists>w ep e. handle_forward_loop_control sample_supervisor sample_recovery (\<lambda>st. st) (RecoverTunnel RoleListenTunnel)
      sample_supervised = Some (w, Inr (Some ep)) \<and> fe_active_tcp_streams e = 1 \<and> recovered sample_supervisor e 2 w ep"
proof -
  have c: "case entry_of sample_supervisor sample_supervised of
      Some e \<Rightarrow> both_ready e \<and> fe_active_tcp_streams e = 1 | None \<Rightarrow> False" by code_simp
  then obtain e where e: "entry_of sample_supervisor sample_supervised = Some e" "both_ready e" "fe_active_tcp_streams e = 1"
    by (auto split: option.splits)
  have g: "ls_generation (sp_session sample_supervised) + 1 = 2" by (simp add: sample_supervised_def)
  obtain w r where h: "handle_forward_loop_control sample_supervisor sample_recovery (\<lambda>st. st) (RecoverTunnel RoleListenTunnel)
      sample_supervised = Some (w, r)" and rec: "\<And>ep. r = Inr (Some ep) \<Longrightarrow> recovered sample_supervisor e 2 w ep"
    using forward_recovery_complete [OF e(1,2) disjI1 [OF refl], of sample_recovery "RecoverTunnel RoleListenTunnel"]
    unfolding g by blast
  obtain ep where "r = Inr (Some ep)" using sample_recovers h by (auto split: sum.splits option.splits)
  with h rec e(3) show ?thesis by blast
qed

section \<open>Opening a forward\<close>

definition INITIAL_FORWARD_GENERATION :: nat where "INITIAL_FORWARD_GENERATION = 1"

record open_kind =
  ok_protocol :: forward_protocol
  ok_listen_frame_type :: frame_type
  ok_listen_ok_frame_type :: frame_type
  ok_noun :: rstr

primrec for_protocol :: "forward_protocol \<Rightarrow> open_kind" where
  "for_protocol Tcp = \<lparr>ok_protocol = Tcp, ok_listen_frame_type = TcpListen, ok_listen_ok_frame_type = TcpListenOk,
     ok_noun = lit ''tcp listener''\<rparr>"
| "for_protocol Udp = \<lparr>ok_protocol = Udp, ok_listen_frame_type = UdpBind, ok_listen_ok_frame_type = UdpBindOk,
     ok_noun = lit ''udp listener''\<rparr>"

primrec forward_protocol_name :: "forward_protocol \<Rightarrow> rstr" where
  "forward_protocol_name Tcp = lit ''tcp''"
| "forward_protocol_name Udp = lit ''udp''"

definition open_context :: "open_kind \<Rightarrow> tunnel_role \<Rightarrow> rstr \<Rightarrow> rstr \<Rightarrow> rstr" where
  "open_context kind side target endpoint = (case side of
      RoleListenTunnel \<Rightarrow> lit ''opening '' @ ok_noun kind @ lit '' on '' @ quoted target @ lit '' at '' @ quoted endpoint
    | RoleConnectTunnel \<Rightarrow> lit ''opening '' @ forward_protocol_name (ok_protocol kind) @
        lit '' data port tunnel on '' @ quoted target)"

definition wait_for_listener_ready ::
  "session_json \<Rightarrow> u32 \<Rightarrow> frame_type \<Rightarrow> rstr \<Rightarrow> rstr \<Rightarrow> tunnel \<Rightarrow> tunnel \<times> (failure, rstr) result" where
  "wait_for_listener_ready json stream_id ok_type open_ctx wait_ctx = tunnel_await (\<lambda>f.
      if fr_type f = ok_type \<and> fr_stream_id f = stream_id
      then Some (ok_or (sj_decode_endpoint json (fr_meta f)) json_failure)
      else if fr_type f = FError \<and> fr_stream_id f = stream_id
      then Some (Inl (Message open_ctx # tunnel_error json f)) else None)
     (\<lambda>e. Message wait_ctx # e) [Message (lit ''timed out waiting for port forward listener acknowledgement'')]"

record ready_listen =
  rl_tunnel :: tunnel
  rl_response_endpoint :: rstr
  rl_session_id :: rstr
  rl_resume_timeout :: nat
  rl_limits :: tunnel_limits

text \<open>The connect tunnel is returned with the outcome, since a refused listener aborts it.\<close>

definition open_listener_for_forward ::
  "session_json \<Rightarrow> rstr \<Rightarrow> rstr \<Rightarrow> open_kind \<Rightarrow> listen_opened \<Rightarrow> tunnel \<Rightarrow> tunnel \<times> (failure, ready_listen) result" where
  "open_listener_for_forward json listen_side listen_endpoint kind opened connect =
     (let ctx = open_context kind RoleListenTunnel listen_side listen_endpoint
      in case tj_encode_endpoint (sj_tunnel json) listen_endpoint of
        None \<Rightarrow> (connect, Inl json_failure)
      | Some meta \<Rightarrow> (case tunnel_send (lo_tunnel opened) \<lparr>fr_type = ok_listen_frame_type kind, fr_flags = 0,
            fr_stream_id = LISTEN_SESSION_STREAM_ID, fr_meta = meta, fr_data = []\<rparr> of
          (_, Inl e) \<Rightarrow> (connect, Inl (Message ctx # e))
        | (t, Inr _) \<Rightarrow> (case wait_for_listener_ready json LISTEN_SESSION_STREAM_ID (ok_listen_ok_frame_type kind) ctx ctx t of
            (_, Inl e) \<Rightarrow> (tunnel_abort connect, Inl e)
          | (t, Inr endpoint) \<Rightarrow> (connect, Inr \<lparr>rl_tunnel = t, rl_response_endpoint = endpoint,
              rl_session_id = lo_session_id opened, rl_resume_timeout = lo_resume_timeout opened,
              rl_limits = lo_limits opened\<rparr>))))"

record open_request =
  oq_forward_id :: rstr
  oq_limits :: limit_summary
  oq_listen_endpoint :: rstr
  oq_connect_endpoint :: rstr
  oq_protocol :: forward_protocol

record opened_forward =
  of_entry :: forward_entry
  of_session :: listen_session
  of_epoch :: epoch
  of_limits :: limit_summary

definition build_opened_forward ::
  "session_json \<Rightarrow> side_handle \<Rightarrow> side_handle \<Rightarrow> open_request \<Rightarrow> listen_opened \<Rightarrow> tunnel \<times> tunnel_limits \<Rightarrow>
   tunnel \<times> (failure, opened_forward) result" where
  "build_opened_forward json listen_side connect_side q listen connect =
     (let kind = for_protocol (oq_protocol q)
      in case open_listener_for_forward json (sh_name listen_side) (oq_listen_endpoint q) kind listen (fst connect) of
        (c, Inl e) \<Rightarrow> (c, Inl e)
      | (c, Inr ready) \<Rightarrow>
          let limits = effective_forward_limits (oq_limits q) (rl_limits ready) (snd connect);
              session = \<lparr>ls_forward_id = oq_forward_id q, ls_session_id = rl_session_id ready,
                ls_protocol = ok_protocol kind, ls_listener_stream_id = LISTEN_SESSION_STREAM_ID,
                ls_resume_timeout = rl_resume_timeout ready, ls_generation = INITIAL_FORWARD_GENERATION,
                ls_current_tunnel = Some (rl_tunnel ready)\<rparr>
          in (c, Inr \<lparr>of_entry = new_open (oq_forward_id q) (sh_name listen_side) (rl_response_endpoint ready)
                  (sh_name connect_side) (oq_connect_endpoint q) (ok_protocol kind) limits,
                of_session = session,
                of_epoch = \<lparr>ep_generation = INITIAL_FORWARD_GENERATION, ep_listen_tunnel = rl_tunnel ready,
                  ep_connect_tunnel = c\<rparr>,
                of_limits = limits\<rparr>))"

definition open_protocol_forward ::
  "session_json \<Rightarrow> side_handle \<Rightarrow> side_handle \<Rightarrow> open_request \<Rightarrow> tunnel option \<times> (failure, opened_forward) result" where
  "open_protocol_forward json listen_side connect_side q =
     (let kind = for_protocol (oq_protocol q)
      in case open_listen_session json listen_side (oq_forward_id q) (ok_protocol kind) INITIAL_FORWARD_GENERATION None of
        Inl e \<Rightarrow> (None, Inl e)
      | Inr listen \<Rightarrow> (case open_data_tunnel json connect_side (oq_forward_id q) (ok_protocol kind) INITIAL_FORWARD_GENERATION of
          Inl e \<Rightarrow> (None, Inl (Message (open_context kind RoleConnectTunnel (sh_name connect_side) (lit ''data tunnel'')) # e))
        | Inr connect \<Rightarrow> (case build_opened_forward json listen_side connect_side q listen connect of
            (c, r) \<Rightarrow> (Some c, r))))"

datatype open_error = OpenEndpoint endpoint_error | OpenFailure failure

text \<open>With the connect tunnel once there is one.\<close>

definition open_forward ::
  "session_json \<Rightarrow> side_handle \<Rightarrow> side_handle \<Rightarrow> open_request \<Rightarrow> tunnel option \<times> (open_error, opened_forward) result" where
  "open_forward json listen_side connect_side q =
     (case normalize_endpoint (oq_listen_endpoint q) of
        Inl e \<Rightarrow> (None, Inl (OpenEndpoint e))
      | Inr listen_endpoint \<Rightarrow> (case ensure_nonzero_connect_endpoint (oq_connect_endpoint q) of
          Inl e \<Rightarrow> (None, Inl (OpenEndpoint e))
        | Inr connect_endpoint \<Rightarrow> mapErr OpenFailure (open_protocol_forward json listen_side connect_side
            (q\<lparr>oq_listen_endpoint := listen_endpoint, oq_connect_endpoint := connect_endpoint\<rparr>))))"

definition within_summary :: "limit_summary \<Rightarrow> limit_summary \<Rightarrow> bool" where
  "within_summary a b \<longleftrightarrow> ls_max_active_tcp_streams a \<le> ls_max_active_tcp_streams b \<and> ls_max_udp_peers a \<le> ls_max_udp_peers b \<and>
     ls_max_pending_tcp_bytes_per_stream a \<le> ls_max_pending_tcp_bytes_per_stream b \<and>
     ls_max_pending_tcp_bytes_per_forward a \<le> ls_max_pending_tcp_bytes_per_forward b \<and>
     ls_max_tunnel_queued_bytes a \<le> ls_max_tunnel_queued_bytes b \<and>
     ls_max_reconnecting_forwards a \<le> ls_max_reconnecting_forwards b"

lemma built_forward:
  assumes "build_opened_forward json ls cs q listen connect = (c, Inr opened)"
  shows "c = fst connect \<and> ep_connect_tunnel (of_epoch opened) = c \<and> ep_generation (of_epoch opened) = 1 \<and>
     ls_generation (of_session opened) = 1 \<and> ls_current_tunnel (of_session opened) = Some (ep_listen_tunnel (of_epoch opened)) \<and>
     fe_id (of_entry opened) = oq_forward_id q \<and> fe_connect_endpoint (of_entry opened) = oq_connect_endpoint q \<and>
     fe_limits (of_entry opened) = of_limits opened \<and> within_summary (of_limits opened) (oq_limits q) \<and>
     both_ready (of_entry opened) \<and> at_generation 1 (of_entry opened) \<and> fe_active_tcp_streams (of_entry opened) = 0"
  using assms
  by (auto simp: build_opened_forward_def open_listener_for_forward_def Let_def new_open_def both_ready_def
      at_generation_def INITIAL_FORWARD_GENERATION_def within_summary_def effective_forward_limits_def
      split: prod.splits sum.splits option.splits)

lemma insert_forward_get: "tab_get (pf_public (insert_forward st e lc)) (fe_id e) = Some e"
  by (simp add: insert_forward_def tab.get_insert Let_def split: option.split)

text \<open>
  C27: A forward that was opened and committed is in the store under its id, ready on both sides at
  generation one with no active stream; its session and its first epoch are at the same generation and
  share the listen tunnel; its limits are within the ones requested; and the port it connects to is
  not zero.
\<close>

theorem open_forward_ready:
  assumes "open_forward json listen_side connect_side q = (c, Inr opened)"
    and "commit_open st r \<lparr>rc_entry = of_entry opened, rc_lifecycle = lc\<rparr> = (st', Inr ())"
  shows "tab_get (pf_public st') (oq_forward_id q) = Some (of_entry opened) \<and>
     both_ready (of_entry opened) \<and> at_generation 1 (of_entry opened) \<and> fe_active_tcp_streams (of_entry opened) = 0 \<and>
     ep_generation (of_epoch opened) = 1 \<and> ls_generation (of_session opened) = 1 \<and>
     ls_current_tunnel (of_session opened) = Some (ep_listen_tunnel (of_epoch opened)) \<and>
     within_summary (fe_limits (of_entry opened)) (oq_limits q) \<and>
     (\<exists>port. endpoint_port (fe_connect_endpoint (of_entry opened)) = Inr port \<and> port \<noteq> 0)"
proof -
  obtain le where le: "normalize_endpoint (oq_listen_endpoint q) = Inr le"
    using assms(1) by (auto simp: open_forward_def split: sum.splits)
  obtain ce where ce: "ensure_nonzero_connect_endpoint (oq_connect_endpoint q) = Inr ce"
    using assms(1) le by (auto simp: open_forward_def split: sum.splits)
  let ?q = "q\<lparr>oq_listen_endpoint := le, oq_connect_endpoint := ce\<rparr>"
  have "snd (open_protocol_forward json listen_side connect_side ?q) = Inr opened"
    using assms(1) le ce by (auto simp: open_forward_def mapErr_def map_err_def split: sum.splits)
  then obtain listen connect c' where "build_opened_forward json listen_side connect_side ?q listen connect = (c', Inr opened)"
    by (auto simp: open_protocol_forward_def Let_def split: sum.splits prod.splits)
  note b = built_forward [OF this]
  obtain port where "endpoint_port ce = Inr port" "port \<noteq> 0"
    using ce by (auto simp: ensure_nonzero_connect_endpoint_def bindR_eq_Inr split: if_splits)
  moreover have "st' = insert_forward (st\<lparr>pf_pending := tab_remove (rv_id r) (pf_pending st)\<rparr>) (of_entry opened) lc"
    using assms(2) by (auto simp: commit_open_def Let_def split: if_splits)
  then have "tab_get (pf_public st') (fe_id (of_entry opened)) = Some (of_entry opened)" by (simp add: insert_forward_get)
  ultimately show ?thesis using b by auto
qed

definition open_side :: "frame list \<Rightarrow> side_handle" where
  "open_side answers = \<lparr>sh_name = [100], sh_port_tunnel = Inr \<lparr>tn_id = 0, tn_accepts = (\<lambda>_ _. Inr ()), tn_sent = [],
     tn_script = map Inr answers, tn_aborted = False\<rparr>, sh_show = (\<lambda>_. [])\<rparr>"

definition sample_open_json :: session_json where
  "sample_open_json = sample_session_json\<lparr>sj_decode_endpoint := (\<lambda>_. Some [108])\<rparr>"

definition ready_frame :: frame where
  "ready_frame = \<lparr>fr_type = TunnelReady, fr_flags = 0, fr_stream_id = 0, fr_meta = [1], fr_data = []\<rparr>"

definition sample_request :: open_request where
  "sample_request = \<lparr>oq_forward_id = [102], oq_limits = public_summary default_broker_limits, oq_listen_endpoint = lit ''0'',
     oq_connect_endpoint = lit '' 80 '', oq_protocol = Tcp\<rparr>"

definition sample_opened :: "tunnel option \<times> (open_error, opened_forward) result" where
  "sample_opened = open_forward sample_open_json (open_side [ready_frame, tcp_frame TcpAccept 9 [], tcp_frame TcpListenOk 1 []])
     (open_side [ready_frame]) sample_request"

theorem open_forward_ready_witness:
  "\<exists>opened (st :: forward_state). snd sample_opened = Inr opened \<and>
     tab_get (pf_public st) [102] = Some (of_entry opened) \<and> both_ready (of_entry opened)"
proof -
  have "case snd sample_opened of Inr opened \<Rightarrow>
      fe_id (of_entry opened) = [102] \<and> fe_listen_side (of_entry opened) = [100] \<and> fe_connect_side (of_entry opened) = [100]
    | Inl _ \<Rightarrow> False" by code_simp
  then obtain opened where o: "snd sample_opened = Inr opened"
    and e: "fe_id (of_entry opened) = [102]" "fe_listen_side (of_entry opened) = [100]" "fe_connect_side (of_entry opened) = [100]"
    by (auto split: sum.splits)
  let ?p = "\<lparr>sp_listen = [100], sp_connect = [100]\<rparr>"
  let ?st = "empty_forward_state\<lparr>pf_pending := [([102], ?p)]\<rparr>"
  let ?lc = "\<lparr>lc_listen_session = 0, lc_listen_owner = BrokerHost, lc_connect_owner = BrokerHost\<rparr>"
  have op: "open_forward sample_open_json (open_side [ready_frame, tcp_frame TcpAccept 9 [], tcp_frame TcpListenOk 1 []])
      (open_side [ready_frame]) sample_request = (fst sample_opened, Inr opened)"
    using o by (simp add: sample_opened_def prod_eq_iff)
  obtain st where "commit_open ?st \<lparr>rv_id = [102], rv_side_pair = ?p, rv_pending = True\<rparr>
      \<lparr>rc_entry = of_entry opened, rc_lifecycle = ?lc\<rparr> = (st, Inr ())"
    using e by (simp add: commit_open_def side_pair_matches_entry_def tab_get_def)
  from open_forward_ready [OF op this] have "tab_get (pf_public st) (oq_forward_id sample_request) = Some (of_entry opened)"
    "both_ready (of_entry opened)" by blast+
  moreover have "oq_forward_id sample_request = [102]" by (simp add: sample_request_def)
  ultimately show ?thesis using o by metis
qed

end
