(* ===== verification/Daemon_Tunnel.thy ===== *)
theory Daemon_Tunnel
  imports Supervisor Port_Limiter Endpoints
begin

text \<open>
  The daemon's side of the port tunnels, \<open>crates/remote-exec-host/src/port_forward\<close>: tunnels, the listen
  sessions that outlive them, TCP streams and UDP sockets. A handler of a frame and a round of a task
  are one step each. A permit of the limiter lives in the entry that holds it, so that what is in use
  of a limit is counted over the entries; \<open>Port_Limiter\<close> shows that the counters agree. What
  the operating system answers, the JSON of the metadata, the clock and fresh session identifiers are
  parameters; waiting for room in a frame queue is left out.
\<close>

section \<open>State\<close>

datatype tcp_write_command = CmdData bytes | CmdShutdown

text \<open>
  A TCP writer task with its queue and what it has written; \<open>dw_sender\<close> while an entry holds its sender,
  \<open>dw_running\<close> while the task runs. A writer and the cancellation token of its stream share an identifier.
\<close>

record tcp_writer =
  dw_queue :: "tcp_write_command list"
  dw_sender :: bool
  dw_running :: bool
  dw_written :: bytes
  dw_shutdown :: bool

text \<open>The entry of a TCP stream; \<open>tse_cancel\<close> while it holds its cancellation token.\<close>

record tcp_stream_entry =
  tse_token :: nat
  tse_cancel :: bool

record attachment_state =
  ah_tunnel :: nat
  ah_cancelled :: bool
  ah_tcp_streams :: "(u32, tcp_stream_entry) table"
  ah_udp_readers :: "(u32, nat) table"

record retained_udp_bind =
  ub_stream_id :: u32
  ub_socket :: nat

record session_state =
  ds_root_cancelled :: bool
  ds_attachment :: "nat option"
  ds_resume_deadline :: "nat option"
  ds_expiry_task :: "nat option"
  ds_retained_listener :: "u32 option"
  ds_retained_udp_bind :: "retained_udp_bind option"
  ds_next_daemon_stream_id :: u32
  ds_generation :: nat

record connect_runtime =
  cr_generation :: nat
  cr_cancelled :: bool
  cr_tcp_streams :: "(u32, tcp_stream_entry) table"
  cr_udp_binds :: "(u32, nat) table"

datatype active_tunnel_state =
    ActUnopened
  | ActConnect forward_protocol
  | ActListen forward_protocol rstr

text \<open>
  A tunnel; the runtime of a connect tunnel is kept beside the active state, since the tasks of its
  streams hold on to it. \<open>dt_queue\<close> are the frames waiting for the writer, \<open>dt_written\<close> those written.
\<close>

record tunnel_state =
  dt_active :: active_tunnel_state
  dt_runtime :: connect_runtime
  dt_last_generation :: nat
  dt_cancelled :: bool
  dt_writer_open :: bool
  dt_queue :: "frame list"
  dt_written :: "frame list"
  dt_served :: bool

datatype stream_owner = OwnAttachment nat | OwnTunnel nat

datatype reader_task = TcpReader stream_owner u32 nat nat | UdpReader stream_owner u32 nat nat

text \<open>
  The daemon. Sessions, attachments and tunnels are objects that several tasks share; \<open>dn_sessions\<close> are the
  sessions in the store, \<open>dn_objects\<close> all of them. A reader task has its owner, its stream, its token or
  socket and the generation it reports; an accept loop the session it serves.
\<close>

record daemon =
  dn_limits :: capacity_limits
  dn_sessions :: "rstr list"
  dn_objects :: "(rstr, session_state) table"
  dn_attachments :: "(nat, attachment_state) table"
  dn_tunnels :: "(nat, tunnel_state) table"
  dn_writers :: "(nat, tcp_writer) table"
  dn_owners :: "(nat, stream_owner) table"
  dn_cancelled :: "nat list"
  dn_readers :: "reader_task list"
  dn_accept_loops :: "rstr list"
  dn_datagrams :: "(nat \<times> rstr \<times> bytes) list"
  dn_next :: nat
  dn_shutdown :: bool

definition tab_modify :: "'k \<Rightarrow> ('v \<Rightarrow> 'v) \<Rightarrow> ('k, 'v) table \<Rightarrow> ('k, 'v) table" where
  "tab_modify k f t = (case tab_get t k of None \<Rightarrow> t | Some v \<Rightarrow> tab_insert k (f v) t)"

abbreviation upd_session :: "rstr \<Rightarrow> (session_state \<Rightarrow> session_state) \<Rightarrow> daemon \<Rightarrow> daemon" where
  "upd_session i f d \<equiv> d\<lparr>dn_objects := tab_modify i f (dn_objects d)\<rparr>"

abbreviation upd_attachment :: "nat \<Rightarrow> (attachment_state \<Rightarrow> attachment_state) \<Rightarrow> daemon \<Rightarrow> daemon" where
  "upd_attachment a f d \<equiv> d\<lparr>dn_attachments := tab_modify a f (dn_attachments d)\<rparr>"

abbreviation upd_tunnel :: "nat \<Rightarrow> (tunnel_state \<Rightarrow> tunnel_state) \<Rightarrow> daemon \<Rightarrow> daemon" where
  "upd_tunnel t f d \<equiv> d\<lparr>dn_tunnels := tab_modify t f (dn_tunnels d)\<rparr>"

definition new_session_state :: session_state where
  "new_session_state = \<lparr>ds_root_cancelled = False, ds_attachment = None, ds_resume_deadline = None,
     ds_expiry_task = None, ds_retained_listener = None, ds_retained_udp_bind = None,
     ds_next_daemon_stream_id = 2, ds_generation = 0\<rparr>"

definition no_runtime :: connect_runtime where
  "no_runtime = \<lparr>cr_generation = 0, cr_cancelled = False, cr_tcp_streams = [], cr_udp_binds = []\<rparr>"

definition new_tunnel_state :: tunnel_state where
  "new_tunnel_state = \<lparr>dt_active = ActUnopened, dt_runtime = no_runtime, dt_last_generation = 0, dt_cancelled = False,
     dt_writer_open = True, dt_queue = [], dt_written = [], dt_served = True\<rparr>"

definition new_daemon :: "capacity_limits \<Rightarrow> daemon" where
  "new_daemon limits = \<lparr>dn_limits = limits, dn_sessions = [], dn_objects = [], dn_attachments = [], dn_tunnels = [],
     dn_writers = [], dn_owners = [], dn_cancelled = [], dn_readers = [], dn_accept_loops = [], dn_datagrams = [],
     dn_next = 0, dn_shutdown = False\<rparr>"

section \<open>Errors, limits and frames\<close>

text \<open>
  The metadata codecs with the text of a failure, the texts of endpoint errors and of frame types, and
  the time a detached session is kept.
\<close>

record daemon_env =
  de_decode_open :: "bytes \<Rightarrow> (rstr, open_meta) result"
  de_decode_close :: "bytes \<Rightarrow> (rstr, close_meta) result"
  de_decode_endpoint :: "bytes \<Rightarrow> (rstr, rstr) result"
  de_decode_peer :: "bytes \<Rightarrow> (rstr, rstr) result"
  de_encode_ready :: "ready_meta \<Rightarrow> (rstr, bytes) result"
  de_encode_close :: "close_meta \<Rightarrow> (rstr, bytes) result"
  de_encode_endpoint :: "rstr \<Rightarrow> (rstr, bytes) result"
  de_encode_accept :: "u32 \<Rightarrow> rstr \<Rightarrow> (rstr, bytes) result"
  de_encode_peer :: "rstr \<Rightarrow> (rstr, bytes) result"
  de_encode_error :: "proto_error_meta \<Rightarrow> (rstr, bytes) result"
  de_encode_drop :: "drop_kind \<Rightarrow> nat \<Rightarrow> rstr \<Rightarrow> rstr option \<Rightarrow> (rstr, bytes) result"
  de_show_endpoint_error :: "endpoint_error \<Rightarrow> rstr"
  de_show_frame_type :: "frame_type \<Rightarrow> rstr"
  de_resume_timeout :: nat

type_synonym 'a host_result = "(host_rpc_error, 'a) result"

definition request_error :: "rpc_error_code \<Rightarrow> rstr \<Rightarrow> host_rpc_error" where
  "request_error c m = bad_request c m"

definition operational_error :: "rpc_error_code \<Rightarrow> rstr \<Rightarrow> host_rpc_error" where
  "operational_error c m = \<lparr>he_status = 502, he_code = c, he_message = m\<rparr>"

definition is_recoverable_pressure_error :: "host_rpc_error \<Rightarrow> bool" where
  "is_recoverable_pressure_error e \<longleftrightarrow> he_code e = RcPortTunnelLimitExceeded"

definition metadata_error :: "rstr \<Rightarrow> host_rpc_error" where
  "metadata_error e = request_error RcInvalidPortTunnelMetadata (lit ''invalid port tunnel metadata: '' @ e)"

definition decode_frame_meta :: "(bytes \<Rightarrow> (rstr, 'a) result) \<Rightarrow> frame \<Rightarrow> 'a host_result" where
  "decode_frame_meta decode f = map_err metadata_error (decode (fr_meta f))"

definition encode_frame_meta :: "('a \<Rightarrow> (rstr, bytes) result) \<Rightarrow> 'a \<Rightarrow> bytes host_result" where
  "encode_frame_meta encode m = map_err metadata_error (encode m)"

definition raw_frame :: "frame_type \<Rightarrow> u32 \<Rightarrow> bytes \<Rightarrow> bytes \<Rightarrow> frame" where
  "raw_frame ty i meta data = \<lparr>fr_type = ty, fr_flags = 0, fr_stream_id = i, fr_meta = meta, fr_data = data\<rparr>"

definition empty_frame :: "frame_type \<Rightarrow> u32 \<Rightarrow> frame" where
  "empty_frame ty i = raw_frame ty i [] []"

definition data_frame :: "frame_type \<Rightarrow> u32 \<Rightarrow> bytes \<Rightarrow> frame" where
  "data_frame ty i data = raw_frame ty i [] data"

definition meta_frame :: "frame_type \<Rightarrow> u32 \<Rightarrow> ('a \<Rightarrow> (rstr, bytes) result) \<Rightarrow> 'a \<Rightarrow> frame host_result" where
  "meta_frame ty i encode m = bindR (encode_frame_meta encode m) (\<lambda>b. Inr (raw_frame ty i b []))"

definition tunnel_error_frame :: "daemon_env \<Rightarrow> u32 \<Rightarrow> rstr \<Rightarrow> rstr \<Rightarrow> bool \<Rightarrow> nat option \<Rightarrow> frame host_result" where
  "tunnel_error_frame env i code message fatal generation = meta_frame FError i (de_encode_error env)
     \<lparr>em_code = code, em_message = message, em_fatal = fatal, em_generation = generation\<rparr>"

text \<open>What the entries hold of each limit.\<close>

definition stream_count :: "daemon \<Rightarrow> nat" where
  "stream_count d = sum_list (map (length \<circ> ah_tcp_streams \<circ> snd) (dn_attachments d)) +
     sum_list (map (length \<circ> cr_tcp_streams \<circ> dt_runtime \<circ> snd) (dn_tunnels d))"

primrec in_use :: "permit_kind \<Rightarrow> daemon \<Rightarrow> nat" where
  "in_use PermTunnelConnection d = tab_count dt_served (dn_tunnels d)"
| "in_use PermRetainedListener d = tab_count (\<lambda>s. ds_retained_listener s \<noteq> None) (dn_objects d)"
| "in_use PermUdpBind d = tab_count (\<lambda>s. ds_retained_udp_bind s \<noteq> None) (dn_objects d) +
     sum_list (map (length \<circ> cr_udp_binds \<circ> dt_runtime \<circ> snd) (dn_tunnels d))"
| "in_use PermActiveTcpStream d = stream_count d"
| "in_use PermQueuedBytes d = sum_list (map (sum_list \<circ> map data_plane_charge \<circ> dt_queue \<circ> snd) (dn_tunnels d))"

definition try_acquire :: "permit_kind \<Rightarrow> nat \<Rightarrow> daemon \<Rightarrow> unit host_result" where
  "try_acquire k amount d =
     ensureR (in_use k d + amount \<le> unat (limit_of k (dn_limits d))) (limit_error k)"

definition writer_closed_error :: host_rpc_error where
  "writer_closed_error = operational_error RcPortTunnelClosed (lit ''port tunnel writer is closed'')"

definition sender_send :: "nat \<Rightarrow> frame \<Rightarrow> daemon \<Rightarrow> daemon \<times> unit host_result" where
  "sender_send t f d =
     (case (if data_plane_charge f = 0 then Inr () else try_acquire PermQueuedBytes (data_plane_charge f) d) of
       Inl e \<Rightarrow> (d, Inl e)
     | Inr _ \<Rightarrow> (case tab_get (dn_tunnels d) t of
         None \<Rightarrow> (d, Inl writer_closed_error)
       | Some u \<Rightarrow> if dt_writer_open u then (upd_tunnel t (dt_queue_update (\<lambda>q. q @ [f])) d, Inr ())
                   else (d, Inl writer_closed_error)))"

definition send_tunnel_error_code ::
  "daemon_env \<Rightarrow> nat \<Rightarrow> nat option \<Rightarrow> u32 \<Rightarrow> rstr \<Rightarrow> rstr \<Rightarrow> bool \<Rightarrow> daemon \<Rightarrow> daemon \<times> unit host_result" where
  "send_tunnel_error_code env t generation i code message fatal d =
     andThen (d, tunnel_error_frame env i code message fatal generation) (\<lambda>d f. sender_send t f d)"

definition send_tunnel_error ::
  "daemon_env \<Rightarrow> nat \<Rightarrow> nat option \<Rightarrow> u32 \<Rightarrow> rpc_error_code \<Rightarrow> rstr \<Rightarrow> bool \<Rightarrow> daemon \<Rightarrow> daemon \<times> unit host_result" where
  "send_tunnel_error env t generation i code message fatal d =
     send_tunnel_error_code env t generation i (wire_value code) message fatal d"

definition send_forward_drop_report ::
  "daemon_env \<Rightarrow> nat \<Rightarrow> u32 \<Rightarrow> drop_kind \<Rightarrow> rstr \<Rightarrow> rstr \<Rightarrow> daemon \<Rightarrow> daemon \<times> unit host_result" where
  "send_forward_drop_report env t i kind reason message d =
     andThen (d, meta_frame ForwardDrop i (\<lambda>(k, n, r, m). de_encode_drop env k n r m) (kind, 1, reason, Some message))
       (\<lambda>d f. sender_send t f d)"

section \<open>Streams and their cancellation\<close>

definition cancel_token :: "nat \<Rightarrow> daemon \<Rightarrow> daemon" where
  "cancel_token k d = d\<lparr>dn_cancelled := List.insert k (dn_cancelled d)\<rparr>"

definition tunnel_cancelled :: "daemon \<Rightarrow> nat \<Rightarrow> bool" where
  "tunnel_cancelled d t \<longleftrightarrow> dn_shutdown d \<or> (case tab_get (dn_tunnels d) t of None \<Rightarrow> True | Some u \<Rightarrow> dt_cancelled u)"

definition attachment_cancelled :: "daemon \<Rightarrow> attachment_state \<Rightarrow> bool" where
  "attachment_cancelled d a \<longleftrightarrow> ah_cancelled a \<or> tunnel_cancelled d (ah_tunnel a)"

text \<open>A token is cancelled with the attachment or the connect runtime it descends from.\<close>

definition owner_cancelled :: "daemon \<Rightarrow> stream_owner \<Rightarrow> bool" where
  "owner_cancelled d own = (case own of
     OwnAttachment a \<Rightarrow> (case tab_get (dn_attachments d) a of None \<Rightarrow> True | Some x \<Rightarrow> attachment_cancelled d x)
   | OwnTunnel t \<Rightarrow> tunnel_cancelled d t \<or>
       (case tab_get (dn_tunnels d) t of None \<Rightarrow> True | Some u \<Rightarrow> cr_cancelled (dt_runtime u)))"

definition token_cancelled :: "daemon \<Rightarrow> nat \<Rightarrow> bool" where
  "token_cancelled d k \<longleftrightarrow> k \<in> set (dn_cancelled d) \<or>
     (case tab_get (dn_owners d) k of None \<Rightarrow> False | Some own \<Rightarrow> owner_cancelled d own)"

definition tcp_streams :: "daemon \<Rightarrow> stream_owner \<Rightarrow> (u32, tcp_stream_entry) table" where
  "tcp_streams d own = (case own of
     OwnAttachment a \<Rightarrow> (case tab_get (dn_attachments d) a of None \<Rightarrow> [] | Some x \<Rightarrow> ah_tcp_streams x)
   | OwnTunnel t \<Rightarrow> (case tab_get (dn_tunnels d) t of None \<Rightarrow> [] | Some u \<Rightarrow> cr_tcp_streams (dt_runtime u)))"

definition set_tcp_streams :: "stream_owner \<Rightarrow> (u32, tcp_stream_entry) table \<Rightarrow> daemon \<Rightarrow> daemon" where
  "set_tcp_streams own m d = (case own of
     OwnAttachment a \<Rightarrow> upd_attachment a (\<lambda>x. x\<lparr>ah_tcp_streams := m\<rparr>) d
   | OwnTunnel t \<Rightarrow> upd_tunnel t (dt_runtime_update (\<lambda>r. r\<lparr>cr_tcp_streams := m\<rparr>)) d)"

definition drop_sender :: "nat \<Rightarrow> daemon \<Rightarrow> daemon" where
  "drop_sender k d = d\<lparr>dn_writers := tab_modify k (\<lambda>w. w\<lparr>dw_sender := False\<rparr>) (dn_writers d)\<rparr>"

definition cleanup_tcp_stream :: "stream_owner \<Rightarrow> u32 \<Rightarrow> daemon \<Rightarrow> daemon" where
  "cleanup_tcp_stream own i d = (case tab_get (tcp_streams d own) i of
     None \<Rightarrow> d
   | Some e \<Rightarrow> drop_sender (tse_token e) (set_tcp_streams own (tab_remove i (tcp_streams d own)) d))"

text \<open>Dropping an entry whose token, where it still holds it, is cancelled first.\<close>

definition cancel_entry :: "tcp_stream_entry \<Rightarrow> daemon \<Rightarrow> daemon" where
  "cancel_entry e d = drop_sender (tse_token e) (if tse_cancel e then cancel_token (tse_token e) d else d)"

definition cancel_tcp_stream :: "stream_owner \<Rightarrow> u32 \<Rightarrow> daemon \<Rightarrow> daemon" where
  "cancel_tcp_stream own i d = (case tab_get (tcp_streams d own) i of
     None \<Rightarrow> d
   | Some e \<Rightarrow> cancel_entry e (set_tcp_streams own (tab_remove i (tcp_streams d own)) d))"

definition clear_tcp_cancel :: "stream_owner \<Rightarrow> u32 \<Rightarrow> daemon \<Rightarrow> daemon" where
  "clear_tcp_cancel own i d =
     set_tcp_streams own (tab_modify i (\<lambda>e. e\<lparr>tse_cancel := False\<rparr>) (tcp_streams d own)) d"

definition cancel_all :: "stream_owner \<Rightarrow> daemon \<Rightarrow> daemon" where
  "cancel_all own d = fold (\<lambda>(i, e). cancel_entry e) (tcp_streams d own) (set_tcp_streams own [] d)"

section \<open>Sessions\<close>

datatype session_close_mode = GracefulClose | RetryableDetach | TerminalFailure

definition try_insert_session :: "rstr \<Rightarrow> daemon \<Rightarrow> daemon \<times> unit host_result" where
  "try_insert_session i d =
     (if length (dn_sessions d) \<ge> unat (cl_max_retained_sessions (dn_limits d))
      then (d, Inl (request_error RcPortTunnelLimitExceeded (lit ''retained port tunnel session limit reached'')))
      else (d\<lparr>dn_sessions := List.insert i (dn_sessions d)\<rparr>, Inr ()))"

definition remove_session :: "rstr \<Rightarrow> daemon \<Rightarrow> daemon" where
  "remove_session i d = d\<lparr>dn_sessions := removeAll i (dn_sessions d)\<rparr>"

definition is_expired :: "session_state \<Rightarrow> nat \<Rightarrow> bool" where
  "is_expired s now = (case ds_resume_deadline s of None \<Rightarrow> False | Some deadline \<Rightarrow> deadline \<le> now)"

definition replace_listener :: "rstr \<Rightarrow> u32 \<Rightarrow> daemon \<Rightarrow> daemon \<times> unit host_result" where
  "replace_listener i stream_id d =
     andThen (d, case tab_get (dn_objects d) i of
         Some s \<Rightarrow> if ds_retained_listener s = None then try_acquire PermRetainedListener 1 d else Inr ()
       | None \<Rightarrow> Inr ())
       (\<lambda>d _. (upd_session i (\<lambda>s. s\<lparr>ds_retained_listener := Some stream_id\<rparr>) d, Inr ()))"

definition replace_udp_bind :: "rstr \<Rightarrow> u32 \<Rightarrow> nat \<Rightarrow> daemon \<Rightarrow> daemon \<times> unit host_result" where
  "replace_udp_bind i stream_id socket d =
     andThen (d, case tab_get (dn_objects d) i of
         Some s \<Rightarrow> if ds_retained_udp_bind s = None then try_acquire PermUdpBind 1 d else Inr ()
       | None \<Rightarrow> Inr ())
       (\<lambda>d _. (upd_session i (\<lambda>s. s\<lparr>ds_retained_udp_bind := Some \<lparr>ub_stream_id = stream_id, ub_socket = socket\<rparr>\<rparr>) d, Inr ()))"

definition session_udp_socket :: "session_state \<Rightarrow> u32 \<Rightarrow> nat option" where
  "session_udp_socket s stream_id = (case ds_retained_udp_bind s of
     Some b \<Rightarrow> if ub_stream_id b = stream_id then Some (ub_socket b) else None | None \<Rightarrow> None)"

text \<open>Cancelling the streams and draining the readers of an attachment.\<close>

definition drain_attachment :: "nat \<Rightarrow> daemon \<Rightarrow> daemon" where
  "drain_attachment a d = (let d = cancel_all (OwnAttachment a) d in
     case tab_get (dn_attachments d) a of
       None \<Rightarrow> d
     | Some x \<Rightarrow> fold (\<lambda>(i, k). cancel_token k) (ah_udp_readers x) (upd_attachment a (\<lambda>x. x\<lparr>ah_udp_readers := []\<rparr>) d))"

definition close_non_resumable_streams :: "rstr \<Rightarrow> daemon \<Rightarrow> daemon" where
  "close_non_resumable_streams i d = (case tab_get (dn_objects d) i of
     Some s \<Rightarrow> (case ds_attachment s of Some a \<Rightarrow> drain_attachment a d | None \<Rightarrow> d)
   | None \<Rightarrow> d)"

definition close_retained_resources :: "rstr \<Rightarrow> daemon \<Rightarrow> daemon" where
  "close_retained_resources i d = close_non_resumable_streams i
     (upd_session i (\<lambda>s. s\<lparr>ds_retained_listener := None, ds_retained_udp_bind := None\<rparr>) d)"

definition attach_session_to_tunnel :: "rstr \<Rightarrow> nat \<Rightarrow> daemon \<Rightarrow> daemon" where
  "attach_session_to_tunnel i t d =
     (let d = (case tab_get (dn_objects d) i of
                 Some s \<Rightarrow> (case ds_attachment s of Some a \<Rightarrow> upd_attachment a (\<lambda>x. x\<lparr>ah_cancelled := True\<rparr>) d | None \<Rightarrow> d)
               | None \<Rightarrow> d);
          a = dn_next d;
          d = d\<lparr>dn_next := Suc a, dn_attachments := tab_insert a
                 \<lparr>ah_tunnel = t, ah_cancelled = False, ah_tcp_streams = [], ah_udp_readers = []\<rparr> (dn_attachments d)\<rparr>
      in upd_session i (\<lambda>s. s\<lparr>ds_attachment := Some a, ds_expiry_task := None, ds_resume_deadline := None\<rparr>) d)"

definition schedule_session_expiry :: "daemon_env \<Rightarrow> nat \<Rightarrow> rstr \<Rightarrow> daemon \<Rightarrow> daemon" where
  "schedule_session_expiry env now i d = upd_session i (\<lambda>s. s\<lparr>ds_expiry_task := Some (now + de_resume_timeout env)\<rparr>) d"

definition cancel_root :: "rstr \<Rightarrow> daemon \<Rightarrow> daemon" where
  "cancel_root i d = upd_session i (\<lambda>s. s\<lparr>ds_root_cancelled := True\<rparr>) d"

text \<open>The end of a session: out of the store, its resources released, its accept loop stopped.\<close>

definition terminate_session :: "rstr \<Rightarrow> daemon \<Rightarrow> daemon" where
  "terminate_session i d = cancel_root i (close_retained_resources i (remove_session i d))"

text \<open>What the expiry task does once it has slept; the task is over then.\<close>

definition expire_session :: "nat \<Rightarrow> rstr \<Rightarrow> daemon \<Rightarrow> daemon" where
  "expire_session now i d = (case tab_get (dn_objects d) i of
     None \<Rightarrow> d
   | Some s \<Rightarrow> let d = upd_session i (\<lambda>s. s\<lparr>ds_expiry_task := None\<rparr>) d in
       if is_expired s now \<and> ds_attachment s = None then terminate_session i d else d)"

definition daemon_close_listen_session ::
  "daemon_env \<Rightarrow> nat \<Rightarrow> nat \<Rightarrow> rstr \<Rightarrow> session_close_mode \<Rightarrow> daemon \<Rightarrow> daemon" where
  "daemon_close_listen_session env now t i mode d =
     (case (tab_get (dn_tunnels d) t, tab_get (dn_objects d) i) of
       (Some u, Some s) \<Rightarrow>
         if dt_last_generation u \<noteq> 0 \<and> ds_generation s \<noteq> dt_last_generation u then d
         else let d = upd_session i (\<lambda>s. s\<lparr>ds_attachment := None\<rparr>) d;
                  d = (case ds_attachment s of
                         Some a \<Rightarrow> drain_attachment a (upd_attachment a (\<lambda>x. x\<lparr>ah_cancelled := True\<rparr>) d)
                       | None \<Rightarrow> d)
              in if mode = RetryableDetach
                 then schedule_session_expiry env now i
                        (upd_session i (\<lambda>s. s\<lparr>ds_resume_deadline := Some (now + de_resume_timeout env)\<rparr>) d)
                 else terminate_session i (upd_session i (\<lambda>s. s\<lparr>ds_resume_deadline := None\<rparr>) d)
     | _ \<Rightarrow> d)"

definition close_attached_session :: "daemon_env \<Rightarrow> nat \<Rightarrow> nat \<Rightarrow> session_close_mode \<Rightarrow> daemon \<Rightarrow> daemon" where
  "close_attached_session env now t mode d = (case tab_get (dn_tunnels d) t of
     None \<Rightarrow> d
   | Some u \<Rightarrow> (case dt_active u of
       ActListen protocol i \<Rightarrow>
         daemon_close_listen_session env now t i mode (upd_tunnel t (\<lambda>u. u\<lparr>dt_active := ActUnopened\<rparr>) d)
     | _ \<Rightarrow> d))"

definition close_mode_for_tunnel_result :: "session_close_mode host_result \<Rightarrow> bool \<Rightarrow> session_close_mode" where
  "close_mode_for_tunnel_result r host_shutdown =
     (if host_shutdown then TerminalFailure else case r of Inr mode \<Rightarrow> mode | Inl _ \<Rightarrow> TerminalFailure)"

definition attachment_closed_error :: host_rpc_error where
  "attachment_closed_error = operational_error RcPortTunnelClosed (lit ''port tunnel attachment is closed'')"

text \<open>A fresh token for a stream of an owner.\<close>

definition child_token :: "stream_owner \<Rightarrow> daemon \<Rightarrow> daemon \<times> nat" where
  "child_token own d = (d\<lparr>dn_next := Suc (dn_next d), dn_owners := tab_insert (dn_next d) own (dn_owners d)\<rparr>, dn_next d)"

definition reactivate_retained_udp_bind :: "rstr \<Rightarrow> daemon \<Rightarrow> daemon \<times> unit host_result" where
  "reactivate_retained_udp_bind i d = (case tab_get (dn_objects d) i of
     None \<Rightarrow> (d, Inr ())
   | Some s \<Rightarrow> (case ds_retained_udp_bind s of
       None \<Rightarrow> (d, Inr ())
     | Some b \<Rightarrow> (case ds_attachment s of
         None \<Rightarrow> (d, Inl attachment_closed_error)
       | Some a \<Rightarrow> (case child_token (OwnAttachment a) d of (d, k) \<Rightarrow>
           let d = (case tab_get (dn_attachments d) a of
                      Some x \<Rightarrow> (case tab_get (ah_udp_readers x) (ub_stream_id b) of
                                  Some old \<Rightarrow> cancel_token old d | None \<Rightarrow> d)
                    | None \<Rightarrow> d);
               d = upd_attachment a (\<lambda>x. x\<lparr>ah_udp_readers := tab_insert (ub_stream_id b) k (ah_udp_readers x)\<rparr>) d
           in (d\<lparr>dn_readers := UdpReader (OwnAttachment a) (ub_stream_id b) k (ds_generation s) # dn_readers d\<rparr>, Inr ())))))"

section \<open>Access to the active tunnel\<close>

datatype tunnel_access = AccUnopened | AccConnect forward_protocol | AccListen forward_protocol rstr nat

definition active_access :: "daemon \<Rightarrow> nat \<Rightarrow> tunnel_access host_result" where
  "active_access d t = (case tab_get (dn_tunnels d) t of
     None \<Rightarrow> Inr AccUnopened
   | Some u \<Rightarrow> (case dt_active u of
       ActUnopened \<Rightarrow> Inr AccUnopened
     | ActConnect protocol \<Rightarrow> Inr (AccConnect protocol)
     | ActListen protocol i \<Rightarrow>
         bindR (ok_or (Option.bind (tab_get (dn_objects d) i) ds_attachment) attachment_closed_error)
           (\<lambda>a. Inr (AccListen protocol i a))))"

definition connection_generation :: "daemon \<Rightarrow> nat \<Rightarrow> nat option" where
  "connection_generation d t = (case tab_get (dn_tunnels d) t of
     None \<Rightarrow> None
   | Some u \<Rightarrow> (case dt_active u of
       ActConnect protocol \<Rightarrow> Some (cr_generation (dt_runtime u))
     | ActListen protocol i \<Rightarrow> map_option ds_generation (tab_get (dn_objects d) i)
     | ActUnopened \<Rightarrow> if dt_last_generation u \<noteq> 0 then Some (dt_last_generation u) else None))"

primrec protocol_label :: "forward_protocol \<Rightarrow> rstr" where
  "protocol_label Tcp = lit ''tcp''"
| "protocol_label Udp = lit ''udp''"

definition tunnel_open_required_error :: "rstr \<Rightarrow> host_rpc_error" where
  "tunnel_open_required_error op = request_error RcInvalidPortTunnel (op @ lit '' requires tunnel open'')"

definition role_required_error :: "rstr \<Rightarrow> rstr \<Rightarrow> host_rpc_error" where
  "role_required_error op role = request_error RcInvalidPortTunnel (op @ lit '' requires an open '' @ role @ lit '' tunnel'')"

definition protocol_required_error :: "rstr \<Rightarrow> forward_protocol \<Rightarrow> rstr option \<Rightarrow> host_rpc_error" where
  "protocol_required_error op protocol role = request_error RcInvalidPortTunnel
     (op @ lit '' requires an open '' @ protocol_label protocol @
      (case role of Some r \<Rightarrow> lit '' '' @ r | None \<Rightarrow> []) @ lit '' tunnel'')"

datatype protocol_access = PaListen rstr nat | PaConnect

definition require_listen_session :: "tunnel_access \<Rightarrow> forward_protocol \<Rightarrow> rstr \<Rightarrow> (rstr \<times> nat) host_result" where
  "require_listen_session acc protocol op = (case acc of
     AccUnopened \<Rightarrow> Inl (tunnel_open_required_error op)
   | AccListen p i a \<Rightarrow> if p = protocol then Inr (i, a) else Inl (protocol_required_error op protocol (Some (lit ''listen'')))
   | AccConnect p \<Rightarrow> Inl (role_required_error op (lit ''listen'')))"

definition require_connect_tunnel :: "tunnel_access \<Rightarrow> forward_protocol \<Rightarrow> rstr \<Rightarrow> unit host_result" where
  "require_connect_tunnel acc protocol op = (case acc of
     AccUnopened \<Rightarrow> Inl (tunnel_open_required_error op)
   | AccConnect p \<Rightarrow> if p = protocol then Inr () else Inl (protocol_required_error op protocol (Some (lit ''connect'')))
   | AccListen p i a \<Rightarrow> Inl (role_required_error op (lit ''connect'')))"

text \<open>\<open>bind_target\<close> tells whether a mismatch names the role.\<close>

definition require_access :: "tunnel_access \<Rightarrow> forward_protocol \<Rightarrow> rstr \<Rightarrow> bool \<Rightarrow> protocol_access host_result" where
  "require_access acc protocol op bind_target = (case acc of
     AccUnopened \<Rightarrow> Inl (tunnel_open_required_error op)
   | AccListen p i a \<Rightarrow> if p = protocol then Inr (PaListen i a)
       else Inl (protocol_required_error op protocol (if bind_target then Some (lit ''listen'') else None))
   | AccConnect p \<Rightarrow> if p = protocol then Inr PaConnect
       else Inl (protocol_required_error op protocol (if bind_target then Some (lit ''connect'') else None)))"

definition protocol_access_if :: "tunnel_access \<Rightarrow> forward_protocol \<Rightarrow> protocol_access option" where
  "protocol_access_if acc protocol = (case acc of
     AccListen p i a \<Rightarrow> if p = protocol then Some (PaListen i a) else None
   | AccConnect p \<Rightarrow> if p = protocol then Some PaConnect else None
   | AccUnopened \<Rightarrow> None)"

definition access_owner :: "nat \<Rightarrow> protocol_access \<Rightarrow> stream_owner" where
  "access_owner t acc = (case acc of PaListen i a \<Rightarrow> OwnAttachment a | PaConnect \<Rightarrow> OwnTunnel t)"

section \<open>Opening and closing a tunnel\<close>

definition tunnel_limit_summary :: "daemon \<Rightarrow> tunnel_limits" where
  "tunnel_limit_summary d = \<lparr>tl_max_active_tcp_streams = unat (cl_max_active_tcp_streams (dn_limits d)),
     tl_max_udp_peers = unat (cl_max_udp_binds (dn_limits d)),
     tl_max_queued_bytes = unat (cl_max_tunnel_queued_bytes (dn_limits d))\<rparr>"

definition send_tunnel_ready ::
  "daemon_env \<Rightarrow> nat \<Rightarrow> nat \<Rightarrow> rstr option \<Rightarrow> nat option \<Rightarrow> daemon \<Rightarrow> daemon \<times> unit host_result" where
  "send_tunnel_ready env t generation session_id resume_timeout_ms d =
     andThen (d, meta_frame TunnelReady 0 (de_encode_ready env)
         \<lparr>rm_generation = generation, rm_session_id = session_id, rm_resume_timeout_ms = resume_timeout_ms,
          rm_limits = tunnel_limit_summary d\<rparr>)
       (\<lambda>d f. sender_send t f d)"

definition set_generation :: "rstr \<Rightarrow> nat \<Rightarrow> daemon \<Rightarrow> daemon" where
  "set_generation i g d = upd_session i (\<lambda>s. s\<lparr>ds_generation := g\<rparr>) d"

definition set_last_generation :: "nat \<Rightarrow> nat \<Rightarrow> daemon \<Rightarrow> daemon" where
  "set_last_generation t g d = upd_tunnel t (\<lambda>u. u\<lparr>dt_last_generation := g\<rparr>) d"

definition activate_tunnel :: "nat \<Rightarrow> (tunnel_state \<Rightarrow> tunnel_state) \<Rightarrow> daemon \<Rightarrow> daemon \<times> unit host_result" where
  "activate_tunnel t activate d = (case tab_get (dn_tunnels d) t of
     Some u \<Rightarrow> if dt_active u = ActUnopened then (upd_tunnel t activate d, Inr ())
       else (d, Inl (request_error RcPortTunnelAlreadyAttached (lit ''port tunnel is already open'')))
   | None \<Rightarrow> (d, Inl (request_error RcPortTunnelAlreadyAttached (lit ''port tunnel is already open''))))"

definition activate_connect_tunnel :: "nat \<Rightarrow> forward_protocol \<Rightarrow> nat \<Rightarrow> daemon \<Rightarrow> daemon \<times> unit host_result" where
  "activate_connect_tunnel t protocol generation d =
     activate_tunnel t (\<lambda>u. u\<lparr>dt_active := ActConnect protocol, dt_runtime := no_runtime\<lparr>cr_generation := generation\<rparr>\<rparr>) d"

definition activate_listen_tunnel :: "nat \<Rightarrow> forward_protocol \<Rightarrow> rstr \<Rightarrow> daemon \<Rightarrow> daemon \<times> unit host_result" where
  "activate_listen_tunnel t protocol i d = activate_tunnel t (\<lambda>u. u\<lparr>dt_active := ActListen protocol i\<rparr>) d"

text \<open>The session of an open, and whether it was inserted for it; \<open>fresh\<close> is the identifier of a new one.\<close>

definition acquire_listen_open_session ::
  "nat \<Rightarrow> rstr \<Rightarrow> rstr option \<Rightarrow> daemon \<Rightarrow> daemon \<times> (rstr \<times> bool) host_result" where
  "acquire_listen_open_session now fresh resume_session_id d = (case resume_session_id of
     Some i \<Rightarrow>
       (if i \<notin> set (dn_sessions d)
        then (d, Inl (request_error RcUnknownPortTunnelSession (lit ''unknown port tunnel session'')))
        else (case tab_get (dn_objects d) i of
            None \<Rightarrow> (d, Inl (request_error RcUnknownPortTunnelSession (lit ''unknown port tunnel session'')))
          | Some s \<Rightarrow>
              if is_expired s now
              then (close_retained_resources i (remove_session i d),
                    Inl (request_error RcPortTunnelResumeExpired (lit ''port tunnel resume expired'')))
              else (d, Inr (i, False))))
   | None \<Rightarrow>
       andThen (try_insert_session fresh d) (\<lambda>d _.
         (d\<lparr>dn_objects := tab_insert fresh new_session_state (dn_objects d)\<rparr>, Inr (fresh, True))))"

definition cleanup_inserted_listen_session :: "rstr \<Rightarrow> bool \<Rightarrow> daemon \<Rightarrow> daemon" where
  "cleanup_inserted_listen_session i inserted d = (if inserted then cancel_root i (remove_session i d) else d)"

definition daemon_open_listen_session ::
  "nat \<Rightarrow> rstr \<Rightarrow> bool \<Rightarrow> nat \<Rightarrow> forward_protocol \<Rightarrow> daemon \<Rightarrow> daemon \<times> unit host_result" where
  "daemon_open_listen_session t i inserted generation protocol d =
     (case activate_listen_tunnel t protocol i (set_generation i generation d) of
       (d, Inl e) \<Rightarrow> (cleanup_inserted_listen_session i inserted d, Inl e)
     | (d, Inr _) \<Rightarrow> (attach_session_to_tunnel i t d, Inr ()))"

definition tunnel_open_listen ::
  "daemon_env \<Rightarrow> nat \<Rightarrow> rstr \<Rightarrow> nat \<Rightarrow> open_meta \<Rightarrow> daemon \<Rightarrow> daemon \<times> unit host_result" where
  "tunnel_open_listen env now fresh t m d =
     andThen (acquire_listen_open_session now fresh (om_resume_session_id m) (set_last_generation t (om_generation m) d))
       (\<lambda>d (i, inserted).
     andThen (daemon_open_listen_session t i inserted (om_generation m) (om_protocol m) d) (\<lambda>d _.
     andThen (send_tunnel_ready env t (om_generation m) (Some i) (Some (de_resume_timeout env)) d) (\<lambda>d _.
       if om_protocol m = Udp then reactivate_retained_udp_bind i d else (d, Inr ()))))"

definition tunnel_open_connect :: "daemon_env \<Rightarrow> nat \<Rightarrow> open_meta \<Rightarrow> daemon \<Rightarrow> daemon \<times> unit host_result" where
  "tunnel_open_connect env t m d =
     andThen (activate_connect_tunnel t (om_protocol m) (om_generation m) (set_last_generation t (om_generation m) d))
       (\<lambda>d _. send_tunnel_ready env t (om_generation m) None None d)"

definition tunnel_open :: "daemon_env \<Rightarrow> nat \<Rightarrow> rstr \<Rightarrow> nat \<Rightarrow> frame \<Rightarrow> daemon \<Rightarrow> daemon \<times> unit host_result" where
  "tunnel_open env now fresh t f d =
     andThen (d, ensureR (fr_stream_id f = 0) (request_error RcInvalidPortTunnel (lit ''tunnel open must use stream_id 0'')))
       (\<lambda>d _.
     andThen (d, decode_frame_meta (de_decode_open env) f) (\<lambda>d m. case om_role m of
       RoleListenTunnel \<Rightarrow> tunnel_open_listen env now fresh t m d
     | RoleConnectTunnel \<Rightarrow> tunnel_open_connect env t m d))"

definition ensure_tunnel_generation :: "nat \<Rightarrow> nat \<Rightarrow> daemon \<Rightarrow> unit host_result" where
  "ensure_tunnel_generation t frame_generation d =
     bindR (ok_or (connection_generation d t)
         (request_error RcInvalidPortTunnel (lit ''frame generation requires an active tunnel'')))
       (\<lambda>current. ensureR (frame_generation = current) (request_error RcPortTunnelGenerationMismatch
         (lit ''frame generation `'' @ dec_str frame_generation @ lit ''` does not match tunnel generation `'' @
          dec_str current @ lit ''`'')))"

definition tunnel_close :: "daemon_env \<Rightarrow> nat \<Rightarrow> frame \<Rightarrow> daemon \<Rightarrow> daemon \<times> unit host_result" where
  "tunnel_close env t f d =
     andThen (d, ensureR (fr_stream_id f = 0) (request_error RcInvalidPortTunnel (lit ''tunnel close must use stream_id 0'')))
       (\<lambda>d _.
     andThen (d, decode_frame_meta (de_decode_close env) f) (\<lambda>d m.
     andThen (d, ensure_tunnel_generation t (cm_generation m) d) (\<lambda>d _.
     andThen (d, meta_frame TunnelClosed 0 (de_encode_close env) m) (\<lambda>d f. sender_send t f d))))"

definition close_tunnel_runtime :: "daemon_env \<Rightarrow> nat \<Rightarrow> nat \<Rightarrow> session_close_mode \<Rightarrow> daemon \<Rightarrow> daemon" where
  "close_tunnel_runtime env now t mode d = (case tab_get (dn_tunnels d) t of
     None \<Rightarrow> d
   | Some u \<Rightarrow> let d = upd_tunnel t (\<lambda>u. u\<lparr>dt_active := ActUnopened\<rparr>) d in
       (case dt_active u of
         ActUnopened \<Rightarrow> d
       | ActListen protocol i \<Rightarrow> daemon_close_listen_session env now t i mode d
       | ActConnect protocol \<Rightarrow>
           let d = cancel_all (OwnTunnel t) (upd_tunnel t (dt_runtime_update (\<lambda>r. r\<lparr>cr_cancelled := True\<rparr>)) d)
           in fold (\<lambda>(i, k). cancel_token k) (cr_udp_binds (dt_runtime u))
                (upd_tunnel t (dt_runtime_update (\<lambda>r. r\<lparr>cr_udp_binds := []\<rparr>)) d)))"

section \<open>TCP streams\<close>

datatype connect_answer = Connected | ConnectTimedOut | ConnectFailed rstr

text \<open>
  What the operating system answers while a frame is handled: the bound endpoint or the error of a bind, a
  connect, a datagram, and whether a full write queue gets room within the second a shutdown waits.
\<close>

record os_answers =
  oa_bind :: "(rstr, rstr) result"
  oa_connect :: connect_answer
  oa_send_to :: "(rstr, unit) result"
  oa_room :: bool

definition TCP_WRITE_QUEUE_FRAMES :: nat where "TCP_WRITE_QUEUE_FRAMES = 8"

definition owner_tunnel :: "daemon \<Rightarrow> stream_owner \<Rightarrow> nat" where
  "owner_tunnel d own = (case own of
     OwnTunnel t \<Rightarrow> t
   | OwnAttachment a \<Rightarrow> (case tab_get (dn_attachments d) a of Some x \<Rightarrow> ah_tunnel x | None \<Rightarrow> dn_next d))"

text \<open>A stream enters the table of its owner with a writer of its own; an entry it replaces is dropped.\<close>

definition insert_tcp_stream :: "stream_owner \<Rightarrow> u32 \<Rightarrow> daemon \<Rightarrow> daemon \<times> nat" where
  "insert_tcp_stream own i d = (case child_token own d of (d, k) \<Rightarrow>
     let d = d\<lparr>dn_writers := tab_insert k \<lparr>dw_queue = [], dw_sender = True, dw_running = True, dw_written = [],
               dw_shutdown = False\<rparr> (dn_writers d)\<rparr>;
         d = (case tab_get (tcp_streams d own) i of Some e \<Rightarrow> drop_sender (tse_token e) d | None \<Rightarrow> d)
     in (set_tcp_streams own (tab_insert i \<lparr>tse_token = k, tse_cancel = True\<rparr> (tcp_streams d own)) d, k))"

definition spawn_reader :: "reader_task \<Rightarrow> daemon \<Rightarrow> daemon" where
  "spawn_reader r d = d\<lparr>dn_readers := r # dn_readers d\<rparr>"

definition endpoint_of :: "daemon_env \<Rightarrow> (rstr \<Rightarrow> (endpoint_error, rstr) result) \<Rightarrow> frame \<Rightarrow> rstr host_result" where
  "endpoint_of env check f =
     bindR (decode_frame_meta (de_decode_endpoint env) f) (\<lambda>raw.
       map_err (\<lambda>e. request_error RcInvalidEndpoint (de_show_endpoint_error env e)) (check raw))"

definition tunnel_tcp_listen :: "daemon_env \<Rightarrow> os_answers \<Rightarrow> nat \<Rightarrow> frame \<Rightarrow> daemon \<Rightarrow> daemon \<times> unit host_result" where
  "tunnel_tcp_listen env os t f d =
     andThen (d, bindR (active_access d t) (\<lambda>acc. require_listen_session acc Tcp (lit ''tcp listen''))) (\<lambda>d (i, a).
     andThen (d, endpoint_of env normalize_endpoint f) (\<lambda>d endpoint.
     andThen (d, map_err (operational_error RcPortBindFailed) (oa_bind os)) (\<lambda>d bound.
     andThen (replace_listener i (fr_stream_id f) d) (\<lambda>d _.
     andThen (d, meta_frame TcpListenOk (fr_stream_id f) (de_encode_endpoint env) bound) (\<lambda>d ok.
     andThen (sender_send t ok d) (\<lambda>d _.
       (d\<lparr>dn_accept_loops := i # dn_accept_loops d\<rparr>, Inr ())))))))"

definition listener_stream_id :: "rstr \<Rightarrow> daemon \<Rightarrow> u32 option" where
  "listener_stream_id i d = Option.bind (tab_get (dn_objects d) i) ds_retained_listener"

definition udp_bind_stream_id :: "rstr \<Rightarrow> daemon \<Rightarrow> u32 option" where
  "udp_bind_stream_id i d = map_option ub_stream_id (Option.bind (tab_get (dn_objects d) i) ds_retained_udp_bind)"

definition or_zero :: "u32 option \<Rightarrow> u32" where
  "or_zero x = (case x of Some v \<Rightarrow> v | None \<Rightarrow> 0)"

datatype accept_answer = Accepted rstr | AcceptFailed rstr

definition stop_accept_loop :: "rstr \<Rightarrow> daemon \<Rightarrow> daemon" where
  "stop_accept_loop i d = d\<lparr>dn_accept_loops := remove1 i (dn_accept_loops d)\<rparr>"

definition register_accepted_tcp_stream :: "daemon_env \<Rightarrow> rstr \<Rightarrow> session_state \<Rightarrow> nat \<Rightarrow> rstr \<Rightarrow> daemon \<Rightarrow> daemon" where
  "register_accepted_tcp_stream env i s a peer d =
     (let stream_id = ds_next_daemon_stream_id s;
          d = upd_session i (\<lambda>s. s\<lparr>ds_next_daemon_stream_id := stream_id + 2\<rparr>) d
      in case insert_tcp_stream (OwnAttachment a) stream_id d of (d, k) \<Rightarrow>
         (case meta_frame TcpAccept stream_id (\<lambda>(l, p). de_encode_accept env l p) (or_zero (ds_retained_listener s), peer) of
           Inl e \<Rightarrow> fst (send_tunnel_error_code env (owner_tunnel d (OwnAttachment a)) (Some (ds_generation s)) stream_id
                      (wire_value (he_code e)) (he_message e) False (cancel_tcp_stream (OwnAttachment a) stream_id d))
         | Inr f \<Rightarrow> (case sender_send (owner_tunnel d (OwnAttachment a)) f d of
             (d, Inl e) \<Rightarrow> stop_accept_loop i (cancel_tcp_stream (OwnAttachment a) stream_id d)
           | (d, Inr _) \<Rightarrow> spawn_reader (TcpReader (OwnAttachment a) stream_id k (ds_generation s)) d)))"

text \<open>A round of the accept loop of a session, with the answer of the listener where it gets to ask it.\<close>

definition accept_round :: "daemon_env \<Rightarrow> rstr \<Rightarrow> accept_answer \<Rightarrow> daemon \<Rightarrow> daemon" where
  "accept_round env i answer d = (case tab_get (dn_objects d) i of
     None \<Rightarrow> d
   | Some s \<Rightarrow>
       if ds_root_cancelled s \<or> dn_shutdown d then stop_accept_loop i d
       else (case ds_attachment s of
         None \<Rightarrow> d
       | Some a \<Rightarrow> (case tab_get (dn_attachments d) a of
           None \<Rightarrow> d
         | Some x \<Rightarrow>
             if attachment_cancelled d x then d
             else (case answer of
               AcceptFailed e \<Rightarrow> stop_accept_loop i (fst (send_tunnel_error env (ah_tunnel x) (Some (ds_generation s))
                 (or_zero (ds_retained_listener s)) RcPortAcceptFailed e False d))
             | Accepted peer \<Rightarrow> (case try_acquire PermActiveTcpStream 1 d of
                 Inl e \<Rightarrow> fst (send_forward_drop_report env (ah_tunnel x) (or_zero (ds_retained_listener s))
                   DropTcpStream (wire_value (he_code e)) (he_message e) d)
               | Inr _ \<Rightarrow> register_accepted_tcp_stream env i s a peer d)))))"

definition tcp_connect_with_timeout :: "connect_answer \<Rightarrow> unit host_result" where
  "tcp_connect_with_timeout answer = (case answer of
     Connected \<Rightarrow> Inr ()
   | ConnectTimedOut \<Rightarrow> Inl (operational_error RcPortConnectFailed (lit ''tcp connect timed out''))
   | ConnectFailed e \<Rightarrow> Inl (operational_error RcPortConnectFailed e))"

definition tunnel_tcp_connect :: "daemon_env \<Rightarrow> os_answers \<Rightarrow> nat \<Rightarrow> frame \<Rightarrow> daemon \<Rightarrow> daemon \<times> unit host_result" where
  "tunnel_tcp_connect env os t f d =
     andThen (d, bindR (active_access d t) (\<lambda>acc. require_connect_tunnel acc Tcp (lit ''tcp connect''))) (\<lambda>d _.
     andThen (d, endpoint_of env ensure_nonzero_connect_endpoint f) (\<lambda>d endpoint.
     andThen (d, tcp_connect_with_timeout (oa_connect os)) (\<lambda>d _.
     andThen (d, try_acquire PermActiveTcpStream 1 d) (\<lambda>d _.
     case insert_tcp_stream (OwnTunnel t) (fr_stream_id f) d of (d, k) \<Rightarrow>
     andThen (sender_send t (empty_frame TcpConnectOk (fr_stream_id f)) d) (\<lambda>d _.
       (spawn_reader (TcpReader (OwnTunnel t) (fr_stream_id f) k
          (case tab_get (dn_tunnels d) t of Some u \<Rightarrow> cr_generation (dt_runtime u) | None \<Rightarrow> 0)) d, Inr ()))))))"

text \<open>A round of the read loop of a stream; an empty read is the end of the stream.\<close>

definition stop_reader :: "reader_task \<Rightarrow> daemon \<Rightarrow> daemon" where
  "stop_reader r d = d\<lparr>dn_readers := remove1 r (dn_readers d)\<rparr>"

definition tcp_read_round ::
  "daemon_env \<Rightarrow> stream_owner \<Rightarrow> u32 \<Rightarrow> nat \<Rightarrow> nat \<Rightarrow> (rstr, bytes) result \<Rightarrow> daemon \<Rightarrow> daemon" where
  "tcp_read_round env own i k generation answer d =
     (let r = TcpReader own i k generation; t = owner_tunnel d own in
      if token_cancelled d k then stop_reader r (cleanup_tcp_stream own i d)
      else case answer of
        Inr [] \<Rightarrow> stop_reader r (clear_tcp_cancel own i (fst (sender_send t (empty_frame TcpEof i) d)))
      | Inr (b # bs) \<Rightarrow> (case sender_send t (data_frame TcpData i (b # bs)) d of
          (d, Inl e) \<Rightarrow> stop_reader r (cancel_tcp_stream own i
            (fst (send_tunnel_error_code env t (Some generation) i (wire_value (he_code e)) (he_message e) False d)))
        | (d, Inr _) \<Rightarrow> d)
      | Inl e \<Rightarrow> stop_reader r (cancel_tcp_stream own i
          (fst (send_tunnel_error env t (Some generation) i RcPortReadFailed e False d))))"

text \<open>A round of the write loop of a stream, with whether its socket takes what is written.\<close>

definition tcp_write_round :: "nat \<Rightarrow> bool \<Rightarrow> daemon \<Rightarrow> daemon" where
  "tcp_write_round k written d = (case tab_get (dn_writers d) k of
     None \<Rightarrow> d
   | Some w \<Rightarrow>
       let upd = (\<lambda>f d. d\<lparr>dn_writers := tab_modify k f (dn_writers d)\<rparr>);
           stop = upd (\<lambda>w. w\<lparr>dw_running := False, dw_queue := []\<rparr>)
       in if \<not> dw_running w then d
          else if token_cancelled d k then stop d
          else (case dw_queue w of
            [] \<Rightarrow> if dw_sender w then d else stop d
          | CmdData data # rest \<Rightarrow>
              if written then upd (\<lambda>w. w\<lparr>dw_queue := rest, dw_written := dw_written w @ data\<rparr>) d
              else cancel_token k (stop d)
          | CmdShutdown # rest \<Rightarrow> stop (upd (\<lambda>w. w\<lparr>dw_shutdown := True\<rparr>) d)))"

definition optional_tcp_writer :: "stream_owner \<Rightarrow> u32 \<Rightarrow> daemon \<Rightarrow> nat option" where
  "optional_tcp_writer own i d = map_option tse_token (tab_get (tcp_streams d own) i)"

definition lookup_tcp_writer :: "stream_owner \<Rightarrow> u32 \<Rightarrow> daemon \<Rightarrow> nat host_result" where
  "lookup_tcp_writer own i d = ok_or (optional_tcp_writer own i d)
     (request_error RcUnknownPortConnection (lit ''unknown tunnel tcp stream `'' @ dec_str (unat i) @ lit ''`''))"

definition push_command :: "nat \<Rightarrow> tcp_write_command \<Rightarrow> daemon \<Rightarrow> daemon" where
  "push_command k c d = d\<lparr>dn_writers := tab_modify k (\<lambda>w. w\<lparr>dw_queue := dw_queue w @ [c]\<rparr>) (dn_writers d)\<rparr>"

definition writer_running :: "nat \<Rightarrow> daemon \<Rightarrow> bool" where
  "writer_running k d = (case tab_get (dn_writers d) k of Some w \<Rightarrow> dw_running w | None \<Rightarrow> False)"

definition writer_full :: "nat \<Rightarrow> daemon \<Rightarrow> bool" where
  "writer_full k d = (case tab_get (dn_writers d) k of Some w \<Rightarrow> length (dw_queue w) \<ge> TCP_WRITE_QUEUE_FRAMES | None \<Rightarrow> False)"

definition tunnel_tcp_data :: "nat \<Rightarrow> u32 \<Rightarrow> bytes \<Rightarrow> daemon \<Rightarrow> daemon \<times> unit host_result" where
  "tunnel_tcp_data t i data d =
     andThen (d, bindR (active_access d t) (\<lambda>acc. require_access acc Tcp (lit ''tcp data'') False)) (\<lambda>d acc.
     andThen (d, lookup_tcp_writer (access_owner t acc) i d) (\<lambda>d k.
       if \<not> writer_running k d
       then (d, Inl (operational_error RcPortConnectionClosed (lit ''connection was closed'')))
       else if writer_full k d
       then (cancel_token k d, Inl (request_error RcPortTunnelLimitExceeded (lit ''tcp write queue limit reached'')))
       else (push_command k (CmdData data) d, Inr ())))"

text \<open>A shutdown waits for room where the queue is full.\<close>

definition send_tcp_shutdown :: "bool \<Rightarrow> nat \<Rightarrow> daemon \<Rightarrow> daemon \<times> bool" where
  "send_tcp_shutdown room k d =
     (if writer_running k d \<and> (\<not> writer_full k d \<or> room) then (push_command k CmdShutdown d, True) else (d, False))"

definition tunnel_tcp_eof :: "os_answers \<Rightarrow> nat \<Rightarrow> u32 \<Rightarrow> daemon \<Rightarrow> daemon \<times> unit host_result" where
  "tunnel_tcp_eof os t i d = andThen (d, active_access d t) (\<lambda>d acc.
     case protocol_access_if acc Tcp of
       None \<Rightarrow> (d, Inr ())
     | Some pa \<Rightarrow> (case optional_tcp_writer (access_owner t pa) i d of
         None \<Rightarrow> (d, Inr ())
       | Some k \<Rightarrow> (case send_tcp_shutdown (oa_room os) k d of
           (d, sent) \<Rightarrow> (if sent then clear_tcp_cancel (access_owner t pa) i d else d, Inr ()))))"

text \<open>Closing one stream; where it is the stream of the session's bind or listener, the session ends.\<close>

definition close_session_stream :: "daemon_env \<Rightarrow> nat \<Rightarrow> nat \<Rightarrow> rstr \<Rightarrow> nat \<Rightarrow> u32 \<Rightarrow> daemon \<Rightarrow> daemon" where
  "close_session_stream env now t i a stream_id d =
     (let d = cancel_tcp_stream (OwnAttachment a) stream_id d;
          d = (case Option.bind (tab_get (dn_attachments d) a) (\<lambda>x. tab_get (ah_udp_readers x) stream_id) of
                 Some k \<Rightarrow> cancel_token k
                   (upd_attachment a (\<lambda>x. x\<lparr>ah_udp_readers := tab_remove stream_id (ah_udp_readers x)\<rparr>) d)
               | None \<Rightarrow> d);
          d = (if udp_bind_stream_id i d = Some stream_id then close_attached_session env now t GracefulClose d else d)
      in if listener_stream_id i d = Some stream_id then close_attached_session env now t GracefulClose d else d)"

definition remove_udp_bind :: "nat \<Rightarrow> u32 \<Rightarrow> daemon \<Rightarrow> daemon" where
  "remove_udp_bind t i d =
     (case Option.bind (tab_get (dn_tunnels d) t) (\<lambda>u. tab_get (cr_udp_binds (dt_runtime u)) i) of
       Some k \<Rightarrow> cancel_token k
         (upd_tunnel t (dt_runtime_update (\<lambda>r. r\<lparr>cr_udp_binds := tab_remove i (cr_udp_binds r)\<rparr>)) d)
     | None \<Rightarrow> d)"

definition daemon_close_stream :: "daemon_env \<Rightarrow> nat \<Rightarrow> nat \<Rightarrow> u32 \<Rightarrow> daemon \<Rightarrow> daemon \<times> unit host_result" where
  "daemon_close_stream env now t stream_id d = andThen (d, active_access d t) (\<lambda>d acc.
     sender_send t (empty_frame FClose stream_id) (case acc of
       AccListen p i a \<Rightarrow> close_session_stream env now t i a stream_id d
     | AccConnect p \<Rightarrow> remove_udp_bind t stream_id (cancel_tcp_stream (OwnTunnel t) stream_id d)
     | AccUnopened \<Rightarrow> d))"

section \<open>UDP sockets\<close>

definition tunnel_udp_bind_connection_local ::
  "daemon_env \<Rightarrow> os_answers \<Rightarrow> nat \<Rightarrow> frame \<Rightarrow> daemon \<Rightarrow> daemon \<times> unit host_result" where
  "tunnel_udp_bind_connection_local env os t f d =
     andThen (d, endpoint_of env normalize_endpoint f) (\<lambda>d endpoint.
     andThen (d, map_err (operational_error RcPortBindFailed) (oa_bind os)) (\<lambda>d bound.
     andThen (d, try_acquire PermUdpBind 1 d) (\<lambda>d _.
     case child_token (OwnTunnel t) d of (d, k) \<Rightarrow>
     let d = upd_tunnel t (dt_runtime_update (\<lambda>r. r\<lparr>cr_udp_binds := tab_insert (fr_stream_id f) k (cr_udp_binds r)\<rparr>)) d in
     andThen (d, meta_frame UdpBindOk (fr_stream_id f) (de_encode_endpoint env) bound) (\<lambda>d ok.
     andThen (sender_send t ok d) (\<lambda>d _.
       (spawn_reader (UdpReader (OwnTunnel t) (fr_stream_id f) k
          (case tab_get (dn_tunnels d) t of Some u \<Rightarrow> cr_generation (dt_runtime u) | None \<Rightarrow> 0)) d, Inr ()))))))"

definition tunnel_udp_bind :: "daemon_env \<Rightarrow> os_answers \<Rightarrow> nat \<Rightarrow> frame \<Rightarrow> daemon \<Rightarrow> daemon \<times> unit host_result" where
  "tunnel_udp_bind env os t f d =
     andThen (d, bindR (active_access d t) (\<lambda>acc. require_access acc Udp (lit ''udp bind'') True)) (\<lambda>d acc. case acc of
       PaConnect \<Rightarrow> tunnel_udp_bind_connection_local env os t f d
     | PaListen i a \<Rightarrow>
         andThen (d, endpoint_of env normalize_endpoint f) (\<lambda>d endpoint.
         andThen (d, map_err (operational_error RcPortBindFailed) (oa_bind os)) (\<lambda>d bound.
         let socket = dn_next d in
         andThen (replace_udp_bind i (fr_stream_id f) socket (d\<lparr>dn_next := Suc socket\<rparr>)) (\<lambda>d _.
         andThen (d, meta_frame UdpBindOk (fr_stream_id f) (de_encode_endpoint env) bound) (\<lambda>d ok.
         andThen (sender_send t ok d) (\<lambda>d _. reactivate_retained_udp_bind i d))))))"

datatype udp_receive = Received bytes rstr | PeerUnreachable rstr | ReceiveFailed rstr

definition close_on_terminal_send_failure :: "stream_owner \<Rightarrow> u32 \<Rightarrow> daemon \<Rightarrow> daemon" where
  "close_on_terminal_send_failure own i d = (case own of
     OwnTunnel t \<Rightarrow> remove_udp_bind t i d
   | OwnAttachment a \<Rightarrow> (case Option.bind (tab_get (dn_attachments d) a) (\<lambda>x. tab_get (ah_udp_readers x) i) of
       Some k \<Rightarrow> cancel_token k (upd_attachment a (\<lambda>x. x\<lparr>ah_udp_readers := tab_remove i (ah_udp_readers x)\<rparr>) d)
     | None \<Rightarrow> d))"

definition udp_read_round ::
  "daemon_env \<Rightarrow> stream_owner \<Rightarrow> u32 \<Rightarrow> nat \<Rightarrow> nat \<Rightarrow> udp_receive \<Rightarrow> daemon \<Rightarrow> daemon" where
  "udp_read_round env own i k generation answer d =
     (let r = UdpReader own i k generation; t = owner_tunnel d own;
          fail = (\<lambda>e d. fst (send_tunnel_error_code env t (Some generation) i (wire_value (he_code e)) (he_message e) False d));
          read_failed = (\<lambda>e. stop_reader r (fst (send_tunnel_error env t (Some generation) i RcPortReadFailed e False d)))
      in if token_cancelled d k then stop_reader r d
      else case answer of
        PeerUnreachable e \<Rightarrow> (case own of
          OwnAttachment a \<Rightarrow> fst (send_forward_drop_report env t i DropUdpDatagram (wire_value RcPortReadFailed) e d)
        | OwnTunnel _ \<Rightarrow> read_failed e)
      | ReceiveFailed e \<Rightarrow> read_failed e
      | Received data peer \<Rightarrow> (case encode_frame_meta (de_encode_peer env) peer of
          Inl e \<Rightarrow> stop_reader r (fail e d)
        | Inr meta \<Rightarrow> (case sender_send t (raw_frame UdpDatagram i meta data) d of
            (d, Inr _) \<Rightarrow> d
          | (d, Inl e) \<Rightarrow>
              if is_recoverable_pressure_error e
              then fst (send_forward_drop_report env t i DropUdpDatagram (wire_value (he_code e)) (he_message e) d)
              else stop_reader r (close_on_terminal_send_failure own i (fail e d)))))"

definition unknown_udp_error :: "u32 \<Rightarrow> host_rpc_error" where
  "unknown_udp_error i = request_error RcUnknownPortBind (lit ''unknown tunnel udp stream `'' @ dec_str (unat i) @ lit ''`'')"

definition tunnel_udp_datagram :: "daemon_env \<Rightarrow> os_answers \<Rightarrow> nat \<Rightarrow> frame \<Rightarrow> daemon \<Rightarrow> daemon \<times> unit host_result" where
  "tunnel_udp_datagram env os t f d =
     andThen (d, decode_frame_meta (de_decode_peer env) f) (\<lambda>d peer.
     andThen (d, bindR (active_access d t) (\<lambda>acc. require_access acc Udp (lit ''udp datagram'') False)) (\<lambda>d acc.
     andThen (d, ok_or (case acc of
         PaListen i a \<Rightarrow> Option.bind (tab_get (dn_objects d) i) (\<lambda>s. session_udp_socket s (fr_stream_id f))
       | PaConnect \<Rightarrow> Option.bind (tab_get (dn_tunnels d) t) (\<lambda>u. tab_get (cr_udp_binds (dt_runtime u)) (fr_stream_id f)))
       (unknown_udp_error (fr_stream_id f))) (\<lambda>d socket.
     andThen (d, map_err (operational_error RcPortWriteFailed) (oa_send_to os)) (\<lambda>d _.
       (d\<lparr>dn_datagrams := dn_datagrams d @ [(socket, peer, fr_data f)]\<rparr>, Inr ())))))"

section \<open>Serving a tunnel\<close>

definition handle_tunnel_frame ::
  "daemon_env \<Rightarrow> os_answers \<Rightarrow> nat \<Rightarrow> rstr \<Rightarrow> nat \<Rightarrow> frame \<Rightarrow> daemon \<Rightarrow> daemon \<times> unit host_result" where
  "handle_tunnel_frame env os now fresh t f d =
     (if fr_type f = TunnelOpen then tunnel_open env now fresh t f d
      else if fr_type f = TunnelClose then tunnel_close env t f d
      else if fr_type f = TunnelHeartbeat then sender_send t (raw_frame TunnelHeartbeatAck 0 (fr_meta f) []) d
      else if fr_type f = TcpListen then tunnel_tcp_listen env os t f d
      else if fr_type f = TcpConnect then tunnel_tcp_connect env os t f d
      else if fr_type f = TcpData then tunnel_tcp_data t (fr_stream_id f) (fr_data f) d
      else if fr_type f = TcpEof then tunnel_tcp_eof os t (fr_stream_id f) d
      else if fr_type f = FClose then daemon_close_stream env now t (fr_stream_id f) d
      else if fr_type f = UdpBind then tunnel_udp_bind env os t f d
      else if fr_type f = UdpDatagram then tunnel_udp_datagram env os t f d
      else (d, Inl (request_error RcInvalidPortTunnel
        (lit ''unexpected frame type `'' @ de_show_frame_type env (fr_type f) @ lit ''` from broker''))))"

datatype tunnel_read = ReadFrame frame | ReadEof | ReadFailed rstr

text \<open>A round of the read loop: None when it goes on.\<close>

definition tunnel_read_round ::
  "daemon_env \<Rightarrow> os_answers \<Rightarrow> nat \<Rightarrow> rstr \<Rightarrow> nat \<Rightarrow> tunnel_read \<Rightarrow> daemon \<Rightarrow>
   daemon \<times> session_close_mode host_result option" where
  "tunnel_read_round env os now fresh t r d =
     (if tunnel_cancelled d t then (d, Some (Inr RetryableDetach))
      else case r of
        ReadEof \<Rightarrow> (d, Some (Inr RetryableDetach))
      | ReadFailed e \<Rightarrow>
          (fst (send_tunnel_error env t (connection_generation d t) 0 RcInvalidPortTunnel e True d),
           Some (Inl (request_error RcInvalidPortTunnel e)))
      | ReadFrame f \<Rightarrow> (case handle_tunnel_frame env os now fresh t f d of
          (d, Inl e) \<Rightarrow> (fst (send_tunnel_error_code env t (connection_generation d t) (fr_stream_id f)
             (wire_value (he_code e)) (he_message e) False d), None)
        | (d, Inr _) \<Rightarrow>
            (d, if fr_type f = TunnelClose \<and> fr_stream_id f = 0 then Some (Inr GracefulClose) else None)))"

text \<open>What follows the read loop: the runtime is closed, the tunnel cancelled and its permit dropped.\<close>

definition finish_tunnel :: "daemon_env \<Rightarrow> nat \<Rightarrow> nat \<Rightarrow> session_close_mode host_result \<Rightarrow> daemon \<Rightarrow> daemon" where
  "finish_tunnel env now t r d =
     upd_tunnel t (\<lambda>u. u\<lparr>dt_cancelled := True, dt_served := False\<rparr>)
       (close_tunnel_runtime env now t (close_mode_for_tunnel_result r (dn_shutdown d)) d)"

definition serve_round ::
  "daemon_env \<Rightarrow> os_answers \<Rightarrow> nat \<Rightarrow> rstr \<Rightarrow> nat \<Rightarrow> tunnel_read \<Rightarrow> daemon \<Rightarrow> daemon" where
  "serve_round env os now fresh t r d = (case tunnel_read_round env os now fresh t r d of
     (d, None) \<Rightarrow> d | (d, Some res) \<Rightarrow> finish_tunnel env now t res d)"

definition serve_tunnel :: "nat \<Rightarrow> daemon \<Rightarrow> daemon \<times> unit host_result" where
  "serve_tunnel t d = andThen (d, try_acquire PermTunnelConnection 1 d) (\<lambda>d _.
     (d\<lparr>dn_tunnels := tab_insert t new_tunnel_state (dn_tunnels d)\<rparr>, Inr ()))"

text \<open>A round of the writer of a tunnel, with whether the connection takes the frame.\<close>

definition tunnel_write_round :: "nat \<Rightarrow> bool \<Rightarrow> daemon \<Rightarrow> daemon" where
  "tunnel_write_round t written d = (case tab_get (dn_tunnels d) t of
     None \<Rightarrow> d
   | Some u \<Rightarrow>
       if \<not> dt_writer_open u then d
       else (case dt_queue u of
         [] \<Rightarrow> if tunnel_cancelled d t then upd_tunnel t (\<lambda>u. u\<lparr>dt_writer_open := False\<rparr>) d else d
       | f # fs \<Rightarrow>
           if written then upd_tunnel t (\<lambda>u. u\<lparr>dt_queue := fs, dt_written := dt_written u @ [f]\<rparr>) d
           else upd_tunnel t (\<lambda>u. u\<lparr>dt_queue := [], dt_writer_open := False, dt_cancelled := True\<rparr>) d))"

section \<open>Steps\<close>

text \<open>An attachment is dropped with the last reference to it, and the entries of its streams with it.\<close>

definition reader_owner :: "reader_task \<Rightarrow> stream_owner" where
  "reader_owner r = (case r of TcpReader own i k g \<Rightarrow> own | UdpReader own i k g \<Rightarrow> own)"

definition attachment_referenced :: "daemon \<Rightarrow> nat \<Rightarrow> bool" where
  "attachment_referenced d a \<longleftrightarrow> (\<exists>(i, s) \<in> set (dn_objects d). ds_attachment s = Some a) \<or>
     (\<exists>r \<in> set (dn_readers d). reader_owner r = OwnAttachment a)"

definition drop_attachment :: "nat \<Rightarrow> daemon \<Rightarrow> daemon" where
  "drop_attachment a d = fold (\<lambda>(i, e). drop_sender (tse_token e)) (tcp_streams d (OwnAttachment a))
     (d\<lparr>dn_attachments := tab_remove a (dn_attachments d)\<rparr>)"

text \<open>
  One step of the daemon: a new connection, a round of one of its loops, an expiry, the shutdown of the
  host, or a dropped attachment. The flag tells whether the step may open a tunnel that is open already.
\<close>

inductive daemon_step :: "daemon_env \<Rightarrow> bool \<Rightarrow> daemon \<Rightarrow> daemon \<Rightarrow> bool" for env reopen where
  serve: "tab_get (dn_tunnels d) t = None \<Longrightarrow> daemon_step env reopen d (fst (serve_tunnel t d))"
| read: "tab_get (dn_tunnels d) t = Some u \<Longrightarrow> dt_served u \<Longrightarrow> tab_get (dn_objects d) fresh = None \<Longrightarrow>
    reopen \<or> dt_active u = ActUnopened \<or> (\<forall>f. r = ReadFrame f \<longrightarrow> fr_type f \<noteq> TunnelOpen) \<Longrightarrow>
    daemon_step env reopen d (serve_round env os now fresh t r d)"
| put: "daemon_step env reopen d (tunnel_write_round t written d)"
| accept: "i \<in> set (dn_accept_loops d) \<Longrightarrow> daemon_step env reopen d (accept_round env i answer d)"
| tcp_read: "TcpReader own i k g \<in> set (dn_readers d) \<Longrightarrow> daemon_step env reopen d (tcp_read_round env own i k g bytes d)"
| udp_read: "UdpReader own i k g \<in> set (dn_readers d) \<Longrightarrow> daemon_step env reopen d (udp_read_round env own i k g received d)"
| tcp_write: "daemon_step env reopen d (tcp_write_round k written d)"
| expire: "tab_get (dn_objects d) i = Some s \<Longrightarrow> ds_expiry_task s = Some due \<Longrightarrow> due \<le> now \<Longrightarrow>
    daemon_step env reopen d (expire_session now i d)"
| shutdown: "daemon_step env reopen d (d\<lparr>dn_shutdown := True\<rparr>)"
| drop: "\<not> attachment_referenced d a \<Longrightarrow> daemon_step env reopen d (drop_attachment a d)"

section \<open>What a step leaves alone\<close>

text \<open>
  The part of the state that decides who looks after a session: the store, of each session its attachment,
  deadline, expiry task and generation, of each attachment its tunnel, and of each tunnel what it is open for.
\<close>

definition session_core :: "session_state \<Rightarrow> nat option \<times> nat option \<times> nat option \<times> nat" where
  "session_core s = (ds_attachment s, ds_resume_deadline s, ds_expiry_task s, ds_generation s)"

definition tunnel_core :: "tunnel_state \<Rightarrow> active_tunnel_state \<times> nat \<times> bool" where
  "tunnel_core u = (dt_active u, dt_last_generation u, dt_served u)"

definition dcore :: "daemon \<Rightarrow> rstr list \<times> (rstr \<Rightarrow> (nat option \<times> nat option \<times> nat option \<times> nat) option) \<times>
    (nat \<Rightarrow> nat option) \<times> (nat \<Rightarrow> (active_tunnel_state \<times> nat \<times> bool) option)" where
  "dcore d = (dn_sessions d, (\<lambda>i. map_option session_core (tab_get (dn_objects d) i)),
     (\<lambda>a. map_option ah_tunnel (tab_get (dn_attachments d) a)),
     (\<lambda>t. map_option tunnel_core (tab_get (dn_tunnels d) t)))"

lemma get_modify: "tab_get (tab_modify k f t) j = (if j = k then map_option f (tab_get t k) else tab_get t j)"
  by (simp add: tab_modify_def tab.get_insert split: option.splits)

lemma dcore_session: "(\<And>s. session_core (f s) = session_core s) \<Longrightarrow> dcore (upd_session i f d) = dcore d"
  by (auto simp: dcore_def get_modify option.map_comp comp_def)

lemma dcore_attachment: "(\<And>x. ah_tunnel (f x) = ah_tunnel x) \<Longrightarrow> dcore (upd_attachment a f d) = dcore d"
  by (auto simp: dcore_def get_modify option.map_comp comp_def)

lemma dcore_tunnel: "(\<And>u. tunnel_core (f u) = tunnel_core u) \<Longrightarrow> dcore (upd_tunnel t f d) = dcore d"
  by (auto simp: dcore_def get_modify option.map_comp comp_def)

lemma dcore_other [simp]:
  "dcore (d\<lparr>dn_writers := ws\<rparr>) = dcore d" "dcore (d\<lparr>dn_owners := os\<rparr>) = dcore d" "dcore (d\<lparr>dn_cancelled := ks\<rparr>) = dcore d"
  "dcore (d\<lparr>dn_readers := rs\<rparr>) = dcore d" "dcore (d\<lparr>dn_accept_loops := as\<rparr>) = dcore d" "dcore (d\<lparr>dn_datagrams := gs\<rparr>) = dcore d"
  "dcore (d\<lparr>dn_next := n\<rparr>) = dcore d" "dcore (d\<lparr>dn_shutdown := b\<rparr>) = dcore d"
  by (simp_all add: dcore_def)

lemma dcore_streams [simp]:
  "dcore (set_tcp_streams own m d) = dcore d" "dcore (cancel_token k d) = dcore d" "dcore (drop_sender k d) = dcore d"
  "dcore (cancel_entry e d) = dcore d" "dcore (cleanup_tcp_stream own i d) = dcore d" "dcore (cancel_tcp_stream own i d) = dcore d"
  "dcore (clear_tcp_cancel own i d) = dcore d"
  by (simp_all add: set_tcp_streams_def cancel_token_def drop_sender_def cancel_entry_def cleanup_tcp_stream_def
      cancel_tcp_stream_def clear_tcp_cancel_def dcore_attachment dcore_tunnel tunnel_core_def split: stream_owner.split option.split)

lemma dcore_fold: "(\<And>x d. dcore (f x d) = dcore d) \<Longrightarrow> dcore (fold f xs d) = dcore d"
  by (induction xs arbitrary: d) simp_all

lemma dcore_drains [simp]:
  "dcore (cancel_all own d) = dcore d" "dcore (drain_attachment a d) = dcore d" "dcore (close_non_resumable_streams i d) = dcore d"
  "dcore (close_retained_resources i d) = dcore d"
proof -
  show all: "dcore (cancel_all own d) = dcore d" for own d
    by (simp add: cancel_all_def dcore_fold split_def)
  show drain: "dcore (drain_attachment a d) = dcore d" for a d
    by (simp add: drain_attachment_def Let_def dcore_fold split_def dcore_attachment all split: option.split)
  show close: "dcore (close_non_resumable_streams i d) = dcore d" for i d
    by (simp add: close_non_resumable_streams_def drain split: option.split)
  show "dcore (close_retained_resources i d) = dcore d"
    by (simp add: close_retained_resources_def close dcore_session session_core_def)
qed

lemma dcore_send [simp]: "dcore (fst (sender_send t f d)) = dcore d"
  by (simp add: sender_send_def dcore_tunnel tunnel_core_def split: sum.split option.split)

lemma dcore_reports [simp]:
  "dcore (fst (send_tunnel_error_code env t g i c m fatal d)) = dcore d" "dcore (fst (send_tunnel_error env t g i rc m fatal d)) = dcore d"
  "dcore (fst (send_forward_drop_report env t i kind r m d)) = dcore d"
  by (simp_all add: send_tunnel_error_code_def send_tunnel_error_def send_forward_drop_report_def andThen_def split: sum.split)

end
