(* ===== verification/Daemon_Sessions.thy ===== *)
theory Daemon_Sessions imports Daemon_Tunnel
begin

text \<open>
  What the daemon guarantees for its listen sessions: every retained session is looked after, by a tunnel
  or by its expiry, as long as no open tunnel is opened again, and a tunnel that is opened again loses its
  session. The first sections show which steps leave the core of the state alone.
\<close>

section \<open>Frame handlers and the core\<close>

lemma dcore_andThen:
  assumes "dcore (fst m) = c" "\<And>d a. dcore d = c \<Longrightarrow> dcore (fst (f d a)) = c"
  shows "dcore (fst (andThen m f)) = c"
  using andThen_world [of "\<lambda>d. dcore d = c" m f] assms by blast

lemma dcore_child_token [simp]: "dcore (fst (child_token own d)) = dcore d"
  by (simp add: child_token_def dcore_def)

lemma dcore_insert_stream [simp]: "dcore (fst (insert_tcp_stream own i d)) = dcore d"
proof -
  obtain d1 k where c: "child_token own d = (d1, k)" by fastforce
  then have "dcore d1 = dcore d" using dcore_child_token [of own d] by simp
  then show ?thesis by (simp add: insert_tcp_stream_def c Let_def split: option.split)
qed

lemma dcore_small [simp]:
  "dcore (spawn_reader r d) = dcore d" "dcore (stop_reader r d) = dcore d" "dcore (stop_accept_loop i d) = dcore d"
  "dcore (push_command k c d) = dcore d" "dcore (cancel_root i d) = dcore d" "dcore (remove_udp_bind t j d) = dcore d"
  by (simp_all add: spawn_reader_def stop_reader_def stop_accept_loop_def push_command_def cancel_root_def remove_udp_bind_def
      dcore_session session_core_def dcore_tunnel tunnel_core_def split: option.split)

lemma dcore_replace [simp]:
  "dcore (fst (replace_listener i stream_id d)) = dcore d" "dcore (fst (replace_udp_bind i stream_id socket d)) = dcore d"
  unfolding replace_listener_def replace_udp_bind_def
  by (rule dcore_andThen; simp add: dcore_session session_core_def)+

lemma dcore_reactivate [simp]: "dcore (fst (reactivate_retained_udp_bind i d)) = dcore d"
proof (cases "tab_get (dn_objects d) i")
  case (Some s)
  then show ?thesis
  proof (cases "ds_retained_udp_bind s"; cases "ds_attachment s")
    fix b a assume h: "ds_retained_udp_bind s = Some b" "ds_attachment s = Some a"
    obtain d1 k where c: "child_token (OwnAttachment a) d = (d1, k)" by fastforce
    then have "dcore d1 = dcore d" using dcore_child_token [of "OwnAttachment a" d] by simp
    then show ?thesis
      using Some h by (simp add: reactivate_retained_udp_bind_def c Let_def dcore_attachment split: option.split)
  qed (simp_all add: reactivate_retained_udp_bind_def)
qed (simp add: reactivate_retained_udp_bind_def)

lemma dcore_tcp_listen [simp]: "dcore (fst (tunnel_tcp_listen env os t f d)) = dcore d"
  unfolding tunnel_tcp_listen_def split_def by (intro dcore_andThen) simp_all

lemma dcore_tcp_connect [simp]: "dcore (fst (tunnel_tcp_connect env os t f d)) = dcore d"
  unfolding tunnel_tcp_connect_def split_def by (intro dcore_andThen) simp_all

lemma dcore_tcp_data [simp]: "dcore (fst (tunnel_tcp_data t i data d)) = dcore d"
  unfolding tunnel_tcp_data_def by (intro dcore_andThen) simp_all

lemma dcore_tcp_eof [simp]: "dcore (fst (tunnel_tcp_eof os t i d)) = dcore d"
  unfolding tunnel_tcp_eof_def
  by (intro dcore_andThen) (simp_all add: send_tcp_shutdown_def split: option.split)

lemma dcore_udp_bind [simp]: "dcore (fst (tunnel_udp_bind env os t f d)) = dcore d"
proof -
  have local: "dcore (fst (tunnel_udp_bind_connection_local env os t f d)) = dcore d" for d
    unfolding tunnel_udp_bind_connection_local_def split_def Let_def
    by (intro dcore_andThen) (simp_all add: dcore_tunnel tunnel_core_def)
  show ?thesis
    unfolding tunnel_udp_bind_def Let_def
    by (rule dcore_andThen, simp, split protocol_access.split, intro conjI allI impI dcore_andThen) (simp_all add: local)
qed

lemma dcore_udp_datagram [simp]: "dcore (fst (tunnel_udp_datagram env os t f d)) = dcore d"
  unfolding tunnel_udp_datagram_def by (intro dcore_andThen) simp_all

lemma dcore_tunnel_close [simp]: "dcore (fst (tunnel_close env t f d)) = dcore d"
  unfolding tunnel_close_def by (intro dcore_andThen) simp_all

lemma dcore_ready [simp]: "dcore (fst (send_tunnel_ready env t g i r d)) = dcore d"
  unfolding send_tunnel_ready_def by (intro dcore_andThen) simp_all

section \<open>Rounds of the tasks and the core\<close>

lemma dcore_put [simp]: "dcore (tunnel_write_round t written d) = dcore d"
  by (simp add: tunnel_write_round_def dcore_tunnel tunnel_core_def split: option.split list.split)

lemma dcore_tcp_write [simp]: "dcore (tcp_write_round k written d) = dcore d"
  by (simp add: tcp_write_round_def Let_def split: option.split list.split tcp_write_command.split)

lemma dcore_tcp_read [simp]: "dcore (tcp_read_round env own i k g bytes d) = dcore d"
  by (simp add: tcp_read_round_def Let_def split_def split: sum.split list.split)

lemma dcore_udp_read [simp]: "dcore (udp_read_round env own i k g received d) = dcore d"
proof -
  have close: "dcore (close_on_terminal_send_failure own i d) = dcore d" for d
    by (simp add: close_on_terminal_send_failure_def dcore_attachment split: stream_owner.split option.split)
  have send: "sender_send t f d = (d1, r) \<Longrightarrow> dcore d1 = dcore d" for t f d1 r
    using dcore_send [of t f d] by simp
  show ?thesis
    by (simp add: udp_read_round_def Let_def close split: udp_receive.split stream_owner.split sum.split prod.split)
      (metis send)
qed

lemma dcore_accept [simp]: "dcore (accept_round env i answer d) = dcore d"
proof -
  have ses: "dcore (upd_session i (\<lambda>s. s\<lparr>ds_next_daemon_stream_id := n\<rparr>) d) = dcore d" for n
    by (simp add: dcore_session session_core_def)
  have reg: "dcore (register_accepted_tcp_stream env i s a peer d) = dcore d" for s a peer
  proof -
    obtain d1 k where c: "insert_tcp_stream (OwnAttachment a) (ds_next_daemon_stream_id s)
        (upd_session i (\<lambda>x. x\<lparr>ds_next_daemon_stream_id := ds_next_daemon_stream_id s + 2\<rparr>) d) = (d1, k)" by fastforce
    then have d1: "dcore d1 = dcore d" using dcore_insert_stream ses by (metis fst_conv)
    have send: "sender_send t f d1 = (d2, r) \<Longrightarrow> dcore d2 = dcore d" for t f d2 r
      using dcore_send [of t f d1] d1 by simp
    show ?thesis
      unfolding register_accepted_tcp_stream_def Let_def c using d1 send by (auto split: sum.split prod.split)
  qed
  show ?thesis
    by (simp add: accept_round_def reg split: option.split accept_answer.split sum.split)
qed

section \<open>Fresh objects\<close>

text \<open>The identifiers of attachments are below the next one.\<close>

definition fresh_next :: "daemon \<Rightarrow> bool" where
  "fresh_next d \<longleftrightarrow> (\<forall>a. tab_get (dn_attachments d) a \<noteq> None \<longrightarrow> a < dn_next d)"

lemma dcore_eqD:
  assumes "dcore d = dcore d'"
  shows "dn_sessions d = dn_sessions d'"
    and "map_option session_core (tab_get (dn_objects d) i) = map_option session_core (tab_get (dn_objects d') i)"
    and "map_option ah_tunnel (tab_get (dn_attachments d) a) = map_option ah_tunnel (tab_get (dn_attachments d') a)"
    and "map_option tunnel_core (tab_get (dn_tunnels d) t) = map_option tunnel_core (tab_get (dn_tunnels d') t)"
  using assms unfolding dcore_def by (simp_all add: fun_eq_iff)

lemma dcore_attachments:
  "dcore d = dcore d' \<Longrightarrow> tab_get (dn_attachments d) a \<noteq> None \<longleftrightarrow> tab_get (dn_attachments d') a \<noteq> None"
  using dcore_eqD(3) [of d d' a] by (metis option.map_disc_iff)

lemma fresh_next_core: "dcore d' = dcore d \<Longrightarrow> dn_next d \<le> dn_next d' \<Longrightarrow> fresh_next d \<Longrightarrow> fresh_next d'"
  unfolding fresh_next_def using dcore_attachments [of d' d] order_less_le_trans by blast

lemma next_andThen:
  assumes "n \<le> dn_next (fst m)" "\<And>d a. n \<le> dn_next d \<Longrightarrow> n \<le> dn_next (fst (f d a))"
  shows "n \<le> dn_next (fst (andThen m f))"
  using andThen_world [of "\<lambda>d. n \<le> dn_next d" m f] assms by blast

lemma next_streams [simp]:
  "dn_next (set_tcp_streams own m d) = dn_next d" "dn_next (cancel_token k d) = dn_next d" "dn_next (drop_sender k d) = dn_next d"
  "dn_next (cancel_entry e d) = dn_next d" "dn_next (cleanup_tcp_stream own i d) = dn_next d"
  "dn_next (cancel_tcp_stream own i d) = dn_next d" "dn_next (clear_tcp_cancel own i d) = dn_next d"
  by (simp_all add: set_tcp_streams_def cancel_token_def drop_sender_def cancel_entry_def cleanup_tcp_stream_def
      cancel_tcp_stream_def clear_tcp_cancel_def split: stream_owner.split option.split)

lemma next_fold: "(\<And>x d. dn_next (f x d) = dn_next d) \<Longrightarrow> dn_next (fold f xs d) = dn_next d"
  by (induction xs arbitrary: d) simp_all

lemma next_drains [simp]:
  "dn_next (cancel_all own d) = dn_next d" "dn_next (drain_attachment a d) = dn_next d"
  "dn_next (close_non_resumable_streams i d) = dn_next d" "dn_next (close_retained_resources i d) = dn_next d"
  by (simp_all add: cancel_all_def drain_attachment_def close_non_resumable_streams_def close_retained_resources_def Let_def
      next_fold split_def split: option.split)

lemma next_send [simp]: "dn_next (fst (sender_send t f d)) = dn_next d"
  by (simp add: sender_send_def split: sum.split option.split)

lemma next_reports [simp]:
  "dn_next (fst (send_tunnel_error_code env t g i c m fatal d)) = dn_next d" "dn_next (fst (send_tunnel_error env t g i rc m fatal d)) = dn_next d"
  "dn_next (fst (send_forward_drop_report env t i kind r m d)) = dn_next d" "dn_next (fst (send_tunnel_ready env t generation ses ms d)) = dn_next d"
  by (simp_all add: send_tunnel_error_code_def send_tunnel_error_def send_forward_drop_report_def send_tunnel_ready_def andThen_def
      split: sum.split)

lemma next_small [simp]:
  "dn_next (spawn_reader r d) = dn_next d" "dn_next (stop_reader r d) = dn_next d" "dn_next (stop_accept_loop ses d) = dn_next d"
  "dn_next (push_command k c d) = dn_next d" "dn_next (cancel_root ses d) = dn_next d" "dn_next (remove_udp_bind t i d) = dn_next d"
  "dn_next (remove_session ses d) = dn_next d" "dn_next (terminate_session ses d) = dn_next d"
  by (simp_all add: spawn_reader_def stop_reader_def stop_accept_loop_def push_command_def cancel_root_def remove_udp_bind_def
      remove_session_def terminate_session_def split: option.split)

lemma next_tokens:
  "dn_next d \<le> dn_next (fst (child_token own d))" "dn_next d \<le> dn_next (fst (insert_tcp_stream own i d))"
  "dn_next d \<le> dn_next (fst (reactivate_retained_udp_bind ses d))"
  by (simp_all add: child_token_def insert_tcp_stream_def reactivate_retained_udp_bind_def Let_def split: option.split)

lemma next_handlers:
  "dn_next d \<le> dn_next (fst (tunnel_tcp_listen env os t f d))" "dn_next d \<le> dn_next (fst (tunnel_tcp_data t i data d))"
  "dn_next d \<le> dn_next (fst (tunnel_tcp_eof os t i d))" "dn_next d \<le> dn_next (fst (tunnel_udp_datagram env os t f d))"
  "dn_next d \<le> dn_next (fst (tunnel_close env t f d))"
  unfolding tunnel_tcp_listen_def tunnel_tcp_data_def tunnel_tcp_eof_def tunnel_udp_datagram_def tunnel_close_def replace_listener_def
  by (intro next_andThen; simp add: split_def send_tcp_shutdown_def next_andThen split: option.split)+

lemma next_tcp_connect: "dn_next d \<le> dn_next (fst (tunnel_tcp_connect env os t f d))"
proof -
  have ins: "n \<le> dn_next d \<Longrightarrow> n \<le> dn_next (fst (insert_tcp_stream own i d))" for n d own i
    using next_tokens(2) order_trans by blast
  show ?thesis unfolding tunnel_tcp_connect_def split_def by (intro next_andThen) (simp_all add: ins)
qed

lemma next_udp_bind: "dn_next d \<le> dn_next (fst (tunnel_udp_bind env os t f d))"
proof -
  have tok: "n \<le> dn_next d \<Longrightarrow> n \<le> dn_next (fst (child_token own d))" for n d own
    using next_tokens(1) order_trans by blast
  have re: "n \<le> dn_next d \<Longrightarrow> n \<le> dn_next (fst (reactivate_retained_udp_bind ses d))" for n d ses
    using next_tokens(3) order_trans by blast
  have rep: "n \<le> dn_next d \<Longrightarrow> n \<le> dn_next (fst (replace_udp_bind ses i socket d))" for n d ses i socket
    unfolding replace_udp_bind_def by (rule next_andThen) simp_all
  have local: "n \<le> dn_next d \<Longrightarrow> n \<le> dn_next (fst (tunnel_udp_bind_connection_local env os t f d))" for n d
    unfolding tunnel_udp_bind_connection_local_def split_def Let_def by (intro next_andThen) (simp_all add: tok)
  show ?thesis
    unfolding tunnel_udp_bind_def Let_def
    by (rule next_andThen, simp, split protocol_access.split, intro conjI allI impI next_andThen) (simp_all add: local re rep)
qed

lemma next_rounds:
  "dn_next (tunnel_write_round t written d) = dn_next d" "dn_next (tcp_write_round k written d) = dn_next d"
  "dn_next (tcp_read_round env own i k g bytes d) = dn_next d"
  by (simp_all add: tunnel_write_round_def tcp_write_round_def tcp_read_round_def Let_def split_def
      split: option.split list.split tcp_write_command.split sum.split)

lemma next_udp_read: "dn_next (udp_read_round env own i k g received d) = dn_next d"
proof -
  have close: "dn_next (close_on_terminal_send_failure own i d) = dn_next d" for d
    by (simp add: close_on_terminal_send_failure_def split: stream_owner.split option.split)
  have send: "sender_send t f d = (d1, r) \<Longrightarrow> dn_next d1 = dn_next d" for t f d1 r
    using next_send [of t f d] by simp
  show ?thesis
    by (simp add: udp_read_round_def Let_def close split: udp_receive.split stream_owner.split sum.split prod.split)
      (metis send)
qed

lemma next_accept: "dn_next d \<le> dn_next (accept_round env i answer d)"
proof -
  have reg: "dn_next d \<le> dn_next (register_accepted_tcp_stream env i s a peer d)" for s a peer
  proof -
    let ?d = "upd_session i (\<lambda>x. x\<lparr>ds_next_daemon_stream_id := ds_next_daemon_stream_id s + 2\<rparr>) d"
    obtain d1 k where c: "insert_tcp_stream (OwnAttachment a) (ds_next_daemon_stream_id s) ?d = (d1, k)" by fastforce
    then have d1: "dn_next d \<le> dn_next d1"
      using next_tokens(2) [of ?d "OwnAttachment a" "ds_next_daemon_stream_id s"] by simp
    have send: "sender_send t f d1 = (d2, r) \<Longrightarrow> dn_next d2 = dn_next d1" for t f d2 r
      using next_send [of t f d1] by simp
    show ?thesis
      unfolding register_accepted_tcp_stream_def Let_def c using d1 send by (auto split: sum.split prod.split)
  qed
  show ?thesis by (simp add: accept_round_def reg split: option.split accept_answer.split sum.split)
qed

section \<open>Sessions that are looked after\<close>

text \<open>
  A session is attended when a tunnel that is being served is open for it, is the one it is attached to and
  has its generation. It is expiring when it is detached and its expiry task runs no earlier than its deadline.
\<close>

definition attended :: "daemon \<Rightarrow> rstr \<Rightarrow> session_state \<Rightarrow> bool" where
  "attended d i s \<longleftrightarrow> (\<exists>a x u p. ds_attachment s = Some a \<and> tab_get (dn_attachments d) a = Some x \<and>
     tab_get (dn_tunnels d) (ah_tunnel x) = Some u \<and> dt_served u \<and> dt_active u = ActListen p i \<and>
     dt_last_generation u = ds_generation s)"

definition expiring :: "session_state \<Rightarrow> bool" where
  "expiring s \<longleftrightarrow> ds_attachment s = None \<and>
     (\<exists>due deadline. ds_expiry_task s = Some due \<and> ds_resume_deadline s = Some deadline \<and> deadline \<le> due)"

definition looked_after :: "daemon \<Rightarrow> rstr \<Rightarrow> bool" where
  "looked_after d i \<longleftrightarrow> (\<exists>s. tab_get (dn_objects d) i = Some s \<and> (attended d i s \<or> expiring s))"

definition all_looked_after :: "daemon \<Rightarrow> bool" where
  "all_looked_after d \<longleftrightarrow> (\<forall>i \<in> set (dn_sessions d). looked_after d i)"

text \<open>What a session that is looked after depends on.\<close>

lemma looked_after_frame:
  assumes "looked_after d i"
    and ses: "map_option session_core (tab_get (dn_objects d') i) = map_option session_core (tab_get (dn_objects d) i)"
    and att: "\<And>a x. tab_get (dn_attachments d) a = Some x \<Longrightarrow> \<exists>x'. tab_get (dn_attachments d') a = Some x' \<and> ah_tunnel x' = ah_tunnel x"
    and tun: "\<And>t u p. tab_get (dn_tunnels d) t = Some u \<Longrightarrow> dt_active u = ActListen p i \<Longrightarrow>
      \<exists>u'. tab_get (dn_tunnels d') t = Some u' \<and> tunnel_core u' = tunnel_core u"
  shows "looked_after d' i"
proof -
  obtain s where s: "tab_get (dn_objects d) i = Some s" "attended d i s \<or> expiring s"
    using assms(1) by (auto simp: looked_after_def)
  then obtain s' where s': "tab_get (dn_objects d') i = Some s'" "session_core s' = session_core s" using ses by auto
  have "attended d' i s'" if h: "attended d i s"
  proof -
    obtain a x u p where *: "ds_attachment s = Some a" "tab_get (dn_attachments d) a = Some x"
      "tab_get (dn_tunnels d) (ah_tunnel x) = Some u" "dt_served u" "dt_active u = ActListen p i"
      "dt_last_generation u = ds_generation s" using h unfolding attended_def by blast
    obtain x' where x': "tab_get (dn_attachments d') a = Some x'" "ah_tunnel x' = ah_tunnel x" using att [OF *(2)] by blast
    obtain u' where u': "tab_get (dn_tunnels d') (ah_tunnel x) = Some u'" "tunnel_core u' = tunnel_core u"
      using tun [OF *(3,5)] by blast
    have "dt_served u'" "dt_active u' = ActListen p i" "dt_last_generation u' = ds_generation s'" "ds_attachment s' = Some a"
      using u'(2) s'(2) *(1,4-6) by (simp_all add: tunnel_core_def session_core_def)
    then show ?thesis unfolding attended_def using x' u'(1) by auto
  qed
  moreover have "expiring s'" if "expiring s" using that s'(2) by (simp add: expiring_def session_core_def)
  ultimately show ?thesis using s s' by (auto simp: looked_after_def)
qed

lemma looked_after_core: "dcore d' = dcore d \<Longrightarrow> looked_after d i \<Longrightarrow> looked_after d' i"
proof (erule looked_after_frame)
  assume c: "dcore d' = dcore d"
  show "map_option session_core (tab_get (dn_objects d') i) = map_option session_core (tab_get (dn_objects d) i)"
    by (rule dcore_eqD(2) [OF c])
  show "\<exists>x'. tab_get (dn_attachments d') a = Some x' \<and> ah_tunnel x' = ah_tunnel x" if "tab_get (dn_attachments d) a = Some x" for a x
    using dcore_eqD(3) [OF c, of a] that by auto
  show "\<exists>u'. tab_get (dn_tunnels d') t = Some u' \<and> tunnel_core u' = tunnel_core u" if "tab_get (dn_tunnels d) t = Some u" for t u
    using dcore_eqD(4) [OF c, of t] that by auto
qed

lemma all_looked_after_core: "dcore d' = dcore d \<Longrightarrow> all_looked_after d \<Longrightarrow> all_looked_after d'"
  using looked_after_core dcore_eqD(1) [of d' d] by (auto simp: all_looked_after_def)

lemma dcore_remove_session: "dcore (remove_session i d) = (removeAll i (dn_sessions d), snd (dcore d))"
  by (simp add: remove_session_def dcore_def)

lemma dcore_terminate: "dcore (terminate_session i d) = (removeAll i (dn_sessions d), snd (dcore d))"
  by (simp add: terminate_session_def dcore_remove_session)

text \<open>A session keeps being looked after when only the store loses others.\<close>

lemma looked_after_less: "snd (dcore d') = snd (dcore d) \<Longrightarrow> looked_after d i \<Longrightarrow> looked_after d' i"
  using looked_after_core [of "d'\<lparr>dn_sessions := dn_sessions d\<rparr>" d i]
  by (simp add: dcore_def looked_after_def attended_def)

lemma all_looked_after_less:
  assumes "set (dn_sessions d') \<subseteq> set (dn_sessions d)" "snd (dcore d') = snd (dcore d)" "all_looked_after d"
  shows "all_looked_after d'"
  using assms looked_after_less [of d' d] by (auto simp: all_looked_after_def)

lemma sessions_of_core: "dcore d = (ss, r) \<Longrightarrow> dn_sessions d = ss"
  by (simp add: dcore_def)

text \<open>A session that a tunnel is open for is closed; \<open>d\<close> is the state in which the tunnel is no longer open.\<close>

lemma daemon_close_listen_session_kept:
  assumes others: "\<And>j. j \<in> set (dn_sessions d) \<Longrightarrow> j \<noteq> i \<Longrightarrow> looked_after d j"
    and stale: "\<And>u s. tab_get (dn_tunnels d) t = Some u \<Longrightarrow> tab_get (dn_objects d) i = Some s \<Longrightarrow> i \<in> set (dn_sessions d) \<Longrightarrow>
      dt_last_generation u \<noteq> 0 \<and> ds_generation s \<noteq> dt_last_generation u \<Longrightarrow> looked_after d i"
    and known: "tab_get (dn_tunnels d) t \<noteq> None" "i \<in> set (dn_sessions d) \<Longrightarrow> tab_get (dn_objects d) i \<noteq> None"
  shows "all_looked_after (daemon_close_listen_session env now t i mode d)"
proof (cases "tab_get (dn_objects d) i")
  case None
  then show ?thesis
    using known others unfolding all_looked_after_def daemon_close_listen_session_def by (auto split: option.split)
next
  case (Some s)
  obtain u where u: "tab_get (dn_tunnels d) t = Some u" using known(1) by auto
  show ?thesis
  proof (cases "dt_last_generation u \<noteq> 0 \<and> ds_generation s \<noteq> dt_last_generation u")
    case True
    then show ?thesis using stale [OF u Some] others u Some
      by (auto simp: daemon_close_listen_session_def all_looked_after_def)
  next
    case False
    define e where "e = (case ds_attachment s of
        Some a \<Rightarrow> drain_attachment a (upd_attachment a (\<lambda>x. x\<lparr>ah_cancelled := True\<rparr>) (upd_session i (\<lambda>s. s\<lparr>ds_attachment := None\<rparr>) d))
      | None \<Rightarrow> upd_session i (\<lambda>s. s\<lparr>ds_attachment := None\<rparr>) d)"
    have ce: "dcore e = dcore (upd_session i (\<lambda>s. s\<lparr>ds_attachment := None\<rparr>) d)"
    proof -
      have "dcore (upd_attachment a (\<lambda>x. x\<lparr>ah_cancelled := True\<rparr>) y) = dcore y" for a y by (rule dcore_attachment) simp
      then show ?thesis unfolding e_def by (cases "ds_attachment s") (simp_all only: option.case dcore_drains)
    qed
    have frame: "looked_after d' j" if j: "j \<noteq> i" "looked_after d j"
      and c: "dcore d' = dcore (upd_session i f e)" for d' j f
    proof (rule looked_after_core [OF c], rule looked_after_frame [OF j(2)])
      show "map_option session_core (tab_get (dn_objects (upd_session i f e)) j) = map_option session_core (tab_get (dn_objects d) j)"
        using dcore_eqD(2) [OF ce, of j] j(1) by (simp add: get_modify)
      show "\<exists>x'. tab_get (dn_attachments (upd_session i f e)) a = Some x' \<and> ah_tunnel x' = ah_tunnel x"
        if "tab_get (dn_attachments d) a = Some x" for a x
        using dcore_eqD(3) [OF ce, of a] that by auto
      show "\<exists>u'. tab_get (dn_tunnels (upd_session i f e)) t' = Some u' \<and> tunnel_core u' = tunnel_core v"
        if "tab_get (dn_tunnels d) t' = Some v" for t' v
        using dcore_eqD(4) [OF ce, of t'] that by auto
    qed
    have ses: "dn_sessions e = dn_sessions d" using dcore_eqD(1) [OF ce] by simp
    obtain s1 where s1: "tab_get (dn_objects e) i = Some s1" "ds_attachment s1 = None"
      using dcore_eqD(2) [OF ce, of i] Some by (auto simp: get_modify session_core_def)
    show ?thesis
    proof (cases "mode = RetryableDetach")
      case True
      let ?g = "\<lambda>s. s\<lparr>ds_resume_deadline := Some (now + de_resume_timeout env), ds_expiry_task := Some (now + de_resume_timeout env)\<rparr>"
      have r: "daemon_close_listen_session env now t i mode d =
          schedule_session_expiry env now i (upd_session i (\<lambda>s. s\<lparr>ds_resume_deadline := Some (now + de_resume_timeout env)\<rparr>) e)"
        using u Some False True by (auto simp: daemon_close_listen_session_def Let_def e_def)
      have c: "dcore (daemon_close_listen_session env now t i mode d) = dcore (upd_session i ?g e)"
        unfolding r schedule_session_expiry_def by (auto simp: dcore_def fun_eq_iff get_modify option.map_comp comp_def)
      have "looked_after (daemon_close_listen_session env now t i mode d) i"
        using s1 unfolding r schedule_session_expiry_def by (simp add: looked_after_def get_modify expiring_def)
      moreover have "looked_after (daemon_close_listen_session env now t i mode d) j" if "j \<in> set (dn_sessions d)" "j \<noteq> i" for j
        using frame [OF that(2) others [OF that] c] .
      ultimately show ?thesis using dcore_eqD(1) [OF c] ses unfolding all_looked_after_def by fastforce
    next
      case False
      let ?g = "\<lambda>s. s\<lparr>ds_resume_deadline := None\<rparr>"
      have r: "daemon_close_listen_session env now t i mode d = terminate_session i (upd_session i ?g e)"
        using u Some \<open>\<not> (dt_last_generation u \<noteq> 0 \<and> ds_generation s \<noteq> dt_last_generation u)\<close> False
        by (auto simp: daemon_close_listen_session_def Let_def e_def)
      have c: "dcore (terminate_session i (upd_session i ?g e)) = (removeAll i (dn_sessions d), snd (dcore (upd_session i ?g e)))"
        using dcore_terminate ses by simp
      have "looked_after (terminate_session i (upd_session i ?g e)) j" if "j \<noteq> i" "looked_after d j" for j
      proof (rule looked_after_less)
        show "looked_after (upd_session i ?g e) j" by (rule frame [OF that refl])
      qed (use c in simp)
      then show ?thesis unfolding r using others sessions_of_core [OF c] by (auto simp: all_looked_after_def)
    qed
  qed
qed

section \<open>Closing and opening\<close>

abbreviation attachment_view :: "daemon \<Rightarrow> nat \<Rightarrow> nat option" where
  "attachment_view d \<equiv> \<lambda>a. map_option ah_tunnel (tab_get (dn_attachments d) a)"

abbreviation tunnel_view :: "daemon \<Rightarrow> nat \<Rightarrow> (active_tunnel_state \<times> nat \<times> bool) option" where
  "tunnel_view d \<equiv> \<lambda>t. map_option tunnel_core (tab_get (dn_tunnels d) t)"

lemma view_of_dcore:
  assumes "snd (dcore d') = snd (dcore d)"
  shows "attachment_view d' = attachment_view d" "tunnel_view d' = tunnel_view d"
  using assms by (simp_all add: dcore_def)

lemma view_session:
  "attachment_view (upd_session i f d) = attachment_view d" "tunnel_view (upd_session i f d) = tunnel_view d"
  by simp_all

lemma view_terminate:
  "attachment_view (terminate_session i d) = attachment_view d" "tunnel_view (terminate_session i d) = tunnel_view d"
  by (rule view_of_dcore, simp add: dcore_terminate)+

lemma view_close:
  "attachment_view (daemon_close_listen_session env now t i mode d) = attachment_view d"
  "tunnel_view (daemon_close_listen_session env now t i mode d) = tunnel_view d"
  "dn_next (daemon_close_listen_session env now t i mode d) = dn_next d"
proof -
  have detach: "attachment_view (drain_attachment a (upd_attachment a (\<lambda>x. x\<lparr>ah_cancelled := True\<rparr>) (upd_session i f d))) = attachment_view d"
    "tunnel_view (drain_attachment a (upd_attachment a (\<lambda>x. x\<lparr>ah_cancelled := True\<rparr>) (upd_session i f d))) = tunnel_view d" for a f
  proof -
    have "dcore (upd_attachment a (\<lambda>x. x\<lparr>ah_cancelled := True\<rparr>) y) = dcore y" for y by (rule dcore_attachment) simp
    then have "snd (dcore (drain_attachment a (upd_attachment a (\<lambda>x. x\<lparr>ah_cancelled := True\<rparr>) (upd_session i f d)))) = snd (dcore (upd_session i f d))"
      by (simp only: dcore_drains)
    from view_of_dcore [OF this]
    show "attachment_view (drain_attachment a (upd_attachment a (\<lambda>x. x\<lparr>ah_cancelled := True\<rparr>) (upd_session i f d))) = attachment_view d"
      "tunnel_view (drain_attachment a (upd_attachment a (\<lambda>x. x\<lparr>ah_cancelled := True\<rparr>) (upd_session i f d))) = tunnel_view d" by simp_all
  qed
  show "attachment_view (daemon_close_listen_session env now t i mode d) = attachment_view d"
    unfolding daemon_close_listen_session_def Let_def schedule_session_expiry_def
    using detach(1) by (simp add: view_terminate split: option.split)
  show "tunnel_view (daemon_close_listen_session env now t i mode d) = tunnel_view d"
    unfolding daemon_close_listen_session_def Let_def schedule_session_expiry_def
    using detach(2) by (simp add: view_terminate split: option.split)
  show "dn_next (daemon_close_listen_session env now t i mode d) = dn_next d"
    unfolding daemon_close_listen_session_def Let_def schedule_session_expiry_def by (simp split: option.split)
qed

lemma fresh_next_view: "attachment_view d' = attachment_view d \<Longrightarrow> dn_next d \<le> dn_next d' \<Longrightarrow> fresh_next d \<Longrightarrow> fresh_next d'"
  unfolding fresh_next_def by (metis option.map_disc_iff order_less_le_trans)

text \<open>A tunnel no session is attended by may change freely.\<close>

lemma idle_tunnel_kept:
  assumes "all_looked_after d" "tab_get (dn_tunnels d) t = Some u" "\<And>p i. dt_active u \<noteq> ActListen p i"
  shows "all_looked_after (upd_tunnel t f d)"
  unfolding all_looked_after_def
proof
  fix j assume "j \<in> set (dn_sessions (upd_tunnel t f d))"
  then have "looked_after d j" using assms(1) by (simp add: all_looked_after_def)
  then show "looked_after (upd_tunnel t f d) j"
    by (rule looked_after_frame) (auto simp: get_modify assms(2,3))
qed

lemma close_active_kept:
  assumes kept: "all_looked_after d" and u: "tab_get (dn_tunnels d) t = Some u" "dt_active u = ActListen p i"
  shows "all_looked_after (daemon_close_listen_session env now t i mode (upd_tunnel t (\<lambda>u. u\<lparr>dt_active := ActUnopened\<rparr>) d))"
proof (rule daemon_close_listen_session_kept)
  let ?d = "upd_tunnel t (\<lambda>u. u\<lparr>dt_active := ActUnopened\<rparr>) d"
  show "looked_after ?d j" if j: "j \<in> set (dn_sessions ?d)" "j \<noteq> i" for j
  proof (rule looked_after_frame)
    show "looked_after d j" using kept j(1) by (simp add: all_looked_after_def)
  qed (use u j(2) in \<open>auto simp: get_modify\<close>)
  show "looked_after ?d i" if "tab_get (dn_tunnels ?d) t = Some v" "tab_get (dn_objects ?d) i = Some s" "i \<in> set (dn_sessions ?d)"
    and gen: "dt_last_generation v \<noteq> 0 \<and> ds_generation s \<noteq> dt_last_generation v" for v s
  proof -
    have v: "dt_last_generation v = dt_last_generation u" using that(1) u by (auto simp: get_modify)
    have "looked_after d i" using kept that(3) by (simp add: all_looked_after_def)
    then have la: "attended d i s \<or> expiring s" using that(2) by (auto simp: looked_after_def)
    have "attended ?d i s" if h: "attended d i s"
    proof -
      obtain a x w p' where *: "ds_attachment s = Some a" "tab_get (dn_attachments d) a = Some x"
        "tab_get (dn_tunnels d) (ah_tunnel x) = Some w" "dt_served w" "dt_active w = ActListen p' i"
        "dt_last_generation w = ds_generation s" using h unfolding attended_def by blast
      have "ah_tunnel x \<noteq> t" using *(3,6) u(1) v gen by auto
      then show ?thesis unfolding attended_def using * by (auto simp: get_modify)
    qed
    then show ?thesis using la that(2) by (auto simp: looked_after_def)
  qed
  show "tab_get (dn_tunnels ?d) t \<noteq> None" using u by (simp add: get_modify)
  show "i \<in> set (dn_sessions ?d) \<Longrightarrow> tab_get (dn_objects ?d) i \<noteq> None"
    using kept by (auto simp: all_looked_after_def looked_after_def)
qed

lemma close_attached_session_kept:
  "all_looked_after d \<Longrightarrow> all_looked_after (close_attached_session env now t mode d)"
  by (auto simp: close_attached_session_def close_active_kept split: option.split active_tunnel_state.split)

lemma close_attached_session_view:
  "attachment_view (close_attached_session env now t mode d) = attachment_view d"
  "dn_next (close_attached_session env now t mode d) = dn_next d"
  unfolding close_attached_session_def
  by (cases "tab_get (dn_tunnels d) t", simp, cases "dt_active (the (tab_get (dn_tunnels d) t))"; simp add: view_close)+

lemma close_tunnel_runtime_kept:
  assumes "all_looked_after d"
  shows "all_looked_after (close_tunnel_runtime env now t mode d)"
proof (cases "tab_get (dn_tunnels d) t")
  case None
  then show ?thesis using assms by (simp add: close_tunnel_runtime_def)
next
  case (Some u)
  show ?thesis
  proof (cases "dt_active u")
    case ActUnopened
    then show ?thesis using idle_tunnel_kept [OF assms Some] Some by (simp add: close_tunnel_runtime_def Let_def)
  next
    case (ActListen p i)
    then show ?thesis using close_active_kept [OF assms Some] Some by (simp add: close_tunnel_runtime_def Let_def)
  next
    case (ActConnect p)
    let ?d = "upd_tunnel t (\<lambda>u. u\<lparr>dt_active := ActUnopened\<rparr>) d"
    have "all_looked_after ?d" using idle_tunnel_kept [OF assms Some] ActConnect by simp
    moreover have "dcore (close_tunnel_runtime env now t mode d) = dcore ?d"
    proof -
      have tun: "dcore (upd_tunnel t (dt_runtime_update g) y) = dcore y" for g y
        by (rule dcore_tunnel) (simp add: tunnel_core_def)
      have "close_tunnel_runtime env now t mode d = fold (\<lambda>(i, k). cancel_token k) (cr_udp_binds (dt_runtime u))
          (upd_tunnel t (dt_runtime_update (\<lambda>r. r\<lparr>cr_udp_binds := []\<rparr>))
            (cancel_all (OwnTunnel t) (upd_tunnel t (dt_runtime_update (\<lambda>r. r\<lparr>cr_cancelled := True\<rparr>)) ?d)))"
        using Some ActConnect by (simp add: close_tunnel_runtime_def Let_def)
      then show ?thesis by (simp only: tun dcore_drains) (subst dcore_fold; simp only: split_def dcore_streams tun dcore_drains)
    qed
    ultimately show ?thesis by (rule all_looked_after_core [rotated])
  qed
qed

lemma attach_kept:
  assumes others: "\<And>j. j \<in> set (dn_sessions d) \<Longrightarrow> j \<noteq> i \<Longrightarrow> looked_after d j" and fresh: "fresh_next d"
    and u: "tab_get (dn_tunnels d) t = Some u" "dt_served u" "dt_active u = ActListen p i"
    and s: "tab_get (dn_objects d) i = Some s" "dt_last_generation u = ds_generation s"
  shows "all_looked_after (attach_session_to_tunnel i t d)" "fresh_next (attach_session_to_tunnel i t d)"
proof -
  define e where "e = (case ds_attachment s of Some a \<Rightarrow> upd_attachment a (\<lambda>x. x\<lparr>ah_cancelled := True\<rparr>) d | None \<Rightarrow> d)"
  have e: "dcore e = dcore d" "dn_next e = dn_next d" "dn_objects e = dn_objects d" "dn_tunnels e = dn_tunnels d"
    by (simp_all add: e_def dcore_attachment split: option.split)
  let ?a = "dn_next d" and ?x = "\<lparr>ah_tunnel = t, ah_cancelled = False, ah_tcp_streams = [], ah_udp_readers = []\<rparr>"
  let ?d = "attach_session_to_tunnel i t d"
  have d': "?d = upd_session i (\<lambda>s. s\<lparr>ds_attachment := Some ?a, ds_expiry_task := None, ds_resume_deadline := None\<rparr>)
      (e\<lparr>dn_next := Suc ?a, dn_attachments := tab_insert ?a ?x (dn_attachments e)\<rparr>)"
    using s(1) e(2) by (simp add: attach_session_to_tunnel_def Let_def e_def)
  have none: "tab_get (dn_attachments e) ?a = None"
    using fresh dcore_attachments [OF e(1), of ?a] by (auto simp: fresh_next_def)
  have "looked_after ?d j" if j: "j \<in> set (dn_sessions d)" "j \<noteq> i" for j
  proof (rule looked_after_frame [OF others [OF j]])
    show "\<exists>x'. tab_get (dn_attachments ?d) a = Some x' \<and> ah_tunnel x' = ah_tunnel x" if "tab_get (dn_attachments d) a = Some x" for a x
      using dcore_eqD(3) [OF e(1), of a] none that by (auto simp: d' tab.get_insert)
  qed (use j(2) e(3,4) in \<open>simp_all add: d' get_modify\<close>)
  moreover have "looked_after ?d i"
    using u s e(3,4) by (simp add: looked_after_def attended_def d' get_modify tab.get_insert)
  moreover have "dn_sessions ?d = dn_sessions d" using dcore_eqD(1) [OF e(1)] by (simp add: d')
  ultimately show "all_looked_after ?d" unfolding all_looked_after_def by fastforce
  show "fresh_next ?d"
    using fresh dcore_attachments [OF e(1)] by (auto simp: fresh_next_def d' tab.get_insert less_SucI)
qed

text \<open>An open for a listen session on a tunnel that is not open.\<close>

lemma acquire_kept:
  assumes kept: "all_looked_after d" "fresh_next d" and fresh: "tab_get (dn_objects d) fresh = None"
    and a: "acquire_listen_open_session now fresh resume d = (d', r)"
  shows "(\<forall>j. j \<in> set (dn_sessions d') \<longrightarrow> (\<forall>b. r \<noteq> Inr (j, b)) \<longrightarrow> looked_after d' j) \<and> fresh_next d' \<and> tunnel_view d' = tunnel_view d \<and>
    (\<forall>i b. r = Inr (i, b) \<longrightarrow> tab_get (dn_objects d') i \<noteq> None)"
proof (cases resume)
  case (Some i)
  let ?c = "close_retained_resources i (remove_session i d)"
  have c: "dcore ?c = (removeAll i (dn_sessions d), snd (dcore d))" by (simp add: dcore_remove_session)
  have "all_looked_after ?c"
    by (rule all_looked_after_less [OF _ _ kept(1)]) (use c sessions_of_core [OF c] in auto)
  moreover have "fresh_next ?c"
    by (rule fresh_next_view [OF _ _ kept(2)]) (use view_of_dcore(1) [of ?c d] c in simp_all)
  moreover have "tunnel_view ?c = tunnel_view d" by (rule view_of_dcore) (simp only: c snd_conv)
  ultimately show ?thesis
    using a Some kept by (auto simp: acquire_listen_open_session_def all_looked_after_def split: if_splits option.splits)
next
  case None
  show ?thesis
  proof (cases "snd (try_insert_session fresh d)")
    case (Inl e)
    then show ?thesis
      using a None kept by (auto simp: acquire_listen_open_session_def try_insert_session_def all_looked_after_def split: if_splits)
  next
    case (Inr _)
    let ?d = "d\<lparr>dn_sessions := List.insert fresh (dn_sessions d), dn_objects := tab_insert fresh new_session_state (dn_objects d)\<rparr>"
    have r: "d' = ?d" "r = Inr (fresh, True)"
      using a None Inr by (auto simp: acquire_listen_open_session_def try_insert_session_def split: if_splits)
    have "looked_after ?d j" if "j \<in> set (dn_sessions d)" "j \<noteq> fresh" for j
    proof (rule looked_after_frame)
      show "looked_after d j" using kept(1) that(1) by (simp add: all_looked_after_def)
    qed (use that in \<open>auto simp: tab.get_insert\<close>)
    then show ?thesis using r kept(2) by (auto simp: fresh_next_def tab.get_insert)
  qed
qed

definition kept :: "daemon \<Rightarrow> bool" where
  "kept d \<longleftrightarrow> all_looked_after d \<and> fresh_next d"

lemma kept_dcore: "dcore d' = dcore d \<Longrightarrow> dn_next d \<le> dn_next d' \<Longrightarrow> kept d \<Longrightarrow> kept d'"
  unfolding kept_def using all_looked_after_core fresh_next_core by blast

lemma kept_idle:
  assumes "kept d" "tab_get (dn_tunnels d) t = Some u" "\<And>p i. dt_active u \<noteq> ActListen p i"
  shows "kept (upd_tunnel t f d)"
  using idle_tunnel_kept [OF _ assms(2,3)] assms(1) fresh_next_view [of "upd_tunnel t f d" d] by (simp add: kept_def)

lemma kept_small:
  assumes "kept d"
  shows "kept (fst (sender_send t f d))" "kept (fst (send_tunnel_ready env t g ses ms d))" "kept (fst (reactivate_retained_udp_bind i d))"
  by (rule kept_dcore [OF _ _ assms]; simp add: next_tokens)+

lemma open_listen_kept:
  assumes kept: "kept d" and fresh: "tab_get (dn_objects d) fresh = None"
    and u: "tab_get (dn_tunnels d) t = Some u" "dt_served u" "dt_active u = ActUnopened"
  shows "kept (fst (tunnel_open_listen env now fresh t m d))"
proof -
  let ?d1 = "set_last_generation t (om_generation m) d"
  have k1: "kept ?d1" unfolding set_last_generation_def using kept_idle [OF kept u(1)] u(3) by simp
  have u1: "tab_get (dn_tunnels ?d1) t = Some (u\<lparr>dt_last_generation := om_generation m\<rparr>)"
    using u(1) by (simp add: set_last_generation_def get_modify)
  have f1: "tab_get (dn_objects ?d1) fresh = None" using fresh by (simp add: set_last_generation_def)
  obtain d2 r where a: "acquire_listen_open_session now fresh (om_resume_session_id m) ?d1 = (d2, r)" by fastforce
  note A = acquire_kept [OF _ _ f1 a]
  have A: "\<And>j. j \<in> set (dn_sessions d2) \<Longrightarrow> (\<forall>b. r \<noteq> Inr (j, b)) \<Longrightarrow> looked_after d2 j" "fresh_next d2"
    "tunnel_view d2 = tunnel_view ?d1" "\<And>i b. r = Inr (i, b) \<Longrightarrow> tab_get (dn_objects d2) i \<noteq> None"
    using A k1 by (auto simp: kept_def)
  show ?thesis
  proof (cases r)
    case (Inl e)
    then show ?thesis using a A by (simp add: tunnel_open_listen_def kept_def all_looked_after_def)
  next
    case (Inr x)
    obtain i b where r: "r = Inr (i, b)" using Inr by (cases x) simp
    obtain s where s: "tab_get (dn_objects d2) i = Some s" using A(4) [OF r] by auto
    obtain u2 where u2: "tab_get (dn_tunnels d2) t = Some u2" "dt_served u2" "dt_active u2 = ActUnopened"
      "dt_last_generation u2 = om_generation m"
      using fun_cong [OF A(3), of t] u1 u(2,3) by (auto simp: tunnel_core_def)
    let ?d3 = "upd_tunnel t (\<lambda>u. u\<lparr>dt_active := ActListen (om_protocol m) i\<rparr>) (set_generation i (om_generation m) d2)"
    have act: "daemon_open_listen_session t i b (om_generation m) (om_protocol m) d2 = (attach_session_to_tunnel i t ?d3, Inr ())"
      using u2 by (simp add: daemon_open_listen_session_def activate_listen_tunnel_def activate_tunnel_def set_generation_def)
    have "looked_after ?d3 j" if j: "j \<in> set (dn_sessions ?d3)" "j \<noteq> i" for j
    proof (rule looked_after_frame)
      show "looked_after d2 j" using A(1) [of j] j r by (simp add: set_generation_def)
    qed (use u2 j(2) in \<open>auto simp: get_modify set_generation_def\<close>)
    moreover have "fresh_next ?d3"
      using fresh_next_view [of ?d3 d2] A(2) by (simp add: set_generation_def)
    ultimately have "kept (attach_session_to_tunnel i t ?d3)"
      unfolding kept_def using u2 s
      by (intro conjI attach_kept [where t = t and p = "om_protocol m"
            and u = "u2\<lparr>dt_active := ActListen (om_protocol m) i\<rparr>" and s = "s\<lparr>ds_generation := om_generation m\<rparr>"])
        (auto simp: get_modify set_generation_def)
    then have "kept (fst (andThen (send_tunnel_ready env t (om_generation m) (Some i) (Some (de_resume_timeout env))
        (attach_session_to_tunnel i t ?d3)) (\<lambda>d _. if om_protocol m = Udp then reactivate_retained_udp_bind i d else (d, Inr ()))))"
      by (intro andThen_world [where P = kept]) (simp_all add: kept_small)
    then show ?thesis using a r act by (simp add: tunnel_open_listen_def)
  qed
qed

lemma open_connect_kept:
  assumes kept: "kept d" and u: "tab_get (dn_tunnels d) t = Some u" "dt_active u = ActUnopened"
  shows "kept (fst (tunnel_open_connect env t m d))"
proof -
  let ?d1 = "set_last_generation t (om_generation m) d"
  let ?f = "\<lambda>u. u\<lparr>dt_active := ActConnect (om_protocol m), dt_runtime := no_runtime\<lparr>cr_generation := om_generation m\<rparr>\<rparr>"
  have k1: "kept ?d1" unfolding set_last_generation_def using kept_idle [OF kept u(1)] u(2) by simp
  have u1: "tab_get (dn_tunnels ?d1) t = Some (u\<lparr>dt_last_generation := om_generation m\<rparr>)"
    using u(1) by (simp add: set_last_generation_def get_modify)
  have act: "activate_connect_tunnel t (om_protocol m) (om_generation m) ?d1 = (upd_tunnel t ?f ?d1, Inr ())"
    using u1 u(2) by (simp add: activate_connect_tunnel_def activate_tunnel_def)
  have "kept (upd_tunnel t ?f ?d1)" using kept_idle [OF k1 u1] u(2) by simp
  then have "kept (fst (send_tunnel_ready env t (om_generation m) None None (upd_tunnel t ?f ?d1)))"
    by (rule kept_small)
  then show ?thesis using act by (simp add: tunnel_open_connect_def)
qed

lemma close_stream_kept:
  assumes "kept d"
  shows "kept (fst (daemon_close_stream env now t i d))"
proof -
  have att: "kept (close_attached_session env now t mode d)" if "kept d" for mode d
    using that close_attached_session_kept fresh_next_view close_attached_session_view by (simp add: kept_def)
  have "kept (close_session_stream env now t ses a i d)" for ses a
  proof -
    let ?d1 = "cancel_tcp_stream (OwnAttachment a) i d"
    let ?d2 = "case Option.bind (tab_get (dn_attachments ?d1) a) (\<lambda>x. tab_get (ah_udp_readers x) i) of
        Some k \<Rightarrow> cancel_token k (upd_attachment a (\<lambda>x. x\<lparr>ah_udp_readers := tab_remove i (ah_udp_readers x)\<rparr>) ?d1)
      | None \<Rightarrow> ?d1"
    have "dcore ?d2 = dcore d" "dn_next ?d2 = dn_next d" by (simp_all add: dcore_attachment split: option.split)
    then have "kept ?d2" using kept_dcore assms by simp
    then show ?thesis unfolding close_session_stream_def Let_def using att by simp
  qed
  moreover have "kept (remove_udp_bind t i (cancel_tcp_stream (OwnTunnel t) i d))"
    by (rule kept_dcore [OF _ _ assms]) simp_all
  ultimately show ?thesis
    unfolding daemon_close_stream_def using assms
    by (intro pure_step [where P = kept] kept_small) (simp_all split: tunnel_access.split)
qed

section \<open>Every step\<close>

lemma handle_tunnel_frame_kept:
  assumes kept: "kept d" and fresh: "tab_get (dn_objects d) fresh = None" and u: "tab_get (dn_tunnels d) t = Some u" "dt_served u"
    and once: "dt_active u = ActUnopened \<or> fr_type f \<noteq> TunnelOpen"
  shows "kept (fst (handle_tunnel_frame env os now fresh t f d))"
proof (cases "fr_type f = TunnelOpen")
  case True
  then have "dt_active u = ActUnopened" using once by simp
  then have "kept (fst (tunnel_open env now fresh t f d))"
    unfolding tunnel_open_def using assms open_listen_kept open_connect_kept
    by (intro pure_step [where P = kept]) (simp_all split: tunnel_role.split)
  then show ?thesis using True by (simp add: handle_tunnel_frame_def)
next
  case False
  have data: "kept (fst (g d))" if "dcore (fst (g d)) = dcore d" "dn_next d \<le> dn_next (fst (g d))" for g :: "daemon \<Rightarrow> daemon \<times> unit host_result"
    by (rule kept_dcore [OF that kept])
  show ?thesis
    unfolding handle_tunnel_frame_def using False kept
    by (simp add: kept_small close_stream_kept data [of "tunnel_close env t f"] data [of "tunnel_tcp_listen env os t f"]
        data [of "tunnel_tcp_connect env os t f"] data [of "tunnel_tcp_data t (fr_stream_id f) (fr_data f)"]
        data [of "tunnel_tcp_eof os t (fr_stream_id f)"] data [of "tunnel_udp_bind env os t f"] data [of "tunnel_udp_datagram env os t f"]
        next_handlers next_tcp_connect next_udp_bind)
qed

lemma report_kept:
  assumes "kept d"
  shows "kept (fst (send_tunnel_error_code env t g i c m fatal d))" "kept (fst (send_tunnel_error env t g i rc m fatal d))"
  by (rule kept_dcore [OF _ _ assms]; simp)+

lemma close_tunnel_runtime_view:
  "attachment_view (close_tunnel_runtime env now t mode d) = attachment_view d \<and>
   dn_next (close_tunnel_runtime env now t mode d) = dn_next d \<and>
   (\<forall>u. tab_get (dn_tunnels (close_tunnel_runtime env now t mode d)) t = Some u \<longrightarrow> dt_active u = ActUnopened)"
proof (cases "tab_get (dn_tunnels d) t")
  case None
  then show ?thesis by (simp add: close_tunnel_runtime_def)
next
  case (Some u)
  let ?d = "upd_tunnel t (\<lambda>u. u\<lparr>dt_active := ActUnopened\<rparr>) d"
  have un: "dt_active v = ActUnopened" if "tunnel_view e = tunnel_view ?d" "tab_get (dn_tunnels e) t = Some v" for e v
    using fun_cong [OF that(1), of t] that(2) Some by (auto simp: get_modify tunnel_core_def)
  show ?thesis
  proof (cases "dt_active u")
    case ActUnopened
    then show ?thesis using Some by (simp add: close_tunnel_runtime_def Let_def get_modify)
  next
    case (ActListen p i)
    then have "close_tunnel_runtime env now t mode d = daemon_close_listen_session env now t i mode ?d"
      using Some by (simp add: close_tunnel_runtime_def Let_def)
    then show ?thesis using un view_close [of env now t i mode ?d] by simp
  next
    case (ActConnect p)
    let ?e = "cancel_all (OwnTunnel t) (upd_tunnel t (dt_runtime_update (\<lambda>r. r\<lparr>cr_cancelled := True\<rparr>)) ?d)"
    let ?h = "upd_tunnel t (dt_runtime_update (\<lambda>r. r\<lparr>cr_udp_binds := []\<rparr>)) ?e"
    have c: "close_tunnel_runtime env now t mode d = fold (\<lambda>(i, k). cancel_token k) (cr_udp_binds (dt_runtime u)) ?h"
      using Some ActConnect by (simp add: close_tunnel_runtime_def Let_def)
    have tun: "dcore (upd_tunnel t (dt_runtime_update g) y) = dcore y" for g y
      by (rule dcore_tunnel) (simp add: tunnel_core_def)
    have "dcore (fold (\<lambda>(i, k). cancel_token k) (cr_udp_binds (dt_runtime u)) ?h) = dcore ?d"
      by (subst dcore_fold; simp only: split_def dcore_streams tun dcore_drains)
    then have s: "snd (dcore (close_tunnel_runtime env now t mode d)) = snd (dcore ?d)" by (simp only: c)
    have "attachment_view (close_tunnel_runtime env now t mode d) = attachment_view d"
    proof -
      have "attachment_view ?d = attachment_view d" by simp
      then show ?thesis using view_of_dcore(1) [OF s] by (rule trans [rotated])
    qed
    moreover have "dn_next (close_tunnel_runtime env now t mode d) = dn_next d"
      unfolding c by (subst next_fold) (simp_all add: split_def)
    ultimately show ?thesis using un [OF view_of_dcore(2) [OF s]] by blast
  qed
qed

lemma finish_tunnel_kept:
  assumes "kept d"
  shows "kept (finish_tunnel env now t r d)"
proof -
  let ?d = "close_tunnel_runtime env now t (close_mode_for_tunnel_result r (dn_shutdown d)) d"
  note V = close_tunnel_runtime_view [of env now t "close_mode_for_tunnel_result r (dn_shutdown d)" d]
  have k: "kept ?d"
    using close_tunnel_runtime_kept assms fresh_next_view [of ?d d] V unfolding kept_def by simp
  show ?thesis
  proof (cases "tab_get (dn_tunnels ?d) t")
    case None
    then show ?thesis using k by (simp add: finish_tunnel_def tab_modify_def)
  next
    case (Some u)
    then show ?thesis unfolding finish_tunnel_def using kept_idle [OF k Some] V by simp
  qed
qed

lemma serve_round_kept:
  assumes kept: "kept d" and fresh: "tab_get (dn_objects d) fresh = None" and u: "tab_get (dn_tunnels d) t = Some u" "dt_served u"
    and once: "dt_active u = ActUnopened \<or> (\<forall>f. r = ReadFrame f \<longrightarrow> fr_type f \<noteq> TunnelOpen)"
  shows "kept (serve_round env os now fresh t r d)"
proof -
  have "kept (fst (tunnel_read_round env os now fresh t r d))"
  proof (cases "\<exists>f. r = ReadFrame f \<and> \<not> tunnel_cancelled d t")
    case True
    then obtain f where f: "r = ReadFrame f" "\<not> tunnel_cancelled d t" by blast
    obtain e x where h: "handle_tunnel_frame env os now fresh t f d = (e, x)" by fastforce
    have "kept e" using handle_tunnel_frame_kept [OF kept fresh u, of f env os now] once f h by auto
    then show ?thesis using f h by (cases x) (simp_all add: tunnel_read_round_def report_kept)
  next
    case False
    then show ?thesis using kept by (auto simp: tunnel_read_round_def report_kept split: tunnel_read.split)
  qed
  then show ?thesis
    unfolding serve_round_def using finish_tunnel_kept by (auto split: prod.split option.split)
qed

lemma expire_kept:
  assumes kept: "kept d" and s: "tab_get (dn_objects d) i = Some s" "ds_expiry_task s = Some due" "due \<le> now"
  shows "kept (expire_session now i d)"
proof -
  let ?d = "upd_session i (\<lambda>s. s\<lparr>ds_expiry_task := None\<rparr>) d"
  have others: "looked_after ?d j" if "j \<in> set (dn_sessions d)" "j \<noteq> i" for j
    by (rule looked_after_frame [of d]) (use kept that in \<open>auto simp: kept_def all_looked_after_def get_modify\<close>)
  have fresh: "fresh_next ?d" "fresh_next (terminate_session i ?d)"
    using kept fresh_next_view [of ?d d] fresh_next_view [of "terminate_session i ?d" ?d] by (auto simp: kept_def view_terminate)
  show ?thesis
  proof (cases "is_expired s now \<and> ds_attachment s = None")
    case True
    have c: "dcore (terminate_session i ?d) = (removeAll i (dn_sessions d), snd (dcore ?d))" by (simp add: dcore_terminate)
    have "all_looked_after (terminate_session i ?d)"
      using sessions_of_core [OF c] others looked_after_less [of "terminate_session i ?d" ?d] c by (auto simp: all_looked_after_def)
    then show ?thesis using True s fresh by (simp add: expire_session_def Let_def kept_def)
  next
    case False
    have "looked_after ?d i" if "i \<in> set (dn_sessions d)"
    proof -
      have "attended d i s \<or> expiring s" using kept that s(1) by (auto simp: kept_def all_looked_after_def looked_after_def)
      then have "attended d i s" using False s by (auto simp: expiring_def is_expired_def)
      then show ?thesis using s(1) by (auto simp: looked_after_def get_modify attended_def)
    qed
    then have "all_looked_after ?d" using others unfolding all_looked_after_def by fastforce
    then show ?thesis using False s fresh by (auto simp: expire_session_def Let_def kept_def)
  qed
qed

lemma serve_tunnel_kept:
  assumes kept: "kept d" and t: "tab_get (dn_tunnels d) t = None"
  shows "kept (fst (serve_tunnel t d))"
proof -
  let ?d = "d\<lparr>dn_tunnels := tab_insert t new_tunnel_state (dn_tunnels d)\<rparr>"
  have "looked_after ?d j" if "j \<in> set (dn_sessions d)" for j
    by (rule looked_after_frame [of d]) (use kept that t in \<open>auto simp: kept_def all_looked_after_def tab.get_insert\<close>)
  then have "kept ?d" using kept by (auto simp: kept_def all_looked_after_def fresh_next_def)
  then show ?thesis unfolding serve_tunnel_def using kept by (intro pure_step [where P = kept]) simp_all
qed

lemma drop_attachment_kept:
  assumes kept: "kept d" and a: "\<not> attachment_referenced d a"
  shows "kept (drop_attachment a d)"
proof -
  let ?d = "d\<lparr>dn_attachments := tab_remove a (dn_attachments d)\<rparr>"
  have "looked_after ?d j" if j: "j \<in> set (dn_sessions d)" for j
  proof -
    obtain s where s: "tab_get (dn_objects d) j = Some s" "attended d j s \<or> expiring s"
      using kept j by (auto simp: kept_def all_looked_after_def looked_after_def)
    have "(j, s) \<in> set (dn_objects d)" using s(1) by (simp add: tab_get_def map_of_SomeD)
    then have "ds_attachment s \<noteq> Some a" using a by (auto simp: attachment_referenced_def)
    then have "attended ?d j s" if "attended d j s" using that by (auto simp: attended_def tab.get_remove)
    then show ?thesis using s by (auto simp: looked_after_def)
  qed
  then have "kept ?d" using kept by (auto simp: kept_def all_looked_after_def fresh_next_def tab.get_remove)
  then show ?thesis
    unfolding drop_attachment_def
    by (rule kept_dcore [rotated 2]) (simp_all add: dcore_fold next_fold split_def)
qed

lemma step_kept:
  assumes "daemon_step env False d d'" "kept d"
  shows "kept d'"
  using assms
proof (induction rule: daemon_step.induct)
  case (serve d t)
  then show ?case by (rule serve_tunnel_kept [rotated])
next
  case (read d t u fresh r os now)
  then show ?case using serve_round_kept by blast
next
  case (put d t written)
  show ?case by (rule kept_dcore [OF _ _ put]) (simp_all add: next_rounds)
next
  case (accept i d answer)
  show ?case by (rule kept_dcore [OF _ _ accept(2)]) (simp_all add: next_accept)
next
  case (tcp_read own i k g d bytes)
  show ?case by (rule kept_dcore [OF _ _ tcp_read(2)]) (simp_all add: next_rounds)
next
  case (udp_read own i k g d received)
  show ?case by (rule kept_dcore [OF _ _ udp_read(2)]) (simp_all add: next_udp_read)
next
  case (tcp_write d k written)
  show ?case by (rule kept_dcore [OF _ _ tcp_write]) (simp_all add: next_rounds)
next
  case (expire d i s due now)
  then show ?case using expire_kept by blast
next
  case (shutdown d)
  show ?case by (rule kept_dcore [OF _ _ shutdown]) simp_all
next
  case (drop d a)
  then show ?case using drop_attachment_kept by blast
qed

section \<open>Properties\<close>

lemma steps_kept: "(daemon_step env False)\<^sup>*\<^sup>* d d' \<Longrightarrow> kept d \<Longrightarrow> kept d'"
  by (induction rule: rtranclp_induct) (auto intro: step_kept)

lemma new_daemon_kept: "kept (new_daemon limits)"
  by (simp add: kept_def all_looked_after_def fresh_next_def new_daemon_def)

lemma closed_resources: "tab_get (dn_objects d) i = Some s \<Longrightarrow>
  \<exists>s'. tab_get (dn_objects (terminate_session i d)) i = Some s' \<and> ds_retained_listener s' = None \<and> ds_retained_udp_bind s' = None"
proof -
  assume s: "tab_get (dn_objects d) i = Some s"
  have streams: "dn_objects (set_tcp_streams own m d) = dn_objects d" "dn_objects (cancel_entry e d) = dn_objects d" for own m e d
    by (simp_all add: set_tcp_streams_def cancel_entry_def drop_sender_def cancel_token_def split: stream_owner.split)
  have fold: "dn_objects (fold f xs d) = dn_objects d" if "\<And>x d. dn_objects (f x d) = dn_objects d"
    for f :: "'a \<Rightarrow> daemon \<Rightarrow> daemon" and xs d
    using that by (induction xs arbitrary: d) simp_all
  have drain: "dn_objects (drain_attachment a d) = dn_objects d" for a d
    by (simp add: drain_attachment_def cancel_all_def Let_def fold streams split_def cancel_token_def split: option.split)
  show ?thesis
    using s by (simp add: terminate_session_def cancel_root_def close_retained_resources_def close_non_resumable_streams_def
        remove_session_def get_modify drain split: option.split)
qed

text \<open>
  C34: no retained session is forgotten. As long as no open tunnel is opened again, in every state the daemon
  reaches each session of the store is either attended, by a served tunnel that is open for it at its
  generation, or detached with an expiry task; and when that task runs, whenever that is, the session
  leaves the store and its listener and its UDP socket are released.
\<close>

theorem no_session_forgotten:
  assumes "(daemon_step env False)\<^sup>*\<^sup>* (new_daemon limits) d" "i \<in> set (dn_sessions d)"
  shows "\<exists>s. tab_get (dn_objects d) i = Some s \<and> (attended d i s \<or>
    (\<exists>due. ds_attachment s = None \<and> ds_expiry_task s = Some due \<and> (\<forall>now. due \<le> now \<longrightarrow>
      i \<notin> set (dn_sessions (expire_session now i d)) \<and> listener_stream_id i (expire_session now i d) = None \<and>
      udp_bind_stream_id i (expire_session now i d) = None)))"
proof -
  obtain s where s: "tab_get (dn_objects d) i = Some s" "attended d i s \<or> expiring s"
    using steps_kept [OF assms(1) new_daemon_kept] assms(2) by (auto simp: kept_def all_looked_after_def looked_after_def)
  have "i \<notin> set (dn_sessions (expire_session now i d)) \<and> listener_stream_id i (expire_session now i d) = None \<and>
      udp_bind_stream_id i (expire_session now i d) = None"
    if e: "expiring s" "ds_expiry_task s = Some due" "due \<le> now" for due now
  proof -
    let ?d = "upd_session i (\<lambda>s. s\<lparr>ds_expiry_task := None\<rparr>) d"
    have x: "expire_session now i d = terminate_session i ?d"
      using e s(1) by (auto simp: expiring_def expire_session_def is_expired_def Let_def)
    obtain s' where "tab_get (dn_objects (terminate_session i ?d)) i = Some s'" "ds_retained_listener s' = None" "ds_retained_udp_bind s' = None"
      using closed_resources [of ?d i] s(1) by (auto simp: get_modify)
    moreover have "dn_sessions (terminate_session i ?d) = removeAll i (dn_sessions d)"
      using sessions_of_core [OF dcore_terminate] by simp
    ultimately show ?thesis unfolding x by (simp add: listener_stream_id_def udp_bind_stream_id_def)
  qed
  then show ?thesis using s by (auto simp: expiring_def)
qed

text \<open>
  A retained session that is not expired is resumed by an open on a served tunnel that is not open, with room for
  the answer; what it holds is kept and the answer is queued.
\<close>

lemma resume_open_listen:
  assumes "tab_get (dn_tunnels d) t = Some u" "dt_active u = ActUnopened" "dt_writer_open u"
    and "i \<in> set (dn_sessions d)" "tab_get (dn_objects d) i = Some s" "\<not> is_expired s now"
    and "om_resume_session_id m = Some i" "om_protocol m = Tcp"
    and ready: "de_encode_ready env \<lparr>rm_generation = om_generation m, rm_session_id = Some i,
      rm_resume_timeout_ms = Some (de_resume_timeout env), rm_limits = tunnel_limit_summary d\<rparr> = Inr meta"
  shows "\<exists>d' u' s' a x. tunnel_open_listen env now fresh t m d = (d', Inr ()) \<and>
    tab_get (dn_tunnels d') t = Some u' \<and> dt_active u' = ActListen Tcp i \<and>
    dt_queue u' = dt_queue u @ [raw_frame TunnelReady 0 meta []] \<and>
    tab_get (dn_objects d') i = Some s' \<and> ds_attachment s' = Some a \<and>
    tab_get (dn_attachments d') a = Some x \<and> ah_tunnel x = t \<and> \<not> ah_cancelled x \<and>
    ds_generation s' = om_generation m \<and> ds_resume_deadline s' = None \<and> ds_expiry_task s' = None \<and>
    ds_retained_listener s' = ds_retained_listener s \<and> ds_retained_udp_bind s' = ds_retained_udp_bind s \<and>
    ds_next_daemon_stream_id s' = ds_next_daemon_stream_id s"
proof -
  let ?d1 = "set_last_generation t (om_generation m) d"
  let ?u1 = "u\<lparr>dt_last_generation := om_generation m, dt_active := ActListen Tcp i\<rparr>"
  let ?d2 = "upd_tunnel t (\<lambda>u. u\<lparr>dt_active := ActListen Tcp i\<rparr>) (set_generation i (om_generation m) ?d1)"
  let ?d3 = "attach_session_to_tunnel i t ?d2"
  have a: "acquire_listen_open_session now fresh (Some i) ?d1 = (?d1, Inr (i, False))"
    using assms(4-6) by (simp add: acquire_listen_open_session_def set_last_generation_def)
  have o: "daemon_open_listen_session t i False (om_generation m) Tcp ?d1 = (?d3, Inr ())"
    using assms(1,2) by (simp add: daemon_open_listen_session_def activate_listen_tunnel_def activate_tunnel_def
        set_generation_def set_last_generation_def get_modify)
  have t3: "tab_get (dn_tunnels ?d3) t = Some ?u1" "dn_limits ?d3 = dn_limits d"
    using assms(1) by (simp_all add: attach_session_to_tunnel_def set_generation_def set_last_generation_def Let_def get_modify
        split: option.split)
  have s3: "\<exists>s' x. tab_get (dn_objects ?d3) i = Some s' \<and> ds_attachment s' = Some (dn_next d) \<and>
      tab_get (dn_attachments ?d3) (dn_next d) = Some x \<and> ah_tunnel x = t \<and> \<not> ah_cancelled x \<and>
      ds_generation s' = om_generation m \<and> ds_resume_deadline s' = None \<and> ds_expiry_task s' = None \<and>
      ds_retained_listener s' = ds_retained_listener s \<and> ds_retained_udp_bind s' = ds_retained_udp_bind s \<and>
      ds_next_daemon_stream_id s' = ds_next_daemon_stream_id s"
    using assms(5) by (simp add: attach_session_to_tunnel_def set_generation_def set_last_generation_def Let_def get_modify
        tab.get_insert split: option.split)
  have "send_tunnel_ready env t (om_generation m) (Some i) (Some (de_resume_timeout env)) ?d3 =
      (upd_tunnel t (dt_queue_update (\<lambda>q. q @ [raw_frame TunnelReady 0 meta []])) ?d3, Inr ())"
    using ready t3 assms(3) by (simp add: send_tunnel_ready_def meta_frame_def encode_frame_meta_def tunnel_limit_summary_def
        sender_send_def data_plane_charge_def is_data_plane_frame_def is_stream_frame_def raw_frame_def)
  then have "tunnel_open_listen env now fresh t m d =
      (upd_tunnel t (dt_queue_update (\<lambda>q. q @ [raw_frame TunnelReady 0 meta []])) ?d3, Inr ())"
    using a o assms(7,8) by (simp add: tunnel_open_listen_def)
  then show ?thesis using t3 s3 by (auto simp: get_modify)
qed




section \<open>A run\<close>

text \<open>Metadata is not spelled out: the empty bytes stand for the open of a listen session, others for that of a connect tunnel.\<close>

definition sample_open :: "bytes \<Rightarrow> open_meta" where
  "sample_open b = \<lparr>om_forward_id = lit ''fwd'', om_role = (if b = [] then RoleListenTunnel else RoleConnectTunnel), om_side = lit ''local'',
     om_generation = (if b = [] then 1 else 7), om_protocol = Tcp, om_resume_session_id = None\<rparr>"

definition sample_env :: daemon_env where
  "sample_env = \<lparr>de_decode_open = (\<lambda>b. Inr (sample_open b)), de_decode_close = (\<lambda>_. Inl []), de_decode_endpoint = (\<lambda>_. Inr (lit ''8080'')),
     de_decode_peer = (\<lambda>_. Inl []), de_encode_ready = (\<lambda>_. Inr []), de_encode_close = (\<lambda>_. Inr []), de_encode_endpoint = (\<lambda>_. Inr []),
     de_encode_accept = (\<lambda>_ _. Inr []), de_encode_peer = (\<lambda>_. Inr []), de_encode_error = (\<lambda>_. Inr []),
     de_encode_drop = (\<lambda>_ _ _ _. Inr []), de_show_endpoint_error = (\<lambda>_. []), de_show_frame_type = (\<lambda>_. []), de_resume_timeout = 10000\<rparr>"

definition sample_os :: os_answers where
  "sample_os = \<lparr>oa_bind = Inr (lit ''127.0.0.1:8080''), oa_connect = Connected, oa_send_to = Inr (), oa_room = False\<rparr>"

definition sample_served :: daemon where
  "sample_served = fst (serve_tunnel 0 (new_daemon (capacity default_host_limits)))"

definition sample_opened :: daemon where
  "sample_opened = serve_round sample_env sample_os 5 (lit ''ses'') 0 (ReadFrame (raw_frame TunnelOpen 0 [] [])) sample_served"

definition sample_listening :: daemon where
  "sample_listening = serve_round sample_env sample_os 6 (lit ''x'') 0 (ReadFrame (raw_frame TcpListen 1 [] [])) sample_opened"

definition sample_detached :: daemon where
  "sample_detached = serve_round sample_env sample_os 20 (lit ''y'') 0 ReadEof sample_listening"

lemma sample_detached_run: "(daemon_step sample_env False)\<^sup>*\<^sup>* (new_daemon (capacity default_host_limits)) sample_detached"
proof -
  have "daemon_step sample_env False (new_daemon (capacity default_host_limits)) sample_served"
    unfolding sample_served_def by (rule daemon_step.serve) code_simp
  moreover have "daemon_step sample_env False sample_served sample_opened"
    unfolding sample_opened_def
    by (rule daemon_step.read [where u = "the (tab_get (dn_tunnels sample_served) 0)"]) (code_simp, code_simp, code_simp, rule disjI2, rule disjI1, code_simp)
  moreover have "daemon_step sample_env False sample_opened sample_listening"
    unfolding sample_listening_def
    by (rule daemon_step.read [where u = "the (tab_get (dn_tunnels sample_opened) 0)"]) (code_simp, code_simp, code_simp, simp add: raw_frame_def)
  moreover have "daemon_step sample_env False sample_listening sample_detached"
    unfolding sample_detached_def
    by (rule daemon_step.read [where u = "the (tab_get (dn_tunnels sample_listening) 0)"]) (code_simp, code_simp, code_simp, simp)
  ultimately show ?thesis by (meson converse_rtranclp_into_rtranclp r_into_rtranclp)
qed

theorem no_session_forgotten_witness:
  "lit ''ses'' \<in> set (dn_sessions sample_detached) \<and> (\<exists>s. tab_get (dn_objects sample_detached) (lit ''ses'') = Some s \<and>
    (attended sample_detached (lit ''ses'') s \<or> (\<exists>due. ds_attachment s = None \<and> ds_expiry_task s = Some due \<and> (\<forall>now. due \<le> now \<longrightarrow>
      lit ''ses'' \<notin> set (dn_sessions (expire_session now (lit ''ses'') sample_detached)) \<and>
      listener_stream_id (lit ''ses'') (expire_session now (lit ''ses'') sample_detached) = None \<and>
      udp_bind_stream_id (lit ''ses'') (expire_session now (lit ''ses'') sample_detached) = None))))"
proof -
  have "lit ''ses'' \<in> set (dn_sessions sample_detached)" by code_simp
  then show ?thesis using no_session_forgotten [OF sample_detached_run] by blast
qed

definition sample_resume :: open_meta where
  "sample_resume = (sample_open [])\<lparr>om_generation := 2, om_resume_session_id := Some (lit ''ses'')\<rparr>"

text \<open>The broker's end of the resume, for one open and its answer.\<close>

definition sample_resume_env :: daemon_env where
  "sample_resume_env = sample_env\<lparr>de_decode_open := \<lambda>_. Inr sample_resume\<rparr>"

definition sample_json :: session_json where
  "sample_json = \<lparr>sj_tunnel = \<lparr>tj_decode_accept = \<lambda>_. None, tj_decode_peer = \<lambda>_. None, tj_encode_peer = \<lambda>_. None,
       tj_encode_endpoint = \<lambda>_. None, tj_decode_error = \<lambda>_. None, tj_decode_drop = \<lambda>_. None\<rparr>,
     sj_encode_open = \<lambda>_. Some [],
     sj_decode_ready = \<lambda>_. Some \<lparr>rm_generation = 2, rm_session_id = Some (lit ''ses''), rm_resume_timeout_ms = Some 10000,
       rm_limits = tunnel_limit_summary sample_detached\<rparr>,
     sj_encode_close = \<lambda>_. None, sj_decode_close = \<lambda>_. None, sj_decode_endpoint = \<lambda>_. None\<rparr>"

definition sample_tunnel :: tunnel where
  "sample_tunnel = \<lparr>tn_id = 0, tn_accepts = \<lambda>_ _. Inr (), tn_sent = [], tn_script = [], tn_aborted = False\<rparr>"

definition sample_side :: side_handle where
  "sample_side = \<lparr>sh_name = lit ''local'', sh_port_tunnel = Inr sample_tunnel, sh_show = \<lambda>_. []\<rparr>"


definition sample_moved :: daemon where
  "sample_moved = fst (tunnel_open_listen sample_env 30 [] 1 sample_resume (fst (serve_tunnel 1 sample_listening)))"



end
