(* ===== verification/Winpty_Filter.thy ===== *)
theory Winpty_Filter
  imports Hash_Map
begin

text \<open>
  The renderer that turns the screen updates of a winpty console into lines of output,
  \<open>crates/remote-exec-host/src/exec/session/pty_filter/winpty.rs\<close>. Cursor positions are \<open>i32\<close>, kept as
  integers with their wrap-around written out as a release build has it; the time is an argument.
\<close>

section \<open>Screen\<close>

record cell =
  ce_text :: rstr
  ce_continuation :: bool
  ce_explicit_space :: bool
  ce_has_text :: bool
  ce_width :: nat

definition default_cell :: cell where
  "default_cell = \<lparr>ce_text = [], ce_continuation = False, ce_explicit_space = False, ce_has_text = False, ce_width = 0\<rparr>"

record screen_line =
  sl_cells :: "cell list"
  sl_touched :: bool

definition default_line :: screen_line where "default_line = \<lparr>sl_cells = [], sl_touched = False\<rparr>"

record pending_row =
  pr_first_pending_at :: "nat option"
  pr_last_changed_at :: "nat option"

datatype renderer_state = Ground | Escape | EscapeIntermediate | Csi | OscString | IgnoreString

record winpty =
  wp_lines :: "screen_line list"
  wp_touched_rows :: "nat list"
  wp_pending :: "(nat, pending_row) table"
  wp_closed_rows :: "nat list"
  wp_state :: renderer_state
  wp_csi_buffer :: rstr
  wp_row :: int
  wp_col :: int
  wp_has_open_row :: bool
  wp_open_row :: nat
  wp_open_row_text :: rstr
  wp_debounce_ms :: nat
  wp_max_hold_ms :: nat

definition new_winpty :: "nat \<Rightarrow> nat \<Rightarrow> winpty" where
  "new_winpty debounce max_hold = \<lparr>wp_lines = [], wp_touched_rows = [], wp_pending = [], wp_closed_rows = [],
     wp_state = Ground, wp_csi_buffer = [], wp_row = 0, wp_col = 0, wp_has_open_row = False, wp_open_row = 0,
     wp_open_row_text = [], wp_debounce_ms = debounce, wp_max_hold_ms = max_hold\<rparr>"

definition default_winpty :: winpty where "default_winpty = new_winpty 150 500"

definition wrap_i32 :: "int \<Rightarrow> int" where
  "wrap_i32 x = (x + 2 ^ 31) mod 2 ^ 32 - 2 ^ 31"

text \<open>\<open>Vec::resize\<close> where the length only grows.\<close>

definition grow :: "nat \<Rightarrow> 'a \<Rightarrow> 'a list \<Rightarrow> 'a list" where
  "grow n x xs = xs @ replicate (n - length xs) x"

definition is_combining_codepoint :: "nat \<Rightarrow> bool" where
  "is_combining_codepoint c \<longleftrightarrow> 0x0300 \<le> c \<and> c \<le> 0x036f \<or> 0x1ab0 \<le> c \<and> c \<le> 0x1aff \<or> 0x1dc0 \<le> c \<and> c \<le> 0x1dff \<or>
     0x20d0 \<le> c \<and> c \<le> 0x20ff \<or> 0xfe20 \<le> c \<and> c \<le> 0xfe2f"

definition is_wide_codepoint :: "nat \<Rightarrow> bool" where
  "is_wide_codepoint c \<longleftrightarrow>
     0x1100 \<le> c \<and> (c \<le> 0x115f \<or> c = 0x2329 \<or> c = 0x232a \<or> (0x2e80 \<le> c \<and> c \<le> 0xa4cf \<and> c \<noteq> 0x303f) \<or>
       (0xac00 \<le> c \<and> c \<le> 0xd7a3) \<or> (0xf900 \<le> c \<and> c \<le> 0xfaff) \<or> (0xfe10 \<le> c \<and> c \<le> 0xfe19) \<or>
       (0xfe30 \<le> c \<and> c \<le> 0xfe6f) \<or> (0xff00 \<le> c \<and> c \<le> 0xff60) \<or> (0xffe0 \<le> c \<and> c \<le> 0xffe6)) \<or>
     0x1f300 \<le> c \<and> c \<le> 0x1faff"

definition display_width_for_codepoint :: "nat \<Rightarrow> nat" where
  "display_width_for_codepoint c =
     (if c = 0 then 1 else if is_combining_codepoint c then 0 else if is_wide_codepoint c then 2 else 1)"

section \<open>Clearing cells\<close>

text \<open>Walking left to the first cell that continues no other.\<close>

fun lead_of :: "cell list \<Rightarrow> nat \<Rightarrow> nat" where
  "lead_of cells 0 = 0"
| "lead_of cells (Suc c) = (if ce_continuation (cells ! Suc c) then lead_of cells c else Suc c)"

definition scan_cell :: "cell list \<Rightarrow> nat \<Rightarrow> nat \<times> nat \<Rightarrow> nat \<times> nat" where
  "scan_cell cells c r = (case r of (start, stop) \<Rightarrow>
     if ce_continuation (cells ! c)
     then (min start (lead_of cells c), max stop (lead_of cells c + max (ce_width (cells ! lead_of cells c)) 1))
     else if ce_has_text (cells ! c) \<and> ce_width (cells ! c) > 1 then (start, max stop (c + ce_width (cells ! c)))
     else (start, stop))"

text \<open>One round of the loop: the line grown to the range, and the range as the scan leaves it.\<close>

definition scan_range :: "cell list \<Rightarrow> nat \<Rightarrow> nat \<Rightarrow> nat \<times> nat" where
  "scan_range cells start stop = fold (scan_cell cells) [start..<min stop (length cells)] (start, stop)"

text \<open>
  The rounds end because each one that goes on moves the start to the left, or the end to the right and
  not past the last column a cell of the line reaches.
\<close>

definition reach :: "cell list \<Rightarrow> nat" where
  "reach cells = foldr max (map (\<lambda>i. i + ce_width (cells ! i)) [0..<length cells]) 0"

lemma foldr_max_ge: "x \<in> set xs \<Longrightarrow> x \<le> foldr max xs (0 :: nat)"
  by (induction xs) auto

lemma reach_ge: "i < length cells \<Longrightarrow> i + ce_width (cells ! i) \<le> reach cells"
  unfolding reach_def by (rule foldr_max_ge) auto

lemma lead_of_le: "lead_of cells c \<le> c"
  by (induction c) (auto intro: le_SucI)

lemma scan_cell_bounds:
  assumes "c < length cells" "c < e" "scan_cell cells c (s, e) = (s', e')"
  shows "s' \<le> s \<and> e \<le> e' \<and> e' \<le> max e (reach cells)"
proof -
  have "lead_of cells c + max (ce_width (cells ! lead_of cells c)) 1 \<le> max e (reach cells)"
    using lead_of_le [of cells c] reach_ge [of "lead_of cells c" cells] assms(1,2) by auto
  then show ?thesis
    using assms reach_ge [of c cells] by (auto simp: scan_cell_def split: if_splits)
qed

lemma fold_scan_bounds:
  assumes "\<forall>c \<in> set cs. c < length cells \<and> c < e" "fold (scan_cell cells) cs (s, e) = (s', e')"
  shows "s' \<le> s \<and> e \<le> e' \<and> e' \<le> max e (reach cells)"
  using assms
proof (induction cs arbitrary: s e)
  case (Cons c cs)
  obtain s1 e1 where one: "scan_cell cells c (s, e) = (s1, e1)" by fastforce
  have b: "s1 \<le> s \<and> e \<le> e1 \<and> e1 \<le> max e (reach cells)"
    using scan_cell_bounds [OF _ _ one] Cons.prems(1) by simp
  then have "s' \<le> s1 \<and> e1 \<le> e' \<and> e' \<le> max e1 (reach cells)"
    using Cons.IH [of e1 s1] Cons.prems one by fastforce
  with b show ?case by auto
qed simp

lemma scan_range_bounds:
  "scan_range cells s e = (s', e') \<Longrightarrow> s' \<le> s \<and> e \<le> e' \<and> e' \<le> max e (reach cells)"
  unfolding scan_range_def by (rule fold_scan_bounds) auto

lemma foldr_max_append: "foldr max (xs @ ys) (0 :: nat) = max (foldr max xs 0) (foldr max ys 0)"
  by (induction xs) auto

lemma foldr_max_le: "(\<forall>x \<in> set xs. x \<le> b) \<Longrightarrow> foldr max xs (0 :: nat) \<le> b"
  by (induction xs) auto

lemma reach_grow: "reach (grow n default_cell cells) \<le> max n (reach cells)"
  unfolding reach_def [of "grow n default_cell cells"]
proof (rule foldr_max_le, rule ballI)
  fix x assume "x \<in> set (map (\<lambda>i. i + ce_width (grow n default_cell cells ! i)) [0..<length (grow n default_cell cells)])"
  then obtain i where i: "i < length (grow n default_cell cells)" "x = i + ce_width (grow n default_cell cells ! i)"
    by auto
  show "x \<le> max n (reach cells)"
    using i reach_ge [of i cells] by (cases "i < length cells") (auto simp: grow_def nth_append default_cell_def)
qed

function (sequential) expand_range :: "cell list \<Rightarrow> nat \<Rightarrow> nat \<Rightarrow> cell list \<times> nat \<times> nat" where
  "expand_range cells start stop =
     (let cells = grow stop default_cell cells; r = scan_range cells start stop
      in if r = (start, stop) then (cells, start, stop) else expand_range cells (fst r) (snd r))"
  by pat_completeness auto
termination
proof (relation "measure (\<lambda>(cells, s, e). s + (reach cells - e))", simp)
  fix cells :: "cell list" and s e x r
  assume x: "x = grow e default_cell cells" and r: "r = scan_range x s e" and go: "r \<noteq> (s, e)"
  obtain s' e' where p: "r = (s', e')" by fastforce
  have "s' \<le> s \<and> e \<le> e' \<and> e' \<le> max e (reach x)" "reach x \<le> max e (reach cells)"
    using scan_range_bounds r p reach_grow x by metis+
  with go p show "((x, fst r, snd r), cells, s, e) \<in> measure (\<lambda>(cells, s, e). s + (reach cells - e))"
    by auto
qed

declare expand_range.simps [simp del]

definition clear_cells_range :: "cell list \<Rightarrow> nat \<Rightarrow> nat \<Rightarrow> cell list" where
  "clear_cells_range cells start_col end_col =
     (if end_col \<le> start_col then cells
      else let cells = grow end_col default_cell cells
           in case expand_range cells (lead_of cells start_col) end_col of
             (cells, clear_start, clear_end) \<Rightarrow>
               let cells = grow clear_end default_cell cells
               in take clear_start cells @ replicate (clear_end - clear_start) default_cell @ drop clear_end cells)"

section \<open>Rows and the cursor\<close>

definition normalized_current_row :: "winpty \<Rightarrow> nat" where
  "normalized_current_row w = nat (max (wp_row w) 0)"

definition ensure_line :: "nat \<Rightarrow> winpty \<Rightarrow> winpty" where
  "ensure_line row w = w\<lparr>wp_lines := grow (row + 1) default_line (wp_lines w)\<rparr>"

definition touch_row :: "nat \<Rightarrow> winpty \<Rightarrow> winpty" where
  "touch_row row w = (let w = ensure_line row w in
     if sl_touched (wp_lines w ! row) then w
     else w\<lparr>wp_lines := (wp_lines w)[row := (wp_lines w ! row)\<lparr>sl_touched := True\<rparr>],
            wp_touched_rows := wp_touched_rows w @ [row]\<rparr>)"

definition set_cells :: "nat \<Rightarrow> (cell list \<Rightarrow> cell list) \<Rightarrow> winpty \<Rightarrow> winpty" where
  "set_cells row f w = w\<lparr>wp_lines := (wp_lines w)[row := sl_cells_update f (wp_lines w ! row)]\<rparr>"

definition set_cursor_col :: "int \<Rightarrow> winpty \<Rightarrow> winpty" where
  "set_cursor_col col w = w\<lparr>wp_col := max col 0\<rparr>"

text \<open>The cells of a line once a text of \<open>n\<close> columns is put at column \<open>col\<close>.\<close>

definition put_text :: "rstr \<Rightarrow> nat \<Rightarrow> bool \<Rightarrow> nat \<Rightarrow> cell list \<Rightarrow> cell list" where
  "put_text t n explicit_space col cells =
     (let cells = grow (col + n) default_cell (clear_cells_range cells col (col + n));
          lead = \<lparr>ce_text = t, ce_continuation = False, ce_explicit_space = explicit_space, ce_has_text = True, ce_width = n\<rparr>;
          trailing = \<lparr>ce_text = [], ce_continuation = True, ce_explicit_space = False, ce_has_text = False, ce_width = 0\<rparr>
      in fold (\<lambda>offset cells. cells[col + offset := trailing]) [1..<n] (cells[col := lead]))"

definition write_cell_text :: "rstr \<Rightarrow> nat \<Rightarrow> bool \<Rightarrow> winpty \<Rightarrow> winpty" where
  "write_cell_text t width explicit_space w =
     (let w = w\<lparr>wp_row := max (wp_row w) 0, wp_col := max (wp_col w) 0\<rparr>;
          row = normalized_current_row w;
          n = max width 1;
          w = set_cells row (put_text t n explicit_space (nat (wp_col w))) (ensure_line row w);
          w = touch_row row w
      in w\<lparr>wp_col := wrap_i32 (wp_col w + int n)\<rparr>)"

definition emit_explicit_space :: "winpty \<Rightarrow> winpty" where
  "emit_explicit_space w = write_cell_text (lit '' '') 1 True w"

definition emit_printable_char :: "nat \<Rightarrow> winpty \<Rightarrow> winpty" where
  "emit_printable_char c w =
     (if c = 32 then emit_explicit_space w else write_cell_text [c] (display_width_for_codepoint c) False w)"

text \<open>The tab loop; eight rounds always reach a tab stop, by \<open>tab_loop_stops\<close>.\<close>

primrec tab_loop :: "nat \<Rightarrow> winpty \<Rightarrow> winpty" where
  "tab_loop 0 w = w"
| "tab_loop (Suc k) w =
     (let w = emit_explicit_space w in if wp_col w mod 8 = 0 then w else tab_loop k w)"

definition emit_newline :: "winpty \<Rightarrow> winpty" where
  "emit_newline w =
     (let row = normalized_current_row w;
          w = (if wp_has_open_row w \<and> wp_open_row w = row then w\<lparr>wp_open_row_text := []\<rparr> else w);
          w = ensure_line row w;
          w = touch_row row (w\<lparr>wp_closed_rows := List.insert row (wp_closed_rows w)\<rparr>)
      in w\<lparr>wp_row := wrap_i32 (wp_row w + 1), wp_col := 0\<rparr>)"

definition emit_control :: "nat \<Rightarrow> winpty \<Rightarrow> winpty" where
  "emit_control c w =
     (if c = 13 then w\<lparr>wp_col := 0\<rparr>
      else if c = 10 then emit_newline w
      else if c = 9 then tab_loop 8 w
      else if c = 8 then (if wp_col w > 0 then w\<lparr>wp_col := wp_col w - 1\<rparr> else w)
      else w)"

section \<open>Escape sequences\<close>

definition parse_csi_token :: "rstr \<Rightarrow> nat" where
  "parse_csi_token tok = (let digits = takeWhile is_ascii_digit tok in
     if digits = [] then 0 else if dec_value digits \<le> usize_max then dec_value digits else 0)"

definition parse_csi_params :: "rstr \<Rightarrow> nat list" where
  "parse_csi_params raw = (if raw = [] then [] else map parse_csi_token (split_on 59 raw))"

definition clear_line_from_cursor :: "int \<Rightarrow> winpty \<Rightarrow> winpty" where
  "clear_line_from_cursor mode w =
     (let w = w\<lparr>wp_row := max (wp_row w) 0\<rparr>;
          row = normalized_current_row w;
          col = nat (max (wp_col w) 0)
      in touch_row row (set_cells row
           (\<lambda>cells. if mode = 2 then [] else if mode = 1 then clear_cells_range cells 0 (col + 1)
                    else clear_cells_range cells col (length cells)) (ensure_line row w)))"

definition clear_row :: "nat \<Rightarrow> winpty \<Rightarrow> winpty" where
  "clear_row row w = touch_row row (set_cells row (\<lambda>_. []) w)"

definition clear_screen_from_cursor :: "int \<Rightarrow> winpty \<Rightarrow> winpty" where
  "clear_screen_from_cursor mode w =
     (if mode = 2
      then w\<lparr>wp_lines := [], wp_touched_rows := [], wp_pending := [], wp_closed_rows := [], wp_row := 0, wp_col := 0,
             wp_has_open_row := False, wp_open_row_text := []\<rparr>
      else let w = w\<lparr>wp_row := max (wp_row w) 0\<rparr>;
               w = clear_line_from_cursor (if mode = 1 then 1 else 0) w
           in if mode = 0 then fold clear_row [nat (min (wp_row w + 1) (2 ^ 31 - 1))..<length (wp_lines w)] w
              else if mode = 1 then fold clear_row [0..<normalized_current_row w] w
              else w)"

text \<open>The parameter at a position, one where it is absent or zero.\<close>

definition csi_param :: "nat list \<Rightarrow> nat \<Rightarrow> nat" where
  "csi_param ps i = (if i < length ps \<and> ps ! i \<noteq> 0 then ps ! i else 1)"

definition dispatch_csi :: "nat \<Rightarrow> winpty \<Rightarrow> winpty \<times> rstr" where
  "dispatch_csi action w =
     (let params = (case wp_csi_buffer w of c # rest \<Rightarrow> if c = 63 then rest else c # rest | [] \<Rightarrow> []);
          parsed = parse_csi_params params;
          first = wrap_i32 (int (csi_param parsed 0));
          mode = wrap_i32 (int (case parsed of [] \<Rightarrow> 0 | p # _ \<Rightarrow> p))
      in if action = 65 then (w\<lparr>wp_row := max (wrap_i32 (wp_row w - first)) 0\<rparr>, [])
         else if action = 66 then (w\<lparr>wp_row := wrap_i32 (wp_row w + first)\<rparr>, [])
         else if action = 67 then (w\<lparr>wp_col := wrap_i32 (wp_col w + first)\<rparr>, [])
         else if action = 68 then (w\<lparr>wp_col := max (wrap_i32 (wp_col w - first)) 0\<rparr>, [])
         else if action = 71 then (set_cursor_col (wrap_i32 (first - 1)) w, [])
         else if action = 72 \<or> action = 102
         then (set_cursor_col (wrap_i32 (int (csi_param parsed 1 - 1)))
                 (w\<lparr>wp_row := wrap_i32 (int (csi_param parsed 0 - 1))\<rparr>), [])
         else if action = 74 then (clear_screen_from_cursor mode w, [])
         else if action = 75 then (clear_line_from_cursor mode w, [])
         else if action = 110
         then (w, case parsed of p # _ \<Rightarrow> if p = 5 then 27 # lit ''[0n'' else if p = 6 then 27 # lit ''[1;1R'' else [] | [] \<Rightarrow> [])
         else (w, []))"

section \<open>Characters\<close>

definition is_c0_control :: "nat \<Rightarrow> bool" where
  "is_c0_control c \<longleftrightarrow> c \<le> 31 \<or> c = 127"

definition process_char :: "nat \<Rightarrow> winpty \<Rightarrow> winpty \<times> rstr" where
  "process_char c w = (case wp_state w of
     Ground \<Rightarrow>
       (if c = 27 then w\<lparr>wp_state := Escape\<rparr>
        else if is_c0_control c then emit_control c w
        else emit_printable_char c w, [])
   | Escape \<Rightarrow>
       (if c = 91 then w\<lparr>wp_state := Csi, wp_csi_buffer := []\<rparr>
        else if c = 93 then w\<lparr>wp_state := OscString\<rparr>
        else if c = 80 \<or> c = 88 \<or> c = 94 \<or> c = 95 then w\<lparr>wp_state := IgnoreString\<rparr>
        else if 32 \<le> c \<and> c \<le> 47 then w\<lparr>wp_state := EscapeIntermediate\<rparr>
        else if c \<noteq> 27 then w\<lparr>wp_state := Ground\<rparr>
        else w, [])
   | EscapeIntermediate \<Rightarrow>
       (if c = 27 then w\<lparr>wp_state := Escape\<rparr>
        else if 48 \<le> c \<and> c \<le> 126 then w\<lparr>wp_state := Ground\<rparr>
        else w, [])
   | Csi \<Rightarrow>
       (if c = 27 then (w\<lparr>wp_state := Escape, wp_csi_buffer := []\<rparr>, [])
        else if 64 \<le> c \<and> c \<le> 126
        then (case dispatch_csi c w of (w, response) \<Rightarrow> (w\<lparr>wp_state := Ground, wp_csi_buffer := []\<rparr>, response))
        else if 48 \<le> c \<and> c \<le> 63 \<or> c = 59 then (w\<lparr>wp_csi_buffer := wp_csi_buffer w @ [c]\<rparr>, [])
        else (w, []))
   | OscString \<Rightarrow>
       (if c = 7 then w\<lparr>wp_state := Ground\<rparr>
        else if c = 27 then w\<lparr>wp_state := IgnoreString\<rparr>
        else w, [])
   | IgnoreString \<Rightarrow>
       (if c = 92 \<or> c = 7 then w\<lparr>wp_state := Ground\<rparr> else w, []))"

fun process_chars :: "rstr \<Rightarrow> winpty \<Rightarrow> winpty \<times> rstr" where
  "process_chars [] w = (w, [])"
| "process_chars (c # cs) w =
     (case process_char c w of (w, r) \<Rightarrow> case process_chars cs w of (w, rs) \<Rightarrow> (w, r @ rs))"

section \<open>Emitting rows\<close>

definition cell_text :: "cell \<Rightarrow> rstr" where
  "cell_text c = (if ce_continuation c then [] else if ce_has_text c then ce_text c
                  else if ce_explicit_space c then lit '' '' else [])"

definition serialize_row :: "winpty \<Rightarrow> nat \<Rightarrow> rstr" where
  "serialize_row w row =
     (if row < length (wp_lines w)
      then trim_end_matches (\<lambda>c. c = 32) (concat (map cell_text (sl_cells (wp_lines w ! row))))
      else [])"

definition line_has_nonspace_char :: "rstr \<Rightarrow> bool" where
  "line_has_nonspace_char t \<longleftrightarrow> (\<exists>c \<in> set t. c \<noteq> 32)"

definition untouch :: "nat \<Rightarrow> winpty \<Rightarrow> winpty" where
  "untouch row w = w\<lparr>wp_lines := (wp_lines w)[row := (wp_lines w ! row)\<lparr>sl_touched := False\<rparr>]\<rparr>"

definition emit_row :: "nat \<Rightarrow> winpty \<Rightarrow> winpty \<times> rstr" where
  "emit_row row w =
     (if length (wp_lines w) \<le> row then (w, [])
      else let current = serialize_row w row; open_here = (wp_has_open_row w \<and> wp_open_row w = row)
           in if row \<in> set (wp_closed_rows w)
              then (untouch row (w\<lparr>wp_closed_rows := removeAll row (wp_closed_rows w), wp_has_open_row := False,
                                   wp_open_row_text := []\<rparr>),
                    if wp_has_open_row w
                    then (if open_here \<and> current = wp_open_row_text w then [10] else 10 # current @ [10])
                    else current @ [10])
              else if \<not> line_has_nonspace_char current
              then (if open_here then (untouch row (w\<lparr>wp_has_open_row := False, wp_open_row_text := []\<rparr>), [10])
                    else (untouch row w, []))
              else if open_here
              then (if current \<noteq> wp_open_row_text w
                    then (untouch row (w\<lparr>wp_open_row_text := current\<rparr>), 10 # current)
                    else (untouch row w, []))
              else (untouch row (w\<lparr>wp_has_open_row := True, wp_open_row := row, wp_open_row_text := current\<rparr>),
                    (if wp_has_open_row w then [10] else []) @ current))"

fun emit_rows :: "nat list \<Rightarrow> winpty \<Rightarrow> winpty \<times> rstr" where
  "emit_rows [] w = (w, [])"
| "emit_rows (row # rows) w =
     (case emit_row row w of (w, out) \<Rightarrow> case emit_rows rows w of (w, outs) \<Rightarrow> (w, out @ outs))"

definition sorted_touched :: "winpty \<Rightarrow> nat list" where
  "sorted_touched w = remdups_adj (sort (wp_touched_rows w))"

definition queue_row :: "nat \<Rightarrow> nat \<Rightarrow> winpty \<Rightarrow> winpty" where
  "queue_row now_ms row w =
     (if length (wp_lines w) \<le> row then w
      else let first = (case tab_get (wp_pending w) row of
                          Some p \<Rightarrow> (case pr_first_pending_at p of Some t \<Rightarrow> t | None \<Rightarrow> now_ms) | None \<Rightarrow> now_ms)
           in untouch row (w\<lparr>wp_pending := tab_insert row
                \<lparr>pr_first_pending_at = Some first, pr_last_changed_at = Some now_ms\<rparr> (wp_pending w)\<rparr>))"

definition queue_touched_rows :: "nat \<Rightarrow> winpty \<Rightarrow> winpty" where
  "queue_touched_rows now_ms w = fold (queue_row now_ms) (sorted_touched w) (w\<lparr>wp_touched_rows := []\<rparr>)"

definition debounce_enabled :: "winpty \<Rightarrow> bool" where
  "debounce_enabled w \<longleftrightarrow> wp_debounce_ms w > 0"

definition pending_row_due :: "winpty \<Rightarrow> pending_row \<Rightarrow> nat \<Rightarrow> bool" where
  "pending_row_due w p now_ms \<longleftrightarrow> \<not> debounce_enabled w \<or>
     (case pr_first_pending_at p of None \<Rightarrow> True | Some first \<Rightarrow>
      case pr_last_changed_at p of None \<Rightarrow> True | Some last_changed \<Rightarrow>
        now_ms - last_changed \<ge> wp_debounce_ms w \<or> (wp_max_hold_ms w > 0 \<and> now_ms - first \<ge> wp_max_hold_ms w))"

definition emit_touched_rows :: "winpty \<Rightarrow> winpty \<times> rstr" where
  "emit_touched_rows w = emit_rows (sorted_touched w) (w\<lparr>wp_touched_rows := []\<rparr>)"

definition due_rows :: "nat \<Rightarrow> winpty \<Rightarrow> nat list" where
  "due_rows now_ms w = sort (map fst (filter (\<lambda>(row, p). pending_row_due w p now_ms) (wp_pending w)))"

definition emit_due_rows :: "nat \<Rightarrow> winpty \<Rightarrow> winpty \<times> rstr" where
  "emit_due_rows now_ms w = (case emit_rows (due_rows now_ms w) w of (w', out) \<Rightarrow>
     (w'\<lparr>wp_pending := fold tab_remove (due_rows now_ms w) (wp_pending w')\<rparr>, out))"

text \<open>The clock that \<open>emit_all_pending_rows\<close> reads is the argument.\<close>

definition emit_all_pending_rows :: "nat \<Rightarrow> winpty \<Rightarrow> winpty \<times> rstr" where
  "emit_all_pending_rows now_ms w =
     (let w = queue_touched_rows now_ms w
      in case emit_rows (sort (map fst (wp_pending w))) w of (w, out) \<Rightarrow> (w\<lparr>wp_pending := []\<rparr>, out))"

definition flush_now :: "nat \<Rightarrow> winpty \<Rightarrow> winpty \<times> rstr" where
  "flush_now now_ms w = (if debounce_enabled w then emit_due_rows now_ms (queue_touched_rows now_ms w) else emit_touched_rows w)"

definition filter_chunk_at :: "rstr \<Rightarrow> nat \<Rightarrow> winpty \<Rightarrow> winpty \<times> rstr \<times> rstr" where
  "filter_chunk_at chunk now_ms w = (case process_chars chunk w of (w, response) \<Rightarrow>
     case flush_now now_ms w of (w, output) \<Rightarrow> (w, output, response))"

definition drain_pending_rows :: "nat \<Rightarrow> winpty \<Rightarrow> winpty \<times> rstr" where
  "drain_pending_rows now_ms w =
     (let w = w\<lparr>wp_state := Ground, wp_csi_buffer := []\<rparr>
      in case (if debounce_enabled w then emit_all_pending_rows now_ms w else emit_touched_rows w) of (w, output) \<Rightarrow>
         (w\<lparr>wp_has_open_row := False, wp_open_row_text := []\<rparr>, output))"

text \<open>What a session does with its filter, in any order.\<close>

inductive winpty_reachable :: "winpty \<Rightarrow> bool" where
  start: "winpty_reachable (new_winpty d h)"
| chunk: "winpty_reachable w \<Longrightarrow> winpty_reachable (fst (filter_chunk_at cs now w))"
| flush: "winpty_reachable w \<Longrightarrow> winpty_reachable (fst (flush_now now w))"
| drain: "winpty_reachable w \<Longrightarrow> winpty_reachable (fst (drain_pending_rows now w))"

section \<open>No half characters\<close>

definition wide :: "cell \<Rightarrow> bool" where
  "wide c \<longleftrightarrow> ce_has_text c \<and> ce_width c = 2"

definition cells_wf :: "cell list \<Rightarrow> bool" where
  "cells_wf cells \<longleftrightarrow> (\<forall>i < length cells.
     (ce_continuation (cells ! i) \<longleftrightarrow> 0 < i \<and> wide (cells ! (i - 1))) \<and>
     (wide (cells ! i) \<longrightarrow> Suc i < length cells) \<and>
     (ce_continuation (cells ! i) \<longrightarrow> \<not> ce_has_text (cells ! i)) \<and> ce_width (cells ! i) \<le> 2)"

lemma cells_wfD:
  assumes "cells_wf cells" "i < length cells"
  shows "ce_continuation (cells ! i) \<longleftrightarrow> 0 < i \<and> wide (cells ! (i - 1))"
    and "wide (cells ! i) \<Longrightarrow> Suc i < length cells"
    and "ce_continuation (cells ! i) \<Longrightarrow> \<not> ce_has_text (cells ! i)"
    and "ce_width (cells ! i) \<le> 2"
  using assms unfolding cells_wf_def by blast+

lemma default_cell_simps [simp]:
  "\<not> ce_continuation default_cell" "\<not> ce_has_text default_cell" "\<not> wide default_cell" "ce_width default_cell = 0"
  by (simp_all add: default_cell_def wide_def)

lemma length_grow [simp]: "length (grow n x xs) = max n (length xs)"
  by (simp add: grow_def)

lemma nth_grow: "i < max n (length xs) \<Longrightarrow> grow n x xs ! i = (if i < length xs then xs ! i else x)"
  by (simp add: grow_def nth_append)

lemma grow_id [simp]: "n \<le> length xs \<Longrightarrow> grow n x xs = xs"
  by (simp add: grow_def)

lemma grow_wf: "cells_wf cells \<Longrightarrow> cells_wf (grow n default_cell cells)"
  unfolding cells_wf_def
proof (intro allI impI, goal_cases)
  case (1 i)
  show ?case
  proof (cases "i < length cells")
    case True
    then have "grow n default_cell cells ! i = cells ! i" "grow n default_cell cells ! (i - 1) = cells ! (i - 1)"
      by (simp_all add: nth_grow less_max_iff_disj less_imp_diff_less)
    with 1 True show ?thesis by (simp add: less_max_iff_disj)
  next
    case False
    then have "\<not> (0 < i \<and> wide (grow n default_cell cells ! (i - 1)))"
      using 1 by (auto simp: nth_grow dest: spec [of _ "i - 1"])
    with False 1(2) show ?thesis by (simp add: nth_grow)
  qed
qed

lemma lead_of_less: "0 < c \<Longrightarrow> ce_continuation (cells ! c) \<Longrightarrow> lead_of cells c < c"
  using lead_of_le [of cells "c - 1"] by (cases c) auto

lemma fold_scan_fixed:
  assumes "\<forall>c \<in> set cs. c < length cells \<and> c < e" "fold (scan_cell cells) cs (s, e) = (s, e)" "c \<in> set cs"
  shows "scan_cell cells c (s, e) = (s, e)"
  using assms
proof (induction cs)
  case (Cons d cs)
  obtain s1 e1 where one: "scan_cell cells d (s, e) = (s1, e1)" by fastforce
  have "s1 \<le> s \<and> e \<le> e1" using scan_cell_bounds [OF _ _ one] Cons.prems(1) by simp
  moreover have "s \<le> s1 \<and> e1 \<le> e"
    using fold_scan_bounds [of cs cells e1 s1 s e] Cons.prems(1,2) one calculation by fastforce
  ultimately have "scan_cell cells d (s, e) = (s, e)" using one by simp
  with Cons show ?case by auto
qed simp

lemma expand_range_spec:
  "expand_range cells s e = (cells', s', e') \<Longrightarrow>
   cells' = grow e' default_cell cells \<and> s' \<le> s \<and> e \<le> e' \<and> scan_range cells' s' e' = (s', e')"
proof (induction cells s e rule: expand_range.induct)
  case (1 cells s e)
  define x where "x = grow e default_cell cells"
  show ?case
  proof (cases "scan_range x s e = (s, e)")
    case True
    with "1.prems" show ?thesis by (auto simp: expand_range.simps [of cells] Let_def x_def)
  next
    case False
    obtain s1 e1 where r: "scan_range x s e = (s1, e1)" by fastforce
    then have r': "scan_range (grow e default_cell cells) s e = (s1, e1)" by (simp add: x_def)
    have b: "s1 \<le> s \<and> e \<le> e1" using scan_range_bounds [OF r] by simp
    have "expand_range x s1 e1 = (cells', s', e')"
      using "1.prems" False unfolding expand_range.simps [of cells] Let_def x_def r' by (simp split: if_splits)
    then have "cells' = grow e' default_cell x \<and> s' \<le> s1 \<and> e1 \<le> e' \<and> scan_range cells' s' e' = (s', e')"
      using "1.IH" [OF x_def refl] False unfolding r fst_conv snd_conv by blast
    moreover have "e \<le> e' \<Longrightarrow> grow e' default_cell x = grow e' default_cell cells"
      by (auto simp: x_def grow_def replicate_add [symmetric] max_def)
    ultimately show ?thesis using b by auto
  qed
qed

definition closed_range :: "cell list \<Rightarrow> nat \<Rightarrow> nat \<Rightarrow> bool" where
  "closed_range cells s e \<longleftrightarrow> s < e \<and> e \<le> length cells \<and> \<not> ce_continuation (cells ! s) \<and> \<not> wide (cells ! (e - 1))"

lemma fixed_range_closed:
  assumes wf: "cells_wf cells" and fixed: "scan_range cells s e = (s, e)" and "s < e" "e \<le> length cells"
  shows "closed_range cells s e"
proof -
  have each: "scan_cell cells c (s, e) = (s, e)" if "s \<le> c" "c < e" for c
    using fold_scan_fixed [of "[s..<min e (length cells)]" cells e s c] fixed that assms(4)
    by (auto simp: scan_range_def)
  have "\<not> ce_continuation (cells ! s)"
  proof
    assume c: "ce_continuation (cells ! s)"
    then have "lead_of cells s < s" using cells_wfD(1) [OF wf, of s] assms(3,4) lead_of_less by auto
    with each [of s] c assms(3) show False by (auto simp: scan_cell_def)
  qed
  moreover have "\<not> wide (cells ! (e - 1))"
  proof
    assume w: "wide (cells ! (e - 1))"
    have "e - 1 < length cells" using assms(3,4) by linarith
    with w have "\<not> ce_continuation (cells ! (e - 1))"
      using cells_wfD(3) [OF wf, of "e - 1"] assms(3,4) by (auto simp: wide_def)
    moreover have "scan_cell cells (e - 1) (s, e) = (s, e)" using each [of "e - 1"] assms(3) by linarith
    ultimately show False using w assms(3) by (auto simp: scan_cell_def wide_def)
  qed
  ultimately show ?thesis using assms(3,4) by (simp add: closed_range_def)
qed

definition blank :: "nat \<Rightarrow> nat \<Rightarrow> cell list \<Rightarrow> cell list" where
  "blank s e cells = take s cells @ replicate (e - s) default_cell @ drop e cells"

lemma nth_blank:
  "s \<le> e \<Longrightarrow> e \<le> length cells \<Longrightarrow> i < length cells \<Longrightarrow>
   blank s e cells ! i = (if s \<le> i \<and> i < e then default_cell else cells ! i)"
  by (auto simp: blank_def nth_append)

lemma length_blank [simp]: "s \<le> e \<Longrightarrow> e \<le> length cells \<Longrightarrow> length (blank s e cells) = length cells"
  by (simp add: blank_def)

lemma blank_wf:
  assumes wf: "cells_wf cells" and cl: "closed_range cells s e"
  shows "cells_wf (blank s e cells)"
  unfolding cells_wf_def
proof (intro allI impI)
  fix i assume "i < length (blank s e cells)"
  with cl have i: "i < length cells" and se: "s < e" "e \<le> length cells" by (auto simp: closed_range_def)
  have edge: "0 < s \<Longrightarrow> \<not> wide (cells ! (s - 1))" "e < length cells \<Longrightarrow> \<not> ce_continuation (cells ! e)"
    using cl cells_wfD(1) [OF wf, of s] cells_wfD(1) [OF wf, of e] se by (auto simp: closed_range_def)
  have prev: "0 < i \<and> wide (blank s e cells ! (i - 1)) \<longleftrightarrow> ce_continuation (blank s e cells ! i)"
    using cells_wfD(1) [OF wf i] i se edge
    by (cases "i = s"; cases "i = e") (auto simp: nth_blank)
  show "(ce_continuation (blank s e cells ! i) \<longleftrightarrow> 0 < i \<and> wide (blank s e cells ! (i - 1))) \<and>
     (wide (blank s e cells ! i) \<longrightarrow> Suc i < length (blank s e cells)) \<and>
     (ce_continuation (blank s e cells ! i) \<longrightarrow> \<not> ce_has_text (blank s e cells ! i)) \<and> ce_width (blank s e cells ! i) \<le> 2"
    unfolding prev using cells_wfD(2-4) [OF wf i] i se by (simp add: nth_blank)
qed

lemma clear_cells_range_spec:
  assumes wf: "cells_wf cells" and "a < b"
  shows "\<exists>s e. s \<le> a \<and> b \<le> e \<and> closed_range (grow e default_cell cells) s e \<and>
           clear_cells_range cells a b = blank s e (grow e default_cell cells)"
proof -
  define x where "x = grow b default_cell cells"
  obtain y s e where r: "expand_range x (lead_of x a) b = (y, s, e)" by (cases "expand_range x (lead_of x a) b")
  note sp = expand_range_spec [OF r]
  have y: "y = grow e default_cell cells"
    using sp by (auto simp: x_def grow_def replicate_add [symmetric] max_def)
  have se: "s \<le> a" "b \<le> e" using sp lead_of_le [of x a] by auto
  have "cells_wf y" "s < e" "e \<le> length y" using grow_wf [OF wf] se assms(2) y by simp_all
  then have "closed_range y s e" using fixed_range_closed sp by blast
  moreover have "clear_cells_range cells a b = blank s e y"
    using r assms(2) y by (simp add: clear_cells_range_def x_def Let_def blank_def)
  ultimately show ?thesis using se y by blast
qed

lemma clear_cells_range_wf: "cells_wf cells \<Longrightarrow> cells_wf (clear_cells_range cells a b)"
  using clear_cells_range_spec [of cells a b] grow_wf blank_wf
  by (cases "a < b") (auto simp: clear_cells_range_def)

lemma clear_cells_range_cleared:
  assumes "cells_wf cells" "a \<le> i" "i < b"
  shows "b \<le> length (clear_cells_range cells a b) \<and> clear_cells_range cells a b ! i = default_cell"
  using clear_cells_range_spec [of cells a b] assms by (auto simp: closed_range_def nth_blank)

lemma put_text_nth:
  assumes wf: "cells_wf cells" and n: "n = 1 \<or> n = 2"
    and x: "x = clear_cells_range cells col (col + n)" and z: "z = put_text t n sp col cells"
  shows "length z = length x" and "col + n \<le> length x"
    and "z ! col = \<lparr>ce_text = t, ce_continuation = False, ce_explicit_space = sp, ce_has_text = True, ce_width = n\<rparr>"
    and "n = 2 \<Longrightarrow> z ! Suc col = \<lparr>ce_text = [], ce_continuation = True, ce_explicit_space = False, ce_has_text = False, ce_width = 0\<rparr>"
    and "i < col \<or> col + n \<le> i \<Longrightarrow> z ! i = x ! i"
proof -
  show len: "col + n \<le> length x" using clear_cells_range_cleared [OF wf, of col col "col + n"] n x by auto
  have zz: "z = fold (\<lambda>offset cells. cells[col + offset := \<lparr>ce_text = [], ce_continuation = True, ce_explicit_space = False,
      ce_has_text = False, ce_width = 0\<rparr>]) [1..<n] (x[col := \<lparr>ce_text = t, ce_continuation = False, ce_explicit_space = sp,
      ce_has_text = True, ce_width = n\<rparr>])"
    unfolding z put_text_def Let_def x [symmetric] grow_id [OF len] ..
  show "length z = length x" using n unfolding zz by (elim disjE) (simp_all add: upt_rec)
  show "z ! col = \<lparr>ce_text = t, ce_continuation = False, ce_explicit_space = sp, ce_has_text = True, ce_width = n\<rparr>"
    using n len unfolding zz by (elim disjE) (simp_all add: upt_rec)
  show "n = 2 \<Longrightarrow> z ! Suc col = \<lparr>ce_text = [], ce_continuation = True, ce_explicit_space = False, ce_has_text = False, ce_width = 0\<rparr>"
    using len unfolding zz by (simp add: upt_rec)
  show "i < col \<or> col + n \<le> i \<Longrightarrow> z ! i = x ! i"
    using n unfolding zz by (elim disjE) (simp_all add: upt_rec)
qed

lemma put_text_wf:
  assumes wf: "cells_wf cells" and n: "n = 1 \<or> n = 2"
  shows "cells_wf (put_text t n sp col cells)"
proof -
  define x where "x = clear_cells_range cells col (col + n)"
  define z where "z = put_text t n sp col cells"
  note Z = put_text_nth [OF wf n x_def z_def]
  have x: "cells_wf x" using clear_cells_range_wf [OF wf] by (simp add: x_def)
  have blank_at: "x ! i = default_cell" if "col \<le> i" "i < col + n" for i
    using clear_cells_range_cleared [OF wf that] by (simp add: x_def)
  have after: "\<not> ce_continuation (x ! (col + n))" if "col + n < length x"
    using cells_wfD(1) [OF x that] blank_at [of "col + n - 1"] n by auto
  have before: "\<not> wide (x ! (col - 1))" if "0 < col"
    using cells_wfD(1) [OF x, of col] blank_at [of col] Z(2) n that by auto
  have "cells_wf z"
    unfolding cells_wf_def
  proof (intro allI impI)
    fix i assume "i < length z"
    then have i: "i < length x" using Z(1) by simp
    note D = cells_wfD [OF x i]
    consider "i < col" | "i = col" | "i = Suc col" "n = 2" | "i = col + n" | "col + n < i" using n by linarith
    then show "(ce_continuation (z ! i) \<longleftrightarrow> 0 < i \<and> wide (z ! (i - 1))) \<and> (wide (z ! i) \<longrightarrow> Suc i < length z) \<and>
       (ce_continuation (z ! i) \<longrightarrow> \<not> ce_has_text (z ! i)) \<and> ce_width (z ! i) \<le> 2"
    proof cases
      case 1
      then have "z ! i = x ! i" "z ! (i - 1) = x ! (i - 1)" by (auto intro!: Z(5))
      with D Z(1) show ?thesis by simp
    next
      case 2
      then have "0 < i \<Longrightarrow> z ! (i - 1) = x ! (i - 1)" using Z(5) [of "i - 1"] by auto
      with 2 before Z(1-3) n show ?thesis by (auto simp: wide_def)
    next
      case 3
      with Z(3,4) show ?thesis by (simp add: wide_def)
    next
      case 4
      then have "z ! i = x ! i" "\<not> wide (z ! (i - 1))" using Z(3-5) n by (auto simp: wide_def)
      with D 4 after i Z(1) show ?thesis by simp
    next
      case 5
      then have "z ! i = x ! i" "z ! (i - 1) = x ! (i - 1)" by (auto intro!: Z(5))
      with D Z(1) show ?thesis by simp
    qed
  qed
  then show ?thesis by (simp add: z_def)
qed

text \<open>
  A filter is well formed when every line is, and a row that is both shown and closed has its shown text
  forgotten.
\<close>

definition screen_wf :: "winpty \<Rightarrow> bool" where
  "screen_wf w \<longleftrightarrow> (\<forall>l \<in> set (wp_lines w). cells_wf (sl_cells l))"

definition closed_forgotten :: "winpty \<Rightarrow> bool" where
  "closed_forgotten w \<longleftrightarrow>
     (wp_has_open_row w \<and> wp_open_row w \<in> set (wp_closed_rows w) \<longrightarrow> wp_open_row_text w = [])"

definition winpty_inv :: "winpty \<Rightarrow> bool" where
  "winpty_inv w \<longleftrightarrow> screen_wf w \<and> closed_forgotten w"

lemma cells_wf_Nil [simp]: "cells_wf []"
  by (simp add: cells_wf_def)

lemma screen_wf_upd:
  assumes "screen_wf w" "\<And>cells. cells_wf cells \<Longrightarrow> cells_wf (f cells)"
  shows "screen_wf (set_cells row f w)"
  using assms by (cases "row < length (wp_lines w)")
    (auto simp: screen_wf_def set_cells_def not_less list_update_beyond dest!: set_update_subset_insert [THEN subsetD])

lemma screen_wf_ensure [intro]: "screen_wf w \<Longrightarrow> screen_wf (ensure_line row w)"
  by (auto simp: screen_wf_def ensure_line_def grow_def default_line_def)

lemma screen_wf_mark:
  assumes "screen_wf w"
  shows "screen_wf (w\<lparr>wp_lines := (wp_lines w)[row := (wp_lines w ! row)\<lparr>sl_touched := b\<rparr>]\<rparr>)"
  using assms by (cases "row < length (wp_lines w)")
    (auto simp: screen_wf_def not_less list_update_beyond dest!: set_update_subset_insert [THEN subsetD])

lemma touch_row_inv [intro]: "winpty_inv w \<Longrightarrow> winpty_inv (touch_row row w)"
  using screen_wf_mark [of "ensure_line row w" row True] screen_wf_ensure [of w row]
  by (auto simp: winpty_inv_def touch_row_def Let_def screen_wf_def closed_forgotten_def ensure_line_def)

lemma set_cells_inv:
  "winpty_inv w \<Longrightarrow> (\<And>cells. cells_wf cells \<Longrightarrow> cells_wf (f cells)) \<Longrightarrow> winpty_inv (set_cells row f w)"
  using screen_wf_upd [of w f row] by (simp add: winpty_inv_def closed_forgotten_def set_cells_def)

lemma ensure_line_inv: "winpty_inv w \<Longrightarrow> winpty_inv (ensure_line row w)"
  using screen_wf_ensure [of w row] by (simp add: winpty_inv_def closed_forgotten_def ensure_line_def)

lemma winpty_inv_cursor [simp]:
  "winpty_inv (w\<lparr>wp_row := r\<rparr>) = winpty_inv w" "winpty_inv (w\<lparr>wp_col := c\<rparr>) = winpty_inv w"
  "winpty_inv (w\<lparr>wp_state := st\<rparr>) = winpty_inv w" "winpty_inv (w\<lparr>wp_csi_buffer := b\<rparr>) = winpty_inv w"
  "winpty_inv (w\<lparr>wp_touched_rows := rs\<rparr>) = winpty_inv w" "winpty_inv (w\<lparr>wp_pending := p\<rparr>) = winpty_inv w"
  by (simp_all add: winpty_inv_def screen_wf_def closed_forgotten_def)

lemma write_cell_text_inv:
  "winpty_inv w \<Longrightarrow> width \<le> 2 \<Longrightarrow> winpty_inv (write_cell_text t width sp w)"
  unfolding write_cell_text_def Let_def winpty_inv_cursor
  by (intro touch_row_inv set_cells_inv ensure_line_inv put_text_wf) (auto simp: max_def)

lemma emit_explicit_space_inv: "winpty_inv w \<Longrightarrow> winpty_inv (emit_explicit_space w)"
  by (simp add: emit_explicit_space_def write_cell_text_inv)

lemma emit_printable_char_inv: "winpty_inv w \<Longrightarrow> winpty_inv (emit_printable_char c w)"
  by (simp add: emit_printable_char_def emit_explicit_space_inv write_cell_text_inv display_width_for_codepoint_def)

lemma tab_loop_inv: "winpty_inv w \<Longrightarrow> winpty_inv (tab_loop k w)"
  by (induction k arbitrary: w) (simp_all add: Let_def emit_explicit_space_inv)

lemma emit_newline_inv:
  assumes "winpty_inv w"
  shows "winpty_inv (emit_newline w)"
proof -
  let ?r = "normalized_current_row w"
  let ?w = "ensure_line ?r (if wp_has_open_row w \<and> wp_open_row w = ?r then w\<lparr>wp_open_row_text := []\<rparr> else w)"
  have "winpty_inv (?w\<lparr>wp_closed_rows := List.insert ?r (wp_closed_rows ?w)\<rparr>)"
    using assms screen_wf_ensure [of w ?r] by (auto simp: winpty_inv_def closed_forgotten_def screen_wf_def ensure_line_def)
  then show ?thesis unfolding emit_newline_def Let_def winpty_inv_cursor by (rule touch_row_inv)
qed

lemma emit_control_inv: "winpty_inv w \<Longrightarrow> winpty_inv (emit_control c w)"
  by (simp add: emit_control_def emit_newline_inv tab_loop_inv)

lemma clear_line_inv: "winpty_inv w \<Longrightarrow> winpty_inv (clear_line_from_cursor mode w)"
  unfolding clear_line_from_cursor_def Let_def
  by (intro touch_row_inv set_cells_inv ensure_line_inv) (simp_all add: clear_cells_range_wf)

lemma clear_rows_inv: "winpty_inv w \<Longrightarrow> winpty_inv (fold clear_row rows w)"
proof (induction rows arbitrary: w)
  case (Cons r rows)
  have "winpty_inv (clear_row r w)" unfolding clear_row_def by (intro touch_row_inv set_cells_inv Cons.prems) simp
  with Cons.IH show ?case by simp
qed simp

lemma clear_screen_inv: "winpty_inv w \<Longrightarrow> winpty_inv (clear_screen_from_cursor mode w)"
  by (simp add: clear_screen_from_cursor_def Let_def clear_rows_inv clear_line_inv)
    (simp add: winpty_inv_def screen_wf_def closed_forgotten_def)

lemma dispatch_csi_inv: "winpty_inv w \<Longrightarrow> winpty_inv (fst (dispatch_csi a w))"
  by (simp add: dispatch_csi_def Let_def set_cursor_col_def clear_screen_inv clear_line_inv)

lemma process_char_inv: "winpty_inv w \<Longrightarrow> winpty_inv (fst (process_char c w))"
  using dispatch_csi_inv [of w c]
  by (cases "wp_state w")
    (simp_all add: process_char_def case_prod_beta emit_control_inv emit_printable_char_inv)

lemma process_chars_inv: "winpty_inv w \<Longrightarrow> winpty_inv (fst (process_chars cs w))"
  by (induction cs arbitrary: w) (simp_all add: case_prod_beta process_char_inv)

lemma untouch_inv [simp]: "winpty_inv w \<Longrightarrow> winpty_inv (untouch row w)"
  using screen_wf_mark [of w row False] by (simp add: untouch_def winpty_inv_def closed_forgotten_def)

lemma winpty_inv_shown:
  "winpty_inv w \<Longrightarrow> winpty_inv (w\<lparr>wp_has_open_row := False, wp_open_row_text := []\<rparr>)"
  "winpty_inv w \<Longrightarrow> winpty_inv (w\<lparr>wp_closed_rows := rs, wp_has_open_row := False, wp_open_row_text := []\<rparr>)"
  "winpty_inv w \<Longrightarrow> row \<notin> set (wp_closed_rows w) \<Longrightarrow>
   winpty_inv (w\<lparr>wp_has_open_row := True, wp_open_row := row, wp_open_row_text := t\<rparr>)"
  "winpty_inv w \<Longrightarrow> wp_open_row w \<notin> set (wp_closed_rows w) \<Longrightarrow> winpty_inv (w\<lparr>wp_open_row_text := t\<rparr>)"
  by (simp_all add: winpty_inv_def screen_wf_def closed_forgotten_def)

lemma emit_row_inv: "winpty_inv w \<Longrightarrow> winpty_inv (fst (emit_row row w))"
  by (auto simp: emit_row_def Let_def winpty_inv_shown)

lemma emit_rows_inv: "winpty_inv w \<Longrightarrow> winpty_inv (fst (emit_rows rows w))"
  by (induction rows arbitrary: w) (simp_all add: case_prod_beta emit_row_inv)

lemma queue_touched_rows_inv: "winpty_inv w \<Longrightarrow> winpty_inv (queue_touched_rows now w)"
proof -
  have "winpty_inv v \<Longrightarrow> winpty_inv (fold (queue_row now) rows v)" for rows v
    by (induction rows arbitrary: v) (simp_all add: queue_row_def Let_def)
  then show "winpty_inv w \<Longrightarrow> winpty_inv (queue_touched_rows now w)"
    by (simp add: queue_touched_rows_def)
qed

lemma flush_now_inv: "winpty_inv w \<Longrightarrow> winpty_inv (fst (flush_now now w))"
  by (simp add: flush_now_def emit_due_rows_def emit_touched_rows_def case_prod_beta emit_rows_inv queue_touched_rows_inv)

lemma drain_pending_rows_inv: "winpty_inv w \<Longrightarrow> winpty_inv (fst (drain_pending_rows now w))"
  by (simp add: drain_pending_rows_def Let_def emit_all_pending_rows_def emit_touched_rows_def case_prod_beta
      emit_rows_inv queue_touched_rows_inv winpty_inv_shown)

lemma winpty_reachable_inv: "winpty_reachable w \<Longrightarrow> winpty_inv w"
proof (induction rule: winpty_reachable.induct)
  case (start d h)
  show ?case by (simp add: new_winpty_def winpty_inv_def screen_wf_def closed_forgotten_def)
next
  case (chunk w cs now)
  then show ?case by (simp add: filter_chunk_at_def case_prod_beta process_chars_inv flush_now_inv)
qed (simp_all add: flush_now_inv drain_pending_rows_inv)

section \<open>The tab loop\<close>

lemma wrap_i32_mod8: "wrap_i32 x mod 8 = x mod 8"
proof -
  have "wrap_i32 x = x - 2 ^ 32 * ((x + 2 ^ 31) div 2 ^ 32)"
    by (simp add: wrap_i32_def minus_mult_div_eq_mod [symmetric])
  also have "\<dots> = x + 8 * (- (2 ^ 29) * ((x + 2 ^ 31) div 2 ^ 32))" by simp
  finally show ?thesis by (simp only: mod_mult_self2)
qed

lemma emit_explicit_space_col: "wp_col (emit_explicit_space w) = wrap_i32 (max (wp_col w) 0 + 1)"
  by (simp add: emit_explicit_space_def write_cell_text_def Let_def touch_row_def set_cells_def ensure_line_def)

lemma wrap_i32_small: "0 \<le> x \<Longrightarrow> x < 2 ^ 31 \<Longrightarrow> wrap_i32 x = x"
  by (simp add: wrap_i32_def)

lemma mod8_step: "((c :: int) + 1) mod 8 \<noteq> 0 \<Longrightarrow> (c + 1) mod 8 = c mod 8 + 1"
proof -
  assume n: "(c + 1) mod 8 \<noteq> 0"
  have e: "(c + 1) mod 8 = (c mod 8 + 1) mod 8" by (simp only: mod_add_left_eq)
  have "0 \<le> c mod 8" "c mod 8 < 8" by simp_all
  moreover have "c mod 8 \<noteq> 7" using n unfolding e by auto
  ultimately have "0 \<le> c mod 8 + 1" "c mod 8 + 1 < 8" by linarith+
  with e show ?thesis by (simp only: mod_pos_pos_trivial)
qed

lemma tab_loop_stops:
  assumes "wp_col w < 2 ^ 31" "8 - max (wp_col w) 0 mod 8 \<le> int k"
  shows "wp_col (tab_loop k w) mod 8 = 0"
  using assms
proof (induction k arbitrary: w)
  case 0
  then show ?case using pos_mod_bound [of 8 "max (wp_col w) 0"] by linarith
next
  case (Suc k)
  let ?c = "max (wp_col w) 0"
  show ?case
  proof (cases "wp_col (emit_explicit_space w) mod 8 = 0")
    case False
    then have n: "(?c + 1) mod 8 \<noteq> 0" by (simp add: emit_explicit_space_col wrap_i32_mod8)
    have "?c + 1 \<noteq> 2 ^ 31"
    proof
      assume "?c + 1 = 2 ^ 31"
      then have "(?c + 1) mod 8 = 0" by (simp only:) simp
      with n show False by simp
    qed
    then have "wp_col (emit_explicit_space w) = ?c + 1"
      using Suc.prems(1) wrap_i32_small [of "?c + 1"] by (simp add: emit_explicit_space_col)
    moreover have "(?c + 1) mod 8 = ?c mod 8 + 1" by (rule mod8_step [OF n])
    moreover have "?c + 1 < 2 ^ 31" using \<open>?c + 1 \<noteq> 2 ^ 31\<close> Suc.prems(1) by (simp add: max_def split: if_splits)
    ultimately show ?thesis
      using False Suc.IH [of "emit_explicit_space w"] Suc.prems(2) by (simp add: Let_def)
  qed (simp add: Let_def)
qed

lemma tab_reaches_stop: "wp_col w < 2 ^ 31 \<Longrightarrow> wp_col (tab_loop 8 w) mod 8 = 0"
  using tab_loop_stops [of w 8] pos_mod_sign [of 8 "max (wp_col w) 0"] by simp

section \<open>Plain text\<close>

definition plain_char :: "nat \<Rightarrow> bool" where
  "plain_char c \<longleftrightarrow> \<not> is_c0_control c \<and> display_width_for_codepoint c = 1"

definition plain_line :: "rstr \<Rightarrow> bool" where
  "plain_line l \<longleftrightarrow> (\<forall>c \<in> set l. plain_char c) \<and> length l < 2 ^ 31"

definition char_cell :: "nat \<Rightarrow> cell" where
  "char_cell c = \<lparr>ce_text = [c], ce_continuation = False, ce_explicit_space = (c = 32), ce_has_text = True, ce_width = 1\<rparr>"

definition shown_line :: "rstr \<Rightarrow> screen_line" where
  "shown_line l = \<lparr>sl_cells = map char_cell l, sl_touched = True\<rparr>"

text \<open>The filter once the lines \<open>ls\<close> and the unfinished line \<open>cur\<close> have been written to a new one.\<close>

definition plain_screen :: "nat \<Rightarrow> nat \<Rightarrow> rstr list \<Rightarrow> rstr \<Rightarrow> winpty" where
  "plain_screen d h ls cur = (let rows = ls @ (if cur = [] then [] else [cur]) in
     (new_winpty d h)\<lparr>wp_lines := map shown_line rows, wp_touched_rows := [0..<length rows],
       wp_closed_rows := rev [0..<length ls], wp_row := int (length ls), wp_col := int (length cur)\<rparr>)"

lemma char_cell_simps [simp]:
  "\<not> ce_continuation (char_cell c)" "ce_width (char_cell c) = 1" "cell_text (char_cell c) = [c]"
  by (simp_all add: char_cell_def cell_text_def)

lemma scan_plain:
  assumes "\<forall>c \<in> set cs. \<not> ce_continuation (cells ! c) \<and> ce_width (cells ! c) \<le> 1"
  shows "fold (scan_cell cells) cs r = r"
  using assms by (induction cs arbitrary: r) (auto simp: scan_cell_def split: prod.splits)

lemma put_text_append:
  "put_text [c] (Suc 0) (c = 32) (length l) (map char_cell l) = map char_cell (l @ [c])"
proof -
  let ?x = "map char_cell l @ [default_cell]"
  have g: "grow (Suc (length l)) default_cell (map char_cell l) = ?x" by (simp add: grow_def)
  have lead: "lead_of ?x (length l) = length l" by (cases "length l") (simp_all add: nth_append)
  have "scan_range ?x (length l) (Suc (length l)) = (length l, Suc (length l))"
    unfolding scan_range_def by (rule scan_plain) (simp add: nth_append)
  then have e: "expand_range ?x (length l) (Suc (length l)) = (?x, length l, Suc (length l))"
    by (simp add: expand_range.simps [of ?x])
  have "clear_cells_range (map char_cell l) (length l) (Suc (length l)) = ?x"
    by (simp add: clear_cells_range_def g lead e)
  then show ?thesis by (simp add: put_text_def char_cell_def list_update_append)
qed

lemma grow_one: "grow (Suc (length xs)) x (map f xs) = map f xs @ [x]"
  by (simp add: grow_def)

lemma plain_screen_char:
  assumes c: "plain_char c" and l: "length cur < 2 ^ 31 - 1"
  shows "process_char c (plain_screen d h ls cur) = (plain_screen d h ls (cur @ [c]), [])"
proof -
  have "process_char c (plain_screen d h ls cur) =
      (write_cell_text [c] (Suc 0) (c = 32) (plain_screen d h ls cur), [])"
    using c by (auto simp: process_char_def plain_screen_def new_winpty_def Let_def plain_char_def is_c0_control_def
        emit_printable_char_def emit_explicit_space_def lit_def)
  also have "write_cell_text [c] (Suc 0) (c = 32) (plain_screen d h ls cur) = plain_screen d h ls (cur @ [c])"
  proof (cases "cur = []")
    case True
    show ?thesis
      using put_text_append [of c "[]"] True
      by (simp add: plain_screen_def new_winpty_def Let_def write_cell_text_def normalized_current_row_def ensure_line_def
          set_cells_def touch_row_def grow_one nth_append list_update_append default_line_def shown_line_def wrap_i32_small)
  next
    case False
    then show ?thesis
      using put_text_append [of c cur] l
      by (simp add: plain_screen_def new_winpty_def Let_def write_cell_text_def normalized_current_row_def ensure_line_def
          set_cells_def touch_row_def nth_append list_update_append shown_line_def wrap_i32_small)
  qed
  finally show ?thesis .
qed

lemma process_chars_append:
  "process_chars (xs @ ys) w = (let (w1, r1) = process_chars xs w; (w2, r2) = process_chars ys w1 in (w2, r1 @ r2))"
  by (induction xs arbitrary: w) (simp_all add: case_prod_beta Let_def)

lemma plain_screen_chars:
  assumes "\<forall>c \<in> set cs. plain_char c" "length cur + length cs < 2 ^ 31"
  shows "process_chars cs (plain_screen d h ls cur) = (plain_screen d h ls (cur @ cs), [])"
  using assms
proof (induction cs arbitrary: cur)
  case (Cons c cs)
  then show ?case using plain_screen_char [of c cur] Cons.IH [of "cur @ [c]"] by simp
qed simp

lemma plain_screen_newline:
  assumes "length ls < 2 ^ 31 - 1"
  shows "process_chars [13, 10] (plain_screen d h ls cur) = (plain_screen d h (ls @ [cur]) [], [])"
proof (cases "cur = []")
  case True
  show ?thesis
    using True assms
    by (simp add: plain_screen_def new_winpty_def Let_def process_char_def is_c0_control_def emit_control_def emit_newline_def
        normalized_current_row_def ensure_line_def touch_row_def grow_one nth_append list_update_append default_line_def
        shown_line_def wrap_i32_small)
next
  case False
  then show ?thesis
    using assms
    by (simp add: plain_screen_def new_winpty_def Let_def process_char_def is_c0_control_def emit_control_def emit_newline_def
        normalized_current_row_def ensure_line_def touch_row_def nth_append shown_line_def wrap_i32_small)
qed

lemma plain_screen_lines:
  assumes "\<forall>l \<in> set ls. plain_line l" "length before + length ls < 2 ^ 31"
  shows "process_chars (concat (map (\<lambda>l. l @ [13, 10]) ls)) (plain_screen d h before []) = (plain_screen d h (before @ ls) [], [])"
  using assms
proof (induction ls arbitrary: "before")
  case (Cons l ls)
  let ?rest = "concat (map (\<lambda>l. l @ [13, 10]) ls)"
  have "process_chars l (plain_screen d h before []) = (plain_screen d h before l, [])"
    using plain_screen_chars [of l "[]" d h before] Cons.prems(1) by (simp add: plain_line_def)
  moreover have "process_chars [13, 10] (plain_screen d h before l) = (plain_screen d h (before @ [l]) [], [])"
    using Cons.prems(2) by (intro plain_screen_newline) simp
  moreover have "process_chars ?rest (plain_screen d h (before @ [l]) []) = (plain_screen d h (before @ l # ls) [], [])"
    using Cons.IH [of "before @ [l]"] Cons.prems by simp
  moreover have "concat (map (\<lambda>l. l @ [13, 10]) (l # ls)) = l @ [13, 10] @ ?rest" by simp
  ultimately show ?case by (simp only: process_chars_append Let_def case_prod_conv append_Nil)
qed (simp add: plain_screen_def)

section \<open>What rows are emitted\<close>

abbreviation trim_spaces :: "rstr \<Rightarrow> rstr" where
  "trim_spaces \<equiv> trim_end_matches (\<lambda>c. c = 32)"

lemma serialize_untouch [simp]: "serialize_row (untouch r w) row = serialize_row w row"
  by (cases "r = row") (simp_all add: serialize_row_def untouch_def nth_list_update)

lemma serialize_row_cong: "wp_lines w = wp_lines v \<Longrightarrow> serialize_row w row = serialize_row v row"
  by (simp add: serialize_row_def)

lemma emit_rows_append:
  "emit_rows (xs @ ys) w = (let (w1, o1) = emit_rows xs w; (w2, o2) = emit_rows ys w1 in (w2, o1 @ o2))"
  by (induction xs arbitrary: w) (simp_all add: case_prod_beta Let_def)

lemma emit_closed_rows:
  assumes "distinct rows" "set rows \<subseteq> set (wp_closed_rows w)" "\<forall>r \<in> set rows. r < length (wp_lines w)" "\<not> wp_has_open_row w"
  shows "snd (emit_rows rows w) = concat (map (\<lambda>r. serialize_row w r @ [10]) rows)
    \<and> \<not> wp_has_open_row (fst (emit_rows rows w))
    \<and> (\<forall>r. serialize_row (fst (emit_rows rows w)) r = serialize_row w r)
    \<and> length (wp_lines (fst (emit_rows rows w))) = length (wp_lines w)
    \<and> set (wp_closed_rows (fst (emit_rows rows w))) = set (wp_closed_rows w) - set rows"
  using assms
proof (induction rows arbitrary: w)
  case (Cons r rows)
  let ?v = "fst (emit_row r w)"
  have v: "?v = untouch r (w\<lparr>wp_closed_rows := removeAll r (wp_closed_rows w), wp_has_open_row := False, wp_open_row_text := []\<rparr>)"
    "snd (emit_row r w) = serialize_row w r @ [10]"
    using Cons.prems by (simp_all add: emit_row_def Let_def)
  have keep: "\<not> wp_has_open_row ?v" "length (wp_lines ?v) = length (wp_lines w)"
    "set (wp_closed_rows ?v) = set (wp_closed_rows w) - {r}" unfolding v by (auto simp: untouch_def)
  have ser: "serialize_row ?v x = serialize_row w x" for x
    unfolding v serialize_untouch by (rule serialize_row_cong) simp
  have IH: "snd (emit_rows rows ?v) = concat (map (\<lambda>r. serialize_row ?v r @ [10]) rows)
    \<and> \<not> wp_has_open_row (fst (emit_rows rows ?v))
    \<and> (\<forall>r. serialize_row (fst (emit_rows rows ?v)) r = serialize_row ?v r)
    \<and> length (wp_lines (fst (emit_rows rows ?v))) = length (wp_lines ?v)
    \<and> set (wp_closed_rows (fst (emit_rows rows ?v))) = set (wp_closed_rows ?v) - set rows"
    using Cons.prems keep by (intro Cons.IH) auto
  then show ?case using v(2) keep ser by (auto simp: case_prod_beta)
qed simp

lemma emit_open_row:
  assumes "r < length (wp_lines w)" "r \<notin> set (wp_closed_rows w)" "\<not> wp_has_open_row w" "serialize_row w r = trim_spaces t"
  shows "snd (emit_row r w) = trim_spaces t"
proof -
  have "trim_spaces t = []" if "\<not> line_has_nonspace_char (trim_spaces t)"
  proof (rule ccontr)
    assume ne: "trim_spaces t \<noteq> []"
    then have "last (trim_spaces t) \<noteq> 32"
      using hd_dropWhile [of "\<lambda>c. c = 32" "rev t"] by (simp add: trim_end_matches_def last_rev)
    with ne that show False by (auto simp: line_has_nonspace_char_def)
  qed
  then show ?thesis using assms by (auto simp: emit_row_def Let_def)
qed

lemma emit_all_rows:
  assumes "wp_closed_rows w = rev [0..<n]" "\<not> wp_has_open_row w" "length (wp_lines w) = n + m" "m \<le> 1"
    and "\<And>r. r < n \<Longrightarrow> serialize_row w r = trim_spaces (ls ! r)" "n = length ls"
    and "m = 1 \<Longrightarrow> serialize_row w n = trim_spaces cur" "m = 0 \<Longrightarrow> cur = []"
  shows "snd (emit_rows [0..<n + m] w) = concat (map (\<lambda>l. trim_spaces l @ [10]) ls) @ trim_spaces cur"
proof -
  note R = emit_closed_rows [of "[0..<n]" w]
  have R: "snd (emit_rows [0..<n] w) = concat (map (\<lambda>r. serialize_row w r @ [10]) [0..<n])"
    "\<not> wp_has_open_row (fst (emit_rows [0..<n] w))" "serialize_row (fst (emit_rows [0..<n] w)) n = serialize_row w n"
    "length (wp_lines (fst (emit_rows [0..<n] w))) = n + m" "set (wp_closed_rows (fst (emit_rows [0..<n] w))) = {}"
    using R assms(1-3) by auto
  have "map (\<lambda>r. serialize_row w r @ [10]) [0..<n] = map (\<lambda>r. trim_spaces (ls ! r) @ [10]) [0..<length ls]"
    using assms(5,6) by simp
  also have "\<dots> = map (\<lambda>l. trim_spaces l @ [10]) ls"
    by (rule nth_equalityI) simp_all
  finally have out: "snd (emit_rows [0..<n] w) = concat (map (\<lambda>l. trim_spaces l @ [10]) ls)" using R(1) by simp
  show ?thesis
  proof (cases "m = 0")
    case True
    then show ?thesis using out assms(8) by (simp add: trim_end_matches_def)
  next
    case False
    then have m: "m = 1" using assms(4) by simp
    have "snd (emit_row n (fst (emit_rows [0..<n] w))) = trim_spaces cur"
      using R m assms(7) by (intro emit_open_row) auto
    with m out show ?thesis by (simp add: emit_rows_append case_prod_beta Let_def)
  qed
qed

lemma tab_insert_fresh: "k \<notin> fst ` set t \<Longrightarrow> tab_insert k v t = t @ [(k, v)]"
  by (induction t) (auto simp: tab_insert_def)

lemma queue_rows_fresh:
  assumes "distinct rows" "\<forall>r \<in> set rows. r < length (wp_lines w) \<and> r \<notin> fst ` set (wp_pending w)"
  shows "wp_pending (fold (queue_row now) rows w) =
      wp_pending w @ map (\<lambda>r. (r, \<lparr>pr_first_pending_at = Some now, pr_last_changed_at = Some now\<rparr>)) rows
    \<and> (\<forall>r. serialize_row (fold (queue_row now) rows w) r = serialize_row w r)
    \<and> length (wp_lines (fold (queue_row now) rows w)) = length (wp_lines w)
    \<and> wp_closed_rows (fold (queue_row now) rows w) = wp_closed_rows w
    \<and> wp_has_open_row (fold (queue_row now) rows w) = wp_has_open_row w
    \<and> wp_touched_rows (fold (queue_row now) rows w) = wp_touched_rows w
    \<and> wp_debounce_ms (fold (queue_row now) rows w) = wp_debounce_ms w
    \<and> wp_max_hold_ms (fold (queue_row now) rows w) = wp_max_hold_ms w"
  using assms
proof (induction rows arbitrary: w)
  case (Cons r rows)
  let ?p = "\<lparr>pr_first_pending_at = Some now, pr_last_changed_at = Some now\<rparr>"
  have none: "tab_get (wp_pending w) r = None"
    using Cons.prems(2) by (simp add: tab_get_def map_of_eq_None_iff)
  have ins: "tab_insert r ?p (wp_pending w) = wp_pending w @ [(r, ?p)]"
    using Cons.prems(2) by (simp add: tab_insert_fresh)
  have q: "queue_row now r w = untouch r (w\<lparr>wp_pending := wp_pending w @ [(r, ?p)]\<rparr>)"
    using Cons.prems none ins by (simp add: queue_row_def)
  have ser: "serialize_row (queue_row now r w) x = serialize_row w x" for x
    unfolding q serialize_untouch by (rule serialize_row_cong) simp
  have "\<forall>x \<in> set rows. x \<noteq> r" using Cons.prems(1) by auto
  then show ?case
    using Cons.IH [of "queue_row now r w"] Cons.prems ser by (simp add: q untouch_def)
qed simp

lemma sorted_touched_upt: "wp_touched_rows w = [0..<n] \<Longrightarrow> sorted_touched w = [0..<n]"
  by (simp add: sorted_touched_def sorted_sort_id remdups_adj_distinct)

lemma emit_rows_pending [simp]:
  "wp_pending (fst (emit_rows rows w)) = wp_pending w" "wp_touched_rows (fst (emit_rows rows w)) = wp_touched_rows w"
  "wp_debounce_ms (fst (emit_rows rows w)) = wp_debounce_ms w" "wp_max_hold_ms (fst (emit_rows rows w)) = wp_max_hold_ms w"
  by (induction rows arbitrary: w) (simp_all add: case_prod_beta emit_row_def untouch_def Let_def)

lemma plain_screen_emits:
  fixes cur :: rstr
  defines "m \<equiv> (if cur = [] then 0 else 1)"
  assumes "\<And>r. serialize_row w r = serialize_row (plain_screen d h ls cur) r"
    "length (wp_lines w) = length ls + m" "wp_closed_rows w = rev [0..<length ls]" "\<not> wp_has_open_row w"
  shows "snd (emit_rows [0..<length ls + m] w) = concat (map (\<lambda>l. trim_spaces l @ [10]) ls) @ trim_spaces cur"
proof -
  have ser: "serialize_row (plain_screen d h ls cur) r = trim_spaces ((ls @ [cur]) ! r)" if "r < length ls + m" for r
    using that by (auto simp: serialize_row_def plain_screen_def Let_def shown_line_def m_def nth_append comp_def split: if_splits)
  show ?thesis
    using assms(2-5) ser by (intro emit_all_rows) (auto simp: m_def nth_append split: if_splits)
qed

lemma plain_screen_debounced:
  assumes "0 < d"
  shows "snd (flush_now now (plain_screen d h ls cur)) = []
    \<and> snd (drain_pending_rows now' (fst (flush_now now (plain_screen d h ls cur)))) =
        concat (map (\<lambda>l. trim_spaces l @ [10]) ls) @ trim_spaces cur"
proof -
  let ?s = "plain_screen d h ls cur" and ?m = "if cur = [] then 0 else 1 :: nat"
  let ?n = "length ls + ?m"
  let ?q = "queue_touched_rows now ?s"
  have s: "sorted_touched ?s = [0..<?n]" "wp_pending ?s = []" "length (wp_lines ?s) = ?n" "wp_closed_rows ?s = rev [0..<length ls]"
    "\<not> wp_has_open_row ?s" "wp_debounce_ms ?s = d" "wp_max_hold_ms ?s = h"
    by (simp_all add: sorted_touched_upt plain_screen_def new_winpty_def Let_def)
  have ser0: "serialize_row (?s\<lparr>wp_touched_rows := []\<rparr>) r = serialize_row ?s r" for r
    by (rule serialize_row_cong) simp
  have q: "wp_pending ?q = map (\<lambda>r. (r, \<lparr>pr_first_pending_at = Some now, pr_last_changed_at = Some now\<rparr>)) [0..<?n]"
    "\<And>r. serialize_row ?q r = serialize_row ?s r" "length (wp_lines ?q) = ?n" "wp_closed_rows ?q = rev [0..<length ls]"
    "\<not> wp_has_open_row ?q" "wp_touched_rows ?q = []" "wp_debounce_ms ?q = d" "wp_max_hold_ms ?q = h"
    using queue_rows_fresh [of "[0..<?n]" "?s\<lparr>wp_touched_rows := []\<rparr>" now] s ser0
    by (simp_all add: queue_touched_rows_def del: upt_Suc)
  have "due_rows now ?q = []"
    using assms q(1,7,8)
    by (cases "h = 0") (simp_all add: due_rows_def pending_row_due_def debounce_enabled_def filter_map comp_def del: upt_Suc)
  then have f: "flush_now now ?s = (?q, [])"
    using assms s(6) by (simp add: flush_now_def debounce_enabled_def emit_due_rows_def)
  let ?g = "?q\<lparr>wp_state := Ground, wp_csi_buffer := []\<rparr>"
  have "queue_touched_rows now' ?g = ?g"
    using q(6) by (simp add: queue_touched_rows_def sorted_touched_def)
  moreover have "map fst (wp_pending ?g) = [0..<?n]" using q(1) by (simp add: comp_def del: upt_Suc)
  moreover have "serialize_row ?g r = serialize_row ?s r" for r
    using q(2) serialize_row_cong [of ?g ?q] by simp
  then have "snd (emit_rows [0..<?n] ?g) = concat (map (\<lambda>l. trim_spaces l @ [10]) ls) @ trim_spaces cur"
    using q(3-5) by (intro plain_screen_emits [of ?g d h ls cur]) simp_all
  ultimately have "snd (drain_pending_rows now' ?q) = concat (map (\<lambda>l. trim_spaces l @ [10]) ls) @ trim_spaces cur"
    using assms q(7) by (simp add: drain_pending_rows_def Let_def debounce_enabled_def emit_all_pending_rows_def
        case_prod_beta sorted_sort_id del: upt_Suc)
  with f show ?thesis by simp
qed

lemma plain_screen_direct:
  "snd (flush_now now (plain_screen 0 h ls cur)) = concat (map (\<lambda>l. trim_spaces l @ [10]) ls) @ trim_spaces cur
   \<and> snd (drain_pending_rows now' (fst (flush_now now (plain_screen 0 h ls cur)))) = []"
proof -
  let ?s = "plain_screen 0 h ls cur" and ?m = "if cur = [] then 0 else 1 :: nat"
  let ?v = "?s\<lparr>wp_touched_rows := []\<rparr>"
  have s: "sorted_touched ?s = [0..<length ls + ?m]" "wp_debounce_ms ?s = 0"
    by (simp_all add: sorted_touched_upt plain_screen_def new_winpty_def Let_def)
  have f: "flush_now now ?s = emit_rows [0..<length ls + ?m] ?v"
    using s by (simp add: flush_now_def debounce_enabled_def emit_touched_rows_def)
  have "snd (emit_rows [0..<length ls + ?m] ?v) = concat (map (\<lambda>l. trim_spaces l @ [10]) ls) @ trim_spaces cur"
    by (intro plain_screen_emits [of ?v 0 h ls cur])
      (auto simp: plain_screen_def new_winpty_def Let_def intro: serialize_row_cong)
  moreover have "snd (drain_pending_rows now' (fst (emit_rows [0..<length ls + ?m] ?v))) = []"
    using s(2) by (simp add: drain_pending_rows_def Let_def debounce_enabled_def emit_touched_rows_def sorted_touched_def
        case_prod_beta)
  ultimately show ?thesis using f by simp
qed

section \<open>How long a row is held\<close>

lemma fold_tab_remove: "fold tab_remove ks t = filter (\<lambda>e. fst e \<notin> set ks) t"
proof (induction ks arbitrary: t)
  case (Cons k ks)
  have "tab_remove k t = filter (\<lambda>e. fst e \<noteq> k) t" unfolding tab_remove_def AList.delete_eq by (rule filter_cong) auto
  then show ?case using Cons.IH [of "tab_remove k t"] by (simp add: conj_commute)
qed simp

lemma queue_touched_rows_limits [simp]:
  "wp_debounce_ms (queue_touched_rows now w) = wp_debounce_ms w"
  "wp_max_hold_ms (queue_touched_rows now w) = wp_max_hold_ms w"
proof -
  have "wp_debounce_ms (fold (queue_row now) rows v) = wp_debounce_ms v \<and>
      wp_max_hold_ms (fold (queue_row now) rows v) = wp_max_hold_ms v" for rows v
    by (induction rows arbitrary: v) (simp_all add: queue_row_def untouch_def Let_def)
  then show "wp_debounce_ms (queue_touched_rows now w) = wp_debounce_ms w"
    "wp_max_hold_ms (queue_touched_rows now w) = wp_max_hold_ms w" by (simp_all add: queue_touched_rows_def)
qed

lemma flushed_not_due:
  assumes "debounce_enabled w" "(row, p) \<in> set (wp_pending (fst (flush_now now w)))"
  shows "\<not> pending_row_due w p now"
proof -
  let ?q = "queue_touched_rows now w"
  have in_q: "(row, p) \<in> set (wp_pending ?q)" and nd: "row \<notin> set (due_rows now ?q)"
    using assms by (auto simp: flush_now_def emit_due_rows_def case_prod_beta fold_tab_remove)
  then have "\<not> pending_row_due ?q p now" by (force simp: due_rows_def)
  then show ?thesis by (auto simp: pending_row_due_def debounce_enabled_def split: option.splits)
qed

section \<open>Properties\<close>

text \<open>
  C39: a character that takes two columns is on the screen whole or not at all. In every state a session can
  bring the filter to, by any chunks, escape sequences, flushes and drains, each line is well formed: a cell
  is a continuation exactly when the cell before it holds a wide character, and a wide character is never
  the last cell. Overwriting or erasing half of one removes the other half.
\<close>

theorem winpty_no_half_chars:
  assumes "winpty_reachable w" "l \<in> set (wp_lines w)"
  shows "cells_wf (sl_cells l)"
  using winpty_reachable_inv [OF assms(1)] assms(2) by (simp add: winpty_inv_def screen_wf_def)

text \<open>A wide character whose right half is overwritten.\<close>

theorem winpty_no_half_chars_witness:
  "cells_wf (sl_cells (wp_lines (fst (filter_chunk_at [0x4f60, 8, 33] 0 (new_winpty 0 0))) ! 0))"
proof (rule winpty_no_half_chars)
  show "winpty_reachable (fst (filter_chunk_at [0x4f60, 8, 33] 0 (new_winpty 0 0)))"
    by (intro winpty_reachable.intros)
  have "length (wp_lines (fst (filter_chunk_at [0x4f60, 8, 33] 0 (new_winpty 0 0)))) = 1" by code_simp
  then show "wp_lines (fst (filter_chunk_at [0x4f60, 8, 33] 0 (new_winpty 0 0))) ! 0
      \<in> set (wp_lines (fst (filter_chunk_at [0x4f60, 8, 33] 0 (new_winpty 0 0))))" by simp
qed

text \<open>
  C38: plain text passes through. A new filter that is given lines of characters of one column, each ended
  by a carriage return and a line feed, and the start of another line, answers nothing and has printed,
  once it is drained, the lines without their trailing spaces, each ended by a line feed, and the started
  line; this holds whatever the debounce and hold times are, and whenever it is drained.
\<close>

theorem winpty_plain_text:
  assumes "\<forall>l \<in> set ls. plain_line l" "plain_line cur" "length ls < 2 ^ 31"
  shows "case filter_chunk_at (concat (map (\<lambda>l. l @ [13, 10]) ls) @ cur) now (new_winpty d h) of (w, output, response) \<Rightarrow>
    response = [] \<and> output @ snd (drain_pending_rows now' w) = concat (map (\<lambda>l. trim_spaces l @ [10]) ls) @ trim_spaces cur"
proof -
  have new: "new_winpty d h = plain_screen d h [] []" by (simp add: plain_screen_def new_winpty_def)
  have "process_chars (concat (map (\<lambda>l. l @ [13, 10]) ls) @ cur) (new_winpty d h) = (plain_screen d h ls cur, [])"
    unfolding new using plain_screen_lines [of ls "[]" d h] plain_screen_chars [of cur "[]" d h ls] assms
    by (simp add: process_chars_append plain_line_def)
  then show ?thesis
    using plain_screen_debounced [of d now h ls cur now'] plain_screen_direct [of now h ls cur now']
    by (cases "d = 0") (simp_all add: filter_chunk_at_def case_prod_beta)
qed

theorem winpty_plain_text_witness:
  "case filter_chunk_at (concat (map (\<lambda>l. l @ [13, 10]) [lit ''one '', [], lit ''two'']) @ lit ''> '') 7 (new_winpty 150 500) of
    (w, output, response) \<Rightarrow> response = [] \<and> output @ snd (drain_pending_rows 9 w) =
      concat (map (\<lambda>l. trim_spaces l @ [10]) [lit ''one '', [], lit ''two'']) @ trim_spaces (lit ''> '')"
proof (rule winpty_plain_text)
  show "\<forall>l \<in> set [lit ''one '', [], lit ''two'']. plain_line l" by code_simp
  show "plain_line (lit ''> '')" by code_simp
qed simp

text \<open>
  No row is held longer than it may be. After a flush at time \<open>now\<close> with debouncing on, every row that
  is still pending changed less than the debounce time ago and, where a hold time is set, has been pending
  for less than that time, however often it is repainted.
\<close>

lemma winpty_hold_bounded:
  assumes "debounce_enabled w" "(row, p) \<in> set (wp_pending (fst (flush_now now w)))"
  shows "\<exists>first last_changed. p = \<lparr>pr_first_pending_at = Some first, pr_last_changed_at = Some last_changed\<rparr> \<and>
    now < last_changed + wp_debounce_ms w \<and> (0 < wp_max_hold_ms w \<longrightarrow> now < first + wp_max_hold_ms w)"
  using flushed_not_due [OF assms] by (cases p) (auto simp: pending_row_due_def split: option.splits)

text \<open>
  A row that was printed before its line feed came is printed again when it is closed. In every state a session can reach,
  a closed row that is also the open row has had its printed text forgotten, so that unless it is empty it
  is emitted again in full; the comparison that would print only the line feed never finds them equal.
\<close>

lemma winpty_shown_row_repeated:
  assumes "winpty_reachable w" "wp_has_open_row w" "wp_open_row w \<in> set (wp_closed_rows w)"
    and "serialize_row w (wp_open_row w) \<noteq> []"
  shows "snd (emit_row (wp_open_row w) w) = [10] @ serialize_row w (wp_open_row w) @ [10]"
proof -
  have "wp_open_row_text w = []"
    using winpty_reachable_inv [OF assms(1)] assms(2,3) by (simp add: winpty_inv_def closed_forgotten_def)
  moreover have "wp_open_row w < length (wp_lines w)" using assms(4) by (simp add: serialize_row_def split: if_splits)
  ultimately show ?thesis using assms(2-4) by (simp add: emit_row_def Let_def)
qed

text \<open>The prompt \<open>hi\<close>, flushed once its debounce time is over, and then its line feed.\<close>

lemma winpty_shown_row_repeated_example:
  "snd (flush_now 150 (fst (filter_chunk_at (lit ''hi'') 0 default_winpty))) = lit ''hi'' \<and>
   snd (emit_row 0 (fst (filter_chunk_at [10] 160 (fst (flush_now 150 (fst (filter_chunk_at (lit ''hi'') 0 default_winpty)))))))
     = [10] @ lit ''hi'' @ [10]"
proof -
  let ?w = "fst (filter_chunk_at [10] 160 (fst (flush_now 150 (fst (filter_chunk_at (lit ''hi'') 0 default_winpty)))))"
  have r: "winpty_reachable ?w" unfolding default_winpty_def by (intro winpty_reachable.intros)
  have "wp_has_open_row ?w" "wp_open_row ?w = 0" "0 \<in> set (wp_closed_rows ?w)" "serialize_row ?w 0 = lit ''hi''" "lit ''hi'' \<noteq> []"
    "snd (flush_now 150 (fst (filter_chunk_at (lit ''hi'') 0 default_winpty))) = lit ''hi''"
    by code_simp+
  then show ?thesis using winpty_shown_row_repeated [OF r] by simp
qed

text \<open>
  C40: erasing a line up to the cursor stores every cell up to it. In every reachable state the line of the
  cursor has, after the erasure \<open>ESC [ 1 K\<close>, a cell for each column up to the cursor's, however far a
  cursor movement has put it and however short the line was, and these cells are empty.
\<close>

theorem winpty_erase_stores_cells:
  assumes "winpty_reachable w"
  shows "let cells = sl_cells (wp_lines (clear_line_from_cursor 1 w) ! normalized_current_row w); col = nat (max (wp_col w) 0)
    in col < length cells \<and> (\<forall>i \<le> col. cells ! i = default_cell)"
proof -
  let ?row = "normalized_current_row w" and ?col = "nat (max (wp_col w) 0)"
  let ?v = "ensure_line ?row (w\<lparr>wp_row := max (wp_row w) 0\<rparr>)"
  have "screen_wf ?v"
    using winpty_reachable_inv [OF assms] by (intro screen_wf_ensure) (simp add: winpty_inv_def screen_wf_def)
  moreover have row: "?row < length (wp_lines ?v)" by (simp add: ensure_line_def)
  ultimately have wf: "cells_wf (sl_cells (wp_lines ?v ! ?row))" by (simp add: screen_wf_def)
  have r: "normalized_current_row (w\<lparr>wp_row := max (wp_row w) 0\<rparr>) = ?row" by (simp add: normalized_current_row_def)
  have touch: "sl_cells (wp_lines (touch_row r u) ! r) = sl_cells (wp_lines u ! r)" if "r < length (wp_lines u)" for r u
    using that by (simp add: touch_row_def ensure_line_def Let_def)
  have "sl_cells (wp_lines (clear_line_from_cursor 1 w) ! ?row) = clear_cells_range (sl_cells (wp_lines ?v ! ?row)) 0 (?col + 1)"
    unfolding clear_line_from_cursor_def Let_def r using row by (subst touch) (simp_all add: set_cells_def)
  then show ?thesis
    using clear_cells_range_cleared [OF wf, of 0 _ "?col + 1"] by (auto simp: Let_def less_Suc_eq_le Suc_le_eq)
qed

text \<open>Nothing written, and the cursor moved by nine columns.\<close>

theorem winpty_erase_stores_cells_witness:
  "let w = fst (filter_chunk_at ([27] @ lit ''[9C'') 0 default_winpty);
     cells = sl_cells (wp_lines (clear_line_from_cursor 1 w) ! normalized_current_row w); col = nat (max (wp_col w) 0)
   in wp_lines w = [] \<and> col = 9 \<and> col < length cells \<and> (\<forall>i \<le> col. cells ! i = default_cell)"
proof -
  have "winpty_reachable (fst (filter_chunk_at ([27] @ lit ''[9C'') 0 default_winpty))"
    unfolding default_winpty_def by (intro winpty_reachable.intros)
  moreover have "wp_lines (fst (filter_chunk_at ([27] @ lit ''[9C'') 0 default_winpty)) = []"
    "nat (max (wp_col (fst (filter_chunk_at ([27] @ lit ''[9C'') 0 default_winpty))) 0) = 9" by code_simp+
  ultimately show ?thesis using winpty_erase_stores_cells unfolding Let_def by blast
qed

end
