(* ===== verification/Spec2Isabelle.thy ===== *)
theory Spec2Isabelle
  imports Patch_Apply Patch_Roundtrip File_Tool Frame_Codec Transfer_Stream Endpoints Exec_Output Exec_Store
    Forward_Store Archive_Import Port_Limiter Broker_Tunnel Daemon_Sessions Winpty_Filter
begin

text \<open>
  A verification development for remote-exec-mcp. A broker (\<open>crates/remote-exec-broker\<close>) serves tools to
  a model and talks to daemons on target machines (\<open>crates/remote-exec-daemon\<close>, whose work is done by
  \<open>crates/remote-exec-host\<close>); both share the wire types of \<open>crates/remote-exec-proto\<close>. The host runs
  commands, applies patches, reads and edits files and imports archives inside a sandbox; the broker
  forwards ports between two sides over framed tunnels.

  \<^bold>\<open>Conventions.\<close> A fallible operation returns \<open>Inl\<close> of its error or \<open>Inr\<close> of its value; an effect passes
  its state explicitly. Strings are lists of Unicode scalar values, bytes are 8-bit words, identifiers
  on the wire are 32-bit words; lengths and counters are natural numbers, with saturation and the width
  of \<open>usize\<close> written out where the code relies on them. The file system, JSON, clocks, the outcome of a
  send and the frames a peer sends are parameters. Panics of the source are error values.

  \<^bold>\<open>Shared theories.\<close>
  \<^item> \<open>Prelude\<close>: results, strings, the standard library functions in use, effects, and the locales \<open>codec\<close>
    and \<open>strict_codec\<close>, interpreted for frame types, frames, RPC codes, stream types and UTF-8.
  \<^item> \<open>Utf8\<close>: encoding and strict decoding, mutually inverse on scalar values.
  \<^item> \<open>Hash_Map\<close>: hash maps as association lists; the locale \<open>hash_map\<close> is what the stores rely on.
  \<^item> \<open>Host_State\<close>: configuration, sandbox checks and file system operations of the host's tools.

  \<^bold>\<open>Patches\<close> (\<open>remote-exec-host/src/patch\<close>). \<open>Patch_Matcher\<close> models \<open>seek_sequence\<close> and its four passes
  and shows which position it returns; \<open>Patch_Parser\<close> the cursor parser, which never reaches an internal
  error and yields well-formed patches; \<open>Patch_Roundtrip\<close> that parsing inverts a printer; \<open>Patch_Engine\<close>
  locating and splicing hunks, equal to applying them in order when every hunk has a place of its own,
  and a case without one in which lines are lost; \<open>Patch_Apply\<close> running the actions: confinement to the sandbox, what a failure reports,
  line endings.

  \<^bold>\<open>Files and paths\<close> (\<open>remote-exec-host/src\<close>, \<open>remote-exec-proto/src/path.rs\<close>). \<open>Path_Policy\<close> has the
  lexical rules of both systems; \<open>Host_Path\<close> the canonical form of a path and the sandbox decision;
  \<open>Text_File\<close> lossless decoding and encoding; \<open>File_Tool\<close> reading, writing and editing, confined to the
  sandbox; \<open>Archive_Import\<close> the import of an archive: what it may change (below the destination where
  authorised, and the destination's parent), a truthful report, and when a terminator is accepted.

  \<^bold>\<open>Commands\<close> (\<open>remote-exec-host/src/exec\<close>). \<open>Exec_Output\<close> models truncation by tokens and the bounded
  transcript; \<open>Exec_Store\<close> the session store with its pruning, as one critical section and interleaved;
  \<open>Winpty_Filter\<close> the screen that turns console updates into lines: plain text is printed exactly, wide
  characters are never split, no row is held too long, and erasures store cells up to the cursor.

  \<^bold>\<open>Wire formats\<close> (\<open>remote-exec-proto/src\<close>). \<open>Frame_Codec\<close> is the tunnel frame codec, a bijection onto
  what it accepts; \<open>Transfer_Stream\<close> the framed body of a transfer, with truncation detected; \<open>Rpc_Error\<close>
  the error codes and statuses; \<open>Endpoints\<close> the endpoints of a forward.

  \<^bold>\<open>Port forwarding\<close> (\<open>remote-exec-broker/src/port_forward\<close>, \<open>remote-exec-host/src/port_forward\<close>).
  \<^item> \<open>Forward_Store\<close>: \<open>store.rs\<close> and \<open>limits.rs\<close>; the store's invariant and limits under every
    interleaving of its critical sections. A close that fails restores its forwards without a limit
    check, so the limits are shown for runs without such restores.
  \<^item> \<open>Port_Limiter\<close>: the daemon's counters with their compare-and-exchange loops, exact under interleaving.
  \<^item> \<open>Tunnel_Events\<close>: stream identifiers, the classification of failures and the two tunnels.
  \<^item> \<open>Broker_Tunnel\<close>: the tasks of \<open>tunnel.rs\<close>; an exact byte budget, and heartbeats kept apart.
  \<^item> \<open>Udp_Bridge\<close>, \<open>Tcp_Bridge\<close>: one epoch of a forward as a machine over the events of its tunnels. For
    UDP: peers and connectors correspond, replies reach the right peer. For TCP: the active count and the
    queued bytes are exact, data stays complete and in order, and the loss of the listen tunnel leaves
    slots taken for good.
  \<^item> \<open>Supervisor\<close>: \<open>supervisor\<close>, \<open>session.rs\<close>; opening, the retry loop, recovery and closing. A retry
    returns after a bounded number of attempts and a recovery leaves the forward ready at the next
    generation.

  \<^item> \<open>Daemon_Tunnel\<close>: the daemon's side, \<open>remote-exec-host/src/port_forward\<close>: tunnels, the sessions that
    outlive them, TCP streams, UDP sockets, and a step for each frame and each round of a task. A handler is
    not interrupted, and a permit is counted with the entry that holds it.
  \<^item> \<open>Daemon_Sessions\<close>: every retained session is looked after by a tunnel or by its expiry as long as no
    open tunnel is opened again, the end of an old tunnel leaves it alone, and a refused second open makes
    the daemon forget it. A resume is followed through both ends: the frame \<open>Supervisor\<close> sends is given to
    the daemon's handler, which restores the session, and its answer completes the broker's open. The JSON
    of the two frames is assumed to be read back as it was written.

  \<^bold>\<open>Bounds.\<close> Loops that follow their data are structural. The expansion of a range of cells has a measure;
  the tab loop is cut at eight rounds, which always reach a stop (\<open>tab_reaches_stop\<close>). The retry loop is a partial function and is
  shown to return: every round that goes on sleeps at least the initial backoff or reaches the deadline.
  Waiting for an answer follows the finite list of what comes before the timeout. The byte limits of
  a TCP forward are assumed below the largest \<open>usize\<close>, where saturation would hide a sum. The order in which
  a hash map is iterated is a parameter of the TCP bridge and the table's order elsewhere.

  \<^bold>\<open>Not modelled.\<close> The C++ daemon (\<open>crates/remote-exec-daemon-cpp\<close>), a second implementation of the same
  protocol over its own platform layer; process and pseudo terminal handling of \<open>exec/session\<close> (beside the winpty filter) and \<open>exec/shell\<close>;
  the abort of a tunnel's tasks and the interleaving of the daemon's handlers at their
  suspension points; the export of archives; HTTP, TLS and certificates; the MCP server, the
  tools' dispatch to targets and the daemon client; configuration files, startup and command lines. Of
  these the dispatch and the configuration hold logic that a model could cover; the others are mostly
  calls into the operating system and third-party crates.
\<close>

end
